(* ===== verification/Prelude.thy ===== *)
theory Prelude
  imports Main "HOL-Library.Word"
begin

text \<open>
  Shared vocabulary of the development: bytes and buffers, the errors a JavaScript
  operation can raise, the 32-bit conversion behind the bitwise operators, and the generic
  list, option and bit-mask lemmas that the component theories use.
\<close>

unbundle bit_operations_syntax

section \<open>Names\<close>

type_synonym byte = "8 word"
type_synonym bytes = "byte list"

text \<open>
  The errors the modelled code raises: the exceptions of the runtime (an index outside a
  buffer, a value of the wrong kind) and the \<open>Error\<close> objects the code builds itself, with
  their \<open>code\<close> property (empty when the code sets none) and message; \<open>ServerError\<close> is an error
  the server sent, with its number (none where it is replaced by a default code) and message.
\<close>

datatype js_error =
    RangeError
  | TypeError
  | SyntaxError
  | JsError (err_code: string) (err_message: string)
  | ServerError (err_number: "nat option") (err_text: "16 word list")

type_synonym 'a result = "js_error + 'a"

named_theorems ring_simps \<open>ring buffer operations seen as list operations\<close>
named_theorems step_defs \<open>definitions of the transitions of the state machines\<close>

section \<open>Integers under the bitwise operators\<close>

text \<open>JavaScript's ToInt32: what every operand of a bitwise operator goes through.\<close>

definition to_int32 :: "int \<Rightarrow> int" where
  "to_int32 x = (x + 2 ^ 31) mod 2 ^ 32 - 2 ^ 31"

lemma to_int32_id [simp]: "- (2 ^ 31) \<le> x \<Longrightarrow> x < 2 ^ 31 \<Longrightarrow> to_int32 x = x"
  by (simp add: to_int32_def)

lemma and_mask_mod: "x AND (2 ^ k - 1) = x mod 2 ^ k" for x :: int
  by (simp add: take_bit_eq_mod flip: take_bit_eq_mask mask_eq_exp_minus_1)

section \<open>Lists\<close>

text \<open>
  A JavaScript array holds values or holes; reading a hole gives \<open>undefined\<close>, here
  \<open>None\<close>. Assigning \<open>a.length\<close> truncates or pads with holes.
\<close>

definition set_length :: "nat \<Rightarrow> 'a option list \<Rightarrow> 'a option list" where
  "set_length n xs = take n xs @ replicate (n - length xs) None"

lemma length_set_length [simp]: "length (set_length n xs) = n"
  by (simp add: set_length_def)

text \<open>\<open>Array.prototype.splice\<close> with arguments inside the array's bounds.\<close>

definition list_splice :: "nat \<Rightarrow> nat \<Rightarrow> 'a list \<Rightarrow> 'a list \<Rightarrow> 'a list \<times> 'a list" where
  "list_splice index count new xs =
     (take count (drop index xs), take index xs @ new @ drop (index + count) xs)"

text \<open>\<open>Buffer.prototype.slice(start, end)\<close> and \<open>Array.prototype.slice(start, end)\<close>.\<close>

definition slice :: "nat \<Rightarrow> nat \<Rightarrow> 'a list \<Rightarrow> 'a list" where
  "slice i j xs = take (j - i) (drop i xs)"

lemma length_slice [simp]: "length (slice i j xs) = min (j - i) (length xs - i)"
  by (simp add: slice_def)

lemma slice_append_left: "j \<le> length xs \<Longrightarrow> slice i j (xs @ ys) = slice i j xs"
  by (cases "i \<le> length xs") (auto simp: slice_def)

lemma slice_append_right:
  "slice (length xs + i) (length xs + j) (xs @ ys) = slice i j ys"
  by (simp add: slice_def)

lemma nth_slice: "k < j - i \<Longrightarrow> i + k < length xs \<Longrightarrow> slice i j xs ! k = xs ! (i + k)"
  by (simp add: slice_def)

lemma slice_full [simp]: "slice 0 (length xs) xs = xs"
  by (simp add: slice_def)

lemma slice_drop: "length xs \<le> j \<Longrightarrow> slice i j xs = drop i xs"
  by (simp add: slice_def)

lemma slice_append_mid: "i \<le> j \<Longrightarrow> j \<le> k \<Longrightarrow> slice i k xs = slice i j xs @ slice j k xs"
  using take_add [of "j - i" "k - j" "drop i xs"] by (simp add: slice_def)

lemma slice_of_drop: "slice i j (drop k xs) = slice (k + i) (k + j) xs"
  by (simp add: slice_def add.commute)

lemma slice_of_take: "j \<le> n \<Longrightarrow> slice i j (take n xs) = slice i j xs"
  by (simp add: slice_def drop_take min_def)

lemma mod_window_inj:
  assumes "i < n" and "j < n"
  shows "(h + i) mod n = (h + j) mod n \<longleftrightarrow> i = (j::nat)"
proof
  assume eq: "(h + i) mod n = (h + j) mod n"
  have "a = b" if "a \<le> b" "b < n" "(h + b) mod n = (h + a) mod n" for a b
    using that mod_eq_dvd_iff_nat [of "h + a" "h + b" n] nat_dvd_not_less [of "b - a" n]
    by (cases "b - a = 0") auto
  from this [of i j] this [of j i] show "i = j"
    using assms eq by (cases "i \<le> j") auto
qed simp

lemma rotate_list_update:
  assumes "i < length xs"
  shows "rotate h (xs[(h + i) mod length xs := v]) = (rotate h xs)[i := v]"
proof (rule nth_equalityI)
  fix j
  assume "j < length (rotate h (xs[(h + i) mod length xs := v]))"
  then have "j < length xs" and "(h + i) mod length xs < length xs"
    using assms by (auto intro!: mod_less_divisor)
  then show "rotate h (xs[(h + i) mod length xs := v]) ! j = (rotate h xs)[i := v] ! j"
    using assms by (simp add: nth_rotate nth_list_update mod_window_inj)
qed simp

lemma rotate_eq_drop_take: "h < length xs \<Longrightarrow> rotate h xs = drop h xs @ take h xs"
  by (simp add: rotate_drop_take)

end
