(* ===== verification/RingQueue.thy ===== *)
theory RingQueue
  imports Prelude
begin

text \<open>
  \<open>src/lib/ring_queue.js\<close>: the double-ended queue behind the command queue and the
  paused packets of a connection and behind the three queues of a pool. The record and the
  operations follow the class; \<open>ring_contents\<close> abstracts a queue to the list of its items
  and the lemmas state every operation as a list operation. The JavaScript value
  \<open>undefined\<close> is \<open>None\<close>: it fills the unused slots and is what the readers return
  when there is nothing to read. Sizes stay below \<open>2 ^ 31\<close> in the program (a larger
  array is not allocated), so the shifts of the capacity never wrap.
\<close>

section \<open>State and operations\<close>

record 'a ring_queue =
  q_list :: "'a option list"
  q_mask :: nat
  q_head :: nat
  q_tail :: nat

definition MIN_SHRINK_TAIL :: nat where
  "MIN_SHRINK_TAIL = 10000"

definition ring_new :: "'a ring_queue" where
  "ring_new = \<lparr>q_list = replicate 4 None, q_mask = 3, q_head = 0, q_tail = 0\<rparr>"

text \<open>The expression \<open>x & msk\<close>, whose left operand may be negative.\<close>

definition ring_and :: "int \<Rightarrow> nat \<Rightarrow> nat" where
  "ring_and x msk = nat (x AND int msk)"

definition ring_length :: "'a ring_queue \<Rightarrow> nat" where
  "ring_length q = ring_and (int (q_tail q) - int (q_head q)) (q_mask q)"

definition ring_isEmpty :: "'a ring_queue \<Rightarrow> bool" where
  "ring_isEmpty q \<longleftrightarrow> q_head q = q_tail q"

text \<open>The copying loop \<open>for (slot = from; slot < to; slot++) dst[count++] = src[slot]\<close>.\<close>

function copy_slots ::
    "'a list \<Rightarrow> nat \<Rightarrow> nat \<Rightarrow> nat \<Rightarrow> 'a list \<Rightarrow> nat \<times> 'a list" where
  "copy_slots src slot limit count dst =
     (if slot < limit
      then copy_slots src (slot + 1) limit (count + 1) (dst[count := src ! slot])
      else (count, dst))"
  by pat_completeness auto
termination
  by (relation "measure (\<lambda>(src, slot, limit, count, dst). limit - slot)") auto

declare copy_slots.simps [simp del]

definition ring_grow :: "'a ring_queue \<Rightarrow> 'a ring_queue" where
  "ring_grow q =
     (let list = q_list q; capacity = length list; msk' = 2 * q_mask q + 1 in
      if q_head q = 0
      then q\<lparr>q_tail := capacity, q_list := set_length (2 * capacity) list, q_mask := msk'\<rparr>
      else let (count, grown) =
                 copy_slots list (q_head q) capacity 0 (replicate (2 * capacity) None);
               (_, grown') = copy_slots list 0 (q_tail q) count grown
           in q\<lparr>q_list := grown', q_head := 0, q_tail := capacity, q_mask := msk'\<rparr>)"

definition ring_shrink :: "'a ring_queue \<Rightarrow> 'a ring_queue" where
  "ring_shrink q =
     q\<lparr>q_list := set_length (length (q_list q) div 2) (q_list q), q_mask := q_mask q div 2\<rparr>"

definition ring_push :: "'a ring_queue \<Rightarrow> 'a option \<Rightarrow> nat \<times> 'a ring_queue" where
  "ring_push q item =
     (let q1 = q\<lparr>q_list := (q_list q)[q_tail q := item],
                 q_tail := ring_and (int (q_tail q) + 1) (q_mask q)\<rparr>;
          q2 = (if q_tail q1 = q_head q1 then ring_grow q1 else q1)
      in (ring_length q2, q2))"

definition ring_unshift :: "'a ring_queue \<Rightarrow> 'a option \<Rightarrow> nat \<times> 'a ring_queue" where
  "ring_unshift q item =
     (let head' = ring_and (int (q_head q) - 1) (q_mask q);
          q1 = q\<lparr>q_head := head', q_list := (q_list q)[head' := item]\<rparr>;
          q2 = (if q_tail q1 = q_head q1 then ring_grow q1 else q1)
      in (ring_length q2, q2))"

definition ring_shift :: "'a ring_queue \<Rightarrow> 'a option \<times> 'a ring_queue" where
  "ring_shift q =
     (let head = q_head q in
      if head = q_tail q then (None, q)
      else
        let item = q_list q ! head;
            q1 = q\<lparr>q_list := (q_list q)[head := None],
                   q_head := ring_and (int head + 1) (q_mask q)\<rparr>;
            q2 = (if head < 2 \<and> q_tail q1 > MIN_SHRINK_TAIL \<and>
                     q_tail q1 \<le> length (q_list q1) div 4
                  then ring_shrink q1 else q1)
        in (item, q2))"

definition ring_pop :: "'a ring_queue \<Rightarrow> 'a option \<times> 'a ring_queue" where
  "ring_pop q =
     (let tail = q_tail q in
      if tail = q_head q then (None, q)
      else
        let capacity = length (q_list q);
            tail' = ring_and (int tail - 1) (q_mask q);
            item = q_list q ! tail';
            q1 = q\<lparr>q_tail := tail', q_list := (q_list q)[tail' := None]\<rparr>;
            q2 = (if q_head q1 < 2 \<and> tail > MIN_SHRINK_TAIL \<and> tail \<le> capacity div 4
                  then ring_shrink q1 else q1)
        in (item, q2))"

definition ring_peekAt :: "'a ring_queue \<Rightarrow> int \<Rightarrow> 'a option" where
  "ring_peekAt q index =
     (if index \<noteq> to_int32 index then None
      else if index \<ge> 0 then
        (if index \<ge> int (ring_length q) then None
         else q_list q ! ring_and (int (q_head q) + index) (q_mask q))
      else
        (let size = int (ring_length q) in
         if index < - size then None
         else q_list q ! ring_and (int (q_head q) + index + size) (q_mask q)))"

definition ring_get :: "'a ring_queue \<Rightarrow> int \<Rightarrow> 'a option" where
  "ring_get q index = ring_peekAt q index"

definition ring_peek :: "'a ring_queue \<Rightarrow> 'a option" where
  "ring_peek q = (if q_head q = q_tail q then None else q_list q ! q_head q)"

definition ring_peekBack :: "'a ring_queue \<Rightarrow> 'a option" where
  "ring_peekBack q = ring_peekAt q (- 1)"

text \<open>
  The two moving loops of \<open>removeOne\<close>: they shift the neighbours over the removed slot,
  towards the tail (from the head side) or towards the head, and return the slot left free.
\<close>

fun move_from_head :: "nat \<Rightarrow> nat \<Rightarrow> nat \<Rightarrow> 'a option list \<Rightarrow> nat \<times> 'a option list" where
  "move_from_head 0 msk slot list = (slot, list)"
| "move_from_head (Suc moves) msk slot list =
     (let previous = ring_and (int slot - 1) msk
      in move_from_head moves msk previous (list[slot := list ! previous]))"

fun move_from_tail :: "nat \<Rightarrow> nat \<Rightarrow> nat \<Rightarrow> 'a option list \<Rightarrow> nat \<times> 'a option list" where
  "move_from_tail 0 msk slot list = (slot, list)"
| "move_from_tail (Suc moves) msk slot list =
     (let nxt = ring_and (int slot + 1) msk
      in move_from_tail moves msk nxt (list[slot := list ! nxt]))"

definition ring_removeOne :: "'a ring_queue \<Rightarrow> int \<Rightarrow> 'a option \<times> 'a ring_queue" where
  "ring_removeOne q index0 =
     (let size = ring_length q in
      if index0 \<noteq> to_int32 index0 then (None, q)
      else if index0 \<ge> int size \<or> index0 < - int size then (None, q)
      else
        let index = nat (if index0 < 0 then index0 + int size else index0);
            msk = q_mask q;
            slot = ring_and (int (q_head q) + int index) msk;
            item = q_list q ! slot
        in if 2 * index < size
           then let (slot', list') = move_from_head index msk slot (q_list q)
                in (item, q\<lparr>q_list := list'[slot' := None],
                             q_head := ring_and (int (q_head q) + 1) msk\<rparr>)
           else let (slot', list') = move_from_tail (size - 1 - index) msk slot (q_list q)
                in (item, q\<lparr>q_list := list'[slot' := None],
                             q_tail := ring_and (int (q_tail q) - 1) msk\<rparr>))"

definition ring_toArray :: "'a ring_queue \<Rightarrow> 'a option list" where
  "ring_toArray q =
     (let head = q_head q; tail = q_tail q in
      if head \<le> tail then slice head tail (q_list q)
      else let capacity = length (q_list q);
               (count, items) =
                 copy_slots (q_list q) head capacity 0 (replicate (ring_length q) None);
               (_, items') = copy_slots (q_list q) 0 tail count items
           in items')"

text \<open>
  The loop \<open>while (items.length >= capacity) capacity <<= 1\<close>. The capacity is never 0 (the
  constructor allocates four slots and no operation empties the array), so the guard
  \<open>0 < capacity\<close> only serves the termination argument.
\<close>

function rebuild_capacity :: "nat \<Rightarrow> nat \<Rightarrow> nat" where
  "rebuild_capacity n capacity =
     (if n \<ge> capacity \<and> 0 < capacity then rebuild_capacity n (2 * capacity) else capacity)"
  by pat_completeness auto
termination
  by (relation "measure (\<lambda>(n, capacity). Suc n - capacity)") auto

declare rebuild_capacity.simps [simp del]

definition ring_rebuild :: "'a ring_queue \<Rightarrow> 'a option list \<Rightarrow> 'a ring_queue" where
  "ring_rebuild q items =
     (let capacity = rebuild_capacity (length items) (length (q_list q)) in
      \<lparr>q_list = snd (copy_slots items 0 (length items) 0 (replicate capacity None)),
       q_mask = capacity - 1, q_head = 0, q_tail = length items\<rparr>)"

text \<open>
  \<open>remove(index, count)\<close>; an omitted \<open>count\<close> is \<open>None\<close>. The result is
  \<open>None\<close> for \<open>undefined\<close>, else the array of the removed items.
\<close>

definition ring_remove ::
    "'a ring_queue \<Rightarrow> int \<Rightarrow> int option \<Rightarrow> 'a option list option \<times> 'a ring_queue" where
  "ring_remove q index0 count0 =
     (if index0 \<noteq> to_int32 index0 then (None, q)
      else if q_head q = q_tail q then (None, q)
      else
        let size = int (ring_length q) in
        if index0 \<ge> size \<or> index0 < - size \<or> (\<exists>c\<in>set_option count0. c < 1) then (None, q)
        else
          let index = (if index0 < 0 then index0 + size else index0) in
          case count0 of
            None \<Rightarrow> (let (item, q') = ring_removeOne q index in (Some [item], q'))
          | Some c \<Rightarrow>
              if c = 1 \<or> c = 0 then (let (item, q') = ring_removeOne q index in (Some [item], q'))
              else if c \<noteq> to_int32 c then (None, q)
              else
                let count = (if index + c > size then size - index else c);
                    (removed, items) = list_splice (nat index) (nat count) [] (ring_toArray q)
                in (Some removed, ring_rebuild q items))"

definition ring_splice ::
    "'a ring_queue \<Rightarrow> int \<Rightarrow> int option \<Rightarrow> 'a option list
      \<Rightarrow> 'a option list option \<times> 'a ring_queue" where
  "ring_splice q index0 count newItems =
     (if index0 \<noteq> to_int32 index0 then (None, q)
      else
        let size = int (ring_length q);
            index = (if index0 < 0 then index0 + size else index0) in
        if index > size then (None, q)
        else if length newItems = 0 then ring_remove q index count
        else if index < 0 then (None, q)
        else
          let removalCount = (case count of None \<Rightarrow> 1 | Some c \<Rightarrow> c) in
          if removalCount \<noteq> to_int32 removalCount \<or> removalCount < 0 then (None, q)
          else
            let items = ring_toArray q in
            if removalCount = 0
            then (Some [], ring_rebuild q (snd (list_splice (nat index) 0 newItems items)))
            else if index \<ge> size
            then (None, ring_rebuild q (snd (list_splice (nat index) 0 newItems items)))
            else let (removed, items') =
                       list_splice (nat index) (nat removalCount) newItems items
                 in (Some removed, ring_rebuild q items'))"

definition ring_clear :: "'a ring_queue \<Rightarrow> 'a ring_queue" where
  "ring_clear q = q\<lparr>q_list := replicate (length (q_list q)) None, q_head := 0, q_tail := 0\<rparr>"

section \<open>Abstraction to lists\<close>

definition ring_capacity :: "nat \<Rightarrow> bool" where
  "ring_capacity n \<longleftrightarrow> (\<exists>k\<in>{2..n}. n = 2 ^ k)"

text \<open>
  \<open>ring_rel q xs\<close>: the array, read from \<open>_head\<close> on and wrapping around, is \<open>xs\<close>
  followed by unused slots only; the capacity is a power of two, at least 4, with at least
  one slot unused.
\<close>

definition ring_rel :: "'a ring_queue \<Rightarrow> 'a option list \<Rightarrow> bool" where
  "ring_rel q xs \<longleftrightarrow>
     (let n = length (q_list q) in
      ring_capacity n \<and> q_mask q = n - 1 \<and> q_head q < n \<and> length xs < n \<and>
      q_tail q = (q_head q + length xs) mod n \<and>
      rotate (q_head q) (q_list q) = xs @ replicate (n - length xs) None)"

definition ring_contents :: "'a ring_queue \<Rightarrow> 'a option list" where
  "ring_contents q = take (ring_length q) (rotate (q_head q) (q_list q))"

definition ring_inv :: "'a ring_queue \<Rightarrow> bool" where
  "ring_inv q \<longleftrightarrow> ring_rel q (ring_contents q)"

lemma ring_capacityI: "2 \<le> k \<Longrightarrow> n = 2 ^ k \<Longrightarrow> ring_capacity n"
  using less_exp [of k] by (auto simp: ring_capacity_def intro!: bexI [of _ k])

lemma ring_capacity_ge4: "ring_capacity n \<Longrightarrow> 4 \<le> n"
  using power_increasing [of 2 _ "2::nat"] by (fastforce simp: ring_capacity_def)

lemma ring_capacity_double: "ring_capacity n \<Longrightarrow> ring_capacity (2 * n)"
  using ring_capacityI [of "Suc _" "2 * n"] by (force simp: ring_capacity_def)

lemma ring_and_diff:
  assumes "ring_capacity n" and "b \<le> n"
  shows "ring_and (int a - int b) (n - 1) = (a + n - b) mod n"
proof -
  obtain k where n: "n = 2 ^ k" using assms(1) by (auto simp: ring_capacity_def)
  have "int (n - 1) = 2 ^ k - 1" using n by (simp add: of_nat_diff)
  then have "ring_and (int a - int b) (n - 1) = nat ((int a - int b) mod int n)"
    by (simp add: ring_and_def and_mask_mod n)
  also have "(int a - int b) mod int n = (int a - int b + int n) mod int n"
    by simp
  also have "int a - int b + int n = int (a + n - b)"
    using assms(2) by (simp add: of_nat_diff)
  finally show ?thesis by (metis nat_int zmod_int)
qed

lemma ring_and_add:
  assumes "ring_capacity n"
  shows "ring_and (int a + int b) (n - Suc 0) = (a + b) mod n"
  using ring_and_diff [OF assms, of 0 "a + b"] by simp

lemma ring_and_succ: "ring_capacity n \<Longrightarrow> ring_and (int a + 1) (n - Suc 0) = (a + 1) mod n"
  using ring_and_add [of n a 1] by simp

lemma ring_and_pred: "ring_capacity n \<Longrightarrow> ring_and (int a - 1) (n - Suc 0) = (a + n - 1) mod n"
  using ring_and_diff [of n 1 a] ring_capacity_ge4 [of n] by simp

lemma mod_window_diff:
  assumes "h < n" and "l < n"
  shows "((h + l) mod n + n - h) mod n = (l::nat)"
proof (cases "h + l < n")
  case False
  then have "(h + l) mod n = h + l - n" using assms by (simp add: le_mod_geq)
  with False assms show ?thesis by simp
qed (use assms in simp)

lemma ring_rel_length:
  assumes "ring_rel q xs"
  shows "ring_length q = length xs"
  using assms ring_and_diff [of "length (q_list q)" "q_head q" "q_tail q"]
  by (simp add: ring_rel_def ring_length_def Let_def mod_window_diff)

lemma ring_rel_contents: "ring_rel q xs \<Longrightarrow> ring_contents q = xs"
  by (simp add: ring_contents_def ring_rel_length) (simp add: ring_rel_def Let_def)

lemma ring_relI:
  "ring_rel q xs \<Longrightarrow> ring_inv q \<and> ring_contents q = xs"
  by (simp add: ring_inv_def ring_rel_contents)

lemma ring_invD: "ring_inv q \<Longrightarrow> ring_rel q (ring_contents q)"
  by (simp add: ring_inv_def)

lemma ring_rel_nonempty: "ring_rel q xs \<Longrightarrow> q_list q \<noteq> []"
  by (auto simp: ring_rel_def Let_def)

lemma ring_rel_isEmpty:
  assumes "ring_rel q xs"
  shows "q_head q = q_tail q \<longleftrightarrow> xs = []"
proof -
  have "0 < length (q_list q)" using assms by (auto simp: ring_rel_def Let_def)
  then show ?thesis
    using assms mod_window_inj [of 0 "length (q_list q)" "length xs" "q_head q"]
    by (auto simp: ring_rel_def Let_def)
qed

lemma ring_rel_nth:
  assumes "ring_rel q xs" and "i < length (q_list q)"
  shows "q_list q ! ((q_head q + i) mod length (q_list q)) =
         (if i < length xs then xs ! i else None)"
proof -
  have "q_list q ! ((q_head q + i) mod length (q_list q)) = rotate (q_head q) (q_list q) ! i"
    using assms(2) by (simp add: nth_rotate)
  also have "\<dots> = (if i < length xs then xs ! i else None)"
    using assms by (simp add: ring_rel_def Let_def nth_append)
  finally show ?thesis .
qed

section \<open>The loops\<close>

lemma copy_slots_eq:
  "slot \<le> limit \<Longrightarrow> limit \<le> length src \<Longrightarrow> count + (limit - slot) \<le> length dst \<Longrightarrow>
   copy_slots src slot limit count dst =
     (count + (limit - slot),
      take count dst @ slice slot limit src @ drop (count + (limit - slot)) dst)"
proof (induction src slot limit count dst rule: copy_slots.induct)
  case (1 src slot limit count dst)
  show ?case
  proof (cases "slot < limit")
    case False
    with 1 show ?thesis by (simp add: copy_slots.simps slice_def)
  next
    case True
    then have step: "slice slot limit src = src ! slot # slice (slot + 1) limit src"
      using "1.prems"(2)
      by (simp add: slice_def Cons_nth_drop_Suc [symmetric] take_Cons' Suc_diff_Suc)
    have "copy_slots src slot limit count dst =
          copy_slots src (slot + 1) limit (count + 1) (dst[count := src ! slot])"
      using True by (simp add: copy_slots.simps)
    also have "\<dots> = (count + (limit - slot),
        take (count + 1) (dst[count := src ! slot]) @ slice (slot + 1) limit src
          @ drop (count + (limit - slot)) (dst[count := src ! slot]))"
      using "1.IH" [OF True] "1.prems" True by (simp add: Suc_diff_Suc)
    also have "take (count + 1) (dst[count := src ! slot]) = take count dst @ [src ! slot]"
      using "1.prems" True by (simp add: take_Suc_conv_app_nth)
    also have "drop (count + (limit - slot)) (dst[count := src ! slot]) =
               drop (count + (limit - slot)) dst"
      using True by simp
    finally show ?thesis by (simp add: step)
  qed
qed

lemma copy_two_runs:
  assumes "h < length src" and "t \<le> h" and "length src - h + t \<le> length dst"
  shows "(case copy_slots src h (length src) 0 dst of
            (count, grown) \<Rightarrow> case copy_slots src 0 t count grown of (_, grown') \<Rightarrow> grown') =
         drop h src @ take t src @ drop (length src - h + t) dst"
  using assms by (simp add: copy_slots_eq slice_def add.commute)

lemma rebuild_capacity:
  "ring_capacity c \<Longrightarrow> ring_capacity (rebuild_capacity n c) \<and> n < rebuild_capacity n c"
proof (induction n c rule: rebuild_capacity.induct)
  case (1 n c)
  show ?case
  proof (cases "c \<le> n")
    case True
    moreover have "0 < c" using ring_capacity_ge4 [OF "1.prems"] by simp
    ultimately show ?thesis
      using "1.IH" ring_capacity_double [OF "1.prems"]
      by (simp add: rebuild_capacity.simps [of n c])
  qed (use 1 in \<open>simp add: rebuild_capacity.simps\<close>)
qed

section \<open>Every operation as a list operation\<close>

lemma ring_rel_new [ring_simps]: "ring_rel ring_new []"
  using ring_capacityI [of 2 4] by (simp add: ring_rel_def ring_new_def)

lemma ring_rel_grow:
  assumes "ring_capacity (length (q_list q))" and "q_mask q = length (q_list q) - 1"
    and "q_head q < length (q_list q)" and "q_tail q = q_head q"
    and "rotate (q_head q) (q_list q) = xs"
  shows "ring_rel (ring_grow q) xs"
proof -
  let ?n = "length (q_list q)"
  have len: "length xs = ?n" and "4 \<le> ?n"
    using assms(5) ring_capacity_ge4 [OF assms(1)] by auto
  have xs: "xs = drop (q_head q) (q_list q) @ take (q_head q) (q_list q)"
    using assms(3,5) by (simp add: rotate_eq_drop_take)
  have list: "q_list (ring_grow q) = xs @ replicate ?n None"
  proof (cases "q_head q = 0")
    case True
    then show ?thesis using xs by (simp add: ring_grow_def set_length_def Let_def)
  next
    case False
    then show ?thesis
      using copy_two_runs [of "q_head q" "q_list q" "q_tail q" "replicate (2 * ?n) None"] assms(3,4)
      by (simp add: ring_grow_def Let_def xs split: prod.splits)
  qed
  have "q_head (ring_grow q) = 0" and "q_tail (ring_grow q) = ?n"
    and "q_mask (ring_grow q) = 2 * ?n - 1"
    using assms(2) \<open>4 \<le> ?n\<close> by (auto simp: ring_grow_def Let_def split: prod.splits)
  moreover have "?n mod (?n + ?n) = ?n"
    using \<open>4 \<le> ?n\<close> by (intro mod_less) linarith
  ultimately show ?thesis
    using list len \<open>4 \<le> ?n\<close> ring_capacity_double [OF assms(1)]
    by (auto simp: ring_rel_def mult_2 Let_def)
qed

text \<open>Writing one slot of the array is writing one position of the rotated view.\<close>

lemma ring_rel_update:
  assumes "ring_rel q xs" and "i < length (q_list q)"
  shows "rotate (q_head q) ((q_list q)[(q_head q + i) mod length (q_list q) := v]) =
         (xs @ replicate (length (q_list q) - length xs) None)[i := v]"
  using assms by (simp add: rotate_list_update ring_rel_def Let_def)

lemma ring_rel_push:
  assumes "ring_rel q xs"
  shows "ring_rel (snd (ring_push q x)) (xs @ [x])"
proof -
  let ?n = "length (q_list q)"
  define q1 where "q1 = q\<lparr>q_list := (q_list q)[q_tail q := x],
    q_tail := ring_and (int (q_tail q) + 1) (q_mask q)\<rparr>"
  have n: "ring_capacity ?n" "q_mask q = ?n - 1" "q_head q < ?n" "length xs < ?n"
    and t: "q_tail q = (q_head q + length xs) mod ?n"
    using assms by (auto simp: ring_rel_def Let_def)
  have upd: "rotate (q_head q) ((q_list q)[q_tail q := x]) =
             (xs @ [x]) @ replicate (?n - length (xs @ [x])) None"
    using ring_rel_update [OF assms n(4)] n(4)
    by (simp add: t list_update_append replicate_Suc [symmetric] Suc_diff_Suc del: replicate_Suc)
       (metis Suc_diff_Suc list_update_code(2) replicate_Suc)
  have tail: "q_tail q1 = (q_head q + length (xs @ [x])) mod ?n"
    using n by (simp add: q1_def ring_and_succ t mod_simps)
  show ?thesis
  proof (cases "Suc (length xs) = ?n")
    case True
    then have "q_tail q1 = q_head q1" using tail n by (simp add: q1_def)
    moreover from this have "ring_rel (ring_grow q1) (xs @ [x])"
      using True upd n by (intro ring_rel_grow) (auto simp: q1_def)
    ultimately show ?thesis by (simp add: ring_push_def q1_def Let_def)
  next
    case False
    then have "ring_rel q1 (xs @ [x])"
      using tail upd n by (simp add: ring_rel_def q1_def Let_def)
    moreover from this have "q_tail q1 \<noteq> q_head q1"
      using ring_rel_isEmpty [of q1 "xs @ [x]"] by auto
    ultimately show ?thesis by (simp add: ring_push_def q1_def Let_def)
  qed
qed

lemma ring_push_length: "ring_rel q xs \<Longrightarrow> fst (ring_push q x) = Suc (length xs)"
  using ring_rel_length [OF ring_rel_push [of q xs x]]
  by (simp add: ring_push_def Let_def)

text \<open>One step of the head back: the last unused slot comes to the front.\<close>

lemma ring_rotate_back:
  assumes "ring_rel q xs"
  shows "rotate ((q_head q + length (q_list q) - 1) mod length (q_list q)) (q_list q) =
         None # xs @ replicate (length (q_list q) - Suc (length xs)) None" (is "rotate ?h ?l = ?r")
proof -
  let ?n = "length (q_list q)"
  have n: "0 < ?n" "q_head q < ?n" "length xs < ?n" using assms by (auto simp: ring_rel_def Let_def)
  have "rotate1 (rotate ?h ?l) = rotate (Suc ?h) ?l" by simp
  also have "\<dots> = rotate (Suc ?h mod ?n) ?l" by (rule rotate_conv_mod)
  also have "Suc ?h mod ?n = q_head q mod ?n"
    using n by (simp add: mod_Suc_eq)
  also have "rotate \<dots> ?l = xs @ replicate (?n - length xs) None"
    using assms n by (simp add: ring_rel_def Let_def)
  also have "\<dots> = rotate1 ?r"
    using n by (simp add: replicate_append_same Suc_diff_Suc flip: replicate_Suc)
  finally have "rotate1 (rotate ?h ?l) = rotate1 ?r" .
  then show ?thesis by (rule injD [OF inj_rotate1])
qed

lemma ring_rel_unshift:
  assumes "ring_rel q xs"
  shows "ring_rel (snd (ring_unshift q x)) (x # xs)"
proof -
  let ?n = "length (q_list q)" and ?h = "(q_head q + length (q_list q) - 1) mod length (q_list q)"
  define q1 where "q1 = q\<lparr>q_head := ?h, q_list := (q_list q)[?h := x]\<rparr>"
  have n: "ring_capacity ?n" "q_mask q = ?n - 1" "q_head q < ?n" "length xs < ?n" "0 < ?n"
    and t: "q_tail q = (q_head q + length xs) mod ?n"
    using assms by (auto simp: ring_rel_def Let_def)
  have h: "ring_and (int (q_head q) - 1) (q_mask q) = ?h" "?h < ?n"
    using n by (auto simp: ring_and_pred)
  have upd: "rotate ?h ((q_list q)[?h := x]) =
             (x # xs) @ replicate (?n - length (x # xs)) None"
    using rotate_list_update [of 0 "q_list q" ?h x] ring_rotate_back [OF assms] n by simp
  have tail: "q_tail q1 = (?h + length (x # xs)) mod ?n"
  proof -
    have "(?h + length (x # xs)) mod ?n = (q_head q + ?n - 1 + Suc (length xs)) mod ?n"
      using mod_add_left_eq [of "q_head q + ?n - 1" ?n "Suc (length xs)"] by simp
    also have "q_head q + ?n - 1 + Suc (length xs) = q_head q + length xs + ?n" using n by simp
    finally show ?thesis by (simp add: q1_def t)
  qed
  have result: "snd (ring_unshift q x) = (if q_tail q1 = q_head q1 then ring_grow q1 else q1)"
    using h by (simp add: ring_unshift_def Let_def q1_def)
  show ?thesis
  proof (cases "Suc (length xs) = ?n")
    case True
    then have "q_tail q1 = q_head q1" using tail h by (simp add: q1_def)
    moreover from this have "ring_rel (ring_grow q1) (x # xs)"
      using True upd n h by (intro ring_rel_grow) (auto simp: q1_def)
    ultimately show ?thesis by (simp add: result)
  next
    case False
    then have "ring_rel q1 (x # xs)"
      using tail upd n h by (simp add: ring_rel_def q1_def Let_def)
    moreover from this have "q_tail q1 \<noteq> q_head q1"
      using ring_rel_isEmpty [of q1 "x # xs"] by auto
    ultimately show ?thesis by (simp add: result)
  qed
qed

lemma ring_capacity_half:
  assumes "ring_capacity n" and "8 \<le> n"
  shows "ring_capacity (n div 2)"
proof -
  obtain k where k: "n = 2 ^ k" "2 \<le> k" using assms by (auto simp: ring_capacity_def)
  then obtain j where j: "k = Suc j" by (cases k) auto
  have "j \<noteq> 1" using assms k j by auto
  with k j show ?thesis by (intro ring_capacityI [of j]) auto
qed

text \<open>Shrinking drops unused slots only, under the condition the callers test.\<close>

lemma ring_rel_shrink:
  assumes "ring_rel q xs" and "q_head q \<le> 2"
    and "MIN_SHRINK_TAIL \<le> q_tail q" and "q_tail q \<le> length (q_list q) div 4"
  shows "ring_rel (ring_shrink q) xs"
proof -
  let ?l = "q_list q" and ?h = "q_head q" and ?c = "length (q_list q) div 2"
  have n: "ring_capacity (length ?l)" "q_mask q = length ?l - 1" "?h < length ?l"
      "length xs < length ?l" "q_tail q = (?h + length xs) mod length ?l"
    and rot: "rotate ?h ?l = xs @ replicate (length ?l - length xs) None"
    using assms(1) by (auto simp: ring_rel_def Let_def)
  have len: "length ?l \<ge> 40000" using assms(3,4) by (simp add: MIN_SHRINK_TAIL_def)
  have tail: "q_tail q = ?h + length xs"
  proof (cases "?h + length xs < length ?l")
    case False
    then have "q_tail q = ?h + length xs - length ?l" using n by (simp add: le_mod_geq)
    then show ?thesis using assms(2,3) n by (simp add: MIN_SHRINK_TAIL_def)
  qed (simp add: n)
  have fit: "?h + length xs < ?c" using tail assms(4) len by linarith
  have "even (length ?l)" using n len by (auto simp: ring_capacity_def)
  then have l: "length ?l = 2 * ?c" by simp
  have drop_l: "drop ?h ?l = xs @ replicate (length ?l - length xs - ?h) None"
    and take_l: "take ?h ?l = replicate ?h None"
    using arg_cong [OF rot, of "take (length ?l - ?h)"] arg_cong [OF rot, of "drop (length ?l - ?h)"]
      fit n(3) by (auto simp: rotate_eq_drop_take)
  have "rotate ?h (take ?c ?l) = drop ?h (take ?c ?l) @ take ?h (take ?c ?l)"
    using fit l by (intro rotate_eq_drop_take) simp
  also have "drop ?h (take ?c ?l) = xs @ replicate (?c - ?h - length xs) None"
    using fit l by (simp add: drop_take drop_l)
  also have "take ?h (take ?c ?l) = replicate ?h None"
    using fit by (simp add: take_l min_absorb1)
  finally have "rotate ?h (take ?c ?l) = xs @ replicate (?c - length xs) None"
    using fit by (simp flip: replicate_add)
  then show ?thesis
    using n fit tail len ring_capacity_half [OF n(1)] l
    by (simp add: ring_rel_def ring_shrink_def set_length_def Let_def)
qed

lemma ring_rel_shift:
  assumes "ring_rel q (x # xs)"
  shows "fst (ring_shift q) = x \<and> ring_rel (snd (ring_shift q)) xs"
proof -
  let ?n = "length (q_list q)" and ?h = "q_head q"
  define q1 where "q1 = q\<lparr>q_list := (q_list q)[?h := None],
    q_head := ring_and (int ?h + 1) (q_mask q)\<rparr>"
  have n: "ring_capacity ?n" "q_mask q = ?n - 1" "?h < ?n" "Suc (length xs) < ?n"
    and t: "q_tail q = (?h + Suc (length xs)) mod ?n"
    using assms by (auto simp: ring_rel_def Let_def)
  have head: "q_head q1 = (?h + 1) mod ?n" using n by (simp add: q1_def ring_and_succ)
  have "rotate (q_head q1) (q_list q1) = rotate1 (rotate ?h ((q_list q)[?h := None]))"
    unfolding head using rotate_conv_mod [of "Suc ?h" "(q_list q)[?h := None]"]
    by (simp add: q1_def)
  also have "\<dots> = xs @ replicate (?n - length xs) None"
    using ring_rel_update [OF assms, of 0 None] n ring_rel_nonempty [OF assms]
    by (auto simp: replicate_append_same Suc_diff_Suc simp flip: replicate_Suc)
  finally have rel1: "ring_rel q1 xs"
    using n ring_rel_nonempty [OF assms]
    by (simp add: ring_rel_def head Let_def) (simp add: q1_def t mod_simps)
  have "ring_rel (ring_shrink q1) xs"
    if "?h < 2" "q_tail q1 > MIN_SHRINK_TAIL" "q_tail q1 \<le> length (q_list q1) div 4"
    using that rel1
    by (intro ring_rel_shrink) (auto simp: head intro: order_trans [OF mod_less_eq_dividend])
  moreover have "q_list q ! ?h = x"
    using ring_rel_nth [OF assms, of 0] n ring_rel_nonempty [OF assms] by simp
  ultimately show ?thesis
    using rel1 ring_rel_isEmpty [OF assms] by (simp add: ring_shift_def Let_def flip: q1_def)
qed

lemma ring_rel_shift_empty: "ring_rel q [] \<Longrightarrow> ring_shift q = (None, q)"
  using ring_rel_isEmpty [of q "[]"] by (simp add: ring_shift_def Let_def)

lemma ring_rel_pop:
  assumes "ring_rel q (xs @ [x])"
  shows "fst (ring_pop q) = x \<and> ring_rel (snd (ring_pop q)) xs"
proof -
  let ?n = "length (q_list q)" and ?h = "q_head q"
  define t' where "t' = (?h + length xs) mod ?n"
  define q1 where "q1 = q\<lparr>q_tail := t', q_list := (q_list q)[t' := None]\<rparr>"
  have n: "ring_capacity ?n" "q_mask q = ?n - 1" "?h < ?n" "Suc (length xs) < ?n"
    and t: "q_tail q = (?h + Suc (length xs)) mod ?n"
    using assms by (auto simp: ring_rel_def Let_def)
  have tail: "ring_and (int (q_tail q) - 1) (q_mask q) = t'"
  proof -
    have "ring_and (int (q_tail q) - 1) (q_mask q) = (q_tail q + (?n - 1)) mod ?n"
      using n by (simp add: ring_and_pred)
    also have "\<dots> = (?h + Suc (length xs) + (?n - 1)) mod ?n" by (simp only: t mod_add_left_eq)
    also have "?h + Suc (length xs) + (?n - 1) = ?h + length xs + ?n" using n by simp
    finally show ?thesis by (simp add: t'_def)
  qed
  have "rotate ?h (q_list q1) = xs @ replicate (?n - length xs) None"
    using ring_rel_update [OF assms, of "length xs" None] n
    by (simp add: q1_def t'_def list_update_append Suc_diff_Suc flip: replicate_Suc)
  then have rel1: "ring_rel q1 xs"
    using n by (simp add: ring_rel_def q1_def t'_def Let_def)
  have "ring_rel (ring_shrink q1) xs"
    if "?h < 2" "q_tail q > MIN_SHRINK_TAIL" "q_tail q \<le> ?n div 4"
  proof (rule ring_rel_shrink [OF rel1])
    have "q_tail q = Suc (q_tail q1)"
      using that(2) t by (simp add: q1_def t'_def mod_Suc split: if_splits)
    with that show "MIN_SHRINK_TAIL \<le> q_tail q1" "q_tail q1 \<le> length (q_list q1) div 4"
      by (auto simp: q1_def)
    show "q_head q1 \<le> 2" using that(1) by (simp add: q1_def)
  qed
  moreover have "q_list q ! t' = x"
    using ring_rel_nth [OF assms, of "length xs"] n by (simp add: t'_def nth_append)
  ultimately show ?thesis
    using rel1 ring_rel_isEmpty [OF assms] tail
    by (simp add: ring_pop_def Let_def q1_def)
qed

lemma ring_rel_pop_empty: "ring_rel q [] \<Longrightarrow> ring_pop q = (None, q)"
  using ring_rel_isEmpty [of q "[]"] by (simp add: ring_pop_def Let_def)

lemma ring_rel_toArray:
  assumes "ring_rel q xs"
  shows "ring_toArray q = xs"
proof -
  let ?l = "q_list q" and ?h = "q_head q" and ?n = "length (q_list q)"
  have n: "?h < ?n" "length xs < ?n" and t: "q_tail q = (?h + length xs) mod ?n"
    and rot: "drop ?h ?l @ take ?h ?l = xs @ replicate (?n - length xs) None"
    using assms by (auto simp: ring_rel_def Let_def simp flip: rotate_eq_drop_take)
  have xs: "xs = take (length xs) (drop ?h ?l @ take ?h ?l)" by (simp add: rot)
  show ?thesis
  proof (cases "?h + length xs < ?n")
    case True
    then have "q_tail q = ?h + length xs" using t by simp
    moreover have "xs = take (length xs) (drop ?h ?l)" using xs True by simp
    ultimately show ?thesis by (simp add: ring_toArray_def Let_def slice_def)
  next
    case False
    then have tail: "q_tail q = ?h + length xs - ?n" using t n by (simp add: le_mod_geq)
    then have "q_tail q < ?h" using n False by linarith
    moreover have "xs = drop ?h ?l @ take (q_tail q) ?l"
      using xs False tail n by (simp add: add.commute)
    moreover have "?n - ?h + q_tail q = length xs" using tail False n by simp
    ultimately show ?thesis
      using copy_two_runs [of ?h ?l "q_tail q" "replicate (length xs) None"] n
      by (simp add: ring_toArray_def ring_rel_length [OF assms] Let_def)
  qed
qed

lemma ring_rel_peekAt:
  assumes "ring_rel q xs" and "length xs < 2 ^ 31"
  shows "ring_peekAt q i =
    (if 0 \<le> i \<and> i < int (length xs) then xs ! nat i
     else if i < 0 \<and> - int (length xs) \<le> i then xs ! nat (i + int (length xs))
     else None)"
proof -
  have n: "ring_capacity (length (q_list q))" "q_mask q = length (q_list q) - 1"
      "length xs < length (q_list q)"
    using assms(1) by (auto simp: ring_rel_def Let_def)
  have slot: "q_list q ! ring_and (int (q_head q) + int k) (q_mask q) = xs ! k"
    if "k < length xs" for k
    using that n ring_rel_nth [OF assms(1), of k] by (simp add: ring_and_add)
  show ?thesis
    using slot [of "nat i"] slot [of "nat (i + int (length xs))"] assms(2)
    by (auto simp: ring_peekAt_def ring_rel_length [OF assms(1)] Let_def add.assoc)
qed

lemma ring_rel_peek:
  assumes "ring_rel q xs"
  shows "ring_peek q = (case xs of [] \<Rightarrow> None | x # _ \<Rightarrow> x)"
proof -
  have "q_head q < length (q_list q)" using assms by (simp add: ring_rel_def Let_def)
  then show ?thesis
    using ring_rel_nth [OF assms, of 0] ring_rel_isEmpty [OF assms] ring_rel_nonempty [OF assms]
    by (cases xs) (auto simp: ring_peek_def)
qed

lemma move_from_head_eq:
  assumes "ring_capacity (length l)" and "h < length l" and "i < length l"
  shows "case move_from_head i (length l - 1) ((h + i) mod length l) l of (slot, l') \<Rightarrow>
    slot = h \<and> length l' = length l \<and>
    rotate h l' = take 1 (rotate h l) @ take i (rotate h l) @ drop (Suc i) (rotate h l)"
  using assms
proof (induction i arbitrary: l)
  case 0
  then show ?case using append_take_drop_id [of 1 "rotate h l"] by simp
next
  case (Suc i)
  let ?n = "length l" and ?r = "rotate h l"
  let ?l1 = "l[(h + Suc i) mod ?n := l ! ((h + i) mod ?n)]"
  have "((h + Suc i) mod ?n + (?n - 1)) mod ?n = (h + Suc i + (?n - 1)) mod ?n"
    by (simp only: mod_add_left_eq)
  also have "h + Suc i + (?n - 1) = h + i + ?n" using Suc.prems by simp
  finally have prev: "ring_and (int ((h + Suc i) mod ?n) - 1) (?n - 1) = (h + i) mod ?n"
    using Suc.prems by (simp add: ring_and_pred)
  have r1: "rotate h ?l1 = ?r[Suc i := ?r ! i]"
    using Suc.prems rotate_list_update [of "Suc i" l h "l ! ((h + i) mod ?n)"]
    by (simp add: nth_rotate)
  have "take 1 (rotate h ?l1) @ take i (rotate h ?l1) @ drop (Suc i) (rotate h ?l1) =
        take 1 ?r @ take (Suc i) ?r @ drop (Suc (Suc i)) ?r"
    using Suc.prems unfolding r1
    by (simp add: drop_update_swap take_Suc_conv_app_nth Cons_nth_drop_Suc [symmetric])
  then show ?case
    using Suc.IH [of ?l1] Suc.prems prev by (simp add: Let_def)
qed

lemma move_from_tail_eq:
  assumes "ring_capacity (length l)" and "h < length l" and "i + m < length l"
  shows "case move_from_tail m (length l - 1) ((h + i) mod length l) l of (slot, l') \<Rightarrow>
    slot = (h + i + m) mod length l \<and> length l' = length l \<and>
    rotate h l' = take i (rotate h l) @ slice (Suc i) (Suc i + m) (rotate h l)
      @ drop (i + m) (rotate h l)"
  using assms
proof (induction m arbitrary: l i)
  case 0
  then show ?case by (simp add: slice_def)
next
  case (Suc m)
  let ?n = "length l" and ?r = "rotate h l"
  let ?l1 = "l[(h + i) mod ?n := l ! ((h + Suc i) mod ?n)]"
  have succ: "ring_and (int ((h + i) mod ?n) + 1) (?n - 1) = (h + Suc i) mod ?n"
    using Suc.prems mod_Suc_eq [of "h + i" ?n] by (simp add: ring_and_succ)
  have r1: "rotate h ?l1 = ?r[i := ?r ! Suc i]"
    using Suc.prems rotate_list_update [of i l h "l ! ((h + Suc i) mod ?n)"]
    by (simp add: nth_rotate)
  have "take (Suc i) (rotate h ?l1) @ slice (Suc (Suc i)) (Suc (Suc i) + m) (rotate h ?l1)
          @ drop (Suc i + m) (rotate h ?l1) =
        take i ?r @ slice (Suc i) (Suc i + Suc m) ?r @ drop (i + Suc m) ?r"
    using Suc.prems unfolding r1
    by (simp add: slice_def take_Suc_conv_app_nth Cons_nth_drop_Suc [symmetric])
  then show ?case
    using Suc.IH [of ?l1 "Suc i"] Suc.prems succ by (simp add: Let_def)
qed

text \<open>The list operation behind \<open>removeOne\<close>.\<close>

definition list_remove :: "nat \<Rightarrow> 'a list \<Rightarrow> 'a list" where
  "list_remove i xs = take i xs @ drop (Suc i) xs"

lemma length_list_remove [simp]: "i < length xs \<Longrightarrow> length (list_remove i xs) = length xs - 1"
  by (simp add: list_remove_def)

lemma ring_rel_removeOne_nth:
  assumes "ring_rel q xs" and i: "i < length xs" and small: "length xs < 2 ^ 31"
  shows "fst (ring_removeOne q (int i)) = xs ! i \<and>
         ring_rel (snd (ring_removeOne q (int i))) (list_remove i xs)"
proof -
  let ?l = "q_list q" and ?h = "q_head q" and ?n = "length (q_list q)"
  have n: "ring_capacity ?n" "q_mask q = ?n - 1" "?h < ?n" "length xs < ?n"
    and t: "q_tail q = (?h + length xs) mod ?n"
    and r: "rotate ?h ?l = xs @ replicate (?n - length xs) None"
    using assms by (auto simp: ring_rel_def Let_def)
  have slot: "ring_and (int ?h + int i) (q_mask q) = (?h + i) mod ?n"
    using n by (simp add: ring_and_add)
  have item: "?l ! ((?h + i) mod ?n) = xs ! i"
    using ring_rel_nth [OF assms(1), of i] i n by simp
  show ?thesis
  proof (cases "2 * i < length xs")
    case True
    obtain s l' where mv: "move_from_head i (q_mask q) ((?h + i) mod ?n) ?l = (s, l')"
      by fastforce
    have l': "s = ?h" "length l' = ?n"
      "rotate ?h l' = take 1 (rotate ?h ?l) @ take i (rotate ?h ?l) @ drop (Suc i) (rotate ?h ?l)"
      using move_from_head_eq [of ?l ?h i] mv n i by auto
    have parts: "take i (rotate ?h ?l) = take i xs"
      "drop (Suc i) (rotate ?h ?l) = drop (Suc i) xs @ replicate (?n - length xs) None"
      using i by (simp_all add: r)
    have first: "take 1 (rotate ?h ?l) = [xs ! 0]" using i by (cases xs) (simp_all add: r)
    have "rotate ?h (l'[?h := None]) = (rotate ?h l')[0 := None]"
      using rotate_list_update [of 0 l' ?h None] l' n ring_rel_nonempty [OF assms(1)] by simp
    also have "\<dots> = None # list_remove i xs @ replicate (?n - length xs) None"
      by (simp only: l'(3) parts first) (simp add: list_remove_def)
    finally have "rotate1 (rotate ?h (l'[?h := None])) =
        list_remove i xs @ replicate (Suc (?n - length xs)) None"
      by (simp add: replicate_append_same)
    then have "rotate (Suc ?h mod ?n) (l'[?h := None]) =
        list_remove i xs @ replicate (?n - length (list_remove i xs)) None"
      using rotate_conv_mod [of "Suc ?h" "l'[?h := None]"] l' n i by (simp add: Suc_diff_le)
    moreover have "q_tail q = (Suc ?h mod ?n + length (list_remove i xs)) mod ?n"
    proof -
      have "Suc ?h + (length xs - 1) = ?h + length xs" using i by simp
      then show ?thesis
        using i mod_add_left_eq [of "Suc ?h" ?n "length xs - 1"] by (simp add: t)
    qed
    moreover have "Suc ?h mod ?n < ?n" using ring_rel_nonempty [OF assms(1)] by simp
    ultimately show ?thesis
      using True i small n l' item slot mv
      by (simp add: ring_removeOne_def ring_rel_length [OF assms(1)] Let_def ring_rel_def ring_and_succ)
  next
    case False
    let ?m = "length xs - 1 - i"
    obtain s l' where mv: "move_from_tail ?m (q_mask q) ((?h + i) mod ?n) ?l = (s, l')"
      by fastforce
    have l': "s = (?h + (length xs - 1)) mod ?n" "length l' = ?n"
      "rotate ?h l' = take i (rotate ?h ?l) @ slice (Suc i) (length xs) (rotate ?h ?l)
        @ drop (length xs - 1) (rotate ?h ?l)"
    proof -
      have "0 < length xs" using i by (cases xs) auto
      then have "Suc (length xs - Suc 0) = length xs" by simp
      then show "s = (?h + (length xs - 1)) mod ?n" "length l' = ?n"
        "rotate ?h l' = take i (rotate ?h ?l) @ slice (Suc i) (length xs) (rotate ?h ?l)
          @ drop (length xs - 1) (rotate ?h ?l)"
        using move_from_tail_eq [of ?l ?h i ?m] mv n i by (auto simp: add.assoc)
    qed
    have drop_r: "drop (length xs - 1) (rotate ?h ?l) =
        xs ! (length xs - 1) # replicate (?n - length xs) None"
      using i by (simp add: r Cons_nth_drop_Suc [symmetric])
    have "rotate ?h (l'[s := None]) = (rotate ?h l')[length xs - 1 := None]"
      using rotate_list_update [of "length xs - 1" l' ?h None] l' n i by simp
    also have "\<dots> = list_remove i xs @ replicate (Suc (?n - length xs)) None"
    proof -
      have "take i (rotate ?h ?l) @ slice (Suc i) (length xs) (rotate ?h ?l) = list_remove i xs"
        using i by (simp add: r list_remove_def slice_def)
      then have "rotate ?h l' =
          list_remove i xs @ xs ! (length xs - 1) # replicate (?n - length xs) None"
        unfolding l'(3) drop_r by simp
      then show ?thesis
        using i list_update_length [of "list_remove i xs" "xs ! (length xs - 1)"] by simp
    qed
    finally have "rotate ?h (l'[s := None]) =
        list_remove i xs @ replicate (?n - length (list_remove i xs)) None"
      using i n by (simp add: Suc_diff_le)
    moreover have "ring_and (int (q_tail q) - 1) (q_mask q) =
        (?h + length (list_remove i xs)) mod ?n"
    proof -
      have "(q_tail q + (?n - 1)) mod ?n = (?h + length xs + (?n - 1)) mod ?n"
        by (simp only: t mod_add_left_eq)
      also have "?h + length xs + (?n - 1) = ?h + (length xs - 1) + ?n" using i n by simp
      also have "(?h + (length xs - 1) + ?n) mod ?n = (?h + (length xs - 1)) mod ?n"
        by (rule mod_add_self2)
      finally show ?thesis using n i by (simp add: ring_and_pred)
    qed
    ultimately show ?thesis
      using False i small n l' item slot mv
      by (simp add: ring_removeOne_def ring_rel_length [OF assms(1)] Let_def ring_rel_def)
  qed
qed

text \<open>A negative index counts from the end, and an index outside the queue changes nothing.\<close>

lemma ring_removeOne_negative:
  assumes "ring_rel q xs" and "length xs < 2 ^ 31" and "i < 0" and "- int (length xs) \<le> i"
  shows "ring_removeOne q i = ring_removeOne q (i + int (length xs))"
  using assms by (simp add: ring_removeOne_def ring_rel_length [OF assms(1)] Let_def)

lemma ring_removeOne_outside:
  assumes "ring_rel q xs" and "i \<ge> int (length xs) \<or> i < - int (length xs)"
  shows "ring_removeOne q i = (None, q)"
  using assms by (auto simp: ring_removeOne_def ring_rel_length [OF assms(1)] Let_def)

lemma ring_rel_rebuild:
  assumes "ring_rel q xs"
  shows "ring_rel (ring_rebuild q items) items"
proof -
  let ?c = "rebuild_capacity (length items) (length (q_list q))"
  have c: "ring_capacity ?c" "length items < ?c"
    using rebuild_capacity [of "length (q_list q)" "length items"] assms
    by (auto simp: ring_rel_def Let_def)
  have "copy_slots items 0 (length items) 0 (replicate ?c None) =
        (length items, items @ replicate (?c - length items) None)"
    using c by (simp add: copy_slots_eq)
  then show ?thesis
    using c by (simp add: ring_rebuild_def ring_rel_def Let_def)
qed

lemma ring_rel_clear: "ring_rel q xs \<Longrightarrow> ring_rel (ring_clear q) []"
  using ring_rel_nonempty [of q xs] by (simp add: ring_rel_def ring_clear_def Let_def)

text \<open>What \<open>remove\<close> with at least two items and \<open>splice\<close> with new items do.\<close>

lemma ring_rel_remove_many:
  assumes "ring_rel q xs" and "length xs < 2 ^ 31"
    and "i < length xs" and "2 \<le> c" and "c < 2 ^ 31"
  shows "fst (ring_remove q (int i) (Some c)) = Some (take (nat c) (drop i xs)) \<and>
         ring_rel (snd (ring_remove q (int i) (Some c))) (take i xs @ drop (i + nat c) xs)"
proof -
  have "q_head q \<noteq> q_tail q" using ring_rel_isEmpty [OF assms(1)] assms(3) by auto
  moreover have "nat (int (length xs) - int i) = length xs - i"
    and "int i + c > int (length xs) \<Longrightarrow> nat c \<ge> length xs - i" using assms(3) by linarith+
  ultimately show ?thesis
    using assms ring_rel_rebuild [OF assms(1)]
    by (auto simp: ring_remove_def ring_rel_length [OF assms(1)] ring_rel_toArray [OF assms(1)]
        list_splice_def Let_def)
qed

lemma ring_rel_splice_insert:
  assumes "ring_rel q xs" and "length xs < 2 ^ 31" and "i \<le> length xs" and "new \<noteq> []"
  shows "ring_rel (snd (ring_splice q (int i) (Some 0) new)) (take i xs @ new @ drop i xs)"
  using assms ring_rel_rebuild [OF assms(1)]
  by (simp add: ring_splice_def ring_rel_length [OF assms(1)] ring_rel_toArray [OF assms(1)]
      list_splice_def Let_def)

lemma ring_rel_splice_replace:
  assumes "ring_rel q xs" and "length xs < 2 ^ 31" and "i < length xs" and "new \<noteq> []"
    and "0 < c" and "c < 2 ^ 31"
  shows "fst (ring_splice q (int i) (Some c) new) = Some (take (nat c) (drop i xs)) \<and>
         ring_rel (snd (ring_splice q (int i) (Some c) new))
           (take i xs @ new @ drop (i + nat c) xs)"
  using assms ring_rel_rebuild [OF assms(1)]
  by (simp add: ring_splice_def ring_rel_length [OF assms(1)] ring_rel_toArray [OF assms(1)]
      list_splice_def Let_def)

section \<open>The interface its clients use\<close>

text \<open>
  What the connection, the pool and the compressed protocol rely on: a queue is a list, the
  clients add at the back and take from the front. \<open>drain\<close> is the clients' loop
  \<open>while ((x = q.shift())) \<dots>\<close>, which stops at the first \<open>undefined\<close>.
\<close>

fun drain :: "('q \<Rightarrow> 'a option \<times> 'q) \<Rightarrow> nat \<Rightarrow> 'q \<Rightarrow> 'a list \<times> 'q" where
  "drain shift 0 q = ([], q)"
| "drain shift (Suc fuel) q =
     (case shift q of
        (None, q') \<Rightarrow> ([], q')
      | (Some x, q') \<Rightarrow> let (xs, q'') = drain shift fuel q' in (x # xs, q''))"

locale fifo =
  fixes empty :: 'q
    and push :: "'q \<Rightarrow> 'a option \<Rightarrow> 'q"
    and shift :: "'q \<Rightarrow> 'a option \<times> 'q"
    and contents :: "'q \<Rightarrow> 'a option list"
    and inv :: "'q \<Rightarrow> bool"
  assumes inv_empty: "inv empty" and contents_empty: "contents empty = []"
    and inv_push: "inv q \<Longrightarrow> inv (push q x)"
    and contents_push: "inv q \<Longrightarrow> contents (push q x) = contents q @ [x]"
    and inv_shift: "inv q \<Longrightarrow> inv (snd (shift q))"
    and shift_empty: "inv q \<Longrightarrow> contents q = [] \<Longrightarrow> shift q = (None, q)"
    and shift_nonempty: "inv q \<Longrightarrow> contents q = x # xs \<Longrightarrow>
          fst (shift q) = x \<and> contents (snd (shift q)) = xs"
begin

lemma contents_shift: "inv q \<Longrightarrow> contents (snd (shift q)) = tl (contents q)"
  using shift_empty shift_nonempty by (cases "contents q") auto

lemma inv_fold_push: "inv q \<Longrightarrow> inv (fold (\<lambda>x q. push q x) xs q)"
  by (induction xs arbitrary: q) (auto intro: inv_push)

lemma contents_fold_push:
  "inv q \<Longrightarrow> contents (fold (\<lambda>x q. push q x) xs q) = contents q @ xs"
  by (induction xs arbitrary: q) (auto simp: contents_push inv_push)

text \<open>Draining with enough fuel hands over every item once, in order, and empties the queue.\<close>

lemma drain_all:
  assumes "inv q" and "contents q = map Some xs" and "length xs < fuel"
  shows "fst (drain shift fuel q) = xs \<and> inv (snd (drain shift fuel q)) \<and>
         contents (snd (drain shift fuel q)) = []"
  using assms
proof (induction xs arbitrary: q fuel)
  case Nil
  then show ?case using shift_empty [of q] by (cases fuel) auto
next
  case (Cons x xs)
  then obtain f where fuel: "fuel = Suc f" "length xs < f" by (cases fuel) auto
  obtain q' where q': "shift q = (Some x, q')" "inv q'" "contents q' = map Some xs"
    using shift_nonempty [of q "Some x" "map Some xs"] inv_shift [of q] Cons.prems
    by (cases "shift q") auto
  show ?case
    using Cons.IH [OF q'(2,3) fuel(2)] by (auto simp: fuel(1) q'(1) split: prod.splits)
qed

end

lemma ring_inv_push [ring_simps]: "ring_inv q \<Longrightarrow> ring_inv (snd (ring_push q x))"
  and ring_contents_push [ring_simps]:
    "ring_inv q \<Longrightarrow> ring_contents (snd (ring_push q x)) = ring_contents q @ [x]"
  using ring_relI [OF ring_rel_push [OF ring_invD]] by auto

lemma ring_inv_shift [ring_simps]: "ring_inv q \<Longrightarrow> ring_inv (snd (ring_shift q))"
  using ring_relI [OF ring_rel_shift [THEN conjunct2]] ring_rel_shift_empty ring_invD
  by (cases "ring_contents q") force+

lemma ring_shift_nonempty:
  "ring_inv q \<Longrightarrow> ring_contents q = x # xs \<Longrightarrow>
     fst (ring_shift q) = x \<and> ring_contents (snd (ring_shift q)) = xs"
  using ring_rel_shift [of q x xs] ring_relI ring_invD by metis

lemma ring_shift_empty: "ring_inv q \<Longrightarrow> ring_contents q = [] \<Longrightarrow> ring_shift q = (None, q)"
  using ring_rel_shift_empty [of q] ring_invD [of q] by simp

interpretation rq: fifo ring_new "\<lambda>q x. snd (ring_push q x)" ring_shift ring_contents ring_inv
  using ring_relI [OF ring_rel_new]
  by unfold_locales (auto simp: ring_simps ring_shift_nonempty ring_shift_empty)

section \<open>Properties\<close>

text \<open>
  The operations as values, their effect on the ring and on a list. A run gives every answer
  the caller sees.
\<close>

datatype 'a ring_op =
    Push "'a option" | Unshift "'a option" | Shift | Pop | Peek | PeekBack | PeekAt int
  | RemoveOne int | Remove int "int option" | Splice int "int option" "'a option list" | ToArray | Length | IsEmpty | Clear

datatype 'a ring_answer =
    Size nat | Truth bool | Item "'a option" | Items "'a option list option" | Done

fun ring_apply :: "'a ring_op \<Rightarrow> 'a ring_queue \<Rightarrow> 'a ring_answer \<times> 'a ring_queue" where
  "ring_apply (Push x) q = map_prod Size (\<lambda>q. q) (ring_push q x)"
| "ring_apply (Unshift x) q = map_prod Size (\<lambda>q. q) (ring_unshift q x)"
| "ring_apply Shift q = map_prod Item (\<lambda>q. q) (ring_shift q)"
| "ring_apply Pop q = map_prod Item (\<lambda>q. q) (ring_pop q)"
| "ring_apply Peek q = (Item (ring_peek q), q)"
| "ring_apply PeekBack q = (Item (ring_peekBack q), q)"
| "ring_apply (PeekAt i) q = (Item (ring_get q i), q)"
| "ring_apply (RemoveOne i) q = map_prod Item (\<lambda>q. q) (ring_removeOne q i)"
| "ring_apply (Remove i c) q = map_prod Items (\<lambda>q. q) (ring_remove q i c)"
| "ring_apply (Splice i c new) q = map_prod Items (\<lambda>q. q) (ring_splice q i c new)"
| "ring_apply ToArray q = (Items (Some (ring_toArray q)), q)"
| "ring_apply Length q = (Size (ring_length q), q)"
| "ring_apply IsEmpty q = (Truth (ring_isEmpty q), q)"
| "ring_apply Clear q = (Done, ring_clear q)"

text \<open>
  What the operations do to a list, written with list functions only. \<open>list_index\<close> is the
  position an index means, counting from the back when it is negative; \<open>Splice\<close> may also
  name the position just past the last item, where it appends (and answers \<open>undefined\<close>
  unless nothing was to be removed). Without new items \<open>splice\<close> hands the index it has
  already counted from the back to \<open>remove\<close>, which counts a negative one from the back a
  second time: \<open>list_index_twice\<close>.
\<close>

definition list_index :: "int \<Rightarrow> 'a list \<Rightarrow> nat option" where
  "list_index i xs =
     (if 0 \<le> i \<and> i < int (length xs) then Some (nat i)
      else if i < 0 \<and> - int (length xs) \<le> i then Some (nat (i + int (length xs)))
      else None)"

definition list_position :: "int \<Rightarrow> 'a list \<Rightarrow> nat option" where
  "list_position i xs = (if i = int (length xs) then Some (length xs) else list_index i xs)"

definition list_index_twice :: "int \<Rightarrow> 'a list \<Rightarrow> nat option" where
  "list_index_twice i xs =
     (if i < - (2 ^ 31) then None
      else list_index (if i < 0 then i + int (length xs) else i) xs)"

definition list_remove_at ::
    "nat \<Rightarrow> int option \<Rightarrow> 'a option list \<Rightarrow> 'a ring_answer \<times> 'a option list" where
  "list_remove_at k c xs =
     (let n = (case c of None \<Rightarrow> 1 | Some n \<Rightarrow> n) in
      if n < 1 \<or> n \<noteq> to_int32 n then (Items None, xs)
      else (Items (Some (take (nat n) (drop k xs))), take k xs @ drop (k + nat n) xs))"

fun list_apply :: "'a ring_op \<Rightarrow> 'a option list \<Rightarrow> 'a ring_answer \<times> 'a option list" where
  "list_apply (Push x) xs = (Size (Suc (length xs)), xs @ [x])"
| "list_apply (Unshift x) xs = (Size (Suc (length xs)), x # xs)"
| "list_apply Shift xs = (Item (if xs = [] then None else hd xs), tl xs)"
| "list_apply Pop xs = (Item (if xs = [] then None else last xs), butlast xs)"
| "list_apply Peek xs = (Item (if xs = [] then None else hd xs), xs)"
| "list_apply PeekBack xs = (Item (if xs = [] then None else last xs), xs)"
| "list_apply (PeekAt i) xs =
     (Item (case list_index i xs of None \<Rightarrow> None | Some k \<Rightarrow> xs ! k), xs)"
| "list_apply (RemoveOne i) xs =
     (case list_index i xs of
        None \<Rightarrow> (Item None, xs) | Some k \<Rightarrow> (Item (xs ! k), list_remove k xs))"
| "list_apply (Remove i c) xs =
     (case list_index i xs of
        None \<Rightarrow> (Items None, xs) | Some k \<Rightarrow> list_remove_at k c xs)"
| "list_apply (Splice i c new) xs =
     (if new = [] then
        (case list_index_twice i xs of
           None \<Rightarrow> (Items None, xs)
         | Some k \<Rightarrow> list_remove_at k c xs)
      else
        (case list_position i xs of
           None \<Rightarrow> (Items None, xs)
         | Some k \<Rightarrow>
             let n = (case c of None \<Rightarrow> 1 | Some n \<Rightarrow> n) in
             if n < 0 \<or> n \<noteq> to_int32 n then (Items None, xs)
             else (Items (if n = 0 \<or> k < length xs then Some (take (nat n) (drop k xs)) else None),
                   take k xs @ new @ drop (k + nat n) xs)))"
| "list_apply ToArray xs = (Items (Some xs), xs)"
| "list_apply Length xs = (Size (length xs), xs)"
| "list_apply IsEmpty xs = (Truth (xs = []), xs)"
| "list_apply Clear xs = (Done, [])"

lemma eq_to_int32: "x = to_int32 x \<longleftrightarrow> - (2 ^ 31) \<le> x \<and> x < 2 ^ 31"
  by (auto simp: to_int32_def)

lemma ring_removeOne_list:
  assumes "ring_rel q xs" and "length xs < 2 ^ 31"
  shows "case list_index i xs of
           None \<Rightarrow> ring_removeOne q i = (None, q)
         | Some k \<Rightarrow> fst (ring_removeOne q i) = xs ! k \<and>
                     ring_rel (snd (ring_removeOne q i)) (list_remove k xs)"
proof (cases "0 \<le> i")
  case True
  then show ?thesis
    using ring_rel_removeOne_nth [OF assms(1) _ assms(2), of "nat i"]
      ring_removeOne_outside [OF assms(1), of i]
    by (cases "i < int (length xs)") (auto simp: list_index_def)
next
  case False
  then show ?thesis
    using ring_rel_removeOne_nth [OF assms(1) _ assms(2), of "nat (i + int (length xs))"]
      ring_removeOne_outside [OF assms(1), of i] ring_removeOne_negative [OF assms, of i]
    by (cases "i < - int (length xs)") (auto simp: list_index_def)
qed

lemma ring_remove_normalize:
  assumes "ring_rel q xs" and "length xs < 2 ^ 31" and "list_index i xs = Some k"
  shows "ring_remove q i c = ring_remove q (int k) c"
proof -
  have "q_head q \<noteq> q_tail q" and "i = to_int32 i" and "int k = to_int32 (int k)"
    using assms ring_rel_isEmpty [OF assms(1)]
    by (auto simp: ring_isEmpty_def list_index_def split: if_splits)
  moreover have "(if i < 0 then i + int (length xs) else i) = int k" "k < length xs"
    "i < int (length xs)" "- int (length xs) \<le> i"
    using assms(3) by (auto simp: list_index_def split: if_splits)
  ultimately show ?thesis
    by (cases "i < 0")
       (simp_all add: ring_remove_def Let_def ring_rel_length [OF assms(1)] not_le [symmetric])
qed

lemma ring_remove_list:
  assumes "ring_rel q xs" and "length xs < 2 ^ 31"
  shows "fst (ring_apply (Remove i c) q) = fst (list_apply (Remove i c) xs) \<and>
         ring_rel (snd (ring_apply (Remove i c) q)) (snd (list_apply (Remove i c) xs))"
proof (cases "list_index i xs")
  case None
  then have "ring_remove q i c = (None, q)"
    using assms ring_rel_length [OF assms(1)]
    by (auto simp: ring_remove_def list_index_def Let_def split: if_splits)
  then show ?thesis
    using None assms(1) by simp
next
  case (Some k)
  then have k: "k < length xs" and ne: "q_head q \<noteq> q_tail q" "int k = to_int32 (int k)"
    using assms ring_rel_isEmpty [OF assms(1)]
    by (auto simp: ring_isEmpty_def list_index_def split: if_splits)
  define n where "n = (case c of None \<Rightarrow> 1 | Some n \<Rightarrow> n)"
  have opt: "c = Some n" if "n \<noteq> 1"
    using that by (cases c) (auto simp: n_def)
  note simps = ring_remove_normalize [OF assms Some] ring_rel_length [OF assms(1)]
  consider (bad) "n < 1 \<or> n \<noteq> to_int32 n" | (one) "n = 1" | (many) "2 \<le> n" "n < 2 ^ 31" "c = Some n"
    using opt eq_to_int32 [of n] by linarith
  then show ?thesis
  proof cases
    case bad
    then have "ring_remove q (int k) c = (None, q)"
      using ne k ring_rel_length [OF assms(1)] by (cases c) (auto simp: ring_remove_def n_def Let_def)
    then show ?thesis
      using bad Some assms(1) simps by (simp add: list_remove_at_def n_def [symmetric])
  next
    case one
    then have "ring_remove q (int k) c =
        (Some [fst (ring_removeOne q (int k))], snd (ring_removeOne q (int k)))"
      using ne k ring_rel_length [OF assms(1)]
      by (cases c) (auto simp: ring_remove_def n_def Let_def split: prod.splits)
    then show ?thesis
      using one Some simps ring_rel_removeOne_nth [OF assms(1) k assms(2)] k
      by (simp add: list_remove_at_def n_def [symmetric] list_remove_def hd_drop_conv_nth take_Suc)
  next
    case many
    then show ?thesis
      using Some simps ring_rel_remove_many [OF assms k many(1,2)]
      by (simp add: list_remove_at_def Let_def)
  qed
qed

lemma ring_splice_list_new:
  assumes "ring_rel q xs" and "length xs < 2 ^ 31" and "new \<noteq> []"
  shows "fst (ring_apply (Splice i c new) q) = fst (list_apply (Splice i c new) xs) \<and>
         ring_rel (snd (ring_apply (Splice i c new) q)) (snd (list_apply (Splice i c new) xs))"
proof (cases "list_position i xs")
  case None
  then have "ring_splice q i c new = (None, q)"
    using assms ring_rel_length [OF assms(1)]
    by (auto simp: ring_splice_def list_position_def list_index_def Let_def split: if_splits)
  then show ?thesis
    using None assms by simp
next
  case (Some k)
  define n where "n = (case c of None \<Rightarrow> 1 | Some n \<Rightarrow> n)"
  have i: "i = to_int32 i" "(if i < 0 then i + int (length xs) else i) = int k" "k \<le> length xs"
    using Some assms(2) by (auto simp: list_position_def list_index_def split: if_splits)
  then have "ring_splice q i c new =
     (if n \<noteq> to_int32 n \<or> n < 0 then (None, q)
      else (if n = 0 then Some [] else if k \<ge> length xs then None else Some (take (nat n) (drop k xs)),
            ring_rebuild q (take k xs @ new @ drop (k + nat n) xs)))"
    using assms ring_rel_length [OF assms(1)] ring_rel_toArray [OF assms(1)]
    by (cases "n = 0"; cases "k \<ge> length xs")
       (simp_all add: ring_splice_def list_splice_def Let_def n_def [symmetric])
  then show ?thesis
    using Some assms ring_rel_rebuild [OF assms(1)] i(3)
    by (auto simp: Let_def n_def [symmetric])
qed

lemma ring_splice_list_none:
  assumes "ring_rel q xs" and "length xs < 2 ^ 31"
  shows "fst (ring_apply (Splice i c []) q) = fst (list_apply (Splice i c []) xs) \<and>
         ring_rel (snd (ring_apply (Splice i c []) q)) (snd (list_apply (Splice i c []) xs))"
proof -
  let ?j = "if i < 0 then i + int (length xs) else i"
  note len = ring_rel_length [OF assms(1)]
  consider (bad) "i \<noteq> to_int32 i \<or> ?j > int (length xs)"
    | (good) "i = to_int32 i" "?j \<le> int (length xs)" by linarith
  then show ?thesis
  proof cases
    case bad
    then have "ring_splice q i c [] = (None, q)" by (auto simp: ring_splice_def len Let_def)
    moreover have "list_index_twice i xs = None"
      using bad assms(2) eq_to_int32 [of i] by (auto simp: list_index_twice_def list_index_def)
    ultimately show ?thesis using assms(1) by simp
  next
    case good
    then have "ring_splice q i c [] = ring_remove q ?j c" by (simp add: ring_splice_def len Let_def)
    moreover have "list_index_twice i xs = list_index ?j xs"
      using good(1) eq_to_int32 [of i] by (simp add: list_index_twice_def)
    ultimately show ?thesis using ring_remove_list [OF assms, of ?j c] by simp
  qed
qed

lemma ring_apply_list:
  assumes "ring_rel q xs" and "length xs < 2 ^ 31"
  shows "fst (ring_apply p q) = fst (list_apply p xs) \<and>
         ring_rel (snd (ring_apply p q)) (snd (list_apply p xs))"
proof (cases p)
  case (Push x)
  then show ?thesis
    using ring_rel_push [OF assms(1)] ring_push_length [OF assms(1)] by simp
next
  case (Unshift x)
  then show ?thesis
    using ring_rel_unshift [OF assms(1), of x] ring_rel_length
    by (fastforce simp: ring_unshift_def Let_def)
next
  case Shift
  then show ?thesis
    using ring_rel_shift ring_rel_shift_empty [of q] assms(1) by (cases xs) auto
next
  case Pop
  then show ?thesis
    using ring_rel_pop ring_rel_pop_empty [of q] assms(1) by (cases xs rule: rev_cases) auto
next
  case Peek
  then show ?thesis
    using ring_rel_peek [OF assms(1)] assms by (cases xs) auto
next
  case PeekBack
  then show ?thesis
    using ring_rel_peekAt [OF assms, of "- 1"] assms(1) by (cases xs) (auto simp: ring_peekBack_def last_conv_nth)
next
  case (PeekAt i)
  then show ?thesis
    using ring_rel_peekAt [OF assms, of i] assms by (auto simp: ring_get_def list_index_def)
next
  case (RemoveOne i)
  then show ?thesis
    using ring_removeOne_list [OF assms, of i] assms by (auto split: option.splits)
next
  case (Remove i c)
  then show ?thesis
    using ring_remove_list [OF assms] by simp
next
  case (Splice i c new)
  then show ?thesis
    using ring_splice_list_new [OF assms] ring_splice_list_none [OF assms]
    by (cases "new = []") (simp_all only:)
next
  case ToArray
  then show ?thesis
    using ring_rel_toArray assms by simp
next
  case Length
  then show ?thesis
    using ring_rel_length assms by simp
next
  case IsEmpty
  then show ?thesis
    using ring_rel_isEmpty assms by (simp add: ring_isEmpty_def)
next
  case Clear
  then show ?thesis
    using ring_rel_clear assms by simp
qed

fun run_ops :: "('a ring_op \<Rightarrow> 's \<Rightarrow> 'b \<times> 's) \<Rightarrow> 'a ring_op list \<Rightarrow> 's \<Rightarrow> 'b list" where
  "run_ops step [] s = []"
| "run_ops step (p # ps) s = (let (a, s') = step p s in a # run_ops step ps s')"

text \<open>How many items an operation can add, and how many a sequence of them can.\<close>

fun op_growth :: "'a ring_op \<Rightarrow> nat" where
  "op_growth (Push x) = 1"
| "op_growth (Unshift x) = 1"
| "op_growth (Splice i c new) = length new"
| "op_growth _ = 0"

lemma length_list_remove_at: "length (snd (list_remove_at k c xs)) \<le> length xs"
  by (auto simp: list_remove_at_def Let_def)

lemma length_list_apply: "length (snd (list_apply p xs)) \<le> length xs + op_growth p"
proof (cases p)
  case (Splice i c new)
  then show ?thesis
    using length_list_remove_at [of _ c xs]
    by (auto simp: Let_def split: option.split)
qed (use length_list_remove_at in \<open>auto simp: list_remove_def Let_def split: option.split\<close>)

lemma run_ops_refine:
  "ring_rel q xs \<Longrightarrow> length xs + sum_list (map op_growth ps) < 2 ^ 31 \<Longrightarrow>
   run_ops ring_apply ps q = run_ops list_apply ps xs"
proof (induction ps arbitrary: q xs)
  case (Cons p ps)
  then have "fst (ring_apply p q) = fst (list_apply p xs)"
    and "ring_rel (snd (ring_apply p q)) (snd (list_apply p xs))"
    using ring_apply_list [of q xs p] by auto
  moreover have "length (snd (list_apply p xs)) + sum_list (map op_growth ps) < 2 ^ 31"
    using length_list_apply [of p xs] Cons.prems(2) by simp
  ultimately show ?case
    using Cons.IH by (simp add: case_prod_unfold Let_def)
qed simp



text \<open>
  Inside the queue, \<open>splice\<close> replaces the items from a position on as the list
  operation does, and returns the items removed.
\<close>

theorem ring_splice_list:
  assumes "ring_rel q xs" and "length xs < 2 ^ 31" and "i < length xs"
    and "1 \<le> c" and "c < 2 ^ 31" and "new \<noteq> [] \<or> 2 \<le> c"
  shows "fst (ring_splice q (int i) (Some c) new) = Some (fst (list_splice i (nat c) new xs)) \<and>
         ring_rel (snd (ring_splice q (int i) (Some c) new)) (snd (list_splice i (nat c) new xs))"
proof (cases "new = []")
  case True
  then have "ring_splice q (int i) (Some c) new = ring_remove q (int i) (Some c)"
    using assms(2,3) ring_rel_length [OF assms(1)] by (simp add: ring_splice_def Let_def)
  then show ?thesis
    using True assms ring_rel_remove_many [OF assms(1,2,3), of c] by (simp add: list_splice_def)
next
  case False
  then show ?thesis
    using assms ring_rel_splice_replace [OF assms(1,2,3) False, of c] by (simp add: list_splice_def)
qed

theorem ring_splice_list_witness:
  "ring_rel (snd (ring_splice (snd (ring_push ring_new (Some 1))) 0 (Some 1) [Some 2, Some (3 :: nat)]))
     [Some 2, Some 3]"
  using ring_splice_list [of "snd (ring_push ring_new (Some 1))" "[Some (1 :: nat)]" 0 1 "[Some 2, Some 3]"]
    ring_rel_push [OF ring_rel_new, of "Some (1 :: nat)"]
  by (simp add: list_splice_def)

end
