(* ===== verification/Bytes.thy ===== *)
theory Bytes
  imports Prelude
begin

text \<open>
  The parts of the JavaScript runtime that the wire format rests on: little-endian integers
  in a \<open>Buffer\<close>, with the RangeError of a read or write outside it; \<open>Buffer.copy\<close>,
  which truncates instead; the decimal text of an integer; and the rounding of an integer to
  the nearest double, which is what every JavaScript number holds.
\<close>

section \<open>Little-endian integers\<close>

fun le_val :: "bytes \<Rightarrow> nat" where
  "le_val [] = 0"
| "le_val (b # bs) = unat b + 256 * le_val bs"

fun le_bytes :: "nat \<Rightarrow> nat \<Rightarrow> bytes" where
  "le_bytes 0 v = []"
| "le_bytes (Suc n) v = word_of_nat v # le_bytes n (v div 256)"

lemma length_le_bytes [simp]: "length (le_bytes n v) = n"
  by (induction n arbitrary: v) auto

lemma unat_byte_of_nat: "unat (word_of_nat v :: byte) = v mod 256"
  by (simp add: unat_of_nat)

lemma unat_byte_less: "unat (b :: byte) < 256"
  using unsigned_less [of b] by simp

lemma le_val_le_bytes: "le_val (le_bytes n v) = v mod 256 ^ n"
  by (induction n arbitrary: v) (auto simp: unat_byte_of_nat mod_mult2_eq)

lemma le_val_bound: "le_val bs < 256 ^ length bs"
proof (induction bs)
  case (Cons b bs)
  define P where "P = (256::nat) ^ length bs"
  have "le_val bs < P" using Cons by (simp add: P_def)
  then have "unat b + 256 * le_val bs < 256 * P" using unat_byte_less [of b] by linarith
  then show ?case by (simp add: P_def)
qed simp

lemma byte_256 [simp]: "(256 :: byte) = 0"
  by (simp add: word_eq_iff_unsigned)

lemma byte_of_nat_mod [simp]: "(word_of_nat (v mod 256) :: byte) = word_of_nat v"
  by (simp add: word_unat_eq_iff unat_byte_of_nat)

lemma le_bytes_le_val: "le_bytes (length bs) (le_val bs) = bs"
  by (induction bs) (auto simp: unat_byte_less)

lemma le_val_append: "le_val (xs @ ys) = le_val xs + 256 ^ length xs * le_val ys"
  by (induction xs) (auto simp: algebra_simps)

section \<open>Reading and writing a buffer\<close>

text \<open>\<open>buffer[i]\<close>: \<open>undefined\<close> outside the buffer.\<close>

definition byte_at :: "bytes \<Rightarrow> nat \<Rightarrow> nat option" where
  "byte_at b i = (if i < length b then Some (unat (b ! i)) else None)"

text \<open>\<open>buffer.readUIntLE(off, n)\<close> and its fixed-width forms.\<close>

definition read_le :: "nat \<Rightarrow> bytes \<Rightarrow> nat \<Rightarrow> nat result" where
  "read_le n b off = (if off + n \<le> length b then Inr (le_val (slice off (off + n) b)) else Inl RangeError)"

definition read_be :: "nat \<Rightarrow> bytes \<Rightarrow> nat \<Rightarrow> nat result" where
  "read_be n b off =
     (if off + n \<le> length b then Inr (le_val (rev (slice off (off + n) b))) else Inl RangeError)"

text \<open>Two's complement: the signed reading of an \<open>n\<close>-byte value.\<close>

definition signed_of :: "nat \<Rightarrow> nat \<Rightarrow> int" where
  "signed_of n v = (if 2 * int v < 256 ^ n then int v else int v - 256 ^ n)"

text \<open>\<open>buffer.writeUIntLE(v, off, n)\<close>: a RangeError for a value or an offset out of range.\<close>

definition write_le :: "nat \<Rightarrow> int \<Rightarrow> nat \<Rightarrow> bytes \<Rightarrow> bytes result" where
  "write_le n v off b =
     (if v < 0 \<or> v \<ge> 256 ^ n \<or> off + n > length b then Inl RangeError
      else Inr (take off b @ le_bytes n (nat v) @ drop (off + n) b))"

text \<open>\<open>src.copy(dst, off)\<close> copies what fits.\<close>

definition copy_into :: "bytes \<Rightarrow> nat \<Rightarrow> bytes \<Rightarrow> bytes" where
  "copy_into src off dst =
     (if off \<ge> length dst then dst
      else take off dst @ take (length dst - off) src @ drop (off + length src) dst)"

lemma length_copy_into [simp]: "length (copy_into src off dst) = length dst"
  by (auto simp: copy_into_def)

lemma length_write_le: "write_le n v off b = Inr b' \<Longrightarrow> length b' = length b"
  by (auto simp: write_le_def split: if_splits)

lemma write_le_ok:
  "0 \<le> v \<Longrightarrow> v < 256 ^ n \<Longrightarrow> off + n \<le> length b \<Longrightarrow>
   write_le n v off b = Inr (copy_into (le_bytes n (nat v)) off b)"
  by (cases "n = 0") (auto simp: write_le_def copy_into_def)

lemma read_le_bound: "read_le n b off = Inr v \<Longrightarrow> v < 256 ^ n"
  using le_val_bound [of "slice off (off + n) b"]
  by (auto simp: read_le_def split: if_splits)

lemma signed_of_range:
  assumes "v < 256 ^ n"
  shows "2 * signed_of n v < 256 ^ n \<and> - (256 ^ n) \<le> 2 * signed_of n v"
proof -
  have "int v < 256 ^ n"
    using assms by (metis of_nat_less_iff of_nat_numeral of_nat_power)
  moreover define P where "P = (256 :: int) ^ n"
  moreover have "0 < P" by (simp add: P_def)
  ultimately show ?thesis unfolding signed_of_def by (fold P_def) auto
qed

section \<open>Decimal text\<close>

function digits_of :: "nat \<Rightarrow> nat list" where
  "digits_of n = (if n < 10 then [n] else digits_of (n div 10) @ [n mod 10])"
  by pat_completeness auto
termination by (relation "measure id") auto

declare digits_of.simps [simp del]

text \<open>A JavaScript string: its UTF-16 code units.\<close>

type_synonym jstring = "16 word list"

definition js :: "string \<Rightarrow> jstring" where
  "js s = map of_char s"

text \<open>\<open>n.toString()\<close> of an integer.\<close>

definition int_to_string :: "int \<Rightarrow> jstring" where
  "int_to_string v =
     (if v < 0 then js ''-'' else []) @ map (\<lambda>d. word_of_nat (48 + d)) (digits_of (nat \<bar>v\<bar>))"

lemma digits_of_less: "d \<in> set (digits_of n) \<Longrightarrow> d < 10"
proof (induction n rule: digits_of.induct)
  case (1 n)
  then show ?case by (cases "n < 10") (auto simp: digits_of.simps [of n])
qed

lemma digits_of_nonempty: "digits_of n \<noteq> []"
  by (subst digits_of.simps) simp

definition digits_value :: "nat list \<Rightarrow> nat" where
  "digits_value = foldl (\<lambda>acc d. 10 * acc + d) 0"

lemma digits_value_snoc [simp]: "digits_value (ds @ [d]) = 10 * digits_value ds + d"
  by (simp add: digits_value_def)

lemma digits_value_digits_of: "digits_value (digits_of n) = n"
proof (induction n rule: digits_of.induct)
  case (1 n)
  then show ?case
    by (cases "n < 10") (auto simp: digits_of.simps [of n], simp add: digits_value_def)
qed

lemma length_digits_of: "n < 10 ^ k \<Longrightarrow> 0 < k \<Longrightarrow> length (digits_of n) \<le> k"
proof (induction k arbitrary: n)
  case (Suc k)
  show ?case
  proof (cases "n < 10")
    case False
    with Suc.prems have "0 < k" by (cases k) auto
    with Suc.prems False show ?thesis
      using Suc.IH [of "n div 10"]
      by (simp add: digits_of.simps [of n] less_mult_imp_div_less mult.commute)
  qed (simp add: digits_of.simps)
qed simp

section \<open>Numbers\<close>

text \<open>
  A JavaScript number is a double. On integers, \<open>js_round\<close> is the rounding of a result to
  the nearest double, ties to the even mantissa; it is the identity up to \<open>2 ^ 53\<close>. (The
  integers of the protocol stay far below the largest double.)
\<close>

function bit_length :: "nat \<Rightarrow> nat" where
  "bit_length n = (if n = 0 then 0 else Suc (bit_length (n div 2)))"
  by pat_completeness auto
termination by (relation "measure id") auto

declare bit_length.simps [simp del]

definition round_nat :: "nat \<Rightarrow> nat" where
  "round_nat n =
     (if n < 2 ^ 53 then n
      else let e = bit_length n - 53; q = n div 2 ^ e; r = n mod 2 ^ e; h = 2 ^ (e - 1);
               q' = (if r > h \<or> (r = h \<and> odd q) then q + 1 else q)
           in q' * 2 ^ e)"

definition js_round :: "int \<Rightarrow> int" where
  "js_round v = sgn v * int (round_nat (nat \<bar>v\<bar>))"

definition isSafeInteger :: "int \<Rightarrow> bool" where
  "isSafeInteger v \<longleftrightarrow> \<bar>v\<bar> \<le> 2 ^ 53 - 1"

lemma bit_length_lower: "0 < n \<Longrightarrow> 2 ^ (bit_length n - 1) \<le> n"
proof (induction n rule: bit_length.induct)
  case (1 n)
  show ?case
  proof (cases "n div 2 = 0")
    case True
    with "1.prems" show ?thesis by (simp add: bit_length.simps [of n] bit_length.simps [of 0])
  next
    case False
    then obtain m where m: "bit_length (n div 2) = Suc m"
      by (simp add: bit_length.simps [of "n div 2"])
    have "2 ^ m \<le> n div 2" using "1.IH" "1.prems" False m by simp
    then have "2 * 2 ^ m \<le> n" by linarith
    with "1.prems" m show ?thesis by (simp add: bit_length.simps [of n])
  qed
qed

lemma bit_length_upper: "n < 2 ^ bit_length n"
proof (induction n rule: bit_length.induct)
  case (1 n)
  show ?case
  proof (cases "n = 0")
    case False
    then have "n div 2 < 2 ^ bit_length (n div 2)" using "1.IH" by simp
    then have "n < 2 * 2 ^ bit_length (n div 2)" by linarith
    with False show ?thesis by (simp add: bit_length.simps [of n])
  qed (simp add: bit_length.simps)
qed

lemma round_nat_large:
  assumes "2 ^ 53 \<le> n"
  shows "2 ^ 53 \<le> round_nat n"
proof -
  let ?e = "bit_length n - 53"
  have "(2::nat) ^ 53 < 2 ^ bit_length n" using assms bit_length_upper [of n] by linarith
  then have len: "53 < bit_length n" by (simp only: power_strict_increasing_iff)
  then have e: "bit_length n - 1 = 52 + ?e" by linarith
  have "(2::nat) ^ 52 * 2 ^ ?e = 2 ^ (bit_length n - 1)" unfolding e by (rule power_add [symmetric])
  also have "\<dots> \<le> n" by (rule bit_length_lower [OF gr0I]) (use assms in simp)
  finally have q: "2 ^ 52 \<le> n div 2 ^ ?e"
    using less_eq_div_iff_mult_less_eq [of "2 ^ ?e" "2 ^ 52" n]
    by simp
  have "(2::nat) ^ 1 \<le> 2 ^ ?e" using len by (intro power_increasing) auto
  then have "(2::nat) \<le> 2 ^ ?e" by (simp only: power_one_right)
  with q have "2 ^ 52 * 2 \<le> n div 2 ^ ?e * 2 ^ ?e" by (rule mult_le_mono)
  then have low: "2 ^ 53 \<le> n div 2 ^ ?e * 2 ^ ?e" by simp
  then have "2 ^ 53 \<le> (n div 2 ^ ?e + 1) * 2 ^ ?e"
    by (rule order_trans) simp
  with low show ?thesis using assms unfolding round_nat_def Let_def by auto
qed

text \<open>A rounded integer is safe exactly when no rounding took place.\<close>

lemma isSafeInteger_round: "isSafeInteger (js_round v) \<longleftrightarrow> \<bar>v\<bar> < 2 ^ 53"
proof -
  have abs: "\<bar>js_round v\<bar> = int (round_nat (nat \<bar>v\<bar>))"
    by (cases "v = 0") (simp_all add: js_round_def abs_mult round_nat_def)
  show ?thesis
  proof (cases "\<bar>v\<bar> < 2 ^ 53")
    case True
    then have "nat \<bar>v\<bar> < 2 ^ 53" by (simp add: nat_less_iff)
    then have "round_nat (nat \<bar>v\<bar>) = nat \<bar>v\<bar>" by (simp add: round_nat_def)
    with True show ?thesis by (simp add: isSafeInteger_def abs)
  next
    case False
    then have "2 ^ 53 \<le> round_nat (nat \<bar>v\<bar>)" by (intro round_nat_large) (simp add: le_nat_iff)
    then have "(2::int) ^ 53 \<le> int (round_nat (nat \<bar>v\<bar>))"
      by (metis of_nat_le_iff of_nat_numeral of_nat_power)
    with False show ?thesis by (simp add: isSafeInteger_def abs)
  qed
qed

lemma js_round_id: "\<bar>v\<bar> < 2 ^ 53 \<Longrightarrow> js_round v = v"
  by (auto simp: js_round_def round_nat_def sgn_if)

end
