(* ===== verification/StringParser.thy ===== *)
theory StringParser
  imports Bytes
begin

text \<open>
  \<open>src/lib/parsers/string.js\<close>: decoding and encoding of the strings of the protocol. The
  native transcoders of UTF-8 and the \<open>iconv-lite\<close> package are parameters, collected in the
  record \<open>codec\<close>; Latin-1 and ASCII are spelled out, since the code's short-string shortcut
  rests on their agreement on bytes below 128. The decoder cache of the module is not part of
  the model: it returns the decoder that \<open>getDecoder\<close> would build.
\<close>

record codec =
  isEncoding :: "string \<Rightarrow> bool"
  utf8Slice :: "bytes \<Rightarrow> jstring"
  utf8Bytes :: "jstring \<Rightarrow> bytes"
  bufferToString :: "string \<Rightarrow> bytes \<Rightarrow> jstring"
  bufferFrom :: "string \<Rightarrow> jstring \<Rightarrow> bytes"
  iconvDecode :: "string option \<Rightarrow> bytes \<Rightarrow> jstring result"
  iconvEncode :: "string option \<Rightarrow> jstring \<Rightarrow> bytes result"

text \<open>
  The slices of the runtime: Latin-1 maps a byte to the code unit of the same value, ASCII
  masks the high bit.
\<close>

definition latin1Slice :: "bytes \<Rightarrow> jstring" where
  "latin1Slice = map (\<lambda>b. word_of_nat (unat b))"

definition asciiSlice :: "bytes \<Rightarrow> jstring" where
  "asciiSlice = map (\<lambda>b. word_of_nat (unat b mod 128))"

text \<open>
  What the code relies on: the UTF-8 decoder maps an ASCII byte to itself, and
  \<open>toString\<close> of an encoding the runtime knows is its slice.
\<close>

definition codec_ok :: "codec \<Rightarrow> bool" where
  "codec_ok c \<longleftrightarrow>
     (\<forall>bs. (\<forall>b\<in>set bs. unat b < 128) \<longrightarrow> utf8Slice c bs = latin1Slice bs) \<and>
     (\<forall>e\<in>{''utf8'', ''utf-8'', ''latin1'', ''binary'', ''ascii''}. isEncoding c e)"

definition SHORT_STRING_MAX_LENGTH :: nat where
  "SHORT_STRING_MAX_LENGTH = 8"

text \<open>
  \<open>shortAscii\<close> for a window inside the buffer: the cases 1 to 8 test the bitwise or of the
  bytes against 128.
\<close>

definition shortAscii :: "bytes \<Rightarrow> nat \<Rightarrow> nat \<Rightarrow> jstring option" where
  "shortAscii b s len =
     (if (\<exists>c\<in>set_option (byte_at b s). c \<ge> 128) then None
      else if 1 \<le> len \<and> len \<le> 8 then
        let cs = map (\<lambda>i. unat (b ! (s + i))) [0..<len] in
        if foldr (\<lambda>c acc. c OR acc) cs 0 < 128 then Some (map word_of_nat cs) else None
      else None)"

text \<open>\<open>decode\<close>, on the runtimes that have the slice methods, with integer offsets.\<close>

definition decode :: "codec \<Rightarrow> bytes \<Rightarrow> string option \<Rightarrow> nat \<Rightarrow> nat \<Rightarrow> jstring result" where
  "decode c buf encoding start end0 =
     (let len = length buf in
      if start \<noteq> 0 \<and> start \<ge> len then Inr []
      else
        let stop = (if end0 > len then len else end0) in
        if stop \<le> start then Inr []
        else if encoding = Some ''utf8'' \<or> encoding = Some ''utf-8''
        then Inr (utf8Slice c (slice start stop buf))
        else if encoding = Some ''latin1'' \<or> encoding = Some ''binary''
        then Inr (latin1Slice (slice start stop buf))
        else if encoding = Some ''ascii'' then Inr (asciiSlice (slice start stop buf))
        else case encoding of
            Some e \<Rightarrow>
              if isEncoding c e then Inr (bufferToString c e (slice start stop buf))
              else iconvDecode c encoding (slice start stop buf)
          | None \<Rightarrow> iconvDecode c encoding (slice start stop buf))"

definition decodeShort ::
    "codec \<Rightarrow> bytes \<Rightarrow> string option \<Rightarrow> nat \<Rightarrow> nat \<Rightarrow> jstring result" where
  "decodeShort c buf encoding start stop =
     (if start \<le> stop \<and> stop \<le> length buf \<and>
         (encoding = Some ''utf8'' \<or> encoding = Some ''utf-8'')
      then case shortAscii buf start (stop - start) of
             Some s \<Rightarrow> Inr s
           | None \<Rightarrow> Inr (utf8Slice c (slice start stop buf))
      else if start \<le> stop \<and> stop \<le> length buf \<and>
         (encoding = Some ''latin1'' \<or> encoding = Some ''binary'')
      then case shortAscii buf start (stop - start) of
             Some s \<Rightarrow> Inr s
           | None \<Rightarrow> Inr (latin1Slice (slice start stop buf))
      else if start \<le> stop \<and> stop \<le> length buf \<and> encoding = Some ''ascii''
      then case shortAscii buf start (stop - start) of
             Some s \<Rightarrow> Inr s
           | None \<Rightarrow> Inr (asciiSlice (slice start stop buf))
      else decode c buf encoding start stop)"

definition encode :: "codec \<Rightarrow> jstring \<Rightarrow> string option \<Rightarrow> bytes result" where
  "encode c s encoding =
     (case encoding of
        Some e \<Rightarrow> if isEncoding c e then Inr (bufferFrom c e s) else iconvEncode c encoding s
      | None \<Rightarrow> iconvEncode c encoding s)"

section \<open>The short-string shortcut agrees with the native decoders\<close>

lemma foldr_or_less:
  "foldr (\<lambda>c acc. c OR acc) cs 0 < (128::nat) \<Longrightarrow> c \<in> set cs \<Longrightarrow> c < 128"
proof (induction cs)
  case (Cons d cs)
  let ?r = "foldr (\<lambda>c acc. c OR acc) cs 0"
  have less: "d OR ?r < 128" using Cons.prems(1) by simp
  have "d < 128" "?r < 128"
    using less or_greater_eq [of "int ?r" "int d"] or_greater_eq [of "int d" "int ?r"]
    by (auto simp: of_nat_or_eq [symmetric] or.commute simp del: of_nat_or_eq)
  with Cons show ?case by auto
qed simp

lemma slice_map_nth: "j \<le> length xs \<Longrightarrow> slice i j xs = map (\<lambda>k. xs ! (i + k)) [0..<j - i]"
  by (rule nth_equalityI) (auto simp: slice_def)

lemma shortAscii_Some:
  assumes "shortAscii b s (e - s) = Some str" and "e \<le> length b"
  shows "str = latin1Slice (slice s e b) \<and> (\<forall>x\<in>set (slice s e b). unat x < 128)"
proof -
  let ?cs = "map (\<lambda>i. unat (b ! (s + i))) [0..<e - s]"
  have "foldr (\<lambda>c acc. c OR acc) ?cs 0 < 128" and str: "str = map word_of_nat ?cs"
    using assms(1) by (auto simp: shortAscii_def Let_def split: if_splits)
  then have small: "\<forall>c\<in>set ?cs. c < 128" using foldr_or_less by blast
  have "slice s e b = map (\<lambda>i. b ! (s + i)) [0..<e - s]"
    using assms(2) by (rule slice_map_nth)
  with small str show ?thesis by (auto simp: latin1Slice_def)
qed

lemma asciiSlice_ascii: "\<forall>x\<in>set bs. unat x < 128 \<Longrightarrow> asciiSlice bs = latin1Slice bs"
  by (simp add: asciiSlice_def latin1Slice_def)

lemma decode_slice:
  assumes "start < stop" and "stop \<le> length buf"
  shows "decode c buf (Some ''utf8'') start stop = Inr (utf8Slice c (slice start stop buf))"
    and "decode c buf (Some ''utf-8'') start stop = Inr (utf8Slice c (slice start stop buf))"
    and "decode c buf (Some ''latin1'') start stop = Inr (latin1Slice (slice start stop buf))"
    and "decode c buf (Some ''binary'') start stop = Inr (latin1Slice (slice start stop buf))"
    and "decode c buf (Some ''ascii'') start stop = Inr (asciiSlice (slice start stop buf))"
  using assms by (auto simp: decode_def Let_def)

lemma decode_empty: "decode c buf enc start start = Inr []"
  by (simp add: decode_def Let_def)

lemma slice_same [simp]: "slice i i xs = []"
  by (simp add: slice_def)

text \<open>The empty value: the shortcut does not apply, the slices of an empty window are empty.\<close>

lemma latin1Slice_Nil [simp]: "latin1Slice [] = []" and asciiSlice_Nil [simp]: "asciiSlice [] = []"
  by (simp_all add: latin1Slice_def asciiSlice_def)

lemma utf8Slice_Nil: "codec_ok c \<Longrightarrow> utf8Slice c [] = []"
  by (simp add: codec_ok_def)

lemma decode_slice_any:
  assumes "codec_ok c" and "start \<le> stop" and "stop \<le> length buf"
  shows "e \<in> {''utf8'', ''utf-8''} \<Longrightarrow>
           decode c buf (Some e) start stop = Inr (utf8Slice c (slice start stop buf))"
    and "e \<in> {''latin1'', ''binary''} \<Longrightarrow>
           decode c buf (Some e) start stop = Inr (latin1Slice (slice start stop buf))"
    and "decode c buf (Some ''ascii'') start stop = Inr (asciiSlice (slice start stop buf))"
  using assms decode_slice [of start stop buf c] utf8Slice_Nil [of c]
  by (cases "start = stop"; auto simp: decode_empty)+

lemma short_or_slice:
  assumes "stop \<le> length buf"
    and "\<And>bs. \<forall>x\<in>set bs. unat x < 128 \<Longrightarrow> f bs = latin1Slice bs"
  shows "(case shortAscii buf start (stop - start) of
            Some s \<Rightarrow> Inr s | None \<Rightarrow> Inr (f (slice start stop buf))) =
         (Inr (f (slice start stop buf)) :: jstring result)"
proof (cases "shortAscii buf start (stop - start)")
  case (Some s)
  then show ?thesis using shortAscii_Some [OF Some assms(1)] assms(2) by simp
qed simp

lemma decodeShort_agrees:
  assumes "codec_ok c"
  shows "decodeShort c buf encoding start stop = decode c buf encoding start stop"
proof (cases "start \<le> stop \<and> stop \<le> length buf")
  case False
  then show ?thesis by (auto simp: decodeShort_def)
next
  case True
  have utf8: "\<And>bs. \<forall>x\<in>set bs. unat x < 128 \<Longrightarrow> utf8Slice c bs = latin1Slice bs"
    using assms by (simp add: codec_ok_def)
  have ok: "start \<le> stop" "stop \<le> length buf" using True by auto
  note slices = decode_slice_any [OF assms ok]
  consider (u8) e where "encoding = Some e" "e \<in> {''utf8'', ''utf-8''}"
    | (latin1) e where "encoding = Some e" "e \<in> {''latin1'', ''binary''}"
    | (ascii) "encoding = Some ''ascii''"
    | (other) "encoding \<notin> Some ` {''utf8'', ''utf-8'', ''latin1'', ''binary'', ''ascii''}"
    by (cases encoding) auto
  then show ?thesis
  proof cases
    case u8
    then show ?thesis
      using ok slices(1) short_or_slice [OF ok(2) utf8, of start] by (auto simp: decodeShort_def)
  next
    case latin1
    then show ?thesis
      using ok slices(2) short_or_slice [OF ok(2), of latin1Slice start]
      by (auto simp: decodeShort_def)
  next
    case ascii
    then show ?thesis
      using ok slices(3) short_or_slice [OF ok(2) asciiSlice_ascii, of start]
      by (auto simp: decodeShort_def)
  next
    case other
    then show ?thesis by (auto simp: decodeShort_def)
  qed
qed

text \<open>
  Claim C7. The shortcut for short strings changes nothing: for every buffer, encoding and
  window, inside the buffer or not, \<open>decodeShort\<close> returns what \<open>decode\<close> returns.
\<close>

theorem decodeShort_eq_decode:
  assumes "codec_ok c"
  shows "decodeShort c buf encoding start stop = decode c buf encoding start stop"
  by (rule decodeShort_agrees [OF assms])

text \<open>A codec that satisfies the assumptions: UTF-8 text restricted to one-byte sequences.\<close>

definition latin1_codec :: codec where
  "latin1_codec =
     \<lparr>isEncoding = (\<lambda>_. True), utf8Slice = latin1Slice,
      utf8Bytes = map (\<lambda>u. word_of_nat (unat u)),
      bufferToString = (\<lambda>_. latin1Slice),
      bufferFrom = (\<lambda>_. map (\<lambda>u. word_of_nat (unat u))),
      iconvDecode = (\<lambda>_ bs. Inr (latin1Slice bs)),
      iconvEncode = (\<lambda>_ s. Inr (map (\<lambda>u. word_of_nat (unat u)) s))\<rparr>"

lemma latin1_codec_ok: "codec_ok latin1_codec"
  by (simp add: codec_ok_def latin1_codec_def)

theorem decodeShort_eq_decode_witness:
  "codec_ok latin1_codec \<and>
   decodeShort latin1_codec [72, 105, 33] (Some ''utf8'') 0 2 = Inr (js ''Hi'')"
proof -
  have "decode latin1_codec [72, 105, 33] (Some ''utf8'') 0 2 = Inr (js ''Hi'')"
    by (simp add: decode_def latin1_codec_def slice_def latin1Slice_def js_def)
  then show ?thesis
    using decodeShort_eq_decode [OF latin1_codec_ok, of "[72, 105, 33]" "Some ''utf8''" 0 2]
    by (simp add: latin1_codec_ok)
qed

end
