(* ===== verification/Packet.thy ===== *)
theory Packet
  imports StringParser
begin

text \<open>
  \<open>src/lib/packets/packet.js\<close>: the cursor over a buffer that every packet is read from and
  written to. The record has the fields of the class (\<open>end\<close> is \<open>end_pos\<close>), plus a flag for
  the mock buffer of the dry runs, whose methods do nothing. Readers return the value and
  the advanced packet, or the exception; writers the advanced packet, or the exception.
  \<open>undefined\<close> (a byte read past the end of the buffer) is \<open>None\<close>; NaN is a value of
  its own. Where a truncated length header would make the offset itself NaN, the model
  stops with \<open>BadOffset\<close> (an \<open>Error\<close> the program does not raise: it goes on reading
  nothing).
\<close>

section \<open>State\<close>

record packet =
  sequenceId :: nat
  numPackets :: nat
  buffer :: bytes
  start :: nat
  offset :: nat
  end_pos :: nat
  is_mock :: bool

definition new_packet :: "nat \<Rightarrow> bytes \<Rightarrow> nat \<Rightarrow> nat \<Rightarrow> packet" where
  "new_packet seq buf st en =
     \<lparr>sequenceId = seq, numPackets = 1, buffer = buf, start = st, offset = st + 4, end_pos = en,
      is_mock = False\<rparr>"

text \<open>\<open>new Packet(id, Packet.MockBuffer(), 0, 0)\<close>: an empty buffer with inert methods.\<close>

definition mock_packet :: packet where
  "mock_packet = (new_packet 0 [] 0 0)\<lparr>is_mock := True\<rparr>"

definition BadOffset :: js_error where
  "BadOffset = JsError ''BadOffset'' ''''"

type_synonym 'a rd = "packet \<Rightarrow> ('a \<times> packet) result"
type_synonym wr = "packet \<Rightarrow> packet result"

definition rret :: "'a \<Rightarrow> 'a rd" where
  "rret x p = Inr (x, p)"

definition rbind :: "'a rd \<Rightarrow> ('a \<Rightarrow> 'b rd) \<Rightarrow> 'b rd" where
  "rbind m f p = (case m p of Inl e \<Rightarrow> Inl e | Inr (x, p') \<Rightarrow> f x p')"

definition wbind :: "packet result \<Rightarrow> wr \<Rightarrow> packet result" where
  "wbind r w = (case r of Inl e \<Rightarrow> Inl e | Inr p \<Rightarrow> w p)"

text \<open>A block of statements, one writer after the other.\<close>

primrec writes :: "wr list \<Rightarrow> wr" where
  "writes [] p = Inr p"
| "writes (w # ws) p = wbind (w p) (writes ws)"

section \<open>Readers\<close>

definition reset :: "packet \<Rightarrow> packet" where
  "reset p = p\<lparr>offset := start p + 4\<rparr>"

definition packet_length :: "packet \<Rightarrow> nat" where
  "packet_length p = end_pos p - start p"

definition packet_slice :: "packet \<Rightarrow> bytes" where
  "packet_slice p = slice (start p) (end_pos p) (buffer p)"

definition haveMoreData :: "packet \<Rightarrow> bool" where
  "haveMoreData p \<longleftrightarrow> end_pos p > offset p"

definition skip :: "nat \<Rightarrow> packet \<Rightarrow> packet" where
  "skip num p = p\<lparr>offset := offset p + num\<rparr>"

definition rskip :: "nat \<Rightarrow> unit rd" where
  "rskip num p = Inr ((), skip num p)"

definition readInt8 :: "nat option rd" where
  "readInt8 p = Inr (byte_at (buffer p) (offset p), p\<lparr>offset := offset p + 1\<rparr>)"

text \<open>The fixed-width readers: \<open>buffer.readUIntLE\<close> at the offset, which moves by the width.\<close>

definition read_uint :: "nat \<Rightarrow> nat rd" where
  "read_uint n p =
     (case read_le n (buffer p) (offset p) of
        Inl e \<Rightarrow> Inl e
      | Inr v \<Rightarrow> Inr (v, p\<lparr>offset := offset p + n\<rparr>))"

definition readInt16 :: "nat rd" where
  "readInt16 = read_uint 2"

text \<open>A byte under a bitwise operator: \<open>undefined\<close> counts as 0.\<close>

definition bits_of :: "nat option \<Rightarrow> nat" where
  "bits_of b = (case b of None \<Rightarrow> 0 | Some v \<Rightarrow> v)"

definition readInt24 :: "nat rd" where
  "readInt24 = rbind readInt16 (\<lambda>w. rbind readInt8 (\<lambda>b. rret (w + bits_of b * 2 ^ 16)))"

definition readInt32 :: "nat rd" where
  "readInt32 = read_uint 4"

definition readSInt8 :: "int rd" where
  "readSInt8 = rbind (read_uint 1) (\<lambda>v. rret (signed_of 1 v))"

definition readSInt16 :: "int rd" where
  "readSInt16 = rbind (read_uint 2) (\<lambda>v. rret (signed_of 2 v))"

definition readSInt32 :: "int rd" where
  "readSInt32 = rbind (read_uint 4) (\<lambda>v. rret (signed_of 4 v))"

definition readInt64JSNumber :: "int rd" where
  "readInt64JSNumber =
     rbind readInt32 (\<lambda>word0. rbind readInt32 (\<lambda>word1.
       rret (js_round (int word0 + 2 ^ 32 * int word1))))"

definition readSInt64JSNumber :: "int rd" where
  "readSInt64JSNumber =
     rbind readInt32 (\<lambda>word0. rbind readInt32 (\<lambda>word1.
       rret (js_round (int word0 + 2 ^ 32 * to_int32 (int word1)))))"

text \<open>
  The \<open>long\<close> package: a 64-bit integer from its two halves. The code uses its decimal text
  and its conversion to a number.
\<close>

record long_lib =
  long_toString :: "nat \<Rightarrow> nat \<Rightarrow> bool \<Rightarrow> jstring"
  long_toNumber :: "nat \<Rightarrow> nat \<Rightarrow> bool \<Rightarrow> int"

definition long_value :: "nat \<Rightarrow> nat \<Rightarrow> bool \<Rightarrow> int" where
  "long_value lo hi unsgn =
     (let v = lo + 2 ^ 32 * hi in if unsgn then int v else signed_of 8 v)"

definition long_ok :: "long_lib \<Rightarrow> bool" where
  "long_ok L \<longleftrightarrow>
     (\<forall>lo hi u. lo < 2 ^ 32 \<longrightarrow> hi < 2 ^ 32 \<longrightarrow>
        long_toString L lo hi u = int_to_string (long_value lo hi u) \<and>
        long_toNumber L lo hi u = js_round (long_value lo hi u))"

text \<open>What the readers of large integers return.\<close>

datatype js_int =
    IntNull
  | IntNaN
  | IntNum int
  | IntStr jstring

definition readInt64String :: "long_lib \<Rightarrow> jstring rd" where
  "readInt64String L =
     rbind readInt32 (\<lambda>word0. rbind readInt32 (\<lambda>word1. rret (long_toString L word0 word1 True)))"

definition readSInt64String :: "long_lib \<Rightarrow> jstring rd" where
  "readSInt64String L =
     rbind readInt32 (\<lambda>word0. rbind readInt32 (\<lambda>word1. rret (long_toString L word0 word1 False)))"

definition readInt64 :: "long_lib \<Rightarrow> js_int rd" where
  "readInt64 L =
     rbind readInt32 (\<lambda>word0. rbind readInt32 (\<lambda>word1.
       let resNumber = js_round (int word0 + 2 ^ 32 * int word1) in
       if isSafeInteger resNumber then rret (IntNum resNumber)
       else rret (IntStr (long_toString L word0 word1 True))))"

definition readSInt64 :: "long_lib \<Rightarrow> js_int rd" where
  "readSInt64 L =
     rbind readInt32 (\<lambda>word0. rbind readInt32 (\<lambda>word1.
       let resNumber = js_round (int word0 + 2 ^ 32 * to_int32 (int word1)) in
       if isSafeInteger resNumber then rret (IntNum resNumber)
       else rret (IntStr (long_toString L word0 word1 False))))"

definition peekByte :: "packet \<Rightarrow> nat option" where
  "peekByte p = byte_at (buffer p) (offset p)"

definition isEOF :: "packet \<Rightarrow> bool" where
  "isEOF p \<longleftrightarrow> peekByte p = Some 0xfe \<and> packet_length p < 13"

definition isAlt :: "packet \<Rightarrow> bool" where
  "isAlt p \<longleftrightarrow> peekByte p = Some 0xfe"

definition isError :: "packet \<Rightarrow> bool" where
  "isError p \<longleftrightarrow> peekByte p = Some 0xff"

definition eofStatusFlags :: "packet \<Rightarrow> int result" where
  "eofStatusFlags p =
     (case read_le 2 (buffer p) (offset p + 3) of Inl e \<Rightarrow> Inl e | Inr v \<Rightarrow> Inr (signed_of 2 v))"

definition eofWarningCount :: "packet \<Rightarrow> int result" where
  "eofWarningCount p =
     (case read_le 2 (buffer p) (offset p + 1) of Inl e \<Rightarrow> Inl e | Inr v \<Rightarrow> Inr (signed_of 2 v))"

text \<open>Sum of two bytes under \<open>+\<close> and \<open><<\<close>: NaN when the unshifted one is undefined.\<close>

definition lcn_sum :: "nat option \<Rightarrow> nat \<Rightarrow> js_int" where
  "lcn_sum low high = (case low of None \<Rightarrow> IntNaN | Some v \<Rightarrow> IntNum (int (v + high)))"

definition readLengthCodedNumberExt ::
    "long_lib \<Rightarrow> nat option \<Rightarrow> bool \<Rightarrow> bool \<Rightarrow> js_int rd" where
  "readLengthCodedNumberExt L tag bigNumberStrings sgnd =
     (if tag = Some 0xfb then rret IntNull
      else if tag = Some 0xfc then
        rbind readInt8 (\<lambda>b0. rbind readInt8 (\<lambda>b1.
          rret (lcn_sum b0 (bits_of b1 * 2 ^ 8))))
      else if tag = Some 0xfd then
        rbind readInt8 (\<lambda>b0. rbind readInt8 (\<lambda>b1. rbind readInt8 (\<lambda>b2.
          rret (lcn_sum b0 (bits_of b1 * 2 ^ 8 + bits_of b2 * 2 ^ 16)))))
      else if tag = Some 0xfe then
        rbind readInt32 (\<lambda>word0. rbind readInt32 (\<lambda>word1.
          if word1 = 0 then rret (IntNum (int word0))
          else if word1 < 2097152 then rret (IntNum (js_round (int word1 * 2 ^ 32 + int word0)))
          else
            let resNumber = long_toNumber L word0 word1 (\<not> sgnd);
                resString = long_toString L word0 word1 (\<not> sgnd) in
            if bigNumberStrings \<or> \<not> isSafeInteger resNumber then rret (IntStr resString)
            else rret (IntNum resNumber)))
      else (\<lambda>_. Inl (JsError [] ''Should not reach here'')))"

definition readLengthCodedNumber :: "long_lib \<Rightarrow> bool \<Rightarrow> bool \<Rightarrow> js_int rd" where
  "readLengthCodedNumber L bigNumberStrings sgnd =
     rbind readInt8 (\<lambda>byte1.
       case byte1 of
         Some b \<Rightarrow> (if b < 251 then rret (IntNum (int b))
                    else readLengthCodedNumberExt L byte1 bigNumberStrings sgnd)
       | None \<Rightarrow> readLengthCodedNumberExt L byte1 bigNumberStrings sgnd)"

definition readLengthCodedNumberSigned :: "long_lib \<Rightarrow> bool \<Rightarrow> js_int rd" where
  "readLengthCodedNumberSigned L bigNumberStrings = readLengthCodedNumber L bigNumberStrings True"

text \<open>
  The same reader used for a length: \<open>null\<close> is \<open>None\<close>. A length that is no number is
  where the model stops.
\<close>

definition readLength :: "long_lib \<Rightarrow> nat option rd" where
  "readLength L =
     rbind (readLengthCodedNumber L False False) (\<lambda>n.
       case n of
         IntNull \<Rightarrow> rret None
       | IntNum v \<Rightarrow> rret (Some (nat v))
       | IntNaN \<Rightarrow> (\<lambda>_. Inl BadOffset)
       | IntStr _ \<Rightarrow> (\<lambda>_. Inl BadOffset))"

text \<open>\<open>readBuffer(len)\<close>: \<open>Buffer.slice\<close> clamps to the buffer, the offset does not.\<close>

definition readBuffer :: "nat \<Rightarrow> bytes rd" where
  "readBuffer len p =
     Inr (slice (offset p) (offset p + len) (buffer p), p\<lparr>offset := offset p + len\<rparr>)"

text \<open>\<open>readBuffer()\<close>: the rest of the packet.\<close>

definition readRest :: "bytes rd" where
  "readRest p = Inr (slice (offset p) (end_pos p) (buffer p), p\<lparr>offset := end_pos p\<rparr>)"

definition readLengthCodedString :: "long_lib \<Rightarrow> codec \<Rightarrow> string option \<Rightarrow> jstring option rd" where
  "readLengthCodedString L c encoding =
     rbind (readLength L) (\<lambda>len0 p.
       case len0 of
         None \<Rightarrow> Inr (None, p)
       | Some len \<Rightarrow>
           let p' = p\<lparr>offset := offset p + len\<rparr>;
               str = (if len \<le> SHORT_STRING_MAX_LENGTH
                      then decodeShort c (buffer p') encoding (offset p' - len) (offset p')
                      else decode c (buffer p') encoding (offset p' - len) (offset p'))
           in case str of Inl e \<Rightarrow> Inl e | Inr s \<Rightarrow> Inr (Some s, p'))"

definition readLengthCodedBuffer :: "long_lib \<Rightarrow> bytes option rd" where
  "readLengthCodedBuffer L =
     rbind (readLength L) (\<lambda>len0.
       case len0 of
         None \<Rightarrow> rret None
       | Some len \<Rightarrow> rbind (readBuffer len) (\<lambda>b. rret (Some b)))"

text \<open>The scan \<open>while (end < this.end && this.buffer[end] !== 0x00) end = end + 1\<close>.\<close>

function scan_nul :: "bytes \<Rightarrow> nat \<Rightarrow> nat \<Rightarrow> nat" where
  "scan_nul buf limit i =
     (if i < limit \<and> byte_at buf i \<noteq> Some 0 then scan_nul buf limit (i + 1) else i)"
  by pat_completeness auto
termination by (relation "measure (\<lambda>(buf, limit, i). limit - i)") auto

declare scan_nul.simps [simp del]

definition readNullTerminatedString :: "codec \<Rightarrow> string option \<Rightarrow> jstring rd" where
  "readNullTerminatedString c encoding p =
     (let st = offset p;
          en = scan_nul (buffer p) (end_pos p) (offset p);
          p' = p\<lparr>offset := en + 1\<rparr>
      in case decode c (buffer p') encoding st en of Inl e \<Rightarrow> Inl e | Inr s \<Rightarrow> Inr (s, p'))"

text \<open>\<open>readString(len, encoding)\<close>; an omitted length is the rest of the packet.\<close>

definition readString :: "codec \<Rightarrow> nat option \<Rightarrow> string option \<Rightarrow> jstring rd" where
  "readString c len0 encoding p =
     (let len = (case len0 of None \<Rightarrow> end_pos p - offset p | Some l \<Rightarrow> l);
          p' = p\<lparr>offset := offset p + len\<rparr>
      in case decode c (buffer p') encoding (offset p' - len) (offset p') of
           Inl e \<Rightarrow> Inl e | Inr s \<Rightarrow> Inr (s, p'))"

text \<open>The error packet: its code, SQL state (absent before protocol 4.1) and message.\<close>

record server_error =
  errno :: nat
  sqlState :: jstring
  sqlMessage :: jstring

definition asError :: "codec \<Rightarrow> string option \<Rightarrow> packet \<Rightarrow> server_error result" where
  "asError c encoding p0 =
     (case rbind readInt8 (\<lambda>_. readInt16) (reset p0) of
        Inl e \<Rightarrow> Inl e
      | Inr (errorCode, p1) \<Rightarrow>
          let (state, p2) =
                (if byte_at (buffer p1) (offset p1) = Some 0x23
                 then let q = skip 1 p1
                      in (utf8Slice c (slice (offset q) (offset q + 5) (buffer q)), skip 5 q)
                 else ([], p1))
          in case readString c None encoding p2 of
               Inl e \<Rightarrow> Inl e
             | Inr (message, _) \<Rightarrow>
                 Inr \<lparr>errno = errorCode, sqlState = state, sqlMessage = message\<rparr>)"

section \<open>Writers\<close>

text \<open>A write method of the buffer at the offset, which moves by the width.\<close>

definition write_uint :: "nat \<Rightarrow> int \<Rightarrow> wr" where
  "write_uint n v p =
     (if is_mock p then Inr (p\<lparr>offset := offset p + n\<rparr>)
      else case write_le n v (offset p) (buffer p) of
        Inl e \<Rightarrow> Inl e
      | Inr b \<Rightarrow> Inr (p\<lparr>buffer := b, offset := offset p + n\<rparr>))"

definition writeInt32 :: "int \<Rightarrow> wr" where
  "writeInt32 n = write_uint 4 n"

definition writeInt16 :: "int \<Rightarrow> wr" where
  "writeInt16 n = write_uint 2 n"

definition writeInt8 :: "int \<Rightarrow> wr" where
  "writeInt8 n = write_uint 1 n"

definition writeInt24 :: "int \<Rightarrow> wr" where
  "writeInt24 n = writes [writeInt8 (to_int32 n AND 0xff), writeInt16 (to_int32 n div 2 ^ 8)]"

text \<open>\<open>b.copy(this.buffer, this.offset)\<close>: never an exception, truncated at the end.\<close>

definition writeBuffer :: "bytes \<Rightarrow> wr" where
  "writeBuffer b p =
     Inr (p\<lparr>buffer := copy_into b (offset p) (buffer p), offset := offset p + length b\<rparr>)"

definition wskip :: "nat \<Rightarrow> wr" where
  "wskip num p = Inr (skip num p)"

definition writeNull :: "wr" where
  "writeNull p = Inr (p\<lparr>buffer := (buffer p)[offset p := 0xfb], offset := offset p + 1\<rparr>)"

definition writeNullTerminatedString :: "codec \<Rightarrow> jstring \<Rightarrow> string option \<Rightarrow> wr" where
  "writeNullTerminatedString c s encoding p =
     (case encode c s encoding of
        Inl e \<Rightarrow> Inl e
      | Inr buf \<Rightarrow> writes [writeBuffer buf, writeInt8 0] p)"

text \<open>\<open>writeString\<close>: \<open>null\<close> is the byte 0xfb.\<close>

definition writeString :: "codec \<Rightarrow> jstring option \<Rightarrow> string option \<Rightarrow> wr" where
  "writeString c s encoding p =
     (case s of
        None \<Rightarrow> writeInt8 0xfb p
      | Some str \<Rightarrow>
          if length str = 0 then Inr p
          else case encode c str encoding of Inl e \<Rightarrow> Inl e | Inr buf \<Rightarrow> writeBuffer buf p)"

text \<open>
  \<open>writeLengthCodedNumber(n)\<close>. A \<open>null\<close> argument passes the first test, because
  \<open>null < 0xfb\<close> compares 0, and \<open>writeInt8(null)\<close> writes 0.
\<close>

definition writeLengthCodedNumber :: "nat option \<Rightarrow> wr" where
  "writeLengthCodedNumber n0 =
     (let n = (case n0 of None \<Rightarrow> 0 | Some v \<Rightarrow> v) in
      if n < 0xfb then writeInt8 (int n)
      else if n < 0xffff then writes [writeInt8 0xfc, writeInt16 (int n)]
      else if n < 0xffffff then writes [writeInt8 0xfd, writeInt24 (int n)]
      else writes [writeInt8 0xfe, write_uint 4 (int (n mod 2 ^ 32)),
                   write_uint 4 (int (n div 0x100000000))])"

definition writeLengthCodedString :: "codec \<Rightarrow> jstring \<Rightarrow> string option \<Rightarrow> wr" where
  "writeLengthCodedString c s encoding p =
     (case encode c s encoding of
        Inl e \<Rightarrow> Inl e
      | Inr buf \<Rightarrow> writes [writeLengthCodedNumber (Some (length buf)), writeBuffer buf] p)"

definition writeLengthCodedBuffer :: "bytes \<Rightarrow> wr" where
  "writeLengthCodedBuffer b = writes [writeLengthCodedNumber (Some (length b)), writeBuffer b]"

definition lengthCodedNumberLength :: "nat \<Rightarrow> nat" where
  "lengthCodedNumberLength n =
     (if n < 0xfb then 1 else if n < 0xffff then 3 else if n < 0xffffff then 4 else 9)"

definition lengthCodedStringLength :: "codec \<Rightarrow> jstring \<Rightarrow> string option \<Rightarrow> nat result" where
  "lengthCodedStringLength c str encoding =
     (case encode c str encoding of
        Inl e \<Rightarrow> Inl e
      | Inr buf \<Rightarrow> Inr (lengthCodedNumberLength (length buf) + length buf))"

definition writeHeader :: "nat \<Rightarrow> wr" where
  "writeHeader seq p =
     (case writes [writeInt24 (int (length (buffer p)) - 4), writeInt8 (int seq)] (p\<lparr>offset := 0\<rparr>) of
        Inl e \<Rightarrow> Inl e
      | Inr p' \<Rightarrow> Inr (p'\<lparr>offset := offset p\<rparr>))"

text \<open>TIME values: all-zero is the single byte 0; the fraction is sent only when present.\<close>

record time_value =
  negative :: bool
  days :: nat
  hours :: nat
  minutes :: nat
  seconds :: nat
  microseconds :: nat

definition time_zero :: "time_value \<Rightarrow> bool" where
  "time_zero t \<longleftrightarrow>
     days t = 0 \<and> hours t = 0 \<and> minutes t = 0 \<and> seconds t = 0 \<and> microseconds t = 0"

definition timeLength :: "time_value \<Rightarrow> nat" where
  "timeLength t = (if time_zero t then 1 else if microseconds t \<noteq> 0 then 13 else 9)"

definition writeTime :: "time_value \<Rightarrow> wr" where
  "writeTime t =
     (if time_zero t then writeInt8 0
      else writes
        ([writeInt8 (if microseconds t \<noteq> 0 then 12 else 8),
          writeInt8 (if negative t then 1 else 0),
          writeInt32 (int (days t)), writeInt8 (int (hours t)),
          writeInt8 (int (minutes t)), writeInt8 (int (seconds t))]
         @ (if microseconds t \<noteq> 0 then [writeInt32 (int (microseconds t))] else [])))"

definition clone :: "packet \<Rightarrow> packet" where
  "clone p = new_packet (sequenceId p) (buffer p) (start p) (end_pos p)"

definition packet_type :: "packet \<Rightarrow> string" where
  "packet_type p =
     (if isEOF p then ''EOF''
      else if isError p then ''Error''
      else if byte_at (buffer p) (offset p) = Some 0 then ''maybeOK''
      else [])"

end
