(* ===== verification/WireFormat.thy ===== *)
theory WireFormat
  imports Packet
begin

text \<open>
  The contract between the writers and the readers of \<open>Packet\<close>. \<open>emits z w bs\<close>: the
  writer \<open>w\<close> puts exactly the bytes \<open>bs\<close> at the offset (\<open>z\<close> says that it needs the
  buffer to be zero-filled there, as after a \<open>skip\<close> in a fresh buffer), and on the mock
  buffer it moves the offset by as much. \<open>reads r bs x\<close>: the reader \<open>r\<close> finds \<open>x\<close> in
  the bytes \<open>bs\<close> at the offset and stops right after them. Both compose over sequences, so
  a packet's round trip follows from its fields'.
\<close>

section \<open>Writers that emit, readers that read\<close>

definition emits :: "bool \<Rightarrow> wr \<Rightarrow> bytes \<Rightarrow> bool" where
  "emits z w bs \<longleftrightarrow>
     (\<forall>p. is_mock p \<longrightarrow> buffer p = [] \<longrightarrow> w p = Inr (p\<lparr>offset := offset p + length bs\<rparr>)) \<and>
     (\<forall>p pre old post. \<not> is_mock p \<longrightarrow> buffer p = pre @ old @ post \<longrightarrow> offset p = length pre \<longrightarrow>
        length old = length bs \<longrightarrow> (z \<longrightarrow> old = replicate (length bs) 0) \<longrightarrow>
        w p = Inr (p\<lparr>buffer := pre @ bs @ post, offset := length pre + length bs\<rparr>))"

definition reads :: "'a rd \<Rightarrow> bytes \<Rightarrow> 'a \<Rightarrow> bool" where
  "reads r bs x \<longleftrightarrow>
     (\<forall>p pre post. buffer p = pre @ bs @ post \<longrightarrow> offset p = length pre \<longrightarrow>
        length pre + length bs \<le> end_pos p \<longrightarrow>
        r p = Inr (x, p\<lparr>offset := length pre + length bs\<rparr>))"

lemma emits_mono: "emits False w bs \<Longrightarrow> emits z w bs"
  by (simp add: emits_def)

lemma emits_mockD:
  "emits z w bs \<Longrightarrow> is_mock p \<Longrightarrow> buffer p = [] \<Longrightarrow> w p = Inr (p\<lparr>offset := offset p + length bs\<rparr>)"
  by (simp add: emits_def)

lemma emitsD:
  "emits z w bs \<Longrightarrow> \<not> is_mock p \<Longrightarrow> buffer p = pre @ old @ post \<Longrightarrow> offset p = length pre \<Longrightarrow>
   length old = length bs \<Longrightarrow> (z \<Longrightarrow> old = replicate (length bs) 0) \<Longrightarrow>
   w p = Inr (p\<lparr>buffer := pre @ bs @ post, offset := length pre + length bs\<rparr>)"
  by (simp add: emits_def)

lemma readsD:
  "reads r bs x \<Longrightarrow> buffer p = pre @ bs @ post \<Longrightarrow> offset p = length pre \<Longrightarrow>
   length pre + length bs \<le> end_pos p \<Longrightarrow> r p = Inr (x, p\<lparr>offset := length pre + length bs\<rparr>)"
  by (simp add: reads_def)

lemma emits_Nil: "emits z (writes []) []"
  by (auto simp: emits_def)

lemma replicate_split:
  "a @ b = replicate n x \<Longrightarrow> a = replicate (length a) x \<and> b = replicate (length b) x"
  by (metis append_eq_conv_conj drop_replicate length_append length_replicate take_replicate
      add_diff_cancel_left' min_absorb1 le_add1)

lemma emits_Cons:
  assumes w: "emits z w b1" and ws: "emits z (writes ws) b2"
  shows "emits z (writes (w # ws)) (b1 @ b2)"
  unfolding emits_def
proof (intro conjI allI impI)
  fix p :: packet
  assume "is_mock p" "buffer p = []"
  then show "writes (w # ws) p = Inr (p\<lparr>offset := offset p + length (b1 @ b2)\<rparr>)"
    using emits_mockD [OF w, of p] emits_mockD [OF ws, of "p\<lparr>offset := offset p + length b1\<rparr>"]
    by (simp add: wbind_def add.assoc)
next
  fix p :: packet and pre old post
  assume p: "\<not> is_mock p" "buffer p = pre @ old @ post" "offset p = length pre"
    and old: "length old = length (b1 @ b2)" "z \<longrightarrow> old = replicate (length (b1 @ b2)) 0"
  let ?o1 = "take (length b1) old" and ?o2 = "drop (length b1) old"
  have split: "old = ?o1 @ ?o2" "length ?o1 = length b1" "length ?o2 = length b2" using old by auto
  have z: "z \<longrightarrow> ?o1 = replicate (length b1) 0 \<and> ?o2 = replicate (length b2) 0" using old by auto
  have "w p = Inr (p\<lparr>buffer := pre @ b1 @ (?o2 @ post), offset := length pre + length b1\<rparr>)"
    using emitsD [OF w, of p pre ?o1 "?o2 @ post"] p z split
    by (metis append.assoc)
  moreover have "writes ws (p\<lparr>buffer := pre @ b1 @ (?o2 @ post), offset := length pre + length b1\<rparr>) =
      Inr (p\<lparr>buffer := pre @ (b1 @ b2) @ post, offset := length pre + length (b1 @ b2)\<rparr>)"
    using emitsD [OF ws, of "p\<lparr>buffer := pre @ b1 @ (?o2 @ post), offset := length pre + length b1\<rparr>"
        "pre @ b1" ?o2 post] p z split(3)
    by (simp add: add.assoc)
  ultimately show "writes (w # ws) p =
      Inr (p\<lparr>buffer := pre @ (b1 @ b2) @ post, offset := length pre + length (b1 @ b2)\<rparr>)"
    by (simp add: wbind_def)
qed

lemma emits_Cons': "emits z w b1 \<Longrightarrow> emits z (writes ws) b2 \<Longrightarrow> b = b1 @ b2 \<Longrightarrow> emits z (writes (w # ws)) b"
  using emits_Cons by simp

lemma emits_writes: "list_all2 (emits z) ws bss \<Longrightarrow> emits z (writes ws) (concat bss)"
  by (induction rule: list_all2_induct) (auto intro: emits_Nil emits_Cons simp del: writes.simps)

lemma reads_ret: "reads (rret x) [] x"
  by (auto simp: reads_def rret_def)

lemma reads_bind:
  assumes r: "reads r b1 x" and f: "reads (f x) b2 y"
  shows "reads (rbind r f) (b1 @ b2) y"
  unfolding reads_def
proof (intro allI impI)
  fix p :: packet and pre post
  assume "buffer p = pre @ (b1 @ b2) @ post" "offset p = length pre"
    "length pre + length (b1 @ b2) \<le> end_pos p"
  then show "rbind r f p = Inr (y, p\<lparr>offset := length pre + length (b1 @ b2)\<rparr>)"
    using readsD [OF r, of p pre "b2 @ post"]
      readsD [OF f, of "p\<lparr>offset := length pre + length b1\<rparr>" "pre @ b1" post]
    by (simp add: rbind_def add.assoc)
qed

lemma reads_bind_ret: "reads r b x \<Longrightarrow> f x = rret y \<Longrightarrow> reads (rbind r f) b y"
  using reads_bind [of r b x f "[]" y] by (simp add: reads_ret)

section \<open>The fields\<close>

lemma emits_uint:
  assumes "0 \<le> v" and "v < 256 ^ n"
  shows "emits z (write_uint n v) (le_bytes n (nat v))"
proof (rule emits_mono, unfold emits_def, intro conjI allI impI)
  fix p :: packet and pre old post
  assume "\<not> is_mock p" "buffer p = pre @ old @ post" "offset p = length pre"
    "length old = length (le_bytes n (nat v))"
  then show "write_uint n v p =
      Inr (p\<lparr>buffer := pre @ le_bytes n (nat v) @ post,
             offset := length pre + length (le_bytes n (nat v))\<rparr>)"
    using assms by (simp add: write_uint_def write_le_def)
qed (simp add: write_uint_def)

lemma reads_uint: "reads (read_uint (length bs)) bs (le_val bs)"
  using slice_append_right
  by (auto simp: reads_def read_uint_def read_le_def slice_def)

lemma reads_uint_le:
  assumes "v < 256 ^ n"
  shows "reads (read_uint n) (le_bytes n v) v"
  using reads_uint [of "le_bytes n v"] assms by (simp add: le_val_le_bytes)

lemma emits_writeBuffer: "emits z (writeBuffer b) b"
  by (rule emits_mono) (auto simp: emits_def writeBuffer_def copy_into_def)

lemma reads_readBuffer: "length bs = n \<Longrightarrow> reads (readBuffer n) bs bs"
  by (auto simp: reads_def readBuffer_def slice_def)

lemma emits_skip: "emits True (wskip n) (replicate n 0)"
  by (auto simp: emits_def wskip_def skip_def)

lemma reads_skip: "length bs = n \<Longrightarrow> reads (rskip n) bs ()"
  by (auto simp: reads_def rskip_def skip_def)

lemma reads_readInt8: "reads readInt8 [b] (Some (unat b))"
  by (auto simp: reads_def readInt8_def byte_at_def nth_append)

lemma byte_of_nat_unat: "v < 256 \<Longrightarrow> unat (word_of_nat v :: byte) = v"
  by (simp add: unat_byte_of_nat)

lemma emits_writeInt8: "v < 256 \<Longrightarrow> emits z (writeInt8 (int v)) [word_of_nat v]"
  using emits_uint [of "int v" 1 z] by (simp add: writeInt8_def)

lemma emits_writeInt16: "v < 256 ^ 2 \<Longrightarrow> emits z (writeInt16 (int v)) (le_bytes 2 v)"
  using emits_uint [of "int v" 2 z] by (simp add: writeInt16_def)

lemma emits_writeInt32: "v < 256 ^ 4 \<Longrightarrow> emits z (writeInt32 (int v)) (le_bytes 4 v)"
  using emits_uint [of "int v" 4 z] by (simp add: writeInt32_def)

lemma emits_writeInt24:
  assumes "v < 256 ^ 3"
  shows "emits z (writeInt24 (int v)) (le_bytes 3 v)"
proof -
  have v: "to_int32 (int v) = int v" using assms by simp
  have low: "int v AND 255 = int (v mod 256)"
    using and_mask_mod [of "int v" 8] by (simp add: zmod_int)
  have high: "int v div 256 = int (v div 256)" by (simp add: zdiv_int)
  have "emits z (writes [writeInt8 (int (v mod 256)), writeInt16 (int (v div 256))])
          ([word_of_nat (v mod 256)] @ le_bytes 2 (v div 256) @ [])"
    using assms by (intro emits_Cons emits_Nil emits_writeInt8 emits_writeInt16) auto
  moreover have "[word_of_nat (v mod 256)] @ le_bytes 2 (v div 256) @ [] = le_bytes 3 v"
    by (simp add: numeral_3_eq_3 numeral_2_eq_2)
  ultimately show ?thesis unfolding writeInt24_def v by (simp add: low high del: writes.simps)
qed

lemma reads_readInt24:
  assumes "length bs = 3"
  shows "reads readInt24 bs (le_val bs)"
proof -
  obtain a b c where bs: "bs = [a, b, c]"
    using assms by (auto simp: numeral_3_eq_3 length_Suc_conv)
  have "reads (read_uint 2) [a, b] (le_val [a, b])"
    using reads_uint [of "[a, b]"] by (metis length_Cons list.size(3) numeral_2_eq_2)
  then have "reads readInt24 ([a, b] @ [c] @ []) (le_val [a, b] + bits_of (Some (unat c)) * 2 ^ 16)"
    unfolding readInt24_def readInt16_def by (rule reads_bind [OF _ reads_bind [OF reads_readInt8 reads_ret]])
  then show ?thesis
    by (simp add: bs bits_of_def algebra_simps)
qed

text \<open>The length-coded integers of the protocol.\<close>

definition lcn_bytes :: "nat \<Rightarrow> bytes" where
  "lcn_bytes n =
     (if n < 0xfb then [word_of_nat n]
      else if n < 0xffff then 0xfc # le_bytes 2 n
      else if n < 0xffffff then 0xfd # le_bytes 3 n
      else 0xfe # le_bytes 4 (n mod 2 ^ 32) @ le_bytes 4 (n div 2 ^ 32))"

lemma length_lcn_bytes: "length (lcn_bytes n) = lengthCodedNumberLength n"
  by (simp add: lcn_bytes_def lengthCodedNumberLength_def)

lemma emits_writeLengthCodedNumber:
  assumes "n < 2 ^ 64"
  shows "emits z (writeLengthCodedNumber (Some n)) (lcn_bytes n)"
proof -
  have b: "emits z (writeInt8 252) [252]" "emits z (writeInt8 253) [253]" "emits z (writeInt8 254) [254]"
    using emits_writeInt8 [of 252 z] emits_writeInt8 [of 253 z] emits_writeInt8 [of 254 z] by simp_all
  have w: "emits z (write_uint 4 (int m)) (le_bytes 4 m)" if "m < 2 ^ 32" for m
    using emits_writeInt32 [of m z] that by (simp add: writeInt32_def)
  have hi: "n div 2 ^ 32 < 2 ^ 32" using assms by (simp add: less_mult_imp_div_less)
  consider "n < 0xfb" | "0xfb \<le> n" "n < 0xffff" | "0xffff \<le> n" "n < 0xffffff" | "0xffffff \<le> n"
    by linarith
  then show ?thesis
  proof cases
    case 1
    then show ?thesis using emits_writeInt8 [of n z]
      by (simp add: writeLengthCodedNumber_def lcn_bytes_def)
  next
    case 2
    then have "emits z (writes [writeInt8 252, writeInt16 (int n)]) ([252] @ le_bytes 2 n @ [])"
      by (intro emits_Cons emits_Nil b emits_writeInt16) simp
    with 2 show ?thesis by (simp add: writeLengthCodedNumber_def lcn_bytes_def del: writes.simps)
  next
    case 3
    then have "emits z (writes [writeInt8 253, writeInt24 (int n)]) ([253] @ le_bytes 3 n @ [])"
      by (intro emits_Cons emits_Nil b emits_writeInt24) simp
    with 3 show ?thesis by (simp add: writeLengthCodedNumber_def lcn_bytes_def del: writes.simps)
  next
    case 4
    have "emits z (writes [writeInt8 254, write_uint 4 (int (n mod 2 ^ 32)), write_uint 4 (int (n div 2 ^ 32))])
            ([254] @ le_bytes 4 (n mod 2 ^ 32) @ le_bytes 4 (n div 2 ^ 32) @ [])"
      by (intro emits_Cons emits_Nil b w hi) simp
    with 4 show ?thesis by (simp add: writeLengthCodedNumber_def lcn_bytes_def del: writes.simps)
  qed
qed

lemma le_val_1: "le_val [b] = unat b" and le_val_2: "le_val [a, b] = unat a + unat b * 2 ^ 8"
  and le_val_3: "le_val [a, b, c] = unat a + unat b * 2 ^ 8 + unat c * 2 ^ 16"
  by simp_all

lemma le_bytes_2: "le_bytes 2 v = [word_of_nat v, word_of_nat (v div 256)]"
  and le_bytes_3: "le_bytes 3 v = [word_of_nat v, word_of_nat (v div 256), word_of_nat (v div 65536)]"
  by (simp_all add: numeral_2_eq_2 numeral_3_eq_3 flip: div_mult2_eq)

lemma le_bytes_4:
  "le_bytes 4 v = [word_of_nat v, word_of_nat (v div 256), word_of_nat (v div 256 div 256), word_of_nat (v div 256 div 256 div 256)]"
proof -
  have four: "(4 :: nat) = Suc (Suc (Suc (Suc 0)))" by simp
  show ?thesis
    unfolding four le_bytes.simps by (rule refl)
qed

lemma reads_lcn_small:
  assumes "n < 0xfb"
  shows "reads (readLengthCodedNumber L bns sgnd) [word_of_nat n] (IntNum (int n))"
  unfolding readLengthCodedNumber_def
  by (rule reads_bind_ret [OF reads_readInt8]) (use assms in \<open>simp add: byte_of_nat_unat\<close>)

lemma reads_lcn_ext:
  assumes "tag \<in> {0xfb, 0xfc, 0xfd, 0xfe}"
    and "reads (readLengthCodedNumberExt L (Some tag) bns sgnd) bs x"
  shows "reads (readLengthCodedNumber L bns sgnd) (word_of_nat tag # bs) x"
proof -
  have "unat (word_of_nat tag :: byte) = tag" using assms(1) by (intro byte_of_nat_unat) auto
  then show ?thesis
    using assms reads_bind [OF reads_readInt8 [of "word_of_nat tag"], of _ bs x]
    unfolding readLengthCodedNumber_def by auto
qed

lemma reads_lcn_2: "reads (readLengthCodedNumberExt L (Some 0xfc) bns sgnd) [a, b]
    (IntNum (int (le_val [a, b])))"
proof -
  have "reads (rbind readInt8 (\<lambda>b0. rbind readInt8 (\<lambda>b1. rret (lcn_sum b0 (bits_of b1 * 2 ^ 8)))))
      ([a] @ [b] @ []) (lcn_sum (Some (unat a)) (bits_of (Some (unat b)) * 2 ^ 8))"
    by (intro reads_bind [OF reads_readInt8] reads_ret)
  then show ?thesis by (simp add: readLengthCodedNumberExt_def lcn_sum_def bits_of_def algebra_simps)
qed

lemma reads_lcn_3: "reads (readLengthCodedNumberExt L (Some 0xfd) bns sgnd) [a, b, c]
    (IntNum (int (le_val [a, b, c])))"
proof -
  have "reads (rbind readInt8 (\<lambda>b0. rbind readInt8 (\<lambda>b1. rbind readInt8 (\<lambda>b2.
          rret (lcn_sum b0 (bits_of b1 * 2 ^ 8 + bits_of b2 * 2 ^ 16))))))
      ([a] @ [b] @ [c] @ [])
      (lcn_sum (Some (unat a)) (bits_of (Some (unat b)) * 2 ^ 8 + bits_of (Some (unat c)) * 2 ^ 16))"
    by (intro reads_bind [OF reads_readInt8] reads_ret)
  then show ?thesis by (simp add: readLengthCodedNumberExt_def lcn_sum_def bits_of_def algebra_simps)
qed

text \<open>
  The eight-byte form: the reader returns the encoded integer exactly, as a number where a
  double can hold it (and big numbers are not asked for as strings), else as its decimal text.
\<close>

definition lcn_result :: "bool \<Rightarrow> int \<Rightarrow> js_int" where
  "lcn_result bigNumberStrings v =
     (if \<bar>v\<bar> < 2 ^ 53 \<and> (0 \<le> v \<or> \<not> bigNumberStrings) then IntNum v
      else IntStr (int_to_string v))"

lemma signed_of_8_small: "lo < 2 ^ 32 \<Longrightarrow> hi < 2097152 \<Longrightarrow> signed_of 8 (lo + 2 ^ 32 * hi) = int (lo + 2 ^ 32 * hi)"
  by (simp add: signed_of_def)

lemma long_value_big:
  assumes "lo < 2 ^ 32" and "hi < 2 ^ 32" and "2097152 \<le> hi"
  shows "long_value lo hi u < 0 \<or> 2 ^ 53 \<le> long_value lo hi u"
  using assms by (auto simp: long_value_def signed_of_def Let_def)

lemma reads_lcn_8:
  assumes L: "long_ok L" and lo: "length b1 = 4" and hi: "length b2 = 4"
  shows "reads (readLengthCodedNumberExt L (Some 0xfe) bns sgnd) (b1 @ b2)
           (lcn_result bns (long_value (le_val b1) (le_val b2) (\<not> sgnd)))"
proof -
  let ?v = "long_value (le_val b1) (le_val b2) (\<not> sgnd)"
  have w: "le_val b1 < 2 ^ 32" "le_val b2 < 2 ^ 32"
    using le_val_bound [of b1] le_val_bound [of b2] lo hi by simp_all
  define k where "k = (\<lambda>word0 word1::nat. if word1 = 0 then rret (IntNum (int word0))
          else if word1 < 2097152 then rret (IntNum (js_round (int word1 * 2 ^ 32 + int word0)))
          else
            let resNumber = long_toNumber L word0 word1 (\<not> sgnd);
                resString = long_toString L word0 word1 (\<not> sgnd) in
            if bns \<or> \<not> isSafeInteger resNumber then rret (IntStr resString)
            else rret (IntNum resNumber))"
  have k: "k (le_val b1) (le_val b2) = rret (lcn_result bns ?v)"
  proof (cases "le_val b2 < 2097152")
    case True
    have v: "?v = int (le_val b2) * 2 ^ 32 + int (le_val b1)"
      using signed_of_8_small [OF w(1) True] by (simp add: long_value_def Let_def)
    have "\<bar>?v\<bar> < 2 ^ 53" "0 \<le> ?v" using True w unfolding v by simp_all
    moreover from this have "js_round ?v = ?v" by (intro js_round_id)
    ultimately show ?thesis using True v by (simp add: k_def lcn_result_def)
  next
    case False
    have "long_toNumber L (le_val b1) (le_val b2) (\<not> sgnd) = js_round ?v"
      "long_toString L (le_val b1) (le_val b2) (\<not> sgnd) = int_to_string ?v"
      using L w by (auto simp: long_ok_def)
    moreover have "?v < 0 \<or> 2 ^ 53 \<le> ?v" using long_value_big [OF w] False by simp
    ultimately show ?thesis
      using False js_round_id [of ?v] isSafeInteger_round [of ?v]
      by (cases "\<bar>?v\<bar> < 2 ^ 53") (auto simp: k_def lcn_result_def Let_def)
  qed
  have "reads (rbind readInt32 (\<lambda>word0. rbind readInt32 (\<lambda>word1. k word0 word1))) (b1 @ b2 @ [])
          (lcn_result bns ?v)"
    unfolding readInt32_def
    using reads_uint [of b1] reads_uint [of b2] lo hi k reads_ret [of "lcn_result bns ?v"]
    by (intro reads_bind) auto
  moreover have "readLengthCodedNumberExt L (Some 0xfe) bns sgnd =
      rbind readInt32 (\<lambda>word0. rbind readInt32 (\<lambda>word1. k word0 word1))"
    by (simp add: readLengthCodedNumberExt_def k_def)
  ultimately show ?thesis by simp
qed

text \<open>Writing a length below \<open>2 ^ 53\<close> and reading it back.\<close>

lemma reads_lcn_bytes:
  assumes L: "long_ok L" and n: "n < 2 ^ 53"
  shows "reads (readLengthCodedNumber L False sgnd) (lcn_bytes n) (IntNum (int n))"
proof -
  consider "n < 0xfb" | "0xfb \<le> n" "n < 0xffff" | "0xffff \<le> n" "n < 0xffffff" | "0xffffff \<le> n"
    by linarith
  then show ?thesis
  proof cases
    case 1
    then show ?thesis using reads_lcn_small [of n L False sgnd] by (simp add: lcn_bytes_def)
  next
    case 2
    then have "le_val (le_bytes 2 n) = n" by (simp add: le_val_le_bytes)
    with 2 show ?thesis
      using reads_lcn_ext [of 252, OF _ reads_lcn_2 [of L False sgnd "word_of_nat n" "word_of_nat (n div 256)"]]
      by (simp add: lcn_bytes_def le_bytes_2)
  next
    case 3
    then have "le_val (le_bytes 3 n) = n" by (simp add: le_val_le_bytes)
    with 3 show ?thesis
      using reads_lcn_ext [of 253, OF _ reads_lcn_3 [of L False sgnd "word_of_nat n"
            "word_of_nat (n div 256)" "word_of_nat (n div 65536)"]]
      by (simp add: lcn_bytes_def le_bytes_3)
  next
    case 4
    let ?lo = "n mod 2 ^ 32" and ?hi = "n div 2 ^ 32"
    have hi: "?hi < 2097152" using n by (simp add: less_mult_imp_div_less)
    have vals: "le_val (le_bytes 4 ?lo) = ?lo" "le_val (le_bytes 4 ?hi) = ?hi"
      using hi by (simp_all add: le_val_le_bytes)
    have val: "long_value ?lo ?hi u = int n" for u
      using signed_of_8_small [of ?lo ?hi] hi by (simp add: long_value_def Let_def)
    have "reads (readLengthCodedNumberExt L (Some 0xfe) False sgnd)
        (le_bytes 4 ?lo @ le_bytes 4 ?hi) (IntNum (int n))"
      using reads_lcn_8 [OF L, of "le_bytes 4 ?lo" "le_bytes 4 ?hi" False sgnd] vals val n
      by (simp add: lcn_result_def)
    then show ?thesis
      using reads_lcn_ext [of 254] 4 by (simp add: lcn_bytes_def)
  qed
qed

section \<open>Strings\<close>

lemma decode_window:
  "decode c (pre @ b @ post) enc (length pre) (length pre + length b) = decode c b enc 0 (length b)"
proof (cases "b = []")
  case False
  then have "0 < length b" by simp
  moreover have "slice (length pre) (length pre + length b) (pre @ b @ post) = b"
    by (simp add: slice_def)
  ultimately show ?thesis using False by (simp add: decode_def Let_def split: option.split)
qed (simp add: decode_def Let_def)

text \<open>
  \<open>text_ok c enc s b\<close>: \<open>b\<close> is the encoding of the string \<open>s\<close>, and decodes to it.
\<close>

definition text_ok :: "codec \<Rightarrow> string option \<Rightarrow> jstring \<Rightarrow> bytes \<Rightarrow> bool" where
  "text_ok c enc s b \<longleftrightarrow> encode c s enc = Inr b \<and> decode c b enc 0 (length b) = Inr s"

lemma scan_nul_finds:
  "i \<le> j \<Longrightarrow> (\<And>k. i \<le> k \<Longrightarrow> k < j \<Longrightarrow> byte_at buf k \<noteq> Some 0) \<Longrightarrow> byte_at buf j = Some 0 \<Longrightarrow>
   j < limit \<Longrightarrow> scan_nul buf limit i = j"
proof (induction buf limit i rule: scan_nul.induct)
  case (1 buf limit i)
  show ?case
  proof (cases "i = j")
    case False
    then have "i < j" using "1.prems" by simp
    then have "i < limit \<and> byte_at buf i \<noteq> Some 0" using "1.prems" by simp
    then show ?thesis using "1.IH" "1.prems" \<open>i < j\<close> by (simp add: scan_nul.simps [of buf limit i])
  qed (use "1.prems" in \<open>simp add: scan_nul.simps\<close>)
qed

lemma scan_nul_end:
  "(\<And>k. i \<le> k \<Longrightarrow> k < limit \<Longrightarrow> byte_at buf k \<noteq> Some 0) \<Longrightarrow> i \<le> limit \<Longrightarrow> scan_nul buf limit i = limit"
proof (induction buf limit i rule: scan_nul.induct)
  case (1 buf limit i)
  show ?case
  proof (cases "i = limit")
    case True
    then show ?thesis by (simp add: scan_nul.simps [of buf limit limit])
  next
    case False
    then show ?thesis using 1 by (simp add: scan_nul.simps [of buf limit i])
  qed
qed

lemma reads_nul_string:
  assumes "text_ok c enc s b" and "0 \<notin> set b"
  shows "reads (readNullTerminatedString c enc) (b @ [0]) s"
  unfolding reads_def
proof (intro allI impI)
  fix p :: packet and pre post
  assume p: "buffer p = pre @ (b @ [0]) @ post" "offset p = length pre"
    "length pre + length (b @ [0]) \<le> end_pos p"
  have "byte_at (buffer p) k \<noteq> Some 0" if "length pre \<le> k" "k < length pre + length b" for k
  proof -
    have "k - length pre < length b" using that by simp
    then have "b ! (k - length pre) \<noteq> 0" using assms(2) nth_mem by metis
    then show ?thesis using that p(1) by (simp add: byte_at_def nth_append unat_eq_zero)
  qed
  moreover have "byte_at (buffer p) (length pre + length b) = Some 0"
    using p(1) by (simp add: byte_at_def nth_append)
  ultimately have "scan_nul (buffer p) (end_pos p) (length pre) = length pre + length b"
    using p(3) by (intro scan_nul_finds) auto
  then show "readNullTerminatedString c enc p = Inr (s, p\<lparr>offset := length pre + length (b @ [0])\<rparr>)"
    using p assms(1) decode_window [of c pre b "[0] @ post" enc]
    by (simp add: readNullTerminatedString_def text_ok_def Let_def)
qed

lemma emits_nul_string:
  assumes "text_ok c enc s b"
  shows "emits z (writeNullTerminatedString c s enc) (b @ [0])"
proof -
  have "emits z (writes [writeBuffer b, writeInt8 (int 0)]) (b @ [word_of_nat 0] @ [])"
    by (intro emits_Cons emits_Nil emits_writeBuffer emits_writeInt8) simp
  then show ?thesis
    using assms by (simp add: emits_def writeNullTerminatedString_def text_ok_def del: writes.simps)
qed

lemma reads_readLength:
  assumes "long_ok L" and "n < 2 ^ 53"
  shows "reads (readLength L) (lcn_bytes n) (Some n)"
  unfolding readLength_def by (rule reads_bind_ret [OF reads_lcn_bytes [OF assms]]) simp

lemma emits_lenenc_string:
  assumes "text_ok c enc s b" and "length b < 2 ^ 53"
  shows "emits z (writeLengthCodedString c s enc) (lcn_bytes (length b) @ b)"
proof -
  have "emits z (writes [writeLengthCodedNumber (Some (length b)), writeBuffer b])
          (lcn_bytes (length b) @ b @ [])"
    using assms(2) by (intro emits_Cons emits_Nil emits_writeBuffer emits_writeLengthCodedNumber) simp
  then show ?thesis
    using assms(1) by (simp add: emits_def writeLengthCodedString_def text_ok_def del: writes.simps)
qed

lemma reads_lenenc_string:
  assumes "long_ok L" and "codec_ok c" and "text_ok c enc s b" and "length b < 2 ^ 53"
  shows "reads (readLengthCodedString L c enc) (lcn_bytes (length b) @ b) (Some s)"
  unfolding readLengthCodedString_def
proof (rule reads_bind [OF reads_readLength [OF assms(1,4)]], unfold reads_def, intro allI impI)
  fix p :: packet and pre post
  assume p: "buffer p = pre @ b @ post" "offset p = length pre"
  have "decode c (pre @ b @ post) enc (length pre) (length pre + length b) = Inr s"
    using assms(3) by (simp add: decode_window text_ok_def)
  with p show "(case Some (length b) of None \<Rightarrow> Inr (None, p)
      | Some len \<Rightarrow>
          let p' = p\<lparr>offset := offset p + len\<rparr>;
              str = if len \<le> SHORT_STRING_MAX_LENGTH
                    then decodeShort c (buffer p') enc (offset p' - len) (offset p')
                    else decode c (buffer p') enc (offset p' - len) (offset p')
          in case str of Inl e \<Rightarrow> Inl e | Inr s \<Rightarrow> Inr (Some s, p')) =
      Inr (Some s, p\<lparr>offset := length pre + length b\<rparr>)"
    by (simp add: decodeShort_agrees [OF assms(2)] Let_def)
qed

lemma emits_lenenc_buffer:
  assumes "length b < 2 ^ 53"
  shows "emits z (writeLengthCodedBuffer b) (lcn_bytes (length b) @ b)"
proof -
  have "emits z (writes [writeLengthCodedNumber (Some (length b)), writeBuffer b])
          (lcn_bytes (length b) @ b @ [])"
    using assms by (intro emits_Cons emits_Nil emits_writeBuffer emits_writeLengthCodedNumber) simp
  then show ?thesis by (simp add: writeLengthCodedBuffer_def del: writes.simps)
qed

lemma reads_lenenc_buffer:
  assumes "long_ok L" and "length b < 2 ^ 53"
  shows "reads (readLengthCodedBuffer L) (lcn_bytes (length b) @ b) (Some b)"
proof -
  have "reads (rbind (readBuffer (length b)) (\<lambda>b. rret (Some b))) b (Some b)"
    by (rule reads_bind_ret [OF reads_readBuffer]) simp_all
  then show ?thesis
    unfolding readLengthCodedBuffer_def by (intro reads_bind [OF reads_readLength [OF assms]]) simp
qed

section \<open>The interface of a field\<close>

text \<open>
  A field of a packet: a writer and a reader that agree on its bytes. What the packet classes
  need of it is proved once: writing and reading back, and the dry run on the mock buffer,
  which measures exactly the bytes the real run writes.
\<close>

locale wire_field =
  fixes put :: "'a \<Rightarrow> wr"
    and get :: "'b rd"
    and bytes_of :: "'a \<Rightarrow> bytes"
    and valid :: "'a \<Rightarrow> bool"
    and view :: "'a \<Rightarrow> 'b"
  assumes emits_write: "valid x \<Longrightarrow> emits False (put x) (bytes_of x)"
    and reads_read: "valid x \<Longrightarrow> reads get (bytes_of x) (view x)"
begin

lemma write_then_read:
  assumes "valid x" and "\<not> is_mock p" and room: "offset p + length (bytes_of x) \<le> length (buffer p)"
    and "offset p + length (bytes_of x) \<le> end_pos p"
  shows "\<exists>p'. put x p = Inr p' \<and> offset p' = offset p + length (bytes_of x) \<and>
              length (buffer p') = length (buffer p) \<and>
              get (p'\<lparr>offset := offset p\<rparr>) = Inr (view x, p')"
proof -
  let ?n = "length (bytes_of x)"
  let ?pre = "take (offset p) (buffer p)" and ?old = "take ?n (drop (offset p) (buffer p))"
    and ?post = "drop (offset p + ?n) (buffer p)"
  let ?p = "p\<lparr>buffer := ?pre @ bytes_of x @ ?post, offset := offset p + ?n\<rparr>"
  have split: "buffer p = ?pre @ ?old @ ?post"
    by (metis append_take_drop_id drop_drop add.commute)
  have pre: "length ?pre = offset p" and old: "length ?old = ?n" using room by simp_all
  have "put x p = Inr ?p"
    using emitsD [OF emits_write [OF assms(1)] assms(2) split] pre old by simp
  moreover have "get (?p\<lparr>offset := offset p\<rparr>) = Inr (view x, ?p)"
    using readsD [OF reads_read [OF assms(1)], of "?p\<lparr>offset := offset p\<rparr>" ?pre ?post] pre assms(4)
    by simp
  ultimately show ?thesis using room by (intro exI [of _ ?p]) simp
qed

lemma dry_run:
  "valid x \<Longrightarrow> is_mock p \<Longrightarrow> buffer p = [] \<Longrightarrow>
   put x p = Inr (p\<lparr>offset := offset p + length (bytes_of x)\<rparr>)"
  using emits_mockD [OF emits_write] by simp

end

lemma reads_u8: "v < 256 \<Longrightarrow> reads readInt8 [word_of_nat v] (Some v)"
  using reads_readInt8 [of "word_of_nat v"] by (simp add: byte_of_nat_unat)

interpretation u8: wire_field "\<lambda>v. writeInt8 (int v)" readInt8 "\<lambda>v. [word_of_nat v]"
    "\<lambda>v. v < 256" Some
  by unfold_locales (auto intro: emits_writeInt8 reads_u8)

interpretation u16: wire_field "\<lambda>v. writeInt16 (int v)" readInt16 "le_bytes 2" "\<lambda>v. v < 256 ^ 2" "\<lambda>v. v"
  by unfold_locales (simp_all add: emits_writeInt16 readInt16_def reads_uint_le)

interpretation u32: wire_field "\<lambda>v. writeInt32 (int v)" readInt32 "le_bytes 4" "\<lambda>v. v < 256 ^ 4" "\<lambda>v. v"
  by unfold_locales (simp_all add: emits_writeInt32 readInt32_def reads_uint_le)

interpretation lcn: wire_field "\<lambda>n. writeLengthCodedNumber (Some n)" "readLengthCodedNumber L False sgnd"
    lcn_bytes "\<lambda>n. long_ok L \<and> n < 2 ^ 53" "\<lambda>n. IntNum (int n)" for L sgnd
  by unfold_locales (auto intro!: emits_writeLengthCodedNumber reads_lcn_bytes)

interpretation nul_string: wire_field "\<lambda>(s, b). writeNullTerminatedString c s enc"
    "readNullTerminatedString c enc" "\<lambda>(s, b). b @ [0]"
    "\<lambda>(s, b). text_ok c enc s b \<and> 0 \<notin> set b" fst for c enc
  by unfold_locales (auto intro: emits_nul_string reads_nul_string)

interpretation lenenc_string: wire_field "\<lambda>(s, b). writeLengthCodedString c s enc"
    "readLengthCodedString L c enc" "\<lambda>(s, b). lcn_bytes (length b) @ b"
    "\<lambda>(s, b). long_ok L \<and> codec_ok c \<and> text_ok c enc s b \<and> length b < 2 ^ 53"
    "\<lambda>(s, b). Some s" for L c enc
  by unfold_locales (auto intro: emits_lenenc_string reads_lenenc_string)

interpretation lenenc_buffer: wire_field writeLengthCodedBuffer "readLengthCodedBuffer L"
    "\<lambda>b. lcn_bytes (length b) @ b" "\<lambda>b. long_ok L \<and> length b < 2 ^ 53" Some for L
  by unfold_locales (auto intro: emits_lenenc_buffer reads_lenenc_buffer)

section \<open>Integers on the wire\<close>

text \<open>An implementation of the \<open>long\<close> package's contract, for the witnesses.\<close>

definition long_impl :: long_lib where
  "long_impl = \<lparr>long_toString = (\<lambda>lo hi u. int_to_string (long_value lo hi u)),
                long_toNumber = (\<lambda>lo hi u. js_round (long_value lo hi u))\<rparr>"

lemma long_impl_ok: "long_ok long_impl"
  by (simp add: long_ok_def long_impl_def)

lemma le_val_halves:
  "length b1 = 4 \<Longrightarrow> le_val (b1 @ b2) = le_val b1 + 2 ^ 32 * le_val b2"
  by (simp add: le_val_append)

lemma split_8: "length bs = 8 \<Longrightarrow> \<exists>b1 b2. bs = b1 @ b2 \<and> length b1 = 4 \<and> length b2 = (4::nat)"
  by (intro exI [of _ "take 4 bs"] exI [of _ "drop 4 bs"]) simp

lemma signed_high_word:
  assumes "lo < 2 ^ 32" and "hi < 2 ^ 32"
  shows "int lo + 2 ^ 32 * to_int32 (int hi) = signed_of 8 (lo + 2 ^ 32 * hi)"
proof (cases "hi < 2 ^ 31")
  case True
  then show ?thesis using assms by (simp add: signed_of_def)
next
  case False
  have "int hi + 2 ^ 31 = (int hi - 2 ^ 31) + 2 ^ 32" by simp
  then have "(int hi + 2 ^ 31) mod 2 ^ 32 = (int hi - 2 ^ 31) mod 2 ^ 32"
    by (metis mod_add_self2)
  also have "\<dots> = int hi - 2 ^ 31" using False assms by (intro mod_pos_pos_trivial) auto
  finally have "to_int32 (int hi) = int hi - 2 ^ 32" by (simp add: to_int32_def)
  then show ?thesis using False assms by (simp add: signed_of_def)
qed

lemma reads_two_words:
  assumes "length b1 = 4" and "length b2 = 4" and "f (le_val b1) (le_val b2) = rret x"
  shows "reads (rbind readInt32 (\<lambda>w0. rbind readInt32 (f w0))) (b1 @ b2) x"
proof -
  have "reads (rbind readInt32 (\<lambda>w0. rbind readInt32 (f w0))) (b1 @ b2 @ []) x"
    unfolding readInt32_def
    using reads_uint [of b1] reads_uint [of b2] assms reads_ret [of x]
    by (intro reads_bind) auto
  then show ?thesis by simp
qed

lemma safe_or_text:
  "t = int_to_string v \<Longrightarrow>
   (let resNumber = js_round v in
    if isSafeInteger resNumber then rret (IntNum resNumber) else rret (IntStr t)) =
   rret (lcn_result False v)"
  using js_round_id [of v] by (simp add: isSafeInteger_round lcn_result_def Let_def)

lemma reads_readInt64:
  assumes "long_ok L" and "length bs = 8"
  shows "reads (readInt64 L) bs (lcn_result False (int (le_val bs)))"
proof -
  obtain b1 b2 where b: "bs = b1 @ b2" "length b1 = 4" "length b2 = 4" using split_8 [OF assms(2)] by blast
  then have "le_val b1 < 2 ^ 32" "le_val b2 < 2 ^ 32"
    using le_val_bound [of b1] le_val_bound [of b2] by simp_all
  then have str: "long_toString L (le_val b1) (le_val b2) True = int_to_string (int (le_val (b1 @ b2)))"
    using assms(1) b by (simp add: long_ok_def long_value_def le_val_halves Let_def)
  have v: "int (le_val b1) + 2 ^ 32 * int (le_val b2) = int (le_val (b1 @ b2))"
    using b by (simp add: le_val_halves)
  show ?thesis
    unfolding readInt64_def b(1)
    by (rule reads_two_words [OF b(2,3)]) (simp only: v safe_or_text [OF str])
qed

lemma reads_readSInt64:
  assumes "long_ok L" and "length bs = 8"
  shows "reads (readSInt64 L) bs (lcn_result False (signed_of 8 (le_val bs)))"
proof -
  obtain b1 b2 where b: "bs = b1 @ b2" "length b1 = 4" "length b2 = 4" using split_8 [OF assms(2)] by blast
  then have w: "le_val b1 < 2 ^ 32" "le_val b2 < 2 ^ 32"
    using le_val_bound [of b1] le_val_bound [of b2] by simp_all
  then have str: "long_toString L (le_val b1) (le_val b2) False =
      int_to_string (signed_of 8 (le_val (b1 @ b2)))"
    using assms(1) b by (simp add: long_ok_def long_value_def le_val_halves Let_def)
  have v: "int (le_val b1) + 2 ^ 32 * to_int32 (int (le_val b2)) = signed_of 8 (le_val (b1 @ b2))"
    using signed_high_word [OF w] b by (simp add: le_val_halves)
  show ?thesis
    unfolding readSInt64_def b(1)
    by (rule reads_two_words [OF b(2,3)]) (simp only: v safe_or_text [OF str])
qed

lemma reads_lcn_64:
  assumes "long_ok L" and "length bs = 8"
  shows "reads (readLengthCodedNumber L bns sgnd) (0xfe # bs)
           (lcn_result bns (if sgnd then signed_of 8 (le_val bs) else int (le_val bs)))"
proof -
  obtain b1 b2 where b: "bs = b1 @ b2" "length b1 = 4" "length b2 = 4" using split_8 [OF assms(2)] by blast
  then have "long_value (le_val b1) (le_val b2) (\<not> sgnd) =
      (if sgnd then signed_of 8 (le_val bs) else int (le_val bs))"
    by (simp add: long_value_def le_val_halves Let_def)
  then show ?thesis
    using reads_lcn_ext [of 254, OF _ reads_lcn_8 [OF assms(1) b(2,3), of bns sgnd]] b(1) by simp
qed

text \<open>
  Claim C8. A length below \<open>2 ^ 53\<close>, written with \<open>writeLengthCodedNumber\<close> into a buffer
  with room for it, takes \<open>lengthCodedNumberLength\<close> bytes and reads back as the same number.
\<close>

theorem writeLengthCodedNumber_roundtrip:
  assumes "long_ok L" and "n < 2 ^ 53" and "\<not> is_mock p"
    and "offset p + lengthCodedNumberLength n \<le> length (buffer p)"
    and "offset p + lengthCodedNumberLength n \<le> end_pos p"
  shows "\<exists>p'. writeLengthCodedNumber (Some n) p = Inr p' \<and>
              offset p' = offset p + lengthCodedNumberLength n \<and>
              readLengthCodedNumber L False sgnd (p'\<lparr>offset := offset p\<rparr>) = Inr (IntNum (int n), p')"
  using lcn.write_then_read [of L n p sgnd] assms by (auto simp: length_lcn_bytes)

theorem writeLengthCodedNumber_roundtrip_witness:
  "\<exists>p'. writeLengthCodedNumber (Some 70000) (new_packet 0 [0, 0, 0, 0, 0, 0, 0, 0, 0, 0, 0, 0] 0 12) = Inr p' \<and>
        offset p' = 8 \<and>
        readLengthCodedNumber long_impl False False (p'\<lparr>offset := 4\<rparr>) = Inr (IntNum 70000, p')"
  using writeLengthCodedNumber_roundtrip
    [OF long_impl_ok, of 70000 "new_packet 0 [0, 0, 0, 0, 0, 0, 0, 0, 0, 0, 0, 0] 0 12" False]
  by (simp add: new_packet_def lengthCodedNumberLength_def)

text \<open>
  A length-coded integer in its eight-byte form is read without loss: the result is
  the number itself where a double holds it exactly (and, when big numbers are asked for as
  strings, it is not negative), and otherwise the decimal text of the integer, for the signed
  and the unsigned reading.
\<close>

theorem readLengthCodedNumber_exact:
  assumes "long_ok L" and "length bs = 8"
    and "buffer p = pre @ 0xfe # bs @ post" and "offset p = length pre"
    and "length pre + 9 \<le> end_pos p"
  shows "readLengthCodedNumber L bigNumberStrings sgnd p =
    Inr (let v = (if sgnd then signed_of 8 (le_val bs) else int (le_val bs)) in
         if \<bar>v\<bar> < 2 ^ 53 \<and> (0 \<le> v \<or> \<not> bigNumberStrings) then IntNum v
         else IntStr (int_to_string v), p\<lparr>offset := length pre + 9\<rparr>)"
  using readsD [OF reads_lcn_64 [OF assms(1,2)], of p pre post bigNumberStrings sgnd] assms
  by (simp add: lcn_result_def Let_def)

theorem readLengthCodedNumber_exact_witness:
  "readLengthCodedNumber long_impl False True
     (new_packet 0 ([0, 0, 0, 0, 0xfe] @ [255, 255, 255, 255, 255, 255, 255, 255]) 0 13) =
   Inr (IntNum (- 1), (new_packet 0 ([0, 0, 0, 0, 0xfe] @ [255, 255, 255, 255, 255, 255, 255, 255]) 0 13)\<lparr>offset := 13\<rparr>)"
  using readLengthCodedNumber_exact [OF long_impl_ok, of "[255, 255, 255, 255, 255, 255, 255, 255]"
      "new_packet 0 ([0, 0, 0, 0, 0xfe] @ [255, 255, 255, 255, 255, 255, 255, 255]) 0 13" "[0, 0, 0, 0]" "[]" False True]
  by (simp add: new_packet_def signed_of_def Let_def)

text \<open>
  The readers of 64-bit columns return the stored integer exactly: the number when
  it is a safe integer, its decimal text when it is not, unsigned and in two's complement.
\<close>

theorem readInt64_exact:
  assumes "long_ok L" and "length bs = 8"
    and "buffer p = pre @ bs @ post" and "offset p = length pre"
    and "length pre + 8 \<le> end_pos p"
  shows "readInt64 L p = Inr (lcn_result False (int (le_val bs)), p\<lparr>offset := length pre + 8\<rparr>) \<and>
         readSInt64 L p = Inr (lcn_result False (signed_of 8 (le_val bs)), p\<lparr>offset := length pre + 8\<rparr>)"
  using readsD [OF reads_readInt64 [OF assms(1,2)], of p pre post]
    readsD [OF reads_readSInt64 [OF assms(1,2)], of p pre post] assms
  by simp

theorem readInt64_exact_witness:
  "readSInt64 long_impl (new_packet 0 ([0, 0, 0, 0] @ [255, 255, 255, 255, 255, 255, 255, 255]) 0 12) =
     Inr (IntNum (- 1), (new_packet 0 ([0, 0, 0, 0] @ [255, 255, 255, 255, 255, 255, 255, 255]) 0 12)\<lparr>offset := 12\<rparr>)"
  using readInt64_exact [OF long_impl_ok, of "[255, 255, 255, 255, 255, 255, 255, 255]"
      "new_packet 0 ([0, 0, 0, 0] @ [255, 255, 255, 255, 255, 255, 255, 255]) 0 12" "[0, 0, 0, 0]" "[]"]
  by (simp add: new_packet_def signed_of_def lcn_result_def)

text \<open>
  A \<open>null\<close> length is written as the length 0, one zero byte, not as the marker 0xfb
  that the reader takes for NULL.
\<close>

theorem writeLengthCodedNumber_null:
  "writeLengthCodedNumber None = writeLengthCodedNumber (Some 0)"
  by (simp add: writeLengthCodedNumber_def)

section \<open>Whole packets\<close>

text \<open>
  \<open>holds p bs\<close>: what is left of the packet, from the offset to its end, is \<open>bs\<close>.
  \<open>reads_all r bs x\<close>: reading a packet that holds \<open>bs\<close> gives \<open>x\<close> and ends at its end.
\<close>

definition holds :: "packet \<Rightarrow> bytes \<Rightarrow> bool" where
  "holds p bs \<longleftrightarrow> offset p \<le> end_pos p \<and> end_pos p \<le> length (buffer p) \<and>
     slice (offset p) (end_pos p) (buffer p) = bs"

definition reads_all :: "'a rd \<Rightarrow> bytes \<Rightarrow> 'a \<Rightarrow> bool" where
  "reads_all r bs x \<longleftrightarrow> (\<forall>p. holds p bs \<longrightarrow> r p = Inr (x, p\<lparr>offset := end_pos p\<rparr>))"

lemma holds_split:
  assumes "holds p bs"
  shows "buffer p = take (offset p) (buffer p) @ bs @ drop (end_pos p) (buffer p)"
    and "length bs = end_pos p - offset p" "offset p \<le> end_pos p" "end_pos p \<le> length (buffer p)"
proof -
  have le: "offset p \<le> end_pos p" "end_pos p \<le> length (buffer p)"
    and bs: "bs = take (end_pos p - offset p) (drop (offset p) (buffer p))"
    using assms by (auto simp: holds_def slice_def)
  have "drop (end_pos p) (buffer p) = drop (end_pos p - offset p) (drop (offset p) (buffer p))"
    using le by simp
  then show "buffer p = take (offset p) (buffer p) @ bs @ drop (end_pos p) (buffer p)"
    unfolding bs by (metis append_take_drop_id)
  show "length bs = end_pos p - offset p" "offset p \<le> end_pos p" "end_pos p \<le> length (buffer p)"
    using le bs by simp_all
qed

lemma reads_allD: "reads_all r bs x \<Longrightarrow> holds p bs \<Longrightarrow> r p = Inr (x, p\<lparr>offset := end_pos p\<rparr>)"
  by (simp add: reads_all_def)

lemma reads_reads_all:
  assumes "reads r bs x"
  shows "reads_all r bs x"
  unfolding reads_all_def
proof (intro allI impI)
  fix p :: packet
  assume p: "holds p bs"
  show "r p = Inr (x, p\<lparr>offset := end_pos p\<rparr>)"
    using readsD [OF assms holds_split(1) [OF p]] holds_split(2-4) [OF p] by simp
qed

lemma reads_all_bind:
  assumes r: "reads r b1 x" and f: "reads_all (f x) b2 y"
  shows "reads_all (rbind r f) (b1 @ b2) y"
  unfolding reads_all_def
proof (intro allI impI)
  fix p :: packet
  assume p: "holds p (b1 @ b2)"
  note split = holds_split [OF p]
  have "r p = Inr (x, p\<lparr>offset := offset p + length b1\<rparr>)"
    using readsD [OF r, of p "take (offset p) (buffer p)" "b2 @ drop (end_pos p) (buffer p)"] split
    by simp
  moreover have "holds (p\<lparr>offset := offset p + length b1\<rparr>) b2"
    using split p slice_append_right [of b1 0 "length b2" b2]
    by (auto simp: holds_def slice_def) (metis add.commute append_eq_conv_conj drop_drop drop_take)
  ultimately show "rbind r f p = Inr (y, p\<lparr>offset := end_pos p\<rparr>)"
    using reads_allD [OF f] by (simp add: rbind_def)
qed

lemma reads_all_bind_ret: "reads_all r b x \<Longrightarrow> f x = rret y \<Longrightarrow> reads_all (rbind r f) b y"
  by (simp add: reads_all_def rbind_def rret_def)

lemma reads_all_rest: "reads_all readRest bs bs"
  by (simp add: reads_all_def readRest_def holds_def)

lemma decode_at_slice:
  assumes "st \<le> en" and "en \<le> length buf"
  shows "decode c buf enc st en = decode c (slice st en buf) enc 0 (en - st)"
proof -
  have "buf = take st buf @ slice st en buf @ drop en buf"
    using assms(1) by (metis append_take_drop_id drop_drop le_add_diff_inverse2 slice_def)
  moreover have "length (take st buf) = st" "length (slice st en buf) = en - st"
    using assms by simp_all
  ultimately show ?thesis
    using decode_window [of c "take st buf" "slice st en buf" "drop en buf" enc] assms(1)
    by (metis le_add_diff_inverse)
qed

lemma reads_all_string:
  assumes "text_ok c enc s b"
  shows "reads_all (readString c None enc) b s"
  unfolding reads_all_def
proof (intro allI impI)
  fix p :: packet
  assume p: "holds p b"
  then have "decode c (buffer p) enc (offset p) (end_pos p) = decode c b enc 0 (length b)"
    using decode_at_slice [of "offset p" "end_pos p" "buffer p" c enc] holds_split(2) [OF p]
    by (auto simp: holds_def)
  then show "readString c None enc p = Inr (s, p\<lparr>offset := end_pos p\<rparr>)"
    using assms p by (simp add: readString_def text_ok_def holds_def)
qed

text \<open>A packet built by writers over the given memory.\<close>

definition build :: "bytes \<Rightarrow> wr list \<Rightarrow> packet result" where
  "build mem ws = writes ws (new_packet 0 mem 0 (length mem))"

lemma wbind_assoc: "wbind (wbind r f) g = wbind r (\<lambda>p. wbind (f p) g)"
  by (simp add: wbind_def split: sum.split)

lemma wbind_Inr [simp]: "wbind (Inr p) f = f p" "wbind r Inr = r"
  by (simp_all add: wbind_def split: sum.split)

lemma writes_append: "writes (ws @ vs) p = wbind (writes ws p) (writes vs)"
proof (induction ws arbitrary: p)
  case (Cons w ws)
  then have "writes (ws @ vs) = (\<lambda>p. wbind (writes ws p) (writes vs))"
    by (simp add: fun_eq_iff)
  then show ?case
    by (simp add: wbind_assoc)
qed simp

lemma emits_append:
  assumes "emits z (writes ws) a" and "emits z (writes vs) b"
  shows "emits z (writes (ws @ vs)) (a @ b)"
proof -
  have "writes (ws @ vs) = writes (writes ws # vs)"
    by (simp add: fun_eq_iff writes_append)
  then show ?thesis
    using emits_Cons [OF assms] by simp
qed

lemma build_snoc: "build mem ws = Inr p \<Longrightarrow> build mem (ws @ [w]) = w p"
proof -
  have "writes [] = Inr"
    by (simp add: fun_eq_iff)
  then show "build mem ws = Inr p \<Longrightarrow> build mem (ws @ [w]) = w p"
    by (simp add: build_def writes_append)
qed

lemma build_emits:
  assumes "emits z (writes ws) bs" and "length mem = length bs + 4"
    and "z \<Longrightarrow> drop 4 mem = replicate (length bs) 0"
  shows "build mem ws =
    Inr ((new_packet 0 (take 4 mem @ bs) 0 (length bs + 4))\<lparr>offset := length bs + 4\<rparr>)"
  using emitsD [OF assms(1), of "new_packet 0 mem 0 (length mem)" "take 4 mem" "drop 4 mem" "[]"]
    assms(2,3)
  by (simp add: build_def new_packet_def)

text \<open>Writers that leave room behind them.\<close>

lemma build_room:
  assumes "emits False (writes ws) bs" and "length bs + 4 \<le> length mem"
  shows "\<exists>p. build mem ws = Inr p \<and> offset p = length bs + 4 \<and> length (buffer p) = length mem"
proof -
  let ?p = "new_packet 0 mem 0 (length mem)"
  have split: "buffer ?p = take 4 mem @ take (length bs) (drop 4 mem) @ drop (length bs + 4) mem"
    by (simp add: new_packet_def) (metis append_take_drop_id drop_drop)
  have "length (take (length bs) (drop 4 mem)) = length bs" "offset ?p = length (take 4 mem)"
    "\<not> is_mock ?p"
    using assms(2) by (simp_all add: new_packet_def)
  then have "writes ws ?p = Inr (?p\<lparr>buffer := take 4 mem @ bs @ drop (length bs + 4) mem,
      offset := length (take 4 mem) + length bs\<rparr>)"
    using emitsD [OF assms(1) _ split] by simp
  then show ?thesis
    using assms(2) by (simp add: build_def)
qed

text \<open>What the packet carries behind its header; the other side gets a packet that holds it.\<close>

definition payload :: "packet \<Rightarrow> bytes" where
  "payload p = drop 4 (buffer p)"

lemma build_payload:
  assumes "emits z (writes ws) bs" and "length mem = length bs + 4"
    and "z \<Longrightarrow> drop 4 mem = replicate (length bs) 0"
  shows "\<exists>p. build mem ws = Inr p \<and> payload p = bs \<and> length (buffer p) = length mem \<and>
    start p = 0 \<and> end_pos p = length mem \<and> offset p = length mem \<and> \<not> is_mock p"
  using build_emits [OF assms] assms(2) by (simp add: new_packet_def payload_def)

end
