(* ===== verification/PacketParser.thy ===== *)
theory PacketParser
  imports Packet
begin

text \<open>
  \<open>src/lib/packet_parser.js\<close>: the state machine that cuts the chunks of a socket into
  packets. The record has the fields of the class; \<open>this.execute\<close>, which holds the method
  to run on the next chunk, is the constructor of \<open>parser_state\<close> naming it. Each method
  returns the packets handed to \<open>onPacket\<close>, in order, and the new state. The contents of
  \<open>Buffer.allocUnsafe(n)\<close> are whatever the parameter \<open>alloc\<close> gives.

  The reference semantics cuts the whole byte stream at once (\<open>split_frames\<close>) and joins the
  frames of large packets (\<open>assemble\<close>); the lemmas show that the state machine delivers
  the packets of the stream whatever the chunk boundaries are.
\<close>

section \<open>State\<close>

definition MAX_PACKET_LENGTH :: nat where
  "MAX_PACKET_LENGTH = 16777215"

datatype parser_state = ExecuteStart | ExecutePayload | ExecuteHeader2 | ExecuteHeader3

text \<open>The two header lengths in use: 4 bytes, and 7 for the compressed protocol.\<close>

datatype header_kind = PlainHeader | CompressedHeader

fun header_length :: "header_kind \<Rightarrow> nat" where
  "header_length PlainHeader = 4"
| "header_length CompressedHeader = 7"

lemma header_length_pos [simp]: "0 < header_length k"
  by (cases k) auto

lemma header_length_ge: "4 \<le> header_length k"
  by (cases k) auto

record packet_parser =
  pp_buffer :: "bytes list"
  pp_bufferLength :: nat
  pp_header :: header_kind
  pp_headerLen :: nat
  pp_length :: nat
  pp_largePacketParts :: "bytes list"
  pp_firstPacketSequenceId :: nat
  pp_execute :: parser_state

definition new_parser :: "header_kind \<Rightarrow> packet_parser" where
  "new_parser k =
     \<lparr>pp_buffer = [], pp_bufferLength = 0, pp_header = k, pp_headerLen = 0, pp_length = 0,
      pp_largePacketParts = [], pp_firstPacketSequenceId = 0, pp_execute = ExecuteStart\<rparr>"

definition readPacketLength :: "bytes \<Rightarrow> nat \<Rightarrow> nat" where
  "readPacketLength b off =
     (let b0 = unat (b ! off); b1 = unat (b ! (off + 1)); b2 = unat (b ! (off + 2)) in
      if b1 + b2 = 0 then b0 else b0 + b1 * 2 ^ 8 + b2 * 2 ^ 16)"

lemma loop_progress:
  "3 \<le> n - st \<Longrightarrow> l + header_length k \<le> n - st \<Longrightarrow> n - (st + header_length k + l) < n - st"
  using header_length_pos [of k] by linarith

section \<open>Operations\<close>

text \<open>\<open>_flushLargePacket4\<close> and \<open>_flushLargePacket7\<close>: a header of zeros, then the parts.\<close>

definition flushLargePacket :: "packet_parser \<Rightarrow> packet list \<times> packet_parser" where
  "flushLargePacket s =
     (let body = concat (replicate (header_length (pp_header s)) 0 # pp_largePacketParts s);
          packet = (new_packet (pp_firstPacketSequenceId s) body 0 (length body))
                     \<lparr>numPackets := length (pp_largePacketParts s)\<rparr>
      in ([packet], s\<lparr>pp_largePacketParts := []\<rparr>))"

text \<open>
  What both methods do with a complete frame of \<open>this.length\<close> payload bytes that starts at
  \<open>st\<close> in \<open>buf\<close>.
\<close>

definition deliver :: "packet_parser \<Rightarrow> bytes \<Rightarrow> nat \<Rightarrow> nat \<Rightarrow> packet list \<times> packet_parser" where
  "deliver s buf st seq =
     (let hl = header_length (pp_header s) in
      if pp_length s < MAX_PACKET_LENGTH \<and> length (pp_largePacketParts s) = 0
      then ([\<lparr>sequenceId = seq, numPackets = 1, buffer = buf, start = st, offset = st + 4,
              end_pos = st + hl + pp_length s, is_mock = False\<rparr>], s)
      else
        let s1 = (if length (pp_largePacketParts s) = 0
                  then s\<lparr>pp_firstPacketSequenceId := seq\<rparr> else s);
            s2 = s1\<lparr>pp_largePacketParts :=
                      pp_largePacketParts s1 @ [slice (st + hl) (st + hl + pp_length s) buf]\<rparr>
        in if pp_length s2 < MAX_PACKET_LENGTH then flushLargePacket s2 else ([], s2))"

text \<open>\<open>executeStart\<close>, as the loop from the position \<open>st\<close> in the chunk.\<close>

function executeStart :: "packet_parser \<Rightarrow> bytes \<Rightarrow> nat \<Rightarrow> packet list \<times> packet_parser" where
  "executeStart s chunk st =
     (let en = length chunk in
      if en - st \<ge> 3 then
        let s1 = s\<lparr>pp_length := readPacketLength chunk st\<rparr>;
            hl = header_length (pp_header s1) in
        if en - st \<ge> pp_length s1 + hl then
          let (ps, s2) = deliver s1 chunk st (unat (chunk ! (st + 3)));
              (qs, s3) = executeStart s2 chunk (st + hl + pp_length s1)
          in (ps @ qs, s3)
        else
          ([], s1\<lparr>pp_buffer := [slice (st + 3) en chunk], pp_bufferLength := en - st - 3,
                  pp_execute := ExecutePayload\<rparr>)
      else if en - st > 0 then
        let s1 = s\<lparr>pp_headerLen := en - st, pp_length := unat (chunk ! st)\<rparr> in
        if pp_headerLen s1 = 2
        then ([], s1\<lparr>pp_length := unat (chunk ! st) + unat (chunk ! (st + 1)) * 2 ^ 8,
                     pp_execute := ExecuteHeader3\<rparr>)
        else ([], s1\<lparr>pp_execute := ExecuteHeader2\<rparr>)
      else ([], s))"
  by pat_completeness auto
termination
  by (relation "measure (\<lambda>(s, chunk, st). length chunk - st)")
     (simp_all add: loop_progress)

declare executeStart.simps [simp del]

text \<open>Copying the stored chunks into the payload, from the offset on.\<close>

fun copy_chunks :: "bytes list \<Rightarrow> nat \<Rightarrow> bytes \<Rightarrow> nat \<times> bytes" where
  "copy_chunks [] off payload = (off, payload)"
| "copy_chunks (c # cs) off payload = copy_chunks cs (off + length c) (copy_into c off payload)"

definition executePayload ::
    "(nat \<Rightarrow> bytes) \<Rightarrow> packet_parser \<Rightarrow> bytes \<Rightarrow> packet list \<times> packet_parser" where
  "executePayload alloc s chunk =
     (let en = length chunk;
          hl = header_length (pp_header s);
          remainingPayload = nat (int (pp_length s) - int (pp_bufferLength s) + int hl - 3) in
      if en \<ge> remainingPayload then
        let (off, payload0) = copy_chunks (pp_buffer s) 3 (alloc (pp_length s + hl));
            payload = copy_into (slice 0 remainingPayload chunk) off payload0;
            (ps, s1) = deliver s payload 0 (unat (payload ! 3));
            s2 = s1\<lparr>pp_buffer := [], pp_bufferLength := 0, pp_execute := ExecuteStart\<rparr>
        in if en - remainingPayload > 0
           then let (qs, s3) = executeStart s2 (slice remainingPayload en chunk) 0 in (ps @ qs, s3)
           else (ps, s2)
      else ([], s\<lparr>pp_buffer := pp_buffer s @ [chunk],
                  pp_bufferLength := pp_bufferLength s + length chunk\<rparr>))"

text \<open>\<open>chunk[0]\<close> of an empty chunk is \<open>undefined\<close>, which the shift takes for 0.\<close>

definition executeHeader3 ::
    "(nat \<Rightarrow> bytes) \<Rightarrow> packet_parser \<Rightarrow> bytes \<Rightarrow> packet list \<times> packet_parser" where
  "executeHeader3 alloc s chunk =
     executePayload alloc
       (s\<lparr>pp_length := pp_length s + bits_of (byte_at chunk 0) * 2 ^ 16,
          pp_execute := ExecutePayload\<rparr>)
       (drop 1 chunk)"

definition executeHeader2 ::
    "(nat \<Rightarrow> bytes) \<Rightarrow> packet_parser \<Rightarrow> bytes \<Rightarrow> packet list \<times> packet_parser" where
  "executeHeader2 alloc s chunk =
     (let s1 = s\<lparr>pp_length := pp_length s + bits_of (byte_at chunk 0) * 2 ^ 8\<rparr> in
      if length chunk > 1 then
        executePayload alloc
          (s1\<lparr>pp_length := pp_length s1 + bits_of (byte_at chunk 1) * 2 ^ 16,
              pp_execute := ExecutePayload\<rparr>)
          (drop 2 chunk)
      else ([], s1\<lparr>pp_execute := ExecuteHeader3\<rparr>))"

definition parser_execute ::
    "(nat \<Rightarrow> bytes) \<Rightarrow> packet_parser \<Rightarrow> bytes \<Rightarrow> packet list \<times> packet_parser" where
  "parser_execute alloc s chunk =
     (case pp_execute s of
        ExecuteStart \<Rightarrow> executeStart s chunk 0
      | ExecutePayload \<Rightarrow> executePayload alloc s chunk
      | ExecuteHeader2 \<Rightarrow> executeHeader2 alloc s chunk
      | ExecuteHeader3 \<Rightarrow> executeHeader3 alloc s chunk)"

text \<open>The chunks of a connection, one after the other.\<close>

fun parser_run ::
    "(nat \<Rightarrow> bytes) \<Rightarrow> packet_parser \<Rightarrow> bytes list \<Rightarrow> packet list \<times> packet_parser" where
  "parser_run alloc s [] = ([], s)"
| "parser_run alloc s (c # cs) =
     (let (ps, s1) = parser_execute alloc s c; (qs, s2) = parser_run alloc s1 cs in (ps @ qs, s2))"

section \<open>Reference semantics\<close>

text \<open>A frame: its sequence id, the extra header bytes after the first four, and its payload.\<close>

type_synonym frame = "nat \<times> bytes \<times> bytes"

function split_frames :: "header_kind \<Rightarrow> bytes \<Rightarrow> frame list \<times> bytes" where
  "split_frames k bs =
     (let hl = header_length k; len = le_val (take 3 bs) in
      if length bs \<ge> 3 \<and> length bs \<ge> len + hl then
        let (fs, rest) = split_frames k (drop (hl + len) bs)
        in ((unat (bs ! 3), slice 4 hl bs, slice hl (hl + len) bs) # fs, rest)
      else ([], bs))"
  by pat_completeness auto
termination
  by (relation "measure (\<lambda>(k, bs). length bs)")
     (auto intro!: diff_less simp del: length_drop simp: length_drop)

declare split_frames.simps [simp del]

text \<open>
  Joining frames: a payload of the maximal length is continued by the next frame. The state
  is the parts so far and the sequence id of the first; a message is a sequence id, a number
  of frames and a body.
\<close>

type_synonym message = "nat \<times> nat \<times> bytes"

fun assemble_frame :: "nat \<times> bytes list \<Rightarrow> frame \<Rightarrow> message list \<times> nat \<times> bytes list" where
  "assemble_frame (first, parts) (seq, extra, body) =
     (if length body < MAX_PACKET_LENGTH \<and> parts = [] then ([(seq, 1, extra @ body)], first, parts)
      else
        let first' = (if parts = [] then seq else first); parts' = parts @ [body] in
        if length body < MAX_PACKET_LENGTH
        then ([(first', length parts', replicate (length extra) 0 @ concat parts')], first', [])
        else ([], first', parts'))"

fun assemble :: "nat \<times> bytes list \<Rightarrow> frame list \<Rightarrow> message list \<times> nat \<times> bytes list" where
  "assemble a [] = ([], a)"
| "assemble a (f # fs) =
     (let (ms, a1) = assemble_frame a f; (ns, a2) = assemble a1 fs in (ms @ ns, a2))"

text \<open>What the handler of a packet sees of it: everything from the offset to the end.\<close>

definition packet_view :: "packet \<Rightarrow> message" where
  "packet_view p = (sequenceId p, numPackets p, slice (offset p) (end_pos p) (buffer p))"

section \<open>The state machine against the reference\<close>

text \<open>The bytes received that belong to no complete frame yet, as the state stores them.\<close>

definition pending :: "packet_parser \<Rightarrow> bytes" where
  "pending s =
     (case pp_execute s of
        ExecuteStart \<Rightarrow> []
      | ExecuteHeader2 \<Rightarrow> le_bytes 1 (pp_length s)
      | ExecuteHeader3 \<Rightarrow> le_bytes 2 (pp_length s)
      | ExecutePayload \<Rightarrow> le_bytes 3 (pp_length s) @ concat (pp_buffer s))"

definition parser_inv :: "packet_parser \<Rightarrow> bool" where
  "parser_inv s \<longleftrightarrow>
     pp_bufferLength s = length (concat (pp_buffer s)) \<and>
     (case pp_execute s of
        ExecuteStart \<Rightarrow> pp_buffer s = []
      | ExecuteHeader2 \<Rightarrow> pp_buffer s = [] \<and> pp_length s < 256
      | ExecuteHeader3 \<Rightarrow> pp_buffer s = [] \<and> pp_length s < 65536
      | ExecutePayload \<Rightarrow>
          pp_length s < 16777216 \<and>
          3 + pp_bufferLength s < pp_length s + header_length (pp_header s))"

definition large_state :: "packet_parser \<Rightarrow> nat \<times> bytes list" where
  "large_state s = (pp_firstPacketSequenceId s, pp_largePacketParts s)"

lemma readPacketLength_le:
  assumes "off + 3 \<le> length b"
  shows "readPacketLength b off = le_val (take 3 (drop off b))"
proof -
  have "take 3 (drop off b) = [b ! off, b ! (off + 1), b ! (off + 2)]"
    using assms by (auto intro!: nth_equalityI simp: nth_Cons' less_Suc_eq numeral_3_eq_3)
  then show ?thesis
    by (simp add: readPacketLength_def Let_def)
qed

text \<open>A complete frame: the packet delivered is the message of the frame.\<close>

lemma deliver_assemble:
  assumes "st + header_length (pp_header s) + pp_length s \<le> length buf"
    and "deliver s buf st seq = (ps, s')"
    and "assemble_frame (large_state s)
           (seq, slice (st + 4) (st + header_length (pp_header s)) buf,
            slice (st + header_length (pp_header s))
              (st + header_length (pp_header s) + pp_length s) buf) = (ms, a)"
  shows "map packet_view ps = ms \<and>
         s' = s\<lparr>pp_firstPacketSequenceId := fst a, pp_largePacketParts := snd a\<rparr>"
proof -
  let ?hl = "header_length (pp_header s)"
  have hl: "4 \<le> ?hl"
    by (rule header_length_ge)
  define E where "E = slice (st + 4) (st + ?hl) buf"
  define B where "B = slice (st + ?hl) (st + ?hl + pp_length s) buf"
  have whole: "slice (st + 4) (st + ?hl + pp_length s) buf = E @ B"
    unfolding E_def B_def using hl by (intro slice_append_mid) auto
  have lens: "length E = ?hl - 4" "length B = pp_length s"
    using assms(1) hl by (auto simp: E_def B_def)
  have flushed: "slice 4 (length (concat (replicate ?hl 0 # xs))) (concat (replicate ?hl 0 # xs)) =
      replicate (?hl - 4) 0 @ concat xs" for xs :: "bytes list"
    using hl by (simp add: slice_drop)
  show ?thesis
    using assms(2) assms(3) [folded E_def B_def] whole B_def [symmetric]
    by (auto simp: deliver_def flushLargePacket_def Let_def packet_view_def new_packet_def
        large_state_def lens flushed simp del: concat.simps split: if_splits)
qed

lemma split_frames_step:
  assumes "le_val (take 3 bs) + header_length k \<le> length bs"
    and "split_frames k (drop (header_length k + le_val (take 3 bs)) bs) = (fs, rest)"
  shows "split_frames k bs =
    ((unat (bs ! 3), slice 4 (header_length k) bs,
      slice (header_length k) (header_length k + le_val (take 3 bs)) bs) # fs, rest)"
  using assms header_length_ge [of k] by (simp add: split_frames.simps [of k bs] Let_def)

lemma split_frames_stop:
  "length bs < 3 \<or> length bs < le_val (take 3 bs) + header_length k \<Longrightarrow> split_frames k bs = ([], bs)"
  by (auto simp: split_frames.simps [of k bs])

lemma split_frames_Nil [simp]: "split_frames k [] = ([], [])"
  by (rule split_frames_stop) simp

text \<open>Frames never depend on bytes that come later.\<close>

lemma split_frames_append:
  "split_frames k xs = (fs, rest) \<Longrightarrow> split_frames k (rest @ ys) = (gs, rest') \<Longrightarrow>
   split_frames k (xs @ ys) = (fs @ gs, rest')"
proof (induction k xs arbitrary: fs rule: split_frames.induct)
  case (1 k xs)
  let ?n = "header_length k + le_val (take 3 xs)"
  show ?case
  proof (cases "3 \<le> length xs \<and> le_val (take 3 xs) + header_length k \<le> length xs")
    case True
    obtain hs r where hs: "split_frames k (drop ?n xs) = (hs, r)"
      by fastforce
    have fs: "fs = (unat (xs ! 3), slice 4 (header_length k) xs, slice (header_length k) ?n xs) # hs"
      and r: "r = rest"
      using "1.prems"(1) split_frames_step [OF _ hs] True by auto
    have "split_frames k (drop ?n xs @ ys) = (hs @ gs, rest')"
      using "1.IH" [OF refl refl True] hs "1.prems"(2) r by auto
    moreover have "take 3 (xs @ ys) = take 3 xs" "drop ?n (xs @ ys) = drop ?n xs @ ys"
      "(xs @ ys) ! 3 = xs ! 3"
      "slice 4 (header_length k) (xs @ ys) = slice 4 (header_length k) xs"
      "slice (header_length k) ?n (xs @ ys) = slice (header_length k) ?n xs"
      using True header_length_ge [of k] by (auto simp: nth_append slice_append_left)
    ultimately show ?thesis
      using split_frames_step [of "xs @ ys" k "hs @ gs" rest'] True fs by simp
  next
    case False
    then show ?thesis
      using "1.prems" split_frames_stop [of xs k] by auto
  qed
qed

lemma assemble_append:
  "assemble a fs = (ms, a1) \<Longrightarrow> assemble a1 gs = (ns, a2) \<Longrightarrow> assemble a (fs @ gs) = (ms @ ns, a2)"
  by (induction fs arbitrary: a ms) (auto split: prod.splits)

lemma large_state_simps [simp]:
  "large_state (s\<lparr>pp_buffer := b\<rparr>) = large_state s"
  "large_state (s\<lparr>pp_bufferLength := n\<rparr>) = large_state s"
  "large_state (s\<lparr>pp_headerLen := n\<rparr>) = large_state s"
  "large_state (s\<lparr>pp_length := n\<rparr>) = large_state s"
  "large_state (s\<lparr>pp_execute := x\<rparr>) = large_state s"
  "large_state (s\<lparr>pp_firstPacketSequenceId := fst a, pp_largePacketParts := snd a\<rparr>) = a"
  by (simp_all add: large_state_def)

text \<open>The relation between one call of the state machine and the reference.\<close>

definition follows :: "packet_parser \<Rightarrow> bytes \<Rightarrow> packet list \<times> packet_parser \<Rightarrow> bool" where
  "follows s bs r \<longleftrightarrow>
     (let (fs, rest) = split_frames (pp_header s) bs; (ms, a) = assemble (large_state s) fs in
      map packet_view (fst r) = ms \<and> pp_header (snd r) = pp_header s \<and>
      large_state (snd r) = a \<and> pending (snd r) = rest \<and> parser_inv (snd r))"

lemma executeStart_follows:
  "pp_execute s = ExecuteStart \<Longrightarrow> pp_buffer s = [] \<Longrightarrow> pp_bufferLength s = 0 \<Longrightarrow> st \<le> length chunk \<Longrightarrow>
   follows s (drop st chunk) (executeStart s chunk st)"
proof (induction s chunk st rule: executeStart.induct)
  case (1 s chunk st)
  let ?k = "pp_header s" and ?bs = "drop st chunk"
  let ?hl = "header_length ?k" and ?len = "readPacketLength chunk st"
  let ?s1 = "s\<lparr>pp_length := ?len\<rparr>"
  consider (frame) "3 \<le> length chunk - st" "?len + ?hl \<le> length chunk - st"
    | (partial) "3 \<le> length chunk - st" "\<not> ?len + ?hl \<le> length chunk - st"
    | (header) "length chunk - st < 3" by linarith
  then show ?case
  proof cases
    case frame
    have len: "?len = le_val (take 3 ?bs)"
      using frame by (intro readPacketLength_le) auto
    obtain ps s2 where d: "deliver ?s1 chunk st (unat (chunk ! (st + 3))) = (ps, s2)"
      by fastforce
    obtain ms a where f: "assemble_frame (large_state s) (unat (chunk ! (st + 3)),
        slice (st + 4) (st + ?hl) chunk, slice (st + ?hl) (st + ?hl + ?len) chunk) = (ms, a)"
      by (metis prod_cases3 surj_pair)
    have s2: "map packet_view ps = ms"
      "s2 = ?s1\<lparr>pp_firstPacketSequenceId := fst a, pp_largePacketParts := snd a\<rparr>"
      using deliver_assemble [of st ?s1 chunk "unat (chunk ! (st + 3))" ps s2 ms a] d f frame by auto
    have ih: "follows s2 (drop (st + ?hl + ?len) chunk) (executeStart s2 chunk (st + ?hl + ?len))"
      using "1.IH" [OF refl frame(1) refl refl _ d [symmetric] refl] "1.prems" frame s2 by auto
    obtain fs rest where fs: "split_frames ?k (drop (st + ?hl + ?len) chunk) = (fs, rest)"
      by fastforce
    have "split_frames ?k ?bs = ((unat (chunk ! (st + 3)),
        slice (st + 4) (st + ?hl) chunk, slice (st + ?hl) (st + ?hl + ?len) chunk) # fs, rest)"
      using split_frames_step [of ?bs ?k fs rest] fs frame "1.prems" header_length_ge [of ?k]
      by (simp add: len [symmetric] slice_of_drop ac_simps)
    then show ?thesis
      using ih fs frame d s2 f
      by (auto simp: follows_def executeStart.simps [of s chunk st] Let_def split: prod.splits)
  next
    case partial
    have len: "?len = le_val (take 3 ?bs)" and "length (take 3 ?bs) = 3"
      using partial by (auto intro!: readPacketLength_le)
    then have len_bytes: "le_bytes 3 ?len = take 3 ?bs" "?len < 16777216"
      using le_bytes_le_val [of "take 3 ?bs"] le_val_bound [of "take 3 ?bs"] by simp_all
    have "split_frames ?k ?bs = ([], ?bs)"
      using partial len by (intro split_frames_stop) auto
    moreover have "executeStart s chunk st = ([], ?s1\<lparr>pp_buffer := [slice (st + 3) (length chunk) chunk],
        pp_bufferLength := length chunk - st - 3, pp_execute := ExecutePayload\<rparr>)"
      using partial by (simp add: executeStart.simps [of s chunk st] Let_def)
    moreover have "take 3 ?bs @ slice (st + 3) (length chunk) chunk = ?bs"
      using append_take_drop_id [of 3 ?bs] by (simp add: slice_drop ac_simps del: append_take_drop_id)
    ultimately show ?thesis
      using partial len_bytes by (auto simp: follows_def pending_def parser_inv_def)
  next
    case header
    have stop: "split_frames ?k ?bs = ([], ?bs)"
      using header by (intro split_frames_stop) auto
    consider "?bs = []" | b where "?bs = [b]" | b c where "?bs = [b, c]"
      using header by (cases ?bs rule: remdups_adj.cases) (auto simp flip: length_drop)
    then show ?thesis
    proof cases
      case 1
      then show ?thesis
        using "1.prems" stop
        by (simp add: follows_def executeStart.simps [of s chunk st] pending_def parser_inv_def)
    next
      case (2 b)
      then have "length chunk - st = 1" "chunk ! st = b"
        using nth_via_drop [of st chunk b] by (auto simp flip: length_drop)
      then show ?thesis
        using "1.prems" stop 2 le_bytes_le_val [of "[b]"]
        by (simp add: follows_def executeStart.simps [of s chunk st] pending_def parser_inv_def
            unat_byte_less)
    next
      case (3 b c)
      then have "length chunk - st = 2" "chunk ! st = b" "chunk ! Suc st = c"
        using length_drop [of st chunk] nth_drop [of st chunk 0] nth_drop [of st chunk 1] "1.prems"
        by simp_all
      moreover have "le_val [b, c] < 65536"
        using le_val_bound [of "[b, c]"] by simp
      moreover have "le_bytes 2 (le_val [b, c]) = [b, c]"
        using le_bytes_le_val [of "[b, c]"] by (metis length_Cons list.size(3) numeral_2_eq_2)
      ultimately show ?thesis
        using "1.prems" stop 3
        by (simp add: follows_def executeStart.simps [of s chunk st] pending_def parser_inv_def Let_def
            mult.commute)
    qed
  qed
qed

lemma copy_into_fits:
  "off + length src \<le> length dst \<Longrightarrow>
   copy_into src off dst = take off dst @ src @ drop (off + length src) dst"
  by (cases src) (auto simp: copy_into_def)

lemma copy_chunks_eq:
  "off + length (concat cs) \<le> length dst \<Longrightarrow>
   copy_chunks cs off dst =
     (off + length (concat cs), take off dst @ concat cs @ drop (off + length (concat cs)) dst)"
  by (induction cs arbitrary: off dst) (auto simp: copy_into_fits ac_simps)

text \<open>\<open>follows\<close> looks at the header kind and the large packet of the state only.\<close>

lemma follows_cong:
  "pp_header s = pp_header t \<Longrightarrow> large_state s = large_state t \<Longrightarrow> follows s bs r = follows t bs r"
  by (simp add: follows_def)

lemma follows_split:
  assumes "split_frames (pp_header s) bs = (f # fs, rest)"
    and "assemble_frame (large_state s) f = (ms, a)"
    and "map packet_view ps = ms"
    and "pp_header t = pp_header s" "large_state t = a"
    and "split_frames (pp_header s) bs' = (fs, rest)"
    and "follows t bs' (qs, r)"
  shows "follows s bs (ps @ qs, r)"
  using assms by (auto simp: follows_def split: prod.splits)

lemma executePayload_follows:
  assumes alloc: "\<And>n. length (alloc n) = n"
    and s: "pp_execute s = ExecutePayload" "parser_inv s"
  shows "follows s (pending s @ chunk) (executePayload alloc s chunk)"
proof -
  let ?hl = "header_length (pp_header s)" and ?len = "pp_length s" and ?bs = "pending s @ chunk"
  let ?n = "?len + ?hl - (3 + pp_bufferLength s)"
  have pending: "pending s = le_bytes 3 ?len @ concat (pp_buffer s)"
    and buf: "pp_bufferLength s = length (concat (pp_buffer s))"
    and bound: "?len < 16777216" "3 + pp_bufferLength s < ?len + ?hl"
    using s by (auto simp: pending_def parser_inv_def)
  have len: "le_val (take 3 ?bs) = ?len"
    using bound by (simp add: pending le_val_le_bytes)
  have rem: "nat (int ?len - int (pp_bufferLength s) + int ?hl - 3) = ?n"
    using bound by linarith
  show ?thesis
  proof (cases "?n \<le> length chunk")
    case False
    then have "executePayload alloc s chunk = ([], s\<lparr>pp_buffer := pp_buffer s @ [chunk],
        pp_bufferLength := pp_bufferLength s + length chunk\<rparr>)"
      by (simp add: executePayload_def Let_def rem)
    moreover have "split_frames (pp_header s) ?bs = ([], ?bs)"
      using False len by (intro split_frames_stop) (simp add: pending buf)
    ultimately show ?thesis
      using False s bound by (simp add: follows_def pending_def parser_inv_def buf)
  next
    case True
    define payload where "payload = take 3 (alloc (?len + ?hl)) @ concat (pp_buffer s) @ take ?n chunk"
    have payload: "copy_into (slice 0 ?n chunk) (3 + pp_bufferLength s)
        (snd (copy_chunks (pp_buffer s) 3 (alloc (?len + ?hl)))) = payload"
      and off: "fst (copy_chunks (pp_buffer s) 3 (alloc (?len + ?hl))) = 3 + pp_bufferLength s"
      using True bound by (simp_all add: copy_chunks_eq copy_into_fits alloc buf slice_def payload_def)
    have len_payload: "length payload = ?len + ?hl"
      using True bound alloc by (simp add: payload_def buf)
    have view: "drop 3 payload = drop 3 (take (?len + ?hl) ?bs)"
      using True bound alloc by (simp add: payload_def pending buf)
    obtain ps s1 where d: "deliver s payload 0 (unat (payload ! 3)) = (ps, s1)"
      by fastforce
    let ?f = "(unat (?bs ! 3), slice 4 ?hl ?bs, slice ?hl (?hl + ?len) ?bs)"
    obtain ms a where f: "assemble_frame (large_state s) ?f = (ms, a)"
      by (metis prod_cases3 surj_pair)
    have whole: "?len + ?hl \<le> length ?bs" "drop (?hl + ?len) ?bs = drop ?n chunk"
      using True bound by (simp_all add: pending buf add.commute)
    have same: "slice (3 + i) (3 + j) payload = slice (3 + i) (3 + j) ?bs"
      if "3 + j \<le> ?len + ?hl" for i j
      using that view len_payload by (metis slice_of_drop slice_of_take)
    have "payload ! 3 = ?bs ! 3"
      using nth_drop [of 3 payload 0] nth_drop [of 3 "take (?len + ?hl) ?bs" 0] view whole(1) len_payload
        header_length_ge [of "pp_header s"] nth_take [of 3 "?len + ?hl" ?bs]
      by (simp del: take_append drop_append drop_take)
    moreover have "slice 4 ?hl payload = slice 4 ?hl ?bs"
      "slice ?hl (?hl + ?len) payload = slice ?hl (?hl + ?len) ?bs"
      using same [of "?hl - 3" 1] same [of "?hl + ?len - 3" "?hl - 3"] header_length_ge [of "pp_header s"]
      by simp_all
    ultimately have s1: "map packet_view ps = ms"
      "s1 = s\<lparr>pp_firstPacketSequenceId := fst a, pp_largePacketParts := snd a\<rparr>"
      using deliver_assemble [of 0 s payload "unat (payload ! 3)" ps s1 ms a] d f len_payload by auto
    obtain fs rest where fs: "split_frames (pp_header s) (drop ?n chunk) = (fs, rest)"
      by fastforce
    let ?s2 = "s1\<lparr>pp_buffer := [], pp_bufferLength := 0, pp_execute := ExecuteStart\<rparr>"
    have "split_frames (pp_header s) ?bs = (?f # fs, rest)"
      using split_frames_step [of ?bs "pp_header s" fs rest, unfolded len] fs whole by simp
    moreover have "executePayload alloc s chunk = (ps @ fst (executeStart ?s2 (drop ?n chunk) 0),
        snd (executeStart ?s2 (drop ?n chunk) 0))"
    proof -
      obtain off' payload0 where c: "copy_chunks (pp_buffer s) 3 (alloc (?len + ?hl)) = (off', payload0)"
        by fastforce
      then have "copy_into (slice 0 ?n chunk) off' payload0 = payload"
        using payload off by simp
      then show ?thesis
        using True d c
        by (auto simp: executePayload_def Let_def rem slice_drop executeStart.simps [of _ "[]"]
            case_prod_unfold)
    qed
    moreover have "follows ?s2 (drop ?n chunk) (executeStart ?s2 (drop ?n chunk) 0)"
      using executeStart_follows [of ?s2 0 "drop ?n chunk"] by simp
    moreover have "pp_header ?s2 = pp_header s" "large_state ?s2 = a"
      using s1 by simp_all
    ultimately show ?thesis
      using follows_split [of s ?bs ?f fs rest ms a ps ?s2 "drop ?n chunk"] f s1(1) fs
      by (metis prod.collapse)
  qed
qed

lemma pending_header:
  "v < 2 ^ (8 * n) \<Longrightarrow> le_bytes (Suc n) (v + unat c * 2 ^ (8 * n)) = le_bytes n v @ [c]"
proof (induction n arbitrary: v)
  case (Suc n)
  have "v div 256 < 2 ^ (8 * n)"
    using Suc.prems by (intro less_mult_imp_div_less) (simp add: power_add mult.commute)
  moreover have "unat c * 2 ^ (8 * Suc n) = 256 * (unat c * 2 ^ (8 * n))"
    by (simp add: power_add)
  then have "(v + unat c * 2 ^ (8 * Suc n)) div 256 = v div 256 + unat c * 2 ^ (8 * n)"
    and mod: "(v + unat c * 2 ^ (8 * Suc n)) mod 256 = v mod 256"
    by (simp_all only: mod_mult_self2 div_mult_self2 rel_simps)
  moreover have "(word_of_nat (v + unat c * 2 ^ (8 * Suc n)) :: byte) = word_of_nat v"
    by (metis byte_of_nat_mod mod)
  ultimately show ?case
    using Suc.IH [of "v div 256"] by simp
qed simp

lemma le_bytes_2_byte: "v < 256 \<Longrightarrow> le_bytes 2 (v + unat c * 256) = le_bytes 1 v @ [c]"
  using pending_header [of v 1 c] by (simp add: numeral_2_eq_2)

lemma le_bytes_3_byte: "v < 65536 \<Longrightarrow> le_bytes 3 (v + unat c * 65536) = le_bytes 2 v @ [c]"
  using pending_header [of v 2 c] by (simp add: numeral_3_eq_3)

lemma executeHeader3_follows:
  assumes alloc: "\<And>n. length (alloc n) = n"
    and s: "pp_execute s = ExecuteHeader3" "parser_inv s" and chunk: "chunk = c # cs"
  shows "follows s (pending s @ chunk) (executeHeader3 alloc s chunk)"
proof -
  let ?s = "s\<lparr>pp_length := pp_length s + unat c * 65536, pp_execute := ExecutePayload\<rparr>"
  have len: "pp_length s < 65536" "pp_buffer s = []" "pp_bufferLength s = 0"
    using s by (auto simp: parser_inv_def)
  moreover have "pending ?s = pending s @ [c]"
    using s len by (simp add: pending_def le_bytes_3_byte)
  moreover have "parser_inv ?s"
    using len header_length_ge [of "pp_header s"] unat_byte_less [of c] by (simp add: parser_inv_def)
  ultimately show ?thesis
    using executePayload_follows [of alloc ?s cs] alloc chunk follows_cong [of s ?s]
    by (simp add: executeHeader3_def byte_at_def bits_of_def)
qed

lemma executeHeader2_follows:
  assumes alloc: "\<And>n. length (alloc n) = n"
    and s: "pp_execute s = ExecuteHeader2" "parser_inv s" and chunk: "chunk = c # cs"
  shows "follows s (pending s @ chunk) (executeHeader2 alloc s chunk)"
proof -
  let ?s = "s\<lparr>pp_length := pp_length s + unat c * 256, pp_execute := ExecuteHeader3\<rparr>"
  have len: "pp_length s < 256" "pp_buffer s = []" "pp_bufferLength s = 0"
    using s by (auto simp: parser_inv_def)
  have pending: "pending ?s = pending s @ [c]"
    using s len by (simp add: pending_def le_bytes_2_byte)
  have inv: "parser_inv ?s"
    using len unat_byte_less [of c] by (simp add: parser_inv_def)
  show ?thesis
  proof (cases cs)
    case Nil
    have "split_frames (pp_header s) (pending ?s) = ([], pending ?s)"
      by (rule split_frames_stop) (simp add: pending_def)
    then show ?thesis
      using inv pending chunk Nil
      by (simp add: executeHeader2_def byte_at_def bits_of_def follows_def)
  next
    case (Cons d ds)
    then have "executeHeader2 alloc s chunk = executeHeader3 alloc ?s cs"
      using chunk by (simp add: executeHeader2_def executeHeader3_def byte_at_def bits_of_def)
    then show ?thesis
      using executeHeader3_follows [of alloc ?s cs d ds] alloc inv Cons chunk pending
        follows_cong [of s ?s] by simp
  qed
qed

lemma parser_execute_follows:
  assumes "\<And>n. length (alloc n) = n" and "parser_inv s" and "chunk \<noteq> []"
  shows "follows s (pending s @ chunk) (parser_execute alloc s chunk)"
proof (cases "pp_execute s")
  case ExecuteStart
  then show ?thesis
    using executeStart_follows [of s 0 chunk] assms
    by (simp add: parser_execute_def pending_def parser_inv_def)
next
  case ExecutePayload
  then show ?thesis
    using executePayload_follows [of alloc s chunk] assms by (simp add: parser_execute_def)
next
  case ExecuteHeader2
  then show ?thesis
    using executeHeader2_follows [of alloc s chunk] assms
    by (cases chunk) (simp_all add: parser_execute_def)
next
  case ExecuteHeader3
  then show ?thesis
    using executeHeader3_follows [of alloc s chunk] assms
    by (cases chunk) (simp_all add: parser_execute_def)
qed

lemma pending_stop: "parser_inv s \<Longrightarrow> split_frames (pp_header s) (pending s) = ([], pending s)"
  by (rule split_frames_stop)
     (auto simp: pending_def parser_inv_def le_val_le_bytes split: parser_state.splits)

lemma parser_run_follows:
  assumes "\<And>n. length (alloc n) = n" and "parser_inv s" and "[] \<notin> set cs"
  shows "follows s (pending s @ concat cs) (parser_run alloc s cs)"
  using assms(2,3)
proof (induction cs arbitrary: s)
  case Nil
  then show ?case
    by (simp add: follows_def pending_stop)
next
  case (Cons c cs)
  obtain ps s1 where e: "parser_execute alloc s c = (ps, s1)"
    by fastforce
  obtain fs rest where fs: "split_frames (pp_header s) (pending s @ c) = (fs, rest)"
    by fastforce
  obtain ms a where ms: "assemble (large_state s) fs = (ms, a)"
    using prod.exhaust by blast
  have step: "map packet_view ps = ms" "pp_header s1 = pp_header s" "large_state s1 = a"
    "pending s1 = rest" "parser_inv s1"
    using parser_execute_follows [of alloc s c] assms(1) Cons.prems e fs ms
    by (auto simp: follows_def)
  have "follows s1 (pending s1 @ concat cs) (parser_run alloc s1 cs)"
    using Cons.prems step by (intro Cons.IH) auto
  then show ?case
    using step e ms split_frames_append [OF fs, of "concat cs"] assemble_append [OF ms]
    by (auto simp: follows_def split: prod.splits)
qed

lemma parser_inv_new [simp]: "parser_inv (new_parser k)"
  and pending_new [simp]: "pending (new_parser k) = []"
  and large_state_new [simp]: "large_state (new_parser k) = (0, [])"
  and header_new [simp]: "pp_header (new_parser k) = k"
  by (simp_all add: parser_inv_def pending_def large_state_def new_parser_def)

section \<open>Encoded frames\<close>

definition encode_frame :: "frame \<Rightarrow> bytes" where
  "encode_frame f =
     (case f of (seq, extra, body) \<Rightarrow> le_bytes 3 (length body) @ word_of_nat seq # extra @ body)"

definition frame_ok :: "header_kind \<Rightarrow> frame \<Rightarrow> bool" where
  "frame_ok k f \<longleftrightarrow>
     (case f of (seq, extra, body) \<Rightarrow>
        seq < 256 \<and> length extra + 4 = header_length k \<and> length body \<le> MAX_PACKET_LENGTH)"

lemma split_frames_encoded_append:
  assumes "\<forall>f\<in>set frames. frame_ok k f" and "split_frames k later = (fs, rest)"
  shows "split_frames k (concat (map encode_frame frames) @ later) = (frames @ fs, rest)"
  using assms(1)
proof (induction frames)
  case Nil
  then show ?case using assms(2) by simp
next
  case (Cons f frames)
  obtain seq extra body where f: "f = (seq, extra, body)"
    by (cases f)
  have enc: "encode_frame f = le_bytes 3 (length body) @ word_of_nat seq # extra @ body"
    by (simp add: encode_frame_def f)
  let ?bs = "encode_frame f @ concat (map encode_frame frames) @ later"
  have ok: "seq < 256" "header_length k = length extra + 4" "length body < 16777216"
    using Cons.prems f by (auto simp: frame_ok_def MAX_PACKET_LENGTH_def)
  have len: "le_val (take 3 ?bs) = length body"
    using ok by (simp add: encode_frame_def f le_val_le_bytes)
  have "split_frames k (drop (header_length k + length body) ?bs) = (frames @ fs, rest)"
    using Cons ok by (simp add: enc)
  then have "split_frames k ?bs = ((unat (?bs ! 3), slice 4 (header_length k) ?bs,
      slice (header_length k) (header_length k + length body) ?bs) # frames @ fs, rest)"
    using split_frames_step [of ?bs k "frames @ fs" rest] ok len by (simp add: enc)
  moreover have "unat (?bs ! 3) = seq"
    using ok by (simp add: enc nth_append unat_byte_of_nat)
  moreover have "slice 4 (header_length k) ?bs = extra"
    "slice (header_length k) (header_length k + length body) ?bs = body"
    using ok by (simp_all add: enc slice_def)
  ultimately show ?case
    by (simp add: f)
qed

lemma split_frames_encoded:
  "\<forall>f\<in>set frames. frame_ok k f \<Longrightarrow> split_frames k (concat (map encode_frame frames)) = (frames, [])"
  using split_frames_encoded_append [of frames k "[]" "[]" "[]"] by simp

section \<open>Properties\<close>

text \<open>
  Claim C1. The packets a stream parser delivers do not depend on how the socket cuts the
  stream into chunks: they are the messages of the whole byte stream, large packets joined,
  with the sequence id of their first frame and the number of frames joined.
\<close>

theorem parser_chunk_independent:
  assumes "\<And>n. length (alloc n) = n" and "[] \<notin> set chunks"
  shows "map packet_view (fst (parser_run alloc (new_parser k) chunks)) =
         fst (assemble (0, []) (fst (split_frames k (concat chunks))))"
  using parser_run_follows [of alloc "new_parser k" chunks] assms
  by (simp add: follows_def case_prod_unfold Let_def)

theorem parser_chunk_independent_witness:
  "map packet_view (fst (parser_run (\<lambda>n. replicate n 7) (new_parser PlainHeader)
      [[2], [0, 0, 5, 1], [9, 1, 0], [0, 6, 8]])) = [(5, 1, [1, 9]), (6, 1, [8])]"
proof -
  have "concat [[2], [0, 0, 5, 1], [9, 1, 0], [0, 6, 8]] =
      concat (map encode_frame [(5, [], [1, 9]), (6, [], [8])])"
    by (simp add: encode_frame_def numeral_3_eq_3)
  moreover have "\<forall>f\<in>set [(5, [], [1, 9]), (6, [], [8])]. frame_ok PlainHeader f"
    by (simp add: frame_ok_def MAX_PACKET_LENGTH_def)
  ultimately have "fst (assemble (0, []) (fst (split_frames PlainHeader
      (concat [[2], [0, 0, 5, 1], [9, 1, 0], [0, 6, 8]])))) = [(5, 1, [1, 9]), (6, 1, [8])]"
    by (simp only: split_frames_encoded) (simp add: MAX_PACKET_LENGTH_def)
  then show ?thesis
    using parser_chunk_independent [of "\<lambda>n. replicate n 7"
        "[[2], [0, 0, 5, 1], [9, 1, 0], [0, 6, 8]]" PlainHeader] by simp
qed

text \<open>
  Claim C6. Between two chunks the parser holds exactly the bytes of the stream that belong to
  no complete frame, whatever the chunks were: no byte is lost, duplicated or kept too long.
\<close>

theorem parser_pending_exact:
  assumes "\<And>n. length (alloc n) = n" and "[] \<notin> set chunks"
  shows "pending (snd (parser_run alloc (new_parser k) chunks)) = snd (split_frames k (concat chunks)) \<and>
         parser_inv (snd (parser_run alloc (new_parser k) chunks))"
  using parser_run_follows [of alloc "new_parser k" chunks] assms
  by (simp add: follows_def case_prod_unfold Let_def)

theorem parser_pending_exact_witness:
  "pending (snd (parser_run (\<lambda>n. replicate n 7) (new_parser PlainHeader)
      [[1, 0, 0, 5, 1], [9], [1, 0, 6]])) = [9, 1, 0, 6]"
proof -
  have "split_frames PlainHeader [9, 1, 0, 6] = ([], [9, 1, 0, 6])"
    by (rule split_frames_stop) (simp add: numeral_3_eq_3)
  then have "snd (split_frames PlainHeader (concat [[1, 0, 0, 5, 1], [9], [1, 0, 6]])) = [9, 1, 0, 6]"
    using split_frames_encoded_append [of "[(5, [], [1])]" PlainHeader "[9, 1, 0, 6]"]
    by (simp add: frame_ok_def encode_frame_def MAX_PACKET_LENGTH_def numeral_3_eq_3)
  then show ?thesis
    using parser_pending_exact [of "\<lambda>n. replicate n 7" "[[1, 0, 0, 5, 1], [9], [1, 0, 6]]"
        PlainHeader] by simp
qed

text \<open>
  A stream made of well-formed frames, cut anywhere, is delivered as the messages
  of those frames and nothing is left over.
\<close>

theorem parser_delivers_frames:
  assumes "\<And>n. length (alloc n) = n" and "[] \<notin> set chunks"
    and "\<forall>f\<in>set frames. frame_ok k f"
    and "concat chunks = concat (map encode_frame frames)"
  shows "map packet_view (fst (parser_run alloc (new_parser k) chunks)) = fst (assemble (0, []) frames) \<and>
         pending (snd (parser_run alloc (new_parser k) chunks)) = []"
  using parser_run_follows [of alloc "new_parser k" chunks] assms
  by (simp add: follows_def case_prod_unfold Let_def split_frames_encoded)

theorem parser_delivers_frames_witness:
  "map packet_view (fst (parser_run (\<lambda>n. replicate n 7) (new_parser CompressedHeader)
      [[1, 0, 0, 4, 0, 0], [3, 42]])) = [(4, 1, [0, 0, 3, 42])]"
proof -
  have "concat [[1, 0, 0, 4, 0, 0], [3, 42]] = concat (map encode_frame [(4, [0, 0, 3], [42])])"
    by (simp add: encode_frame_def numeral_3_eq_3)
  then show ?thesis
    using parser_delivers_frames [of "\<lambda>n. replicate n 7" "[[1, 0, 0, 4, 0, 0], [3, 42]]"
        "[(4, [0, 0, 3], [42])]" CompressedHeader]
    by (simp add: frame_ok_def MAX_PACKET_LENGTH_def)
qed

end
