(* ===== verification/Framing.thy ===== *)
theory Framing
  imports PacketParser WireFormat
begin

text \<open>
  The sending side of \<open>src/lib/base/connection.js\<close>: \<open>writePacket\<close> cuts a packet into
  frames of at most 16777215 payload bytes and numbers them. The buffers handed to
  \<open>this.write\<close> are returned in order, with the new sequence id. The lemmas put the frames
  through the packet parser of the receiving side.
\<close>

section \<open>Operations\<close>

definition bumpSequenceId :: "nat \<Rightarrow> nat \<Rightarrow> nat" where
  "bumpSequenceId seq n = (seq + n) mod 256"

definition frame_header :: "nat \<Rightarrow> nat \<Rightarrow> bytes" where
  "frame_header len seq =
     (if len = MAX_PACKET_LENGTH then [0xff, 0xff, 0xff, word_of_nat seq]
      else [word_of_nat (len mod 256), word_of_nat (len div 2 ^ 8 mod 256),
            word_of_nat (len div 2 ^ 16 mod 256), word_of_nat seq])"

text \<open>The loop \<open>for (offset = 4; offset < 4 + length; offset += MAX_PACKET_LENGTH)\<close>.\<close>

function write_chunks :: "bytes \<Rightarrow> nat \<Rightarrow> nat \<Rightarrow> nat \<Rightarrow> bytes list \<times> nat" where
  "write_chunks buf len off seq =
     (if off < 4 + len then
        let chunk = slice off (off + MAX_PACKET_LENGTH) buf;
            (rest, seq') = write_chunks buf len (off + MAX_PACKET_LENGTH) (bumpSequenceId seq 1)
        in (frame_header (length chunk) seq # chunk # rest, seq')
      else ([], seq))"
  by pat_completeness auto
termination
  by (relation "measure (\<lambda>(buf, len, off, seq). 4 + len - off)") (auto simp: MAX_PACKET_LENGTH_def)

declare write_chunks.simps [simp del]

definition writePacket :: "nat \<Rightarrow> packet \<Rightarrow> (bytes list \<times> nat) result" where
  "writePacket seq p =
     (if packet_length p < MAX_PACKET_LENGTH then
        case writeHeader seq p of
          Inl e \<Rightarrow> Inl e
        | Inr p' \<Rightarrow> Inr ([buffer p'], bumpSequenceId seq 1)
      else Inr (write_chunks (buffer p) (packet_length p) 4 seq))"

section \<open>Frames sent\<close>

text \<open>The pieces of a payload, each but the last of the maximal length.\<close>

fun pieces :: "nat \<Rightarrow> bytes \<Rightarrow> bytes list" where
  "pieces 0 body = []"
| "pieces (Suc n) body = take MAX_PACKET_LENGTH body # pieces n (drop MAX_PACKET_LENGTH body)"

fun number_frames :: "nat \<Rightarrow> bytes list \<Rightarrow> frame list" where
  "number_frames seq [] = []"
| "number_frames seq (b # bs) = (seq, [], b) # number_frames (bumpSequenceId seq 1) bs"

text \<open>
  How many frames \<open>writePacket\<close> sends for a payload of \<open>n\<close> bytes: it counts the four
  bytes of the header in.
\<close>

definition frame_count :: "nat \<Rightarrow> nat" where
  "frame_count n = (if n + 4 < MAX_PACKET_LENGTH then 1
     else (n + 4 + (MAX_PACKET_LENGTH - 1)) div MAX_PACKET_LENGTH)"

definition payload_packet :: "packet \<Rightarrow> bool" where
  "payload_packet p \<longleftrightarrow>
     start p = 0 \<and> 4 \<le> length (buffer p) \<and> end_pos p = length (buffer p) \<and> \<not> is_mock p"

lemma bumpSequenceId_less [simp]: "bumpSequenceId seq n < 256"
  by (simp add: bumpSequenceId_def)

lemma bumpSequenceId_add: "bumpSequenceId (bumpSequenceId seq m) n = bumpSequenceId seq (m + n)"
  by (simp add: bumpSequenceId_def mod_simps add.assoc)

lemma frame_header_eq:
  assumes "len \<le> MAX_PACKET_LENGTH"
  shows "frame_header len seq @ body = le_bytes 3 len @ word_of_nat seq # body"
proof (cases "len = MAX_PACKET_LENGTH")
  case True
  then show ?thesis
    by (simp add: frame_header_def MAX_PACKET_LENGTH_def numeral_3_eq_3)
next
  case False
  then show ?thesis
    by (simp add: frame_header_def numeral_3_eq_3 div_mult2_eq [symmetric])
qed

lemma ceil_div_step:
  assumes "0 < l" and "0 < (m::nat)"
  shows "(l + (m - 1)) div m = Suc ((l - m + (m - 1)) div m)"
proof (cases "m \<le> l")
  case True
  then have "l + (m - 1) = (l - m + (m - 1)) + m"
    by simp
  then show ?thesis
    using assms by (simp only: div_add_self2 neq0_conv)
next
  case False
  then have "l + (m - 1) = (l - 1) + m"
    using assms by simp
  then show ?thesis
    using False assms by (simp only: div_add_self2 neq0_conv) simp
qed

lemma write_chunks_frames:
  "write_chunks buf len off seq =
    (let n = (4 + len - off + (MAX_PACKET_LENGTH - 1)) div MAX_PACKET_LENGTH in
     (concat (map (\<lambda>(s, e, b). [frame_header (length b) s, b])
        (number_frames seq (pieces n (drop off buf)))), bumpSequenceId seq n))"
  if "seq < 256"
  using that
proof (induction buf len off seq rule: write_chunks.induct)
  case (1 buf len off seq)
  have M: "0 < MAX_PACKET_LENGTH"
    by (simp add: MAX_PACKET_LENGTH_def)
  show ?case
  proof (cases "off < 4 + len")
    case True
    define n where "n = (4 + len - (off + MAX_PACKET_LENGTH) + (MAX_PACKET_LENGTH - 1)) div MAX_PACKET_LENGTH"
    have n: "(4 + len - off + (MAX_PACKET_LENGTH - 1)) div MAX_PACKET_LENGTH = Suc n"
      using True M ceil_div_step [of "4 + len - off" MAX_PACKET_LENGTH] by (simp add: n_def)
    have "drop MAX_PACKET_LENGTH (drop off buf) = drop (off + MAX_PACKET_LENGTH) buf"
      by (simp add: add.commute)
    then show ?thesis
      unfolding n
      using True "1.IH" [OF True refl, folded n_def]
      by (simp add: write_chunks.simps [of buf len off seq] Let_def slice_def bumpSequenceId_add
          plus_1_eq_Suc del: One_nat_def drop_drop)
  next
    case False
    then show ?thesis
      using M "1.prems" by (simp add: write_chunks.simps [of buf len off seq] bumpSequenceId_def)
  qed
qed

lemma concat_number_frames:
  "\<forall>b\<in>set bs. length b \<le> MAX_PACKET_LENGTH \<Longrightarrow>
   concat (concat (map (\<lambda>(s, e, b). [frame_header (length b) s, b]) (number_frames seq bs))) =
   concat (map encode_frame (number_frames seq bs))"
  by (induction bs arbitrary: seq) (auto simp: encode_frame_def frame_header_eq)

lemma pieces_length: "b \<in> set (pieces n body) \<Longrightarrow> length b \<le> MAX_PACKET_LENGTH"
  by (induction n arbitrary: body) auto

lemma number_frames_ok:
  "f \<in> set (number_frames seq bs) \<Longrightarrow> \<forall>b\<in>set bs. length b \<le> MAX_PACKET_LENGTH \<Longrightarrow> seq < 256 \<Longrightarrow>
   frame_ok PlainHeader f"
  by (induction bs arbitrary: seq) (auto simp: frame_ok_def [of _ "(_, _, _)"])

section \<open>What the receiver assembles\<close>

lemma assemble_parts:
  assumes "\<forall>b\<in>set bs. length b = MAX_PACKET_LENGTH" and "length l < MAX_PACKET_LENGTH"
    and "parts \<noteq> []"
  shows "assemble (fst0, parts) (number_frames seq (bs @ [l])) =
    ([(fst0, length parts + Suc (length bs), concat parts @ concat bs @ l)], fst0, [])"
  using assms
proof (induction bs arbitrary: seq parts)
  case (Cons b bs)
  then show ?case
    using Cons.IH [of "parts @ [b]" "bumpSequenceId seq 1"] by simp
qed (simp add: Let_def)

lemma assemble_number_frames:
  assumes "\<forall>b\<in>set bs. length b = MAX_PACKET_LENGTH" and "length l < MAX_PACKET_LENGTH"
  shows "\<exists>x. assemble (y, []) (number_frames seq (bs @ [l])) =
    ([(seq, Suc (length bs), concat bs @ l)], x, [])"
proof (cases bs)
  case Nil
  then show ?thesis
    using assms by (simp add: Let_def)
next
  case (Cons b bs')
  then show ?thesis
    using assms assemble_parts [of bs' l "[b]" seq "bumpSequenceId seq 1"] by simp
qed

lemma number_frames_append:
  "seq < 256 \<Longrightarrow> number_frames seq (bs @ cs) =
   number_frames seq bs @ number_frames (bumpSequenceId seq (length bs)) cs"
proof (induction bs arbitrary: seq)
  case (Cons b bs)
  then show ?case
    using Cons.IH [of "bumpSequenceId seq 1"] by (simp add: bumpSequenceId_add)
qed (simp add: bumpSequenceId_def)

lemma pieces_split:
  "n * MAX_PACKET_LENGTH \<le> length body \<Longrightarrow>
   length (pieces n body) = n \<and> (\<forall>b\<in>set (pieces n body). length b = MAX_PACKET_LENGTH) \<and>
   concat (pieces n body) @ drop (n * MAX_PACKET_LENGTH) body = body \<and>
   pieces (n + m) body = pieces n body @ pieces m (drop (n * MAX_PACKET_LENGTH) body)"
proof (induction n arbitrary: body)
  case (Suc n)
  then have "n * MAX_PACKET_LENGTH \<le> length (drop MAX_PACKET_LENGTH body)"
    by simp
  then have ih: "length (pieces n (drop MAX_PACKET_LENGTH body)) = n"
    "\<forall>b\<in>set (pieces n (drop MAX_PACKET_LENGTH body)). length b = MAX_PACKET_LENGTH"
    "concat (pieces n (drop MAX_PACKET_LENGTH body)) @
       drop (n * MAX_PACKET_LENGTH) (drop MAX_PACKET_LENGTH body) = drop MAX_PACKET_LENGTH body"
    "pieces (n + m) (drop MAX_PACKET_LENGTH body) =
       pieces n (drop MAX_PACKET_LENGTH body) @
       pieces m (drop (n * MAX_PACKET_LENGTH) (drop MAX_PACKET_LENGTH body))"
    using Suc.IH [of "drop MAX_PACKET_LENGTH body"] by blast+
  have d: "drop (n * MAX_PACKET_LENGTH) (drop MAX_PACKET_LENGTH body) =
      drop (Suc n * MAX_PACKET_LENGTH) body"
    by (simp add: add.commute)
  show ?case
    using ih Suc.prems unfolding d by simp
qed simp

section \<open>writePacket against the parser\<close>

lemma writeHeader_frame:
  assumes "payload_packet p" and "length (buffer p) < 256 ^ 3" and "seq < 256"
  shows "writeHeader seq p = Inr (p\<lparr>buffer := le_bytes 3 (length (buffer p) - 4) @
    word_of_nat seq # drop 4 (buffer p)\<rparr>)"
proof -
  let ?n = "length (buffer p) - 4" and ?p = "p\<lparr>offset := 0\<rparr>"
  have p: "\<not> is_mock p" "4 \<le> length (buffer p)"
    using assms(1) by (auto simp: payload_packet_def)
  have "emits False (writes [writeInt24 (int ?n), writeInt8 (int seq)])
      (le_bytes 3 ?n @ [word_of_nat seq] @ [])"
    using assms by (intro emits_Cons emits_Nil emits_writeInt24 emits_writeInt8) auto
  from emitsD [OF this, of ?p "[]" "take 4 (buffer p)" "drop 4 (buffer p)"]
  have "writes [writeInt24 (int ?n), writeInt8 (int seq)] ?p =
      Inr (p\<lparr>buffer := le_bytes 3 ?n @ word_of_nat seq # drop 4 (buffer p), offset := 4\<rparr>)"
    using p by (simp del: writes.simps)
  moreover have n: "int (length (buffer p)) - 4 = int ?n"
    using p by simp
  ultimately show ?thesis
    unfolding writeHeader_def n by simp
qed

definition sent_frames :: "nat \<Rightarrow> bytes \<Rightarrow> frame list" where
  "sent_frames seq body = number_frames seq (pieces (frame_count (length body)) body)"

lemma sent_frames_ok: "seq < 256 \<Longrightarrow> \<forall>f\<in>set (sent_frames seq body). frame_ok PlainHeader f"
  using number_frames_ok pieces_length by (simp add: sent_frames_def)

lemma writePacket_frames:
  assumes p: "payload_packet p" and seq: "seq < 256"
  shows "\<exists>ws. writePacket seq p = Inr (ws, bumpSequenceId seq (frame_count (length (buffer p) - 4))) \<and>
    concat ws = concat (map encode_frame (sent_frames seq (drop 4 (buffer p))))"
proof -
  let ?n = "length (buffer p) - 4"
  have len: "packet_length p = length (buffer p)" "?n + 4 = length (buffer p)"
    using p by (auto simp: payload_packet_def packet_length_def)
  show ?thesis
  proof (cases "length (buffer p) < MAX_PACKET_LENGTH")
    case True
    then have "writeHeader seq p = Inr (p\<lparr>buffer := le_bytes 3 ?n @ word_of_nat seq # drop 4 (buffer p)\<rparr>)"
      using assms by (intro writeHeader_frame) (auto simp: MAX_PACKET_LENGTH_def)
    then show ?thesis
      using True len by (auto simp: writePacket_def sent_frames_def frame_count_def encode_frame_def)
  next
    case False
    then have "frame_count ?n = (4 + packet_length p - 4 + (MAX_PACKET_LENGTH - 1)) div MAX_PACKET_LENGTH"
      using len by (simp add: frame_count_def)
    moreover have all: "\<forall>b\<in>set (pieces (frame_count ?n) (drop 4 (buffer p))). length b \<le> MAX_PACKET_LENGTH"
      using pieces_length by blast
    ultimately show ?thesis
      using False len write_chunks_frames [OF seq, of "buffer p" "packet_length p" 4]
        concat_number_frames [OF all, of seq]
      by (auto simp: writePacket_def sent_frames_def Let_def)
  qed
qed

text \<open>
  The messages of one packet: one message with the whole payload, and a second, empty one,
  when the payload's last piece is less than four bytes short of the maximal length.
\<close>

definition spurious :: "nat \<Rightarrow> bool" where
  "spurious n \<longleftrightarrow> MAX_PACKET_LENGTH - 4 < n mod MAX_PACKET_LENGTH"

definition payload_messages :: "nat \<Rightarrow> bytes \<Rightarrow> message list" where
  "payload_messages seq body =
     (let n = length body div MAX_PACKET_LENGTH + 1 in
      (seq, n, body) # (if spurious (length body) then [(bumpSequenceId seq n, 1, [])] else []))"

lemma frame_count_eq:
  "frame_count n = n div MAX_PACKET_LENGTH + (if spurious n then 2 else 1)"
proof -
  define q r where "q = n div MAX_PACKET_LENGTH" and "r = n mod MAX_PACKET_LENGTH"
  have n: "n = q * MAX_PACKET_LENGTH + r" and r: "r < MAX_PACKET_LENGTH"
    by (simp_all add: q_def r_def MAX_PACKET_LENGTH_def)
  have step: "(n + 4 + (MAX_PACKET_LENGTH - 1)) div MAX_PACKET_LENGTH =
      q + (r + 4 + (MAX_PACKET_LENGTH - 1)) div MAX_PACKET_LENGTH"
    unfolding n by (simp add: MAX_PACKET_LENGTH_def)
  show ?thesis
  proof (cases "n + 4 < MAX_PACKET_LENGTH")
    case True
    then show ?thesis
      by (simp add: frame_count_def spurious_def MAX_PACKET_LENGTH_def)
  next
    case False
    then have "frame_count n = q + (r + 4 + (MAX_PACKET_LENGTH - 1)) div MAX_PACKET_LENGTH"
      using step by (simp add: frame_count_def)
    moreover have "(r + 4 + (MAX_PACKET_LENGTH - 1)) div MAX_PACKET_LENGTH =
        (if MAX_PACKET_LENGTH - 4 < r then 2 else 1)"
      using r by (auto simp: MAX_PACKET_LENGTH_def)
    ultimately show ?thesis
      by (simp add: spurious_def q_def [symmetric] r_def [symmetric])
  qed
qed

lemma assemble_sent_frames:
  assumes "seq < 256"
  shows "\<exists>x. assemble (y, []) (sent_frames seq body) = (payload_messages seq body, x, [])"
proof -
  let ?q = "length body div MAX_PACKET_LENGTH"
  let ?full = "pieces ?q body" and ?rest = "drop (?q * MAX_PACKET_LENGTH) body"
  have rest: "length ?rest < MAX_PACKET_LENGTH" and le: "?q * MAX_PACKET_LENGTH \<le> length body"
    by (simp_all add: minus_div_mult_eq_mod MAX_PACKET_LENGTH_def)
  have full: "length ?full = ?q" "\<forall>b\<in>set ?full. length b = MAX_PACKET_LENGTH"
    "concat ?full @ ?rest = body"
    using pieces_split [OF le, of 0] by blast+
  have more: "pieces (?q + m) body = ?full @ pieces m ?rest" for m
    using pieces_split [OF le, of m] by blast
  obtain x where x: "assemble (y, []) (number_frames seq (?full @ [?rest])) =
      ([(seq, Suc ?q, body)], x, [])"
    using assemble_number_frames [OF full(2) rest, of y seq] full(1,3) by auto
  show ?thesis
  proof (cases "spurious (length body)")
    case True
    then have "sent_frames seq body = number_frames seq ((?full @ [?rest]) @ [[]])"
      using more [of 2] rest by (simp add: sent_frames_def frame_count_eq numeral_2_eq_2)
    then have "sent_frames seq body = number_frames seq (?full @ [?rest]) @
        [(bumpSequenceId seq (Suc ?q), [], [])]"
      using full(1) assms by (simp only: number_frames_append number_frames.simps) simp
    then show ?thesis
      using True assemble_append [OF x, of "[(bumpSequenceId seq (Suc ?q), [], [])]"
          "[(bumpSequenceId seq (Suc ?q), 1, [])]" "(x, [])"]
      by (simp add: payload_messages_def MAX_PACKET_LENGTH_def)
  next
    case False
    then have "sent_frames seq body = number_frames seq (?full @ [?rest])"
      using more [of 1] rest by (simp add: sent_frames_def frame_count_eq)
    then show ?thesis
      using False x by (simp add: payload_messages_def)
  qed
qed

section \<open>Streams of packets\<close>

fun write_packets :: "nat \<Rightarrow> packet list \<Rightarrow> (bytes list \<times> nat) result" where
  "write_packets seq [] = Inr ([], seq)"
| "write_packets seq (p # ps) =
     (case writePacket seq p of
        Inl e \<Rightarrow> Inl e
      | Inr (ws, seq1) \<Rightarrow>
          (case write_packets seq1 ps of
             Inl e \<Rightarrow> Inl e
           | Inr (vs, seq2) \<Rightarrow> Inr (ws @ vs, seq2)))"

fun stream_messages :: "nat \<Rightarrow> bytes list \<Rightarrow> message list" where
  "stream_messages seq [] = []"
| "stream_messages seq (b # bs) =
     payload_messages seq b @ stream_messages (bumpSequenceId seq (frame_count (length b))) bs"

lemma write_packets_frames:
  "\<forall>p\<in>set ps. payload_packet p \<Longrightarrow> seq < 256 \<Longrightarrow>
   \<exists>ws seq' frames x. write_packets seq ps = Inr (ws, seq') \<and>
     concat ws = concat (map encode_frame frames) \<and> (\<forall>f\<in>set frames. frame_ok PlainHeader f) \<and>
     assemble (y, []) frames = (stream_messages seq (map (\<lambda>p. drop 4 (buffer p)) ps), x, [])"
proof (induction ps arbitrary: seq y)
  case Nil
  then show ?case
    by (intro exI [of _ "[]"] exI [of _ seq] exI [of _ y]) simp
next
  case (Cons p ps)
  let ?body = "drop 4 (buffer p)"
  let ?seq1 = "bumpSequenceId seq (frame_count (length (buffer p) - 4))"
  obtain ws where ws: "writePacket seq p = Inr (ws, ?seq1)"
    "concat ws = concat (map encode_frame (sent_frames seq ?body))"
    using writePacket_frames [of p seq] Cons.prems by auto
  obtain x where x: "assemble (y, []) (sent_frames seq ?body) = (payload_messages seq ?body, x, [])"
    using assemble_sent_frames [of seq y ?body] Cons.prems(2) by blast
  obtain vs seq' frames x' where ih: "write_packets ?seq1 ps = Inr (vs, seq')"
    "concat vs = concat (map encode_frame frames)" "\<forall>f\<in>set frames. frame_ok PlainHeader f"
    "assemble (x, []) frames = (stream_messages ?seq1 (map (\<lambda>p. drop 4 (buffer p)) ps), x', [])"
    using Cons.IH [of ?seq1 x] Cons.prems by auto
  have "assemble (y, []) (sent_frames seq ?body @ frames) =
      (stream_messages seq (map (\<lambda>p. drop 4 (buffer p)) (p # ps)), x', [])"
    using assemble_append [OF x ih(4)] by simp
  moreover have "\<forall>f\<in>set (sent_frames seq ?body @ frames). frame_ok PlainHeader f"
    using sent_frames_ok [of seq ?body] ih(3) Cons.prems(2) by auto
  ultimately show ?case
    using ws ih(1,2)
    by (intro exI [of _ "ws @ vs"] exI [of _ seq'] exI [of _ "sent_frames seq ?body @ frames"]
        exI [of _ x']) simp
qed

section \<open>Properties\<close>

text \<open>The bodies of the messages one payload becomes: itself, and an empty one after a
  \<open>spurious\<close> length.\<close>

lemma stream_bodies:
  "map (\<lambda>(_, _, b). b) (stream_messages seq bs) =
     concat (map (\<lambda>b. b # (if spurious (length b) then [[]] else [])) bs)"
  by (induction bs arbitrary: seq) (auto simp: payload_messages_def Let_def)

lemma concat_singletons: "\<forall>b\<in>set bs. \<not> P b \<Longrightarrow> concat (map (\<lambda>b. b # (if P b then r else [])) bs) = bs"
  by (induction bs) auto

text \<open>
  Claim C2. Packets written one after the other and parsed at the other end, whatever the
  chunks the stream arrives in, are delivered as their payloads, in order, with the
  consecutive sequence ids, large packets joined again, and nothing stays in the parser. A
  payload one to three bytes short of a multiple of 16777215 (\<open>spurious\<close>: the code
  counts the header bytes as payload) is followed by one more, empty packet; when no payload
  has such a length, exactly the payloads written arrive.
\<close>

theorem framing_roundtrip:
  assumes "\<And>n. length (alloc n) = n" and "[] \<notin> set chunks"
    and "\<forall>p\<in>set ps. payload_packet p" and "seq < 256"
    and "write_packets seq ps = Inr (ws, seq')" and "concat chunks = concat ws"
    and "parser_run alloc (new_parser PlainHeader) chunks = (arrived, parser')"
  shows "map packet_view arrived = stream_messages seq (map (\<lambda>p. drop 4 (buffer p)) ps) \<and>
         pending parser' = [] \<and>
         map (\<lambda>q. snd (snd (packet_view q))) arrived =
           concat (map (\<lambda>p. drop 4 (buffer p) #
             (if spurious (length (drop 4 (buffer p))) then [[]] else [])) ps) \<and>
         ((\<forall>p\<in>set ps. \<not> spurious (length (drop 4 (buffer p)))) \<longrightarrow>
           map (\<lambda>q. snd (snd (packet_view q))) arrived = map (\<lambda>p. drop 4 (buffer p)) ps)"
proof -
  let ?bodies = "map (\<lambda>p. drop 4 (buffer p)) ps"
  obtain frames x where f: "concat ws = concat (map encode_frame frames)"
    "\<forall>f\<in>set frames. frame_ok PlainHeader f"
    "assemble (0, []) frames = (stream_messages seq ?bodies, x, [])"
    using write_packets_frames [OF assms(3,4), of 0] assms(5) by auto
  have views: "map packet_view arrived = stream_messages seq ?bodies \<and> pending parser' = []"
    using f parser_run_follows [of alloc "new_parser PlainHeader" chunks] assms(1,2,6,7)
    by (simp add: follows_def split_frames_encoded)
  have "map (\<lambda>q. snd (snd (packet_view q))) arrived =
      map (\<lambda>(_, _, b). b) (map packet_view arrived)"
    by (simp add: case_prod_unfold)
  then have "map (\<lambda>q. snd (snd (packet_view q))) arrived =
      concat (map (\<lambda>b. b # (if spurious (length b) then [[]] else [])) ?bodies)"
    using views stream_bodies by simp
  then show ?thesis
    using views concat_singletons [of ?bodies "\<lambda>b. spurious (length b)" "[[]]"]
    by (simp add: o_def)
qed

theorem framing_roundtrip_witness:
  "map packet_view (fst (parser_run (\<lambda>n. replicate n 7) (new_parser PlainHeader)
      [[2, 0], [0, 255, 8, 9, 0, 0, 0, 0]])) = [(255, 1, [8, 9]), (0, 1, [])]"
proof -
  define ps where "ps = [new_packet 0 [0, 0, 0, 0, 8, 9] 0 6, new_packet 0 [0, 0, 0, 0] 0 4]"
  have p: "\<forall>p\<in>set ps. payload_packet p"
    by (simp add: ps_def payload_packet_def new_packet_def)
  have "writePacket 255 (new_packet 0 [0, 0, 0, 0, 8, 9] 0 6) = Inr ([[2, 0, 0, 255, 8, 9]], 0)"
    "writePacket 0 (new_packet 0 [0, 0, 0, 0] 0 4) = Inr ([[0, 0, 0, 0]], 1)"
    using writeHeader_frame [of "new_packet 0 [0, 0, 0, 0, 8, 9] 0 6" 255]
      writeHeader_frame [of "new_packet 0 [0, 0, 0, 0] 0 4" 0]
    by (simp_all add: writePacket_def payload_packet_def new_packet_def packet_length_def
        MAX_PACKET_LENGTH_def bumpSequenceId_def le_bytes_3)
  then have "write_packets 255 ps = Inr ([[2, 0, 0, 255, 8, 9], [0, 0, 0, 0]], 1)"
    by (simp add: ps_def)
  then show ?thesis
    using framing_roundtrip [OF _ _ p, of "\<lambda>n. replicate n 7" "[[2, 0], [0, 255, 8, 9, 0, 0, 0, 0]]" 255
        _ _ "fst (parser_run (\<lambda>n. replicate n 7) (new_parser PlainHeader)
          [[2, 0], [0, 255, 8, 9, 0, 0, 0, 0]])"
        "snd (parser_run (\<lambda>n. replicate n 7) (new_parser PlainHeader)
          [[2, 0], [0, 255, 8, 9, 0, 0, 0, 0]])"]
    by (simp add: ps_def new_packet_def payload_messages_def spurious_def frame_count_def
        MAX_PACKET_LENGTH_def bumpSequenceId_def)
qed

text \<open>
  \<open>writePacket\<close> counts the four header bytes as payload: a packet whose last
  piece is one to three bytes short of the maximal length is followed by an empty frame that the
  receiver takes for a second packet.
\<close>

theorem writePacket_spurious_frame:
  assumes "payload_packet p" and "seq < 256" and "length (buffer p) = MAX_PACKET_LENGTH + 3"
  shows "\<exists>ws. writePacket seq p = Inr (ws, bumpSequenceId seq 2) \<and>
    assemble (0, []) (fst (split_frames PlainHeader (concat ws))) =
      ([(seq, 1, drop 4 (buffer p)), (bumpSequenceId seq 1, 1, [])], 0, [])"
proof -
  let ?body = "drop 4 (buffer p)"
  have n: "length ?body = MAX_PACKET_LENGTH - 1"
    using assms(3) by simp
  obtain ws where ws: "writePacket seq p = Inr (ws, bumpSequenceId seq (frame_count (length ?body)))"
    "concat ws = concat (map encode_frame (sent_frames seq ?body))"
    using writePacket_frames [OF assms(1,2)] by auto
  have two: "frame_count (length ?body) = 2"
    unfolding n by (simp add: frame_count_def MAX_PACKET_LENGTH_def)
  have "sent_frames seq ?body = [(seq, [], ?body), (bumpSequenceId seq 1, [], [])]"
    unfolding sent_frames_def two using n by (simp add: numeral_2_eq_2)
  moreover have "split_frames PlainHeader (concat ws) = (sent_frames seq ?body, [])"
    using ws(2) sent_frames_ok [OF assms(2)] by (simp add: split_frames_encoded)
  ultimately show ?thesis
    using ws(1) n two by (simp add: MAX_PACKET_LENGTH_def)
qed

theorem writePacket_spurious_frame_witness:
  "\<exists>ws. writePacket 9 (new_packet 0 (replicate (MAX_PACKET_LENGTH + 3) 5) 0 (MAX_PACKET_LENGTH + 3)) =
      Inr (ws, bumpSequenceId 9 2)"
  using writePacket_spurious_frame
      [of "new_packet 0 (replicate (MAX_PACKET_LENGTH + 3) 5) 0 (MAX_PACKET_LENGTH + 3)" 9]
  by (auto simp: payload_packet_def new_packet_def MAX_PACKET_LENGTH_def)

end
