(* ===== verification/Compressed.thy ===== *)
theory Compressed
  imports Framing
begin

text \<open>
  \<open>src/lib/compressed_protocol.js\<close>: the task queue, the sending side (\<open>writeCompressed\<close>,
  \<open>writeCompressedFrame\<close>) and the receiving side (\<open>handleCompressedPacket\<close>). zlib is a
  parameter: \<open>deflate b\<close> and \<open>inflate b limit\<close> give the result of the synchronous and of the
  asynchronous call, or nothing for an error.

  What runs later is part of the state: a \<open>process.nextTick\<close> waiting to call \<open>_next\<close>, and
  the task whose zlib call is in the thread pool. The transitions are a write (or a packet
  received), a tick and a zlib callback, in any order the event loop may take them.
\<close>

section \<open>Task queue\<close>

record 'a task_queue =
  tq_queue :: "'a list"
  tq_running :: bool
  tq_tick :: bool

definition queue_new :: "'a task_queue" where
  "queue_new = \<lparr>tq_queue = [], tq_running = False, tq_tick = False\<rparr>"

definition queue_push :: "'a \<Rightarrow> 'a task_queue \<Rightarrow> 'a task_queue" where
  "queue_push t q =
     (let q1 = q\<lparr>tq_queue := tq_queue q @ [t]\<rparr> in
      if \<not> tq_running q1 then q1\<lparr>tq_running := True, tq_tick := True\<rparr> else q1)"

definition queue_next :: "'a task_queue \<Rightarrow> 'a option \<times> 'a task_queue" where
  "queue_next q =
     (case tq_queue q of
        [] \<Rightarrow> (None, q\<lparr>tq_running := False, tq_tick := False\<rparr>)
      | t # ts \<Rightarrow> (Some t, q\<lparr>tq_queue := ts, tq_tick := False\<rparr>))"

definition queue_done :: "'a task_queue \<Rightarrow> 'a task_queue" where
  "queue_done q = q\<lparr>tq_tick := True\<rparr>"

section \<open>Sending\<close>

definition MIN_COMPRESS_LENGTH :: nat where "MIN_COMPRESS_LENGTH = 50"
definition MAX_SYNC_INFLATE_LENGTH :: nat where "MAX_SYNC_INFLATE_LENGTH = 16384"
definition MAX_SYNC_DEFLATE_LENGTH :: nat where "MAX_SYNC_DEFLATE_LENGTH = 4096"
definition MAX_COMPRESSED_LENGTH :: nat where "MAX_COMPRESSED_LENGTH = 16777210"

text \<open>
  What the closures of \<open>handleCompressedPacket\<close> hold: the length before compression (0 for a
  packet sent as it is), the body and the number of frames.
\<close>

record compressed_task =
  ct_deflatedLength :: nat
  ct_body :: bytes
  ct_numPackets :: nat

text \<open>
  The state of one connection. Its sequence id counts the frames of both directions and starts
  again with every command. \<open>df_out\<close> is what went to the socket, \<open>if_out\<close> what the parser of the
  inflated stream was given, chunk by chunk; the log keeps what moved the sequence id.
\<close>

datatype id_event = Wrote bytes | Received nat | Restarted

record compressed_state =
  compressedSequenceId :: nat
  cs_log :: "id_event list"
  df_queue :: "(nat \<times> bytes) task_queue"
  df_current :: "(nat \<times> bytes) option"
  df_out :: "bytes list"
  df_failed :: bool
  if_queue :: "compressed_task task_queue"
  if_current :: "compressed_task option"
  if_out :: "bytes list"
  if_failed :: bool

definition enableCompression :: compressed_state where
  "enableCompression =
     \<lparr>compressedSequenceId = 0, cs_log = [], df_queue = queue_new, df_current = None, df_out = [],
      df_failed = False, if_queue = queue_new, if_current = None, if_out = [], if_failed = False\<rparr>"

text \<open>\<open>_bumpCompressedSequenceId\<close> and \<open>_resetSequenceId\<close> of the connection.\<close>

definition bumpCompressedSequenceId :: "nat \<Rightarrow> id_event \<Rightarrow> compressed_state \<Rightarrow> compressed_state" where
  "bumpCompressedSequenceId n e s =
     s\<lparr>compressedSequenceId := bumpSequenceId (compressedSequenceId s) n, cs_log := cs_log s @ [e]\<rparr>"

definition resetCompressedSequenceId :: "compressed_state \<Rightarrow> compressed_state" where
  "resetCompressedSequenceId s = s\<lparr>compressedSequenceId := 0, cs_log := cs_log s @ [Restarted]\<rparr>"

definition writeCompressedFrame :: "nat \<Rightarrow> nat \<Rightarrow> bytes \<Rightarrow> bytes option \<Rightarrow> bytes list" where
  "writeCompressedFrame seqId packetLen0 buf compressed =
     (let compressedLength = (case compressed of None \<Rightarrow> packetLen0 | Some c \<Rightarrow> length c);
          packetLen = (case compressed of None \<Rightarrow> 0 | Some c \<Rightarrow> packetLen0)
      in [word_of_nat (compressedLength mod 256) # le_bytes 2 (compressedLength div 2 ^ 8) @
            word_of_nat seqId # word_of_nat (packetLen mod 256) # le_bytes 2 (packetLen div 2 ^ 8),
          (case compressed of None \<Rightarrow> buf | Some c \<Rightarrow> c)])"

text \<open>The compressed form is kept only when it is shorter.\<close>

definition if_shorter :: "bytes \<Rightarrow> bytes \<Rightarrow> bytes option" where
  "if_shorter buf compressed = (if length compressed < length buf then Some compressed else None)"

definition write_one :: "(bytes \<Rightarrow> bytes option) \<Rightarrow> bytes \<Rightarrow> compressed_state \<Rightarrow> compressed_state" where
  "write_one deflate buf s0 =
     (let packetLen = length buf;
          seqId = compressedSequenceId s0;
          s = bumpCompressedSequenceId 1 (Wrote buf) s0 in
      if \<not> tq_running (df_queue s) \<and> packetLen < MIN_COMPRESS_LENGTH
      then s\<lparr>df_out := df_out s @ writeCompressedFrame seqId packetLen buf None\<rparr>
      else if \<not> tq_running (df_queue s) \<and> packetLen \<le> MAX_SYNC_DEFLATE_LENGTH
      then case deflate buf of
             None \<Rightarrow> s\<lparr>df_failed := True\<rparr>
           | Some c \<Rightarrow>
               s\<lparr>df_out := df_out s @ writeCompressedFrame seqId packetLen buf (if_shorter buf c)\<rparr>
      else s\<lparr>df_queue := queue_push (seqId, buf) (df_queue s)\<rparr>)"

text \<open>The loop over the slices of a long buffer, from \<open>st\<close> on.\<close>

function write_slices ::
    "(bytes \<Rightarrow> bytes option) \<Rightarrow> bytes \<Rightarrow> nat \<Rightarrow> compressed_state \<Rightarrow> compressed_state" where
  "write_slices deflate buf st s =
     (if st < length buf
      then write_slices deflate buf (st + MAX_COMPRESSED_LENGTH)
             (write_one deflate (slice st (st + MAX_COMPRESSED_LENGTH) buf) s)
      else s)"
  by pat_completeness auto
termination
  by (relation "measure (\<lambda>(z, buf, st, s). length buf - st)") (auto simp: MAX_COMPRESSED_LENGTH_def)

declare write_slices.simps [simp del]

definition writeCompressed :: "(bytes \<Rightarrow> bytes option) \<Rightarrow> bytes \<Rightarrow> compressed_state \<Rightarrow> compressed_state" where
  "writeCompressed deflate buf s =
     (if length buf > MAX_COMPRESSED_LENGTH then write_slices deflate buf 0 s
      else write_one deflate buf s)"

definition deflate_tick :: "compressed_state \<Rightarrow> compressed_state" where
  "deflate_tick s =
     (let (t, q) = queue_next (df_queue s) in s\<lparr>df_queue := q, df_current := t\<rparr>)"

definition deflate_callback ::
    "(bytes \<Rightarrow> bytes option) \<Rightarrow> nat \<times> bytes \<Rightarrow> compressed_state \<Rightarrow> compressed_state" where
  "deflate_callback deflate t s =
     (case deflate (snd t) of
        None \<Rightarrow> s\<lparr>df_current := None, df_failed := True\<rparr>
      | Some c \<Rightarrow>
          s\<lparr>df_current := None,
            df_out := df_out s @
              writeCompressedFrame (fst t) (length (snd t)) (snd t) (if_shorter (snd t) c),
            df_queue := queue_done (df_queue s)\<rparr>)"

section \<open>Receiving\<close>

text \<open>Bump the sequence id, then feed the parser of the inflated stream.\<close>

definition inflated :: "nat \<Rightarrow> bytes \<Rightarrow> compressed_state \<Rightarrow> compressed_state" where
  "inflated n data s =
     (let s1 = bumpCompressedSequenceId n (Received n) s in s1\<lparr>if_out := if_out s1 @ [data]\<rparr>)"

definition handle_task :: "(bytes \<Rightarrow> nat \<Rightarrow> bytes option) \<Rightarrow> compressed_task \<Rightarrow> compressed_state \<Rightarrow> compressed_state" where
  "handle_task inflate t s =
     (if \<not> tq_running (if_queue s) \<and> ct_deflatedLength t = 0
      then inflated (ct_numPackets t) (ct_body t) s
      else if \<not> tq_running (if_queue s) \<and> ct_deflatedLength t \<le> MAX_SYNC_INFLATE_LENGTH
      then case inflate (ct_body t) (ct_deflatedLength t) of
             None \<Rightarrow> s\<lparr>if_failed := True\<rparr>
           | Some data \<Rightarrow> inflated (ct_numPackets t) data s
      else s\<lparr>if_queue := queue_push t (if_queue s)\<rparr>)"

definition handleCompressedPacket ::
    "(bytes \<Rightarrow> nat \<Rightarrow> bytes option) \<Rightarrow> packet \<Rightarrow> compressed_state \<Rightarrow> compressed_state result" where
  "handleCompressedPacket inflate p s =
     (case rbind readInt24 (\<lambda>len. rbind readRest (\<lambda>body. rret (len, body))) p of
        Inl e \<Rightarrow> Inl e
      | Inr ((len, body), _) \<Rightarrow>
          Inr (handle_task inflate
                 \<lparr>ct_deflatedLength = len, ct_body = body, ct_numPackets = numPackets p\<rparr> s))"

lemma inflated_simps [simp]:
  "if_queue (inflated n data s) = if_queue s" "if_current (inflated n data s) = if_current s"
  "if_out (inflated n data s) = if_out s @ [data]" "if_failed (inflated n data s) = if_failed s"
  by (simp_all add: inflated_def bumpCompressedSequenceId_def Let_def)

text \<open>A task of an uncompressed packet runs to its end inside \<open>_next\<close>.\<close>

definition inflate_tick :: "compressed_state \<Rightarrow> compressed_state" where
  "inflate_tick s =
     (let (t, q) = queue_next (if_queue s); s1 = s\<lparr>if_queue := q\<rparr> in
      case t of
        None \<Rightarrow> s1
      | Some t \<Rightarrow>
          if ct_deflatedLength t \<noteq> 0 then s1\<lparr>if_current := Some t\<rparr>
          else (inflated (ct_numPackets t) (ct_body t) s1)\<lparr>if_queue := queue_done q\<rparr>)"

definition inflate_callback ::
    "(bytes \<Rightarrow> nat \<Rightarrow> bytes option) \<Rightarrow> compressed_task \<Rightarrow> compressed_state \<Rightarrow> compressed_state" where
  "inflate_callback inflate t s =
     (case inflate (ct_body t) (ct_deflatedLength t) of
        None \<Rightarrow> s\<lparr>if_current := None, if_failed := True\<rparr>
      | Some data \<Rightarrow>
          (inflated (ct_numPackets t) data s)
            \<lparr>if_current := None, if_queue := queue_done (if_queue s)\<rparr>)"

section \<open>Runs of a connection\<close>

text \<open>
  The steps of the event loop, in any order: a write (its label the buffer), a packet received (its
  label the packet), the ticks and zlib callbacks of both queues, and the start of a command, which
  resets the sequence ids.
\<close>

inductive compressed_step ::
    "(bytes \<Rightarrow> bytes option) \<Rightarrow> (bytes \<Rightarrow> nat \<Rightarrow> bytes option) \<Rightarrow> compressed_state \<Rightarrow> bytes list \<Rightarrow>
     packet list \<Rightarrow> compressed_state \<Rightarrow> bool"
  for deflate inflate where
  send: "compressed_step deflate inflate s [b] [] (writeCompressed deflate b s)"
| deflate_tick: "tq_tick (df_queue s) \<Longrightarrow> compressed_step deflate inflate s [] [] (deflate_tick s)"
| deflate_callback: "df_current s = Some t \<Longrightarrow>
    compressed_step deflate inflate s [] [] (deflate_callback deflate t s)"
| receive: "handleCompressedPacket inflate p s = Inr s' \<Longrightarrow> compressed_step deflate inflate s [] [p] s'"
| inflate_tick: "tq_tick (if_queue s) \<Longrightarrow> compressed_step deflate inflate s [] [] (inflate_tick s)"
| inflate_callback: "if_current s = Some t \<Longrightarrow>
    compressed_step deflate inflate s [] [] (inflate_callback inflate t s)"
| restart: "compressed_step deflate inflate s [] [] (resetCompressedSequenceId s)"

inductive compressed_run ::
    "(bytes \<Rightarrow> bytes option) \<Rightarrow> (bytes \<Rightarrow> nat \<Rightarrow> bytes option) \<Rightarrow> bytes list \<Rightarrow> packet list \<Rightarrow>
     compressed_state \<Rightarrow> bool"
  for deflate inflate where
  init: "compressed_run deflate inflate [] [] enableCompression"
| step: "compressed_run deflate inflate bs ps s \<Longrightarrow> compressed_step deflate inflate s b p s' \<Longrightarrow>
    \<not> df_failed s' \<Longrightarrow> \<not> if_failed s' \<Longrightarrow> compressed_run deflate inflate (bs @ b) (ps @ p) s'"

inductive_cases compressed_stepE: "compressed_step deflate inflate s b p s'"

section \<open>What the sender has written\<close>

text \<open>
  A task is a sequence id and a buffer; the frame written for it holds the buffer, or its
  compressed form when that is shorter. Which of the two depends on the state of the queue.
\<close>

definition frame_of :: "(bytes \<Rightarrow> bytes option) \<Rightarrow> nat \<times> bytes \<Rightarrow> frame \<Rightarrow> bool" where
  "frame_of deflate t f \<longleftrightarrow>
     f = (fst t, le_bytes 3 0, snd t) \<or>
     (\<exists>c. deflate (snd t) = Some c \<and> length c < length (snd t) \<and>
          f = (fst t, le_bytes 3 (length (snd t)), c))"

text \<open>The slices of a buffer, and the tasks of the slices with their sequence ids.\<close>

function slices :: "bytes \<Rightarrow> bytes list" where
  "slices buf =
     (if length buf > MAX_COMPRESSED_LENGTH
      then take MAX_COMPRESSED_LENGTH buf # slices (drop MAX_COMPRESSED_LENGTH buf)
      else [buf])"
  by pat_completeness auto
termination
  by (relation "measure length") (auto simp: MAX_COMPRESSED_LENGTH_def)

declare slices.simps [simp del]

text \<open>What the log says: the buffers written, the sequence id, and the id each buffer got.\<close>

fun written :: "id_event list \<Rightarrow> bytes list" where
  "written [] = []"
| "written (Wrote b # es) = b # written es"
| "written (Received n # es) = written es"
| "written (Restarted # es) = written es"

fun id_after :: "nat \<Rightarrow> id_event list \<Rightarrow> nat" where
  "id_after seq [] = seq"
| "id_after seq (Wrote b # es) = id_after (bumpSequenceId seq 1) es"
| "id_after seq (Received n # es) = id_after (bumpSequenceId seq n) es"
| "id_after seq (Restarted # es) = id_after 0 es"

fun numbered :: "nat \<Rightarrow> id_event list \<Rightarrow> (nat \<times> bytes) list" where
  "numbered seq [] = []"
| "numbered seq (Wrote b # es) = (seq, b) # numbered (bumpSequenceId seq 1) es"
| "numbered seq (Received n # es) = numbered (bumpSequenceId seq n) es"
| "numbered seq (Restarted # es) = numbered 0 es"

definition unsent :: "compressed_state \<Rightarrow> (nat \<times> bytes) list" where
  "unsent s = (case df_current s of None \<Rightarrow> [] | Some t \<Rightarrow> [t]) @ tq_queue (df_queue s)"

definition deflate_inv :: "(bytes \<Rightarrow> bytes option) \<Rightarrow> compressed_state \<Rightarrow> bool" where
  "deflate_inv deflate s \<longleftrightarrow>
     (\<exists>sent fs. numbered 0 (cs_log s) = sent @ unsent s \<and> list_all2 (frame_of deflate) sent fs \<and>
        concat (df_out s) = concat (map encode_frame fs)) \<and>
     compressedSequenceId s = id_after 0 (cs_log s) \<and>
     (tq_running (df_queue s) \<longleftrightarrow> tq_tick (df_queue s) \<or> df_current s \<noteq> None) \<and>
     \<not> (tq_tick (df_queue s) \<and> df_current s \<noteq> None) \<and>
     (\<not> tq_running (df_queue s) \<longrightarrow> tq_queue (df_queue s) = []) \<and>
     (\<forall>b\<in>set (written (cs_log s)). length b \<le> MAX_COMPRESSED_LENGTH)"

lemma numbered_snoc [simp]:
  "numbered seq (es @ [Wrote b]) = numbered seq es @ [(id_after seq es, b)]"
  "numbered seq (es @ [Received n]) = numbered seq es"
  "numbered seq (es @ [Restarted]) = numbered seq es"
  by (induction es arbitrary: seq rule: written.induct) simp_all

lemma id_after_snoc [simp]:
  "id_after seq (es @ [Wrote b]) = bumpSequenceId (id_after seq es) 1"
  "id_after seq (es @ [Received n]) = bumpSequenceId (id_after seq es) n"
  "id_after seq (es @ [Restarted]) = 0"
  by (induction es arbitrary: seq rule: written.induct) simp_all

lemma written_append [simp]: "written (es @ fs) = written es @ written fs"
  by (induction es rule: written.induct) simp_all

lemma numbered_buffers: "t \<in> set (numbered seq es) \<Longrightarrow> snd t \<in> set (written es) \<and> (seq < 256 \<longrightarrow> fst t < 256)"
  by (induction es arbitrary: seq rule: written.induct) (auto simp: bumpSequenceId_def)

lemma numbered_written: "map snd (numbered seq es) = written es"
  by (induction es arbitrary: seq rule: written.induct) simp_all

lemma writeCompressedFrame_None:
  "length buf \<le> MAX_COMPRESSED_LENGTH \<Longrightarrow>
   concat (writeCompressedFrame seq (length buf) buf None) = encode_frame (seq, le_bytes 3 0, buf)"
  by (simp add: writeCompressedFrame_def encode_frame_def le_bytes_2 le_bytes_3 Let_def
      div_mult2_eq [symmetric])

lemma writeCompressedFrame_Some:
  "length buf \<le> MAX_COMPRESSED_LENGTH \<Longrightarrow> length c < length buf \<Longrightarrow>
   concat (writeCompressedFrame seq (length buf) buf (Some c)) =
     encode_frame (seq, le_bytes 3 (length buf), c)"
  by (simp add: writeCompressedFrame_def encode_frame_def le_bytes_2 le_bytes_3 Let_def
      div_mult2_eq [symmetric])

lemma frame_of_written:
  assumes "length buf \<le> MAX_COMPRESSED_LENGTH" and "deflate buf = Some c"
  shows "\<exists>f. frame_of deflate (seq, buf) f \<and>
    concat (writeCompressedFrame seq (length buf) buf (if_shorter buf c)) = encode_frame f"
  using assms writeCompressedFrame_None writeCompressedFrame_Some
  by (auto simp: if_shorter_def frame_of_def)

lemma deflate_inv_write_one:
  assumes "deflate_inv deflate s" and len: "length b \<le> MAX_COMPRESSED_LENGTH"
    and ok: "\<not> df_failed (write_one deflate b s)"
  shows "deflate_inv deflate (write_one deflate b s) \<and> cs_log (write_one deflate b s) = cs_log s @ [Wrote b]"
proof -
  let ?id = "id_after 0 (cs_log s)" and ?s1 = "bumpCompressedSequenceId 1 (Wrote b) s"
  let ?t = "(?id, b)"
  obtain sent fs where inv: "numbered 0 (cs_log s) = sent @ unsent s" "list_all2 (frame_of deflate) sent fs"
    "concat (df_out s) = concat (map encode_frame fs)" and seq: "compressedSequenceId s = ?id"
    using assms(1) by (auto simp: deflate_inv_def)
  show ?thesis
  proof (cases "tq_running (df_queue s) \<or> MAX_SYNC_DEFLATE_LENGTH < length b")
    case True
    then have w: "write_one deflate b s = ?s1\<lparr>df_queue := queue_push ?t (df_queue s)\<rparr>"
      using seq
      by (auto simp: write_one_def Let_def MAX_SYNC_DEFLATE_LENGTH_def MIN_COMPRESS_LENGTH_def
          bumpCompressedSequenceId_def)
    have "numbered 0 (cs_log (write_one deflate b s)) = sent @ unsent (write_one deflate b s)"
      using inv(1) unfolding w by (auto simp: unsent_def queue_push_def bumpCompressedSequenceId_def Let_def)
    then show ?thesis
      using assms(1) inv len unfolding w
      by (auto simp: deflate_inv_def queue_push_def bumpCompressedSequenceId_def Let_def)
  next
    case False
    then have idle: "unsent s = []" "\<not> tq_running (df_queue s)"
      using assms(1) by (auto simp: deflate_inv_def unsent_def split: option.splits)
    have "\<exists>f out. frame_of deflate ?t f \<and> concat out = encode_frame f \<and>
        write_one deflate b s = ?s1\<lparr>df_out := df_out s @ out\<rparr>"
    proof (cases "length b < MIN_COMPRESS_LENGTH")
      case True
      then show ?thesis
        using idle seq len writeCompressedFrame_None [OF len]
        by (intro exI [of _ "(?id, le_bytes 3 0, b)"] exI [of _ "writeCompressedFrame ?id (length b) b None"])
           (simp add: write_one_def Let_def frame_of_def bumpCompressedSequenceId_def)
    next
      case short: False
      then obtain c where c: "deflate b = Some c"
        using ok idle False
        by (auto simp: write_one_def Let_def bumpCompressedSequenceId_def split: option.splits)
      obtain f where "frame_of deflate ?t f" "concat (writeCompressedFrame ?id (length b) b
          (if_shorter b c)) = encode_frame f"
        using frame_of_written [where deflate = deflate, OF len c] by blast
      then show ?thesis
        using idle seq c short False
        by (intro exI [of _ f] exI [of _ "writeCompressedFrame ?id (length b) b (if_shorter b c)"])
           (simp add: write_one_def Let_def bumpCompressedSequenceId_def)
    qed
    then obtain f out where f: "frame_of deflate ?t f" "concat out = encode_frame f"
      "write_one deflate b s = ?s1\<lparr>df_out := df_out s @ out\<rparr>"
      by blast
    have "numbered 0 (cs_log (write_one deflate b s)) = (sent @ [?t]) @ unsent (write_one deflate b s)"
      using inv(1) idle f(3) by (simp add: unsent_def bumpCompressedSequenceId_def)
    moreover have "list_all2 (frame_of deflate) (sent @ [?t]) (fs @ [f])"
      using inv(2) f(1) by (simp add: list_all2_appendI)
    moreover have "concat (df_out (write_one deflate b s)) = concat (map encode_frame (fs @ [f]))"
      using inv(3) f(2,3) by simp
    ultimately have "\<exists>sent fs. numbered 0 (cs_log (write_one deflate b s)) = sent @ unsent (write_one deflate b s) \<and>
        list_all2 (frame_of deflate) sent fs \<and>
        concat (df_out (write_one deflate b s)) = concat (map encode_frame fs)"
      by blast
    then show ?thesis
      using assms(1) len f(3) by (simp add: deflate_inv_def bumpCompressedSequenceId_def)
  qed
qed

lemma deflate_inv_new [simp]: "deflate_inv deflate enableCompression"
  by (simp add: deflate_inv_def enableCompression_def unsent_def queue_new_def)

lemma write_one_failed: "df_failed s \<Longrightarrow> df_failed (write_one deflate b s)"
  by (auto simp: write_one_def Let_def bumpCompressedSequenceId_def split: option.splits)

lemma write_slices_failed: "df_failed s \<Longrightarrow> df_failed (write_slices deflate b st s)"
proof (induction deflate b st s rule: write_slices.induct)
  case (1 deflate b st s)
  then show ?case
    by (simp add: write_slices.simps [of deflate b st s] write_one_failed)
qed

lemma concat_slices [simp]: "concat (slices b) = b"
  by (induction b rule: slices.induct) (simp add: slices.simps)

lemma deflate_inv_write_slices:
  "deflate_inv deflate s \<Longrightarrow> \<not> df_failed (write_slices deflate b st s) \<Longrightarrow> st < length b \<Longrightarrow>
   deflate_inv deflate (write_slices deflate b st s) \<and>
   cs_log (write_slices deflate b st s) = cs_log s @ map Wrote (slices (drop st b))"
proof (induction deflate b st s rule: write_slices.induct)
  case (1 deflate b st s)
  let ?s = "write_one deflate (slice st (st + MAX_COMPRESSED_LENGTH) b) s"
  have eq: "write_slices deflate b st s = write_slices deflate b (st + MAX_COMPRESSED_LENGTH) ?s"
    using "1.prems"(3) by (simp add: write_slices.simps [of deflate b st s])
  have ok: "\<not> df_failed ?s"
    using "1.prems"(2) eq write_slices_failed [of ?s] by metis
  have inv: "deflate_inv deflate ?s" "cs_log ?s = cs_log s @ [Wrote (slice st (st + MAX_COMPRESSED_LENGTH) b)]"
    using deflate_inv_write_one [OF "1.prems"(1) _ ok] by (simp_all add: slice_def)
  show ?case
  proof (cases "st + MAX_COMPRESSED_LENGTH < length b")
    case True
    then have "MAX_COMPRESSED_LENGTH < length (drop st b)"
      by simp
    then have "slices (drop st b) = slice st (st + MAX_COMPRESSED_LENGTH) b #
        slices (drop (st + MAX_COMPRESSED_LENGTH) b)"
      by (simp add: slices.simps [of "drop st b"] slice_def add.commute)
    then show ?thesis
      using "1.IH" [OF "1.prems"(3) inv(1) _ True] "1.prems"(2) eq inv(2) by simp
  next
    case False
    then have "\<not> MAX_COMPRESSED_LENGTH < length (drop st b)"
      by simp
    then have "slices (drop st b) = [slice st (st + MAX_COMPRESSED_LENGTH) b]"
      by (simp add: slices.simps [of "drop st b"] slice_def)
    moreover have "write_slices deflate b st s = ?s"
      using eq False by (simp add: write_slices.simps [of deflate b "st + MAX_COMPRESSED_LENGTH"])
    ultimately show ?thesis
      using inv by simp
  qed
qed

lemma deflate_inv_writeCompressed:
  assumes "deflate_inv deflate s" and "\<not> df_failed (writeCompressed deflate b s)"
  shows "deflate_inv deflate (writeCompressed deflate b s) \<and>
    cs_log (writeCompressed deflate b s) = cs_log s @ map Wrote (slices b)"
proof (cases "MAX_COMPRESSED_LENGTH < length b")
  case True
  then have "0 < length b"
    by linarith
  with True show ?thesis
    using assms deflate_inv_write_slices [of deflate s b 0] by (simp add: writeCompressed_def)
next
  case False
  then show ?thesis
    using assms deflate_inv_write_one [of deflate s b]
    by (simp add: writeCompressed_def slices.simps [of b])
qed

lemma deflate_inv_tick:
  assumes inv: "deflate_inv deflate s" and tick: "tq_tick (df_queue s)"
  shows "deflate_inv deflate (deflate_tick s)"
proof -
  have "df_current s = None"
    using assms by (cases "df_current s") (auto simp: deflate_inv_def)
  then have "unsent (deflate_tick s) = unsent s"
    by (auto simp: unsent_def deflate_tick_def queue_next_def split: list.split)
  moreover have "tq_running (df_queue (deflate_tick s)) \<longleftrightarrow> df_current (deflate_tick s) \<noteq> None"
    "\<not> tq_tick (df_queue (deflate_tick s))" "df_out (deflate_tick s) = df_out s"
    "compressedSequenceId (deflate_tick s) = compressedSequenceId s" "cs_log (deflate_tick s) = cs_log s"
    "\<not> tq_running (df_queue (deflate_tick s)) \<longrightarrow> tq_queue (df_queue (deflate_tick s)) = []"
    using assms by (auto simp: deflate_inv_def deflate_tick_def queue_next_def split: list.split)
  ultimately show ?thesis
    using inv unfolding deflate_inv_def by simp
qed

lemma deflate_inv_callback:
  assumes inv: "deflate_inv deflate s" and cur: "df_current s = Some t"
    and ok: "\<not> df_failed (deflate_callback deflate t s)"
  shows "deflate_inv deflate (deflate_callback deflate t s)"
proof -
  obtain c where c: "deflate (snd t) = Some c"
    using ok by (cases "deflate (snd t)") (auto simp: deflate_callback_def)
  obtain sent fs where s: "numbered 0 (cs_log s) = sent @ unsent s" "list_all2 (frame_of deflate) sent fs"
    "concat (df_out s) = concat (map encode_frame fs)"
    using inv by (auto simp: deflate_inv_def)
  have "t \<in> set (numbered 0 (cs_log s))"
    using s(1) cur by (simp add: unsent_def)
  then have len: "length (snd t) \<le> MAX_COMPRESSED_LENGTH"
    using inv numbered_buffers [of t 0 "cs_log s"] by (auto simp: deflate_inv_def)
  obtain f where f: "frame_of deflate t f"
    "concat (writeCompressedFrame (fst t) (length (snd t)) (snd t) (if_shorter (snd t) c)) = encode_frame f"
    using frame_of_written [where deflate = deflate, OF len c, of "fst t"] by auto
  let ?s = "deflate_callback deflate t s"
  have "numbered 0 (cs_log ?s) = (sent @ [t]) @ unsent ?s"
    using s(1) cur c by (simp add: unsent_def deflate_callback_def queue_done_def)
  moreover have "list_all2 (frame_of deflate) (sent @ [t]) (fs @ [f])"
    using s(2) f(1) by (simp add: list_all2_appendI)
  moreover have "concat (df_out ?s) = concat (map encode_frame (fs @ [f]))"
    using s(3) f(2) c by (simp add: deflate_callback_def)
  ultimately have "\<exists>sent fs. numbered 0 (cs_log ?s) = sent @ unsent ?s \<and>
      list_all2 (frame_of deflate) sent fs \<and> concat (df_out ?s) = concat (map encode_frame fs)"
    by blast
  then show ?thesis
    using inv cur c by (auto simp: deflate_inv_def deflate_callback_def queue_done_def)
qed

text \<open>The other direction and the start of a command only move the sequence id.\<close>

lemma deflate_inv_bump: "deflate_inv deflate s \<Longrightarrow> deflate_inv deflate (bumpCompressedSequenceId n (Received n) s)"
  by (simp add: deflate_inv_def bumpCompressedSequenceId_def unsent_def)

lemma deflate_inv_restart: "deflate_inv deflate s \<Longrightarrow> deflate_inv deflate (resetCompressedSequenceId s)"
  by (simp add: deflate_inv_def resetCompressedSequenceId_def unsent_def)

lemma deflate_inv_other [simp]:
  "deflate_inv deflate (s\<lparr>if_queue := q\<rparr>) = deflate_inv deflate s"
  "deflate_inv deflate (s\<lparr>if_current := c\<rparr>) = deflate_inv deflate s"
  "deflate_inv deflate (s\<lparr>if_out := out\<rparr>) = deflate_inv deflate s"
  "deflate_inv deflate (s\<lparr>if_failed := x\<rparr>) = deflate_inv deflate s"
  by (simp_all add: deflate_inv_def unsent_def)

lemma written_other:
  "written (cs_log (bumpCompressedSequenceId n (Received n) s)) = written (cs_log s)"
  "written (cs_log (resetCompressedSequenceId s)) = written (cs_log s)"
  by (simp_all add: bumpCompressedSequenceId_def resetCompressedSequenceId_def)

lemma inflated_sender:
  "deflate_inv deflate s \<Longrightarrow> deflate_inv deflate (inflated n data s) \<and> written (cs_log (inflated n data s)) = written (cs_log s)"
  using written_other by (simp add: inflated_def Let_def deflate_inv_bump)

lemma receive_sender:
  assumes "deflate_inv deflate s"
  shows "handleCompressedPacket inflate p s = Inr s' \<Longrightarrow> deflate_inv deflate s' \<and> written (cs_log s') = written (cs_log s)"
    and "deflate_inv deflate (inflate_tick s) \<and> written (cs_log (inflate_tick s)) = written (cs_log s)"
    and "deflate_inv deflate (inflate_callback inflate t s) \<and> written (cs_log (inflate_callback inflate t s)) = written (cs_log s)"
  using assms inflated_sender
  by (auto simp: handleCompressedPacket_def handle_task_def inflate_tick_def inflate_callback_def Let_def
      split: sum.splits prod.splits if_splits option.splits)

lemma deflate_ticks_log:
  "cs_log (deflate_tick s) = cs_log s" "cs_log (deflate_callback deflate t s) = cs_log s"
  by (auto simp: deflate_tick_def deflate_callback_def split: prod.split option.split)

lemma written_slices: "written (map Wrote bs) = bs"
  by (induction bs) simp_all

text \<open>Every reachable state of a connection satisfies the invariant.\<close>

lemma compressed_run_sender:
  "compressed_run deflate inflate bs ps s \<Longrightarrow>
   deflate_inv deflate s \<and> written (cs_log s) = concat (map slices bs)"
proof (induction rule: compressed_run.induct)
  case init
  show ?case
    by simp (simp add: enableCompression_def)
next
  case (step bs ps s b p s')
  then have inv: "deflate_inv deflate s" "written (cs_log s) = concat (map slices bs)" by simp_all
  from step.hyps(2) show ?case
  proof cases
    case (send d)
    then show ?thesis
      using deflate_inv_writeCompressed [OF inv(1), of d] step.hyps(3) inv(2) by (simp add: written_slices)
  next
    case deflate_tick
    then show ?thesis
      using deflate_inv_tick [OF inv(1)] inv(2) by (simp add: deflate_ticks_log)
  next
    case (deflate_callback t)
    then show ?thesis
      using deflate_inv_callback [OF inv(1), of t] step.hyps(3) inv(2) by (simp add: deflate_ticks_log)
  next
    case (receive q)
    then show ?thesis
      using receive_sender(1) [OF inv(1)] inv(2) by simp
  next
    case inflate_tick
    then show ?thesis
      using receive_sender(2) [OF inv(1)] inv(2) by simp
  next
    case (inflate_callback t)
    then show ?thesis
      using receive_sender(3) [OF inv(1)] inv(2) by simp
  next
    case restart
    then show ?thesis
      using deflate_inv_restart [OF inv(1)] inv(2) by (simp add: written_other)
  qed
qed

section \<open>What the receiver has read\<close>

text \<open>What a packet stands for: the body itself, or what it inflates to.\<close>

definition task_data :: "(bytes \<Rightarrow> nat \<Rightarrow> bytes option) \<Rightarrow> compressed_task \<Rightarrow> bytes option" where
  "task_data inflate t =
     (if ct_deflatedLength t = 0 then Some (ct_body t) else inflate (ct_body t) (ct_deflatedLength t))"

definition packet_task :: "packet \<Rightarrow> compressed_task" where
  "packet_task p =
     (case packet_view p of (seq, n, body) \<Rightarrow>
        \<lparr>ct_deflatedLength = le_val (take 3 body), ct_body = drop 3 body, ct_numPackets = n\<rparr>)"

definition unread :: "compressed_state \<Rightarrow> compressed_task list" where
  "unread s = (case if_current s of None \<Rightarrow> [] | Some t \<Rightarrow> [t]) @ tq_queue (if_queue s)"

definition inflate_inv :: "(bytes \<Rightarrow> nat \<Rightarrow> bytes option) \<Rightarrow> compressed_task list \<Rightarrow> compressed_state \<Rightarrow> bool" where
  "inflate_inv inflate ts s \<longleftrightarrow>
     (\<exists>done. ts = done @ unread s \<and> map (task_data inflate) done = map Some (if_out s)) \<and>
     (tq_running (if_queue s) \<longleftrightarrow> tq_tick (if_queue s) \<or> if_current s \<noteq> None) \<and>
     \<not> (tq_tick (if_queue s) \<and> if_current s \<noteq> None) \<and>
     (\<not> tq_running (if_queue s) \<longrightarrow> tq_queue (if_queue s) = [])"

lemma inflate_inv_new [simp]: "inflate_inv inflate [] enableCompression"
  by (simp add: inflate_inv_def enableCompression_def unread_def queue_new_def)

lemma inflate_inv_handle:
  assumes inv: "inflate_inv inflate ts s" and ok: "\<not> if_failed (handle_task inflate t s)"
  shows "inflate_inv inflate (ts @ [t]) (handle_task inflate t s)"
proof -
  obtain pre where pre: "ts = pre @ unread s" "map (task_data inflate) pre = map Some (if_out s)"
    using inv by (auto simp: inflate_inv_def)
  show ?thesis
  proof (cases "tq_running (if_queue s) \<or> MAX_SYNC_INFLATE_LENGTH < ct_deflatedLength t")
    case True
    then have h: "handle_task inflate t s = s\<lparr>if_queue := queue_push t (if_queue s)\<rparr>"
      by (auto simp: handle_task_def MAX_SYNC_INFLATE_LENGTH_def)
    have "ts @ [t] = pre @ unread (handle_task inflate t s)"
      using pre(1) unfolding h by (simp add: unread_def queue_push_def Let_def)
    then show ?thesis
      using inv pre(2) unfolding h by (auto simp: inflate_inv_def queue_push_def Let_def)
  next
    case False
    then have idle: "unread s = []" "\<not> tq_running (if_queue s)" "if_current s = None"
      using inv by (auto simp: inflate_inv_def unread_def split: option.splits)
    obtain data where data: "task_data inflate t = Some data"
      "handle_task inflate t s = inflated (ct_numPackets t) data s"
      using idle False ok by (auto simp: handle_task_def task_data_def split: option.splits if_splits)
    have "ts @ [t] = (pre @ [t]) @ unread (handle_task inflate t s)"
      using pre(1) idle data(2) by (simp add: unread_def)
    moreover have "map (task_data inflate) (pre @ [t]) = map Some (if_out (handle_task inflate t s))"
      using pre(2) data by (simp add:)
    ultimately have "\<exists>done. ts @ [t] = done @ unread (handle_task inflate t s) \<and>
        map (task_data inflate) done = map Some (if_out (handle_task inflate t s))"
      by blast
    then show ?thesis
      using inv data(2) by (simp add: inflate_inv_def)
  qed
qed

lemma inflate_inv_tick:
  assumes inv: "inflate_inv inflate ts s" and tick: "tq_tick (if_queue s)"
  shows "inflate_inv inflate ts (inflate_tick s)"
proof -
  obtain pre where pre: "ts = pre @ unread s" "map (task_data inflate) pre = map Some (if_out s)"
    using inv by (auto simp: inflate_inv_def)
  have cur: "if_current s = None"
    using inv tick by (simp add: inflate_inv_def)
  show ?thesis
  proof (cases "tq_queue (if_queue s)")
    case Nil
    then show ?thesis
      using inv cur by (simp add: inflate_inv_def inflate_tick_def queue_next_def unread_def)
  next
    case (Cons t q)
    show ?thesis
    proof (cases "ct_deflatedLength t = 0")
      case True
      have "ts = (pre @ [t]) @ unread (inflate_tick s)"
        using pre(1) cur Cons True
        by (simp add: unread_def inflate_tick_def queue_next_def queue_done_def)
      moreover have "map (task_data inflate) (pre @ [t]) = map Some (if_out (inflate_tick s))"
        using pre(2) Cons True
        by (simp add: inflate_tick_def queue_next_def task_data_def)
      ultimately have "\<exists>done. ts = done @ unread (inflate_tick s) \<and>
          map (task_data inflate) done = map Some (if_out (inflate_tick s))"
        by blast
      then show ?thesis
        using inv tick cur Cons True
        by (simp add: inflate_inv_def inflate_tick_def queue_next_def queue_done_def)
    next
      case False
      then have "unread (inflate_tick s) = unread s"
        using cur Cons by (simp add: unread_def inflate_tick_def queue_next_def)
      then show ?thesis
        using inv tick cur Cons False by (simp add: inflate_inv_def inflate_tick_def queue_next_def)
    qed
  qed
qed

lemma inflate_inv_callback:
  assumes inv: "inflate_inv inflate ts s" and cur: "if_current s = Some t"
    and t: "ct_deflatedLength t \<noteq> 0" and ok: "\<not> if_failed (inflate_callback inflate t s)"
  shows "inflate_inv inflate ts (inflate_callback inflate t s)"
proof -
  obtain pre where pre: "ts = pre @ unread s" "map (task_data inflate) pre = map Some (if_out s)"
    using inv by (auto simp: inflate_inv_def)
  obtain data where data: "inflate (ct_body t) (ct_deflatedLength t) = Some data"
    using ok by (cases "inflate (ct_body t) (ct_deflatedLength t)") (auto simp: inflate_callback_def)
  have "ts = (pre @ [t]) @ unread (inflate_callback inflate t s)"
    using pre(1) cur data
    by (simp add: unread_def inflate_callback_def queue_done_def)
  moreover have "map (task_data inflate) (pre @ [t]) = map Some (if_out (inflate_callback inflate t s))"
    using pre(2) data t by (simp add: inflate_callback_def task_data_def)
  ultimately have "\<exists>done. ts = done @ unread (inflate_callback inflate t s) \<and>
      map (task_data inflate) done = map Some (if_out (inflate_callback inflate t s))"
    by blast
  then show ?thesis
    using inv cur data
    by (simp add: inflate_inv_def inflate_callback_def queue_done_def)
qed

text \<open>Only a compressed packet's task ever waits for the thread pool.\<close>

definition current_compressed :: "compressed_state \<Rightarrow> bool" where
  "current_compressed s \<longleftrightarrow> (\<forall>t\<in>set_option (if_current s). ct_deflatedLength t \<noteq> 0)"

text \<open>Nothing the sender does touches the receiving side.\<close>

definition receiving :: "compressed_state \<Rightarrow> compressed_task task_queue \<times> compressed_task option \<times> bytes list \<times> bool" where
  "receiving s = (if_queue s, if_current s, if_out s, if_failed s)"

lemma write_one_receiving: "receiving (write_one deflate b s) = receiving s"
  by (auto simp: receiving_def write_one_def bumpCompressedSequenceId_def Let_def split: option.split)

lemma write_slices_receiving: "receiving (write_slices deflate b st s) = receiving s"
proof (induction deflate b st s rule: write_slices.induct)
  case (1 deflate b st s)
  then show ?case
    by (subst write_slices.simps) (simp add: write_one_receiving)
qed

lemma sender_receiving:
  "receiving (writeCompressed deflate b s) = receiving s" "receiving (deflate_tick s) = receiving s"
  "receiving (deflate_callback deflate t s) = receiving s" "receiving (resetCompressedSequenceId s) = receiving s"
  using write_one_receiving write_slices_receiving
  by (auto simp: writeCompressed_def)
    (auto simp: receiving_def deflate_tick_def deflate_callback_def resetCompressedSequenceId_def
      split: prod.split option.split)

lemma inflate_inv_receiving: "receiving s' = receiving s \<Longrightarrow> inflate_inv inflate ts s' = inflate_inv inflate ts s"
  by (simp add: inflate_inv_def unread_def receiving_def)

lemma current_receiving: "receiving s' = receiving s \<Longrightarrow> current_compressed s' = current_compressed s"
  by (simp add: current_compressed_def receiving_def)

lemma current_compressed_step:
  assumes "compressed_step deflate inflate s b p s'" and cur: "current_compressed s"
  shows "current_compressed s'"
  using assms(1)
proof cases
  case (receive q)
  then show ?thesis
    using cur by (auto simp: current_compressed_def handleCompressedPacket_def handle_task_def
        split: sum.splits prod.splits if_splits option.splits)
next
  case inflate_tick
  then show ?thesis
    using cur by (auto simp: current_compressed_def inflate_tick_def queue_next_def Let_def
        split: prod.splits if_splits option.splits list.splits)
next
  case (inflate_callback t)
  then show ?thesis
    using cur by (auto simp: current_compressed_def inflate_callback_def split: option.splits)
qed (use cur current_receiving sender_receiving in blast)+

definition compressed_ok :: "packet \<Rightarrow> bool" where
  "compressed_ok p \<longleftrightarrow> 3 \<le> length (slice (offset p) (end_pos p) (buffer p))"

lemma readCompressed:
  assumes "compressed_ok p"
  shows "rbind readInt24 (\<lambda>len. rbind readRest (\<lambda>body. rret (len, body))) p =
    Inr ((ct_deflatedLength (packet_task p), ct_body (packet_task p)), p\<lparr>offset := end_pos p\<rparr>)"
proof -
  let ?pre = "take (offset p) (buffer p)" and ?bs = "take 3 (drop (offset p) (buffer p))"
  have split: "buffer p = ?pre @ ?bs @ drop (offset p + 3) (buffer p)"
    by (metis append_take_drop_id drop_drop add.commute)
  have p: "offset p + 3 \<le> end_pos p" "offset p + 3 \<le> length (buffer p)"
    using assms by (auto simp: compressed_ok_def)
  then have len: "length ?bs = 3" "length ?pre = offset p"
    by auto
  have bs: "?bs = take 3 (slice (offset p) (end_pos p) (buffer p))"
    "drop 3 (slice (offset p) (end_pos p) (buffer p)) = slice (offset p + 3) (end_pos p) (buffer p)"
    using p(1) by (auto simp: slice_def min_def drop_take add.commute)
  have "reads readInt24 ?bs (le_val ?bs)"
    using len(1) by (intro reads_readInt24)
  then have "readInt24 p = Inr (le_val ?bs, p\<lparr>offset := offset p + 3\<rparr>)"
    using readsD [OF _ split, of readInt24 "le_val ?bs"] len p by simp
  then show ?thesis
    using bs by (simp add: rbind_def readRest_def rret_def packet_task_def packet_view_def)
qed

lemma handleCompressedPacket_task:
  "compressed_ok p \<Longrightarrow> handleCompressedPacket inflate p s = Inr (handle_task inflate (packet_task p) s)"
  by (simp add: handleCompressedPacket_def readCompressed packet_task_def packet_view_def)

lemma compressed_run_receiver:
  "compressed_run deflate inflate bs ps s \<Longrightarrow> \<forall>p\<in>set ps. compressed_ok p \<Longrightarrow>
   inflate_inv inflate (map packet_task ps) s \<and> current_compressed s"
proof (induction rule: compressed_run.induct)
  case init
  then show ?case
    by (simp add: current_compressed_def enableCompression_def inflate_inv_new [unfolded enableCompression_def])
next
  case (step bs ps s b l s')
  then have inv: "inflate_inv inflate (map packet_task ps) s" and cur: "current_compressed s"
    by simp_all
  have "inflate_inv inflate (map packet_task (ps @ l)) s'"
    using step.hyps(2)
  proof cases
    case (receive p)
    then have "s' = handle_task inflate (packet_task p) s"
      using handleCompressedPacket_task [of p inflate s] step.prems by simp
    then show ?thesis
      using inflate_inv_handle [OF inv, of "packet_task p"] step.hyps(4) receive by simp
  next
    case inflate_tick
    then show ?thesis
      using inflate_inv_tick [OF inv] by simp
  next
    case (inflate_callback t)
    then show ?thesis
      using inflate_inv_callback [OF inv, of t] step.hyps(4) cur
      by (simp add: current_compressed_def)
  qed (use inv inflate_inv_receiving [of s' s] sender_receiving in \<open>simp_all\<close>)
  then show ?case
    using current_compressed_step [OF step.hyps(2) cur] by simp
qed

section \<open>Both ends\<close>

text \<open>The contract of zlib: what was deflated inflates to the original within its length.\<close>

definition zlib_ok :: "(bytes \<Rightarrow> bytes option) \<Rightarrow> (bytes \<Rightarrow> nat \<Rightarrow> bytes option) \<Rightarrow> bool" where
  "zlib_ok deflate inflate \<longleftrightarrow>
     (\<forall>b c n. deflate b = Some c \<longrightarrow> length b \<le> n \<longrightarrow> inflate c n = Some b)"

definition message_task :: "message \<Rightarrow> compressed_task" where
  "message_task m = (case m of (seq, n, body) \<Rightarrow>
     \<lparr>ct_deflatedLength = le_val (take 3 body), ct_body = drop 3 body, ct_numPackets = n\<rparr>)"

lemma packet_task_message: "packet_task p = message_task (packet_view p)"
  by (simp add: packet_task_def message_task_def)

definition small_frame :: "frame \<Rightarrow> bool" where
  "small_frame f \<longleftrightarrow> frame_ok CompressedHeader f \<and> length (snd (snd f)) < MAX_PACKET_LENGTH"

lemma frame_of_small:
  "frame_of deflate t f \<Longrightarrow> fst t < 256 \<Longrightarrow> length (snd t) \<le> MAX_COMPRESSED_LENGTH \<Longrightarrow> small_frame f"
  by (auto simp: frame_of_def small_frame_def frame_ok_def MAX_COMPRESSED_LENGTH_def MAX_PACKET_LENGTH_def)

lemma assemble_small:
  "\<forall>f\<in>set fs. small_frame f \<Longrightarrow>
   assemble (y, []) fs = (map (\<lambda>(seq, extra, body). (seq, 1, extra @ body)) fs, y, [])"
  by (induction fs) (auto simp: small_frame_def)

lemma frame_of_data:
  assumes "frame_of deflate t f" and "zlib_ok deflate inflate"
    and "length (snd t) \<le> MAX_COMPRESSED_LENGTH"
  shows "(case f of (seq, extra, body) \<Rightarrow> task_data inflate (message_task (seq, n, extra @ body))) =
    Some (snd t)"
  using assms
  by (auto simp: frame_of_def task_data_def message_task_def zlib_ok_def le_val_le_bytes
      MAX_COMPRESSED_LENGTH_def)

lemma frames_data:
  "list_all2 (frame_of deflate) ts fs \<Longrightarrow> zlib_ok deflate inflate \<Longrightarrow>
   \<forall>t\<in>set ts. length (snd t) \<le> MAX_COMPRESSED_LENGTH \<Longrightarrow>
   map (\<lambda>m. task_data inflate (message_task m)) (map (\<lambda>(seq, extra, body). (seq, 1, extra @ body)) fs) =
   map (\<lambda>t. Some (snd t)) ts"
  by (induction rule: list_all2_induct) (auto dest: frame_of_data [where n = 1])

lemma frames_small:
  "list_all2 (frame_of deflate) ts fs \<Longrightarrow>
   \<forall>t\<in>set ts. fst t < 256 \<and> length (snd t) \<le> MAX_COMPRESSED_LENGTH \<Longrightarrow> \<forall>f\<in>set fs. small_frame f"
  by (induction rule: list_all2_induct) (auto dest: frame_of_small)

lemma concat_concat_map_slices: "concat (concat (map slices bs)) = concat bs"
  by (induction bs) auto

section \<open>Properties\<close>



text \<open>
  Claim C3. Compression is transparent: when both queues have drained, the chunks handed to the
  inner parser of the receiver are, joined, the buffers the sender wrote,
  for every interleaving of the zlib callbacks at both ends and every
  chunking of the stream between them, whatever both ends do in the other direction.
\<close>

theorem compression_roundtrip:
  assumes "zlib_ok deflate inflate" and "\<And>n. length (alloc n) = n"
    and "compressed_run deflate inflate1 bs ps1 s" and "unsent s = []"
    and "[] \<notin> set chunks" and "concat chunks = concat (df_out s)"
    and "compressed_run deflate2 inflate bs2 (fst (parser_run alloc (new_parser CompressedHeader) chunks)) r"
    and "unread r = []"
  shows "concat (if_out r) = concat bs"
proof -
  let ?ps = "fst (parser_run alloc (new_parser CompressedHeader) chunks)"
  let ?pieces = "concat (map slices bs)" and ?tasks = "numbered 0 (cs_log s)"
  have w: "written (cs_log s) = ?pieces"
    using compressed_run_sender [OF assms(3)] by simp
  have inv: "deflate_inv deflate s"
    using compressed_run_sender [OF assms(3)] by simp
  then have len: "\<forall>b\<in>set ?pieces. length b \<le> MAX_COMPRESSED_LENGTH"
    unfolding deflate_inv_def w by blast
  obtain sent fs where "?tasks = sent @ unsent s" "list_all2 (frame_of deflate) sent fs"
    "concat (df_out s) = concat (map encode_frame fs)"
    using inv unfolding deflate_inv_def by blast
  then have fs: "list_all2 (frame_of deflate) ?tasks fs" "concat (df_out s) = concat (map encode_frame fs)"
    using assms(4) by simp_all
  have tasks: "\<forall>t\<in>set ?tasks. fst t < 256 \<and> length (snd t) \<le> MAX_COMPRESSED_LENGTH"
    using numbered_buffers [of _ 0 "cs_log s"] len w by fastforce
  have small: "\<forall>f\<in>set fs. small_frame f"
    using frames_small [OF fs(1)] tasks by blast
  then have ok: "\<forall>f\<in>set fs. frame_ok CompressedHeader f"
    by (simp add: small_frame_def)
  have views: "map packet_view ?ps = map (\<lambda>(seq, extra, body). (seq, 1, extra @ body)) fs"
    using parser_run_follows [of alloc "new_parser CompressedHeader" chunks] assms(2,5,6) fs(2)
      split_frames_encoded [OF ok] assemble_small [OF small]
    by (simp add: follows_def)
  have "\<forall>p\<in>set ?ps. compressed_ok p"
  proof
    fix p assume "p \<in> set ?ps"
    then have "packet_view p \<in> set (map (\<lambda>(seq, extra, body). (seq, 1, extra @ body)) fs)"
      using views by (metis image_eqI set_map)
    then obtain seq extra body where "(seq, extra, body) \<in> set fs"
      "slice (offset p) (end_pos p) (buffer p) = extra @ body"
      by (auto simp: packet_view_def)
    moreover from this have "length extra = 3"
      using ok by (auto simp: frame_ok_def)
    ultimately show "compressed_ok p"
      by (simp add: compressed_ok_def del: length_slice)
  qed
  then have "map (task_data inflate) (map packet_task ?ps) = map Some (if_out r)"
    using compressed_run_receiver [OF assms(7)] assms(8) by (auto simp: inflate_inv_def)
  moreover have "map packet_task ?ps = map message_task (map packet_view ?ps)"
    by (simp add: packet_task_message)
  ultimately have "map Some (if_out r) = map Some (map snd ?tasks)"
    using frames_data [OF fs(1) assms(1)] tasks views by (simp add: comp_def)
  then have "if_out r = ?pieces"
    by (simp add: numbered_written w inj_map_eq_map)
  then show ?thesis
    by (simp add: concat_concat_map_slices)
qed

theorem compression_roundtrip_witness:
  "\<exists>r. compressed_run Some (\<lambda>c n. Some c) [] (fst (parser_run (\<lambda>n. replicate n 0) (new_parser CompressedHeader)
        [concat (df_out (writeCompressed Some [7] enableCompression))])) r \<and>
      concat (if_out r) = [7]"
proof -
  let ?s = "writeCompressed Some [7] enableCompression"
  have s: "\<not> df_failed ?s" "\<not> if_failed ?s" "unsent ?s = []" and out: "concat (df_out ?s) = [1, 0, 0, 0, 0, 0, 0, 7]"
    by (simp_all add: writeCompressed_def write_one_def enableCompression_def queue_new_def Let_def unsent_def
        MAX_COMPRESSED_LENGTH_def MIN_COMPRESS_LENGTH_def writeCompressedFrame_def le_bytes_2 bumpCompressedSequenceId_def)
  have run: "compressed_run Some (\<lambda>c n. Some c) ([] @ [[7]]) ([] @ []) ?s"
    by (rule compressed_run.step [OF compressed_run.init compressed_step.send s(1,2)])
  define p where "p = \<lparr>sequenceId = 0, numPackets = 1, buffer = [1, 0, 0, 0, 0, 0, 0, 7], start = 0,
    offset = 4, end_pos = 8, is_mock = False\<rparr>"
  have ps: "fst (parser_run (\<lambda>n. replicate n 0) (new_parser CompressedHeader) [[1, 0, 0, 0, 0, 0, 0, 7]]) = [p]"
    by (simp add: new_parser_def parser_execute_def executeStart.simps readPacketLength_def deliver_def
        MAX_PACKET_LENGTH_def p_def Let_def)
  have "compressed_ok p"
    by (simp add: compressed_ok_def p_def)
  then have h: "handleCompressedPacket (\<lambda>c n. Some c) p enableCompression =
      Inr (handle_task (\<lambda>c n. Some c) (packet_task p) enableCompression)" (is "_ = Inr ?r")
    by (rule handleCompressedPacket_task)
  have r: "\<not> df_failed ?r" "\<not> if_failed ?r" "unread ?r = []"
    by (simp_all add: handle_task_def packet_task_def packet_view_def p_def slice_def enableCompression_def
        queue_new_def inflated_def bumpCompressedSequenceId_def unread_def numeral_3_eq_3)
  have irun: "compressed_run Some (\<lambda>c n. Some c) ([] @ []) ([] @ [p]) ?r"
    by (rule compressed_run.step [OF compressed_run.init compressed_step.receive [OF h] r(1,2)])
  moreover have "zlib_ok Some (\<lambda>c n. Some c)"
    by (simp add: zlib_ok_def)
  ultimately have "concat (if_out ?r) = [7]"
    using compression_roundtrip [of Some "\<lambda>c n. Some c" "\<lambda>n. replicate n 0" "\<lambda>c n. Some c" "[[7]]" "[]" ?s
        "[[1, 0, 0, 0, 0, 0, 0, 7]]" Some "[]" ?r] run s r out ps by simp
  then show ?thesis
    using irun ps out by auto
qed

text \<open>
  The compressed-protocol parser treats a frame of the maximal payload length as the
  first part of a larger packet, which the compressed protocol does not have: the header of
  the next frame is lost, and a compressed payload reaches the inner parser as it is.
\<close>

theorem compressed_large_frame_joined:
  assumes "length b1 = MAX_PACKET_LENGTH" and "length b2 < MAX_PACKET_LENGTH"
  shows "map message_task (fst (assemble (0, [])
           [(s1, le_bytes 3 0, b1), (s2, le_bytes 3 deflated, b2)])) =
         [\<lparr>ct_deflatedLength = 0, ct_body = b1 @ b2, ct_numPackets = 2\<rparr>]"
proof -
  have z: "le_bytes 3 0 = [0, 0, 0]"
    by (simp add: numeral_3_eq_3)
  have "fst (assemble (0, []) [(s1, le_bytes 3 0, b1), (s2, le_bytes 3 deflated, b2)]) =
      [(s1, 2, replicate 3 0 @ b1 @ b2)]"
    using assms by simp
  then show ?thesis
    by (simp add: message_task_def numeral_3_eq_3)
qed

theorem compressed_large_frame_joined_witness:
  "map message_task (fst (assemble (0, [])
     [(3, le_bytes 3 0, replicate MAX_PACKET_LENGTH 7), (4, le_bytes 3 200, [120, 156])])) =
   [\<lparr>ct_deflatedLength = 0, ct_body = replicate MAX_PACKET_LENGTH 7 @ [120, 156], ct_numPackets = 2\<rparr>]"
  by (rule compressed_large_frame_joined) (simp, simp add: MAX_PACKET_LENGTH_def)

end
