(* ===== verification/Constants.thy ===== *)
theory Constants
  imports Prelude
begin

text \<open>
  The tables of \<open>src/lib/constants\<close> that the modelled code looks up: command codes, capability
  and status flags, column types, and the two tables between charset numbers and encodings,
  entry by entry as the files have them.
\<close>

section \<open>Codes and flags\<close>

definition CommandCodes :: "(string \<times> nat) list" where
  "CommandCodes =
   [
    (''SLEEP'', 0), (''QUIT'', 1), (''INIT_DB'', 2), (''QUERY'', 3), (''FIELD_LIST'', 4),
    (''CREATE_DB'', 5), (''DROP_DB'', 6), (''REFRESH'', 7), (''SHUTDOWN'', 8),
    (''STATISTICS'', 9), (''PROCESS_INFO'', 10), (''CONNECT'', 11), (''PROCESS_KILL'', 12),
    (''DEBUG'', 13), (''PING'', 14), (''TIME'', 15), (''DELAYED_INSERT'', 16),
    (''CHANGE_USER'', 17), (''BINLOG_DUMP'', 18), (''TABLE_DUMP'', 19), (''CONNECT_OUT'', 20),
    (''REGISTER_SLAVE'', 21), (''STMT_PREPARE'', 22), (''STMT_EXECUTE'', 23),
    (''STMT_SEND_LONG_DATA'', 24), (''STMT_CLOSE'', 25), (''STMT_RESET'', 26),
    (''SET_OPTION'', 27), (''STMT_FETCH'', 28), (''DAEMON'', 29), (''BINLOG_DUMP_GTID'', 30),
    (''RESET_CONNECTION'', 31), (''UNKNOWN'', 255)]"

definition ClientConstants :: "(string \<times> nat) list" where
  "ClientConstants =
   [
    (''LONG_PASSWORD'', 1), (''FOUND_ROWS'', 2), (''LONG_FLAG'', 4), (''CONNECT_WITH_DB'', 8),
    (''NO_SCHEMA'', 16), (''COMPRESS'', 32), (''ODBC'', 64), (''LOCAL_FILES'', 128),
    (''IGNORE_SPACE'', 256), (''PROTOCOL_41'', 512), (''INTERACTIVE'', 1024), (''SSL'', 2048),
    (''IGNORE_SIGPIPE'', 4096), (''TRANSACTIONS'', 8192), (''RESERVED'', 16384),
    (''SECURE_CONNECTION'', 32768), (''MULTI_STATEMENTS'', 65536), (''MULTI_RESULTS'', 131072),
    (''PS_MULTI_RESULTS'', 262144), (''PLUGIN_AUTH'', 524288), (''CONNECT_ATTRS'', 1048576),
    (''PLUGIN_AUTH_LENENC_CLIENT_DATA'', 2097152), (''CAN_HANDLE_EXPIRED_PASSWORDS'', 4194304),
    (''SESSION_TRACK'', 8388608), (''CLIENT_QUERY_ATTRIBUTES'', 134217728),
    (''SSL_VERIFY_SERVER_CERT'', 1073741824), (''REMEMBER_OPTIONS'', 2147483648),
    (''MULTI_FACTOR_AUTHENTICATION'', 268435456)]"

definition MariaDBClient :: "(string \<times> nat) list" where
  "MariaDBClient =
   [
    (''MARIADB_CLIENT_PROGRESS'', 1), (''MARIADB_CLIENT_COM_MULTI'', 2),
    (''MARIADB_CLIENT_STMT_BULK_OPERATIONS'', 4), (''MARIADB_CLIENT_EXTENDED_METADATA'', 8),
    (''MARIADB_CLIENT_CACHE_METADATA'', 16), (''MARIADB_CLIENT_BULK_UNIT_RESULTS'', 32)]"

definition ServerStatus :: "(string \<times> nat) list" where
  "ServerStatus =
   [
    (''SERVER_STATUS_IN_TRANS'', 1), (''SERVER_STATUS_AUTOCOMMIT'', 2),
    (''SERVER_MORE_RESULTS_EXISTS'', 8), (''SERVER_QUERY_NO_GOOD_INDEX_USED'', 16),
    (''SERVER_QUERY_NO_INDEX_USED'', 32), (''SERVER_STATUS_CURSOR_EXISTS'', 64),
    (''SERVER_STATUS_LAST_ROW_SENT'', 128), (''SERVER_STATUS_DB_DROPPED'', 256),
    (''SERVER_STATUS_NO_BACKSLASH_ESCAPES'', 512), (''SERVER_STATUS_METADATA_CHANGED'', 1024),
    (''SERVER_QUERY_WAS_SLOW'', 2048), (''SERVER_PS_OUT_PARAMS'', 4096),
    (''SERVER_STATUS_IN_TRANS_READONLY'', 8192), (''SERVER_SESSION_STATE_CHANGED'', 16384)]"

definition SessionTrack :: "(string \<times> nat) list" where
  "SessionTrack =
   [
    (''SYSTEM_VARIABLES'', 0), (''SCHEMA'', 1), (''STATE_CHANGE'', 2), (''STATE_GTIDS'', 3),
    (''TRANSACTION_CHARACTERISTICS'', 4), (''TRANSACTION_STATE'', 5)]"

definition CursorType :: "(string \<times> nat) list" where
  "CursorType =
   [
    (''NO_CURSOR'', 0), (''READ_ONLY'', 1), (''FOR_UPDATE'', 2), (''SCROLLABLE'', 3),
    (''PARAMETER_COUNT_AVAILABLE'', 8)]"

definition Types :: "(string \<times> nat) list" where
  "Types =
   [
    (''DECIMAL'', 0), (''TINY'', 1), (''SHORT'', 2), (''LONG'', 3), (''FLOAT'', 4),
    (''DOUBLE'', 5), (''NULL'', 6), (''TIMESTAMP'', 7), (''LONGLONG'', 8), (''INT24'', 9),
    (''DATE'', 10), (''TIME'', 11), (''DATETIME'', 12), (''YEAR'', 13), (''NEWDATE'', 14),
    (''VARCHAR'', 15), (''BIT'', 16), (''VECTOR'', 242), (''JSON'', 245),
    (''NEWDECIMAL'', 246), (''ENUM'', 247), (''SET'', 248), (''TINY_BLOB'', 249),
    (''MEDIUM_BLOB'', 250), (''LONG_BLOB'', 251), (''BLOB'', 252), (''VAR_STRING'', 253),
    (''STRING'', 254), (''GEOMETRY'', 255)]"

definition FieldFlags :: "(string \<times> nat) list" where
  "FieldFlags =
   [
    (''NOT_NULL'', 1), (''PRI_KEY'', 2), (''UNIQUE_KEY'', 4), (''MULTIPLE_KEY'', 8),
    (''BLOB'', 16), (''UNSIGNED'', 32), (''ZEROFILL'', 64), (''BINARY'', 128), (''ENUM'', 256),
    (''AUTO_INCREMENT'', 512), (''TIMESTAMP'', 1024), (''SET'', 2048),
    (''NO_DEFAULT_VALUE'', 4096), (''ON_UPDATE_NOW'', 8192), (''NUM'', 32768)]"

definition code_of :: "(string \<times> nat) list \<Rightarrow> string \<Rightarrow> nat" where
  "code_of table name = (case map_of table name of None \<Rightarrow> 0 | Some v \<Rightarrow> v)"

text \<open>\<open>flags & table[name]\<close>, as a condition.\<close>

definition isSet :: "(string \<times> nat) list \<Rightarrow> nat \<Rightarrow> string \<Rightarrow> bool" where
  "isSet table flags name \<longleftrightarrow> flags AND code_of table name \<noteq> 0"

section \<open>Charsets\<close>

text \<open>\<open>charset_encodings.js\<close>: the array literal, then the MariaDB ranges added to it.\<close>

definition encodings_low :: "string list" where
  "encodings_low =
   [
    ''utf8'', ''big5'', ''latin2'', ''dec8'', ''cp850'', ''latin1'', ''hp8'', ''koi8r'',
    ''latin1'', ''latin2'', ''swe7'', ''ascii'', ''eucjp'', ''sjis'', ''cp1251'', ''latin1'',
    ''hebrew'', ''utf8'', ''tis620'', ''euckr'', ''latin7'', ''latin2'', ''koi8u'', ''cp1251'',
    ''gb2312'', ''greek'', ''cp1250'', ''latin2'', ''gbk'', ''cp1257'', ''latin5'', ''latin1'',
    ''armscii8'', ''cesu8'', ''cp1250'', ''ucs2'', ''cp866'', ''keybcs2'', ''macintosh'',
    ''macroman'', ''cp852'', ''latin7'', ''latin7'', ''macintosh'', ''cp1250'', ''utf8'',
    ''utf8'', ''latin1'', ''latin1'', ''latin1'', ''cp1251'', ''cp1251'', ''cp1251'',
    ''macroman'', ''utf16'', ''utf16'', ''utf16-le'', ''cp1256'', ''cp1257'', ''cp1257'',
    ''utf32'', ''utf32'', ''utf16-le'', ''binary'', ''armscii8'', ''ascii'', ''cp1250'',
    ''cp1256'', ''cp866'', ''dec8'', ''greek'', ''hebrew'', ''hp8'', ''keybcs2'', ''koi8r'',
    ''koi8u'', ''cesu8'', ''latin2'', ''latin5'', ''latin7'', ''cp850'', ''cp852'', ''swe7'',
    ''cesu8'', ''big5'', ''euckr'', ''gb2312'', ''gbk'', ''sjis'', ''tis620'', ''ucs2'',
    ''eucjp'', ''geostd8'', ''geostd8'', ''latin1'', ''cp932'', ''cp932'', ''eucjpms'',
    ''eucjpms'', ''cp1250'', ''utf16'', ''utf16'', ''utf16'', ''utf16'', ''utf16'', ''utf16'',
    ''utf16'', ''utf16'', ''utf16'', ''utf16'', ''utf16'', ''utf16'', ''utf16'', ''utf16'',
    ''utf16'', ''utf16'', ''utf16'', ''utf16'', ''utf16'', ''utf16'', ''utf16'', ''utf16'',
    ''utf16'', ''utf16'', ''utf16'', ''utf8'', ''utf8'', ''utf8'', ''ucs2'', ''ucs2'',
    ''ucs2'', ''ucs2'', ''ucs2'', ''ucs2'', ''ucs2'', ''ucs2'', ''ucs2'', ''ucs2'', ''ucs2'',
    ''ucs2'', ''ucs2'', ''ucs2'', ''ucs2'', ''ucs2'', ''ucs2'', ''ucs2'', ''ucs2'', ''ucs2'',
    ''ucs2'', ''ucs2'', ''ucs2'', ''ucs2'', ''utf8'', ''utf8'', ''utf8'']"

definition encodings_high :: "string list" where
  "encodings_high =
   [
    ''utf8'', ''utf8'', ''utf8'', ''utf8'', ''ucs2'', ''utf32'', ''utf32'', ''utf32'',
    ''utf32'', ''utf32'', ''utf32'', ''utf32'', ''utf32'', ''utf32'', ''utf32'', ''utf32'',
    ''utf32'', ''utf32'', ''utf32'', ''utf32'', ''utf32'', ''utf32'', ''utf32'', ''utf32'',
    ''utf32'', ''utf32'', ''utf32'', ''utf32'', ''utf32'', ''utf8'', ''utf8'', ''utf8'',
    ''utf8'', ''utf8'', ''utf8'', ''utf8'', ''utf8'', ''cesu8'', ''cesu8'', ''cesu8'',
    ''cesu8'', ''cesu8'', ''cesu8'', ''cesu8'', ''cesu8'', ''cesu8'', ''cesu8'', ''cesu8'',
    ''cesu8'', ''cesu8'', ''cesu8'', ''cesu8'', ''cesu8'', ''cesu8'', ''cesu8'', ''cesu8'',
    ''cesu8'', ''cesu8'', ''cesu8'', ''cesu8'', ''cesu8'', ''utf8'', ''utf8'', ''utf8'',
    ''utf8'', ''utf8'', ''utf8'', ''utf8'', ''cesu8'', ''utf8'', ''utf8'', ''utf8'', ''utf8'',
    ''utf8'', ''utf8'', ''utf8'', ''utf8'', ''utf8'', ''utf8'', ''utf8'', ''utf8'', ''utf8'',
    ''utf8'', ''utf8'', ''utf8'', ''utf8'', ''utf8'', ''utf8'', ''utf8'', ''utf8'', ''utf8'',
    ''utf8'', ''utf8'', ''gb18030'', ''gb18030'', ''gb18030'', ''utf8'', ''utf8'', ''utf8'',
    ''utf8'', ''utf8'', ''utf8'', ''utf8'', ''utf8'', ''utf8'', ''utf8'', ''utf8'', ''utf8'',
    ''utf8'', ''utf8'', ''utf8'', ''utf8'', ''utf8'', ''utf8'', ''utf8'', ''utf8'', ''utf8'',
    ''utf8'', ''utf8'', ''utf8'', ''utf8'', ''utf8'', ''utf8'', ''utf8'', ''utf8'', ''utf8'',
    ''utf8'', ''utf8'', ''utf8'', ''utf8'', ''utf8'', ''utf8'', ''utf8'', ''utf8'', ''utf8'',
    ''utf8'', ''utf8'', ''utf8'', ''utf8'', ''utf8'', ''utf8'', ''utf8'', ''utf8'', ''utf8'',
    ''utf8'', ''utf8'', ''utf8'', ''utf8'', ''utf8'', ''utf8'', ''utf8'', ''utf8'', ''utf8'',
    ''utf8'', ''utf8'']"

definition pad_space_encodings :: "string list" where
  "pad_space_encodings = encodings_low @ encodings_high"

definition uca1400Blocks :: "(nat \<times> string) list" where
  "uca1400Blocks = [(2048, ''cesu8''), (2304, ''utf8''), (2560, ''ucs2''), (2816, ''utf16''),
    (3072, ''utf32'')]"

definition CharsetToEncoding :: "nat \<Rightarrow> string option" where
  "CharsetToEncoding n =
     (case List.find (\<lambda>(st, enc). st \<le> n \<and> n < st + 256) uca1400Blocks of
        Some (st, enc) \<Rightarrow> Some enc
      | None \<Rightarrow>
          if 1025 \<le> n \<and> n < 1024 + length pad_space_encodings then Some (pad_space_encodings ! (n - 1024))
          else if n < length pad_space_encodings then Some (pad_space_encodings ! n)
          else None)"

text \<open>\<open>encoding_charset.js\<close>.\<close>

definition EncodingToCharset :: "(string \<times> nat) list" where
  "EncodingToCharset =
   [
    (''big5'', 1), (''latin2'', 2), (''dec8'', 3), (''cp850'', 4), (''latin1'', 5),
    (''hp8'', 6), (''koi8r'', 7), (''swe7'', 10), (''ascii'', 11), (''eucjp'', 12),
    (''sjis'', 13), (''cp1251'', 14), (''hebrew'', 16), (''tis620'', 18), (''euckr'', 19),
    (''latin7'', 20), (''koi8u'', 22), (''gb2312'', 24), (''greek'', 25), (''cp1250'', 26),
    (''gbk'', 28), (''cp1257'', 29), (''latin5'', 30), (''armscii8'', 32), (''cesu8'', 33),
    (''ucs2'', 35), (''cp866'', 36), (''keybcs2'', 37), (''macintosh'', 38),
    (''macroman'', 39), (''cp852'', 40), (''utf8'', 45), (''utf8mb4'', 45), (''utf16'', 54),
    (''utf16le'', 56), (''cp1256'', 57), (''utf32'', 60), (''binary'', 63), (''geostd8'', 92),
    (''cp932'', 95), (''eucjpms'', 97), (''gb18030'', 248), (''utf8mb3'', 192)]"

section \<open>Properties\<close>

text \<open>
  The table from encodings to charset numbers inverts the table from charset numbers
  to encodings: the charset it names has the encoding (three names are aliases of another
  spelling).
\<close>

theorem encoding_charset_inverse:
  "list_all (\<lambda>(enc, n). CharsetToEncoding n =
     Some (if enc = ''utf8mb4'' then ''utf8'' else if enc = ''utf8mb3'' then ''cesu8''
           else if enc = ''utf16le'' then ''utf16-le'' else enc)) EncodingToCharset"
  by code_simp

lemma code_of_simps:
  "code_of CommandCodes ''QUERY'' = 3" "code_of CommandCodes ''STMT_PREPARE'' = 22"
  by (simp_all add: code_of_def CommandCodes_def)

end
