(* ===== verification/Packets.thy ===== *)
theory Packets
  imports WireFormat Constants
begin

text \<open>
  The packet classes of \<open>src/lib/packets\<close> with a fixed layout: what \<open>toPacket\<close> writes and
  \<open>fromPacket\<close> reads. A \<open>toPacket\<close> allocates a buffer (\<open>mem n\<close> is the contents of
  \<open>Buffer.allocUnsafe(n)\<close>, any bytes), then runs its writers from offset 4; the result is the
  packet or the exception raised. The round trips state what the other side reads from any
  packet holding the same payload.
\<close>

section \<open>index.js: OK, EOF and Error\<close>

record ok_args =
  affectedRows :: nat
  insertId :: nat
  serverStatus :: nat
  warningCount :: nat
  ok_message :: jstring

definition OK_toPacket :: "codec \<Rightarrow> (nat \<Rightarrow> bytes) \<Rightarrow> ok_args \<Rightarrow> string option \<Rightarrow> packet result" where
  "OK_toPacket c mem args encoding =
     (let n = 9 + lengthCodedNumberLength (affectedRows args) + lengthCodedNumberLength (insertId args)
      in build (mem n)
           [writeInt8 0, writeLengthCodedNumber (Some (affectedRows args)),
            writeLengthCodedNumber (Some (insertId args)),
            writeInt16 (int (serverStatus args)), writeInt16 (int (warningCount args)),
            writeString c (Some (ok_message args)) encoding])"

definition EOF_toPacket :: "(nat \<Rightarrow> bytes) \<Rightarrow> nat \<Rightarrow> nat \<Rightarrow> packet result" where
  "EOF_toPacket mem warnings statusFlags =
     build (mem 9) [writeInt8 0xfe, writeInt16 (int warnings), writeInt16 (int statusFlags)]"

definition Error_toPacket ::
    "codec \<Rightarrow> (nat \<Rightarrow> bytes) \<Rightarrow> nat \<Rightarrow> jstring \<Rightarrow> string option \<Rightarrow> packet result" where
  "Error_toPacket c mem code message encoding =
     (let n = 13 + length (utf8Bytes c message) in
      build (mem n)
        [writeInt8 0xff, writeInt16 (int code), writeString c (Some (js ''#_____'')) encoding,
         writeString c (Some message) encoding])"

definition Error_fromPacket :: "codec \<Rightarrow> (nat \<times> jstring) rd" where
  "Error_fromPacket c =
     rbind readInt8 (\<lambda>_. rbind readInt16 (\<lambda>code.
       rbind (readString c (Some 1) (Some ''ascii'')) (\<lambda>_.
       rbind (readString c (Some 5) (Some ''ascii'')) (\<lambda>_.
       rbind (readNullTerminatedString c (Some ''utf8'')) (\<lambda>message. rret (code, message))))))"

section \<open>Authentication exchange\<close>

record auth_switch =
  pluginName :: jstring
  pluginData :: bytes

definition AuthSwitchRequest_toPacket :: "codec \<Rightarrow> (nat \<Rightarrow> bytes) \<Rightarrow> auth_switch \<Rightarrow> packet result" where
  "AuthSwitchRequest_toPacket c mem a =
     (let n = 6 + length (pluginName a) + length (pluginData a) in
      build (mem n) [writeInt8 0xfe, writeNullTerminatedString c (pluginName a) (Some ''cesu8''),
                     writeBuffer (pluginData a)])"

definition AuthSwitchRequest_fromPacket :: "codec \<Rightarrow> auth_switch rd" where
  "AuthSwitchRequest_fromPacket c =
     rbind readInt8 (\<lambda>_. rbind (readNullTerminatedString c (Some ''cesu8'')) (\<lambda>name.
       rbind readRest (\<lambda>data. rret \<lparr>pluginName = name, pluginData = data\<rparr>)))"

definition AuthNextFactor_toPacket ::
    "codec \<Rightarrow> (nat \<Rightarrow> bytes) \<Rightarrow> auth_switch \<Rightarrow> string option \<Rightarrow> packet result" where
  "AuthNextFactor_toPacket c mem a encoding =
     (let n = 6 + length (pluginName a) + length (pluginData a) in
      build (mem n) [writeInt8 2, writeNullTerminatedString c (pluginName a) encoding,
                     writeBuffer (pluginData a)])"

definition AuthNextFactor_fromPacket :: "codec \<Rightarrow> string option \<Rightarrow> auth_switch rd" where
  "AuthNextFactor_fromPacket c encoding =
     rbind readInt8 (\<lambda>_. rbind (readNullTerminatedString c encoding) (\<lambda>name.
       rbind readRest (\<lambda>data. rret \<lparr>pluginName = name, pluginData = data\<rparr>)))"

definition AuthSwitchRequestMoreData_toPacket :: "(nat \<Rightarrow> bytes) \<Rightarrow> bytes \<Rightarrow> packet result" where
  "AuthSwitchRequestMoreData_toPacket mem data =
     build (mem (5 + length data)) [writeInt8 1, writeBuffer data]"

definition AuthSwitchRequestMoreData_fromPacket :: "bytes rd" where
  "AuthSwitchRequestMoreData_fromPacket = rbind readInt8 (\<lambda>_. readRest)"

definition AuthSwitchRequestMoreData_verifyMarker :: "packet \<Rightarrow> bool" where
  "AuthSwitchRequestMoreData_verifyMarker p \<longleftrightarrow> peekByte p = Some 1"

definition AuthSwitchResponse_toPacket :: "(nat \<Rightarrow> bytes) \<Rightarrow> bytes \<Rightarrow> packet result" where
  "AuthSwitchResponse_toPacket mem data = build (mem (4 + length data)) [writeBuffer data]"

definition AuthSwitchResponse_fromPacket :: "bytes rd" where
  "AuthSwitchResponse_fromPacket = readRest"

section \<open>Commands\<close>

definition cmd :: "string \<Rightarrow> int" where
  "cmd name = int (code_of CommandCodes name)"

definition CloseStatement_toPacket :: "(nat \<Rightarrow> bytes) \<Rightarrow> nat \<Rightarrow> packet result" where
  "CloseStatement_toPacket mem stmt = build (mem 9) [writeInt8 (cmd ''STMT_CLOSE''), writeInt32 (int stmt)]"

definition ResetConnection_toPacket :: "packet result" where
  "ResetConnection_toPacket = build (replicate 5 0) [writeInt8 (cmd ''RESET_CONNECTION'')]"

record slave_opts =
  serverId :: nat
  slaveHostname :: jstring
  slaveUser :: jstring
  slavePassword :: jstring
  slavePort :: nat
  replicationRank :: nat
  masterId :: nat

definition RegisterSlave_toPacket :: "codec \<Rightarrow> (nat \<Rightarrow> bytes) \<Rightarrow> slave_opts \<Rightarrow> packet result" where
  "RegisterSlave_toPacket c mem r =
     (let n = 15 + length (utf8Bytes c (slaveHostname r)) + length (utf8Bytes c (slaveUser r)) +
              length (utf8Bytes c (slavePassword r)) + 3 + 4 in
      build (mem n)
        [writeInt8 (cmd ''REGISTER_SLAVE''), writeInt32 (int (serverId r)),
         writeInt8 (int (length (utf8Bytes c (slaveHostname r)))), writeString c (Some (slaveHostname r)) None,
         writeInt8 (int (length (utf8Bytes c (slaveUser r)))), writeString c (Some (slaveUser r)) None,
         writeInt8 (int (length (utf8Bytes c (slavePassword r)))), writeString c (Some (slavePassword r)) None,
         writeInt16 (int (slavePort r)), writeInt32 (int (replicationRank r)),
         writeInt32 (int (masterId r))])"

record dump_opts =
  binlogPos :: nat
  dumpServerId :: nat
  dumpFlags :: nat
  filename :: jstring

definition BinlogDump_toPacket :: "codec \<Rightarrow> (nat \<Rightarrow> bytes) \<Rightarrow> dump_opts \<Rightarrow> packet result" where
  "BinlogDump_toPacket c mem d =
     (let n = 15 + length (utf8Bytes c (filename d)) in
      build (mem n)
        [writeInt8 (cmd ''BINLOG_DUMP''), writeInt32 (int (binlogPos d)), writeInt16 (int (dumpFlags d)),
         writeInt32 (int (dumpServerId d)), writeString c (Some (filename d)) None])"

text \<open>
  \<open>COM_STMT_PREPARE\<close>: the fast path writes UTF-8 in place, the other encodes first. Both set
  the offset to the end. \<open>b[i] = v\<close> outside the buffer does nothing.
\<close>

definition PrepareStatement_toPacket ::
    "codec \<Rightarrow> (nat \<Rightarrow> bytes) \<Rightarrow> bool \<Rightarrow> jstring \<Rightarrow> nat \<Rightarrow> packet result" where
  "PrepareStatement_toPacket c mem hasFastUtf8Write sql charsetNumber =
     (let encoding = CharsetToEncoding charsetNumber in
      if hasFastUtf8Write \<and> (encoding = Some ''utf8'' \<or> encoding = Some ''utf-8'') then
        let len = 5 + length (utf8Bytes c sql);
            b = copy_into (utf8Bytes c sql) 5 ((mem len)[4 := word_of_nat (code_of CommandCodes ''STMT_PREPARE'')])
        in Inr ((new_packet 0 b 0 len)\<lparr>offset := len\<rparr>)
      else case encode c sql encoding of
             Inl e \<Rightarrow> Inl e
           | Inr buf \<Rightarrow>
               build (mem (5 + length buf)) [writeInt8 (cmd ''STMT_PREPARE''), writeBuffer buf])"

record prepared_header =
  stmt_id :: nat
  ps_fieldCount :: nat
  parameterCount :: nat
  ps_warningCount :: nat

definition PreparedStatementHeader :: "prepared_header rd" where
  "PreparedStatementHeader =
     rbind (rskip 1) (\<lambda>_. rbind readInt32 (\<lambda>i. rbind readInt16 (\<lambda>f. rbind readInt16 (\<lambda>n.
       rbind (rskip 1) (\<lambda>_. rbind readInt16 (\<lambda>w.
         rret \<lparr>stmt_id = i, ps_fieldCount = f, parameterCount = n, ps_warningCount = w\<rparr>))))))"

text \<open>\<open>COM_QUERY\<close> without attributes: \<open>toQueryPacket\<close> and the three ways to put the text in.\<close>

definition toQueryPacket :: "bytes \<Rightarrow> nat \<Rightarrow> nat \<Rightarrow> packet" where
  "toQueryPacket buf headerLength len =
     (let b = buf[4 := word_of_nat (code_of CommandCodes ''QUERY'')];
          b' = (if headerLength = 7 then b[5 := 0, 6 := 1] else b)
      in (new_packet 0 b' 0 len)\<lparr>offset := len\<rparr>)"

definition Query_toPacket ::
    "codec \<Rightarrow> (nat \<Rightarrow> bytes) \<Rightarrow> bool \<Rightarrow> jstring \<Rightarrow> nat \<Rightarrow> nat \<Rightarrow> packet result" where
  "Query_toPacket c mem hasFastUtf8Write query charsetNumber clientFlags =
     (let encoding = CharsetToEncoding charsetNumber;
          headerLength = (if isSet ClientConstants clientFlags ''CLIENT_QUERY_ATTRIBUTES'' then 7 else 5);
          packet_of = (\<lambda>bs. let len = headerLength + length bs in
            toQueryPacket (copy_into bs headerLength (mem len)) headerLength len)
      in if hasFastUtf8Write \<and> (encoding = Some ''utf8'' \<or> encoding = Some ''utf-8'')
         then Inr (packet_of (utf8Bytes c query))
         else if (\<exists>e\<in>set_option encoding. isEncoding c e)
         then Inr (packet_of (bufferFrom c (the encoding) query))
         else case encode c query encoding of
                Inl e \<Rightarrow> Inl e | Inr sqlBuffer \<Rightarrow> Inr (packet_of sqlBuffer))"

section \<open>Result set header\<close>

definition ResultSetHeader_toPacket :: "(nat \<Rightarrow> bytes) \<Rightarrow> nat \<Rightarrow> nat option \<Rightarrow> packet result" where
  "ResultSetHeader_toPacket mem fieldCount newId =
     (let n = 4 + lengthCodedNumberLength fieldCount +
              (case newId of None \<Rightarrow> 0 | Some i \<Rightarrow> lengthCodedNumberLength i) in
      build (mem n)
        (writeLengthCodedNumber (Some fieldCount) #
         (case newId of None \<Rightarrow> [] | Some i \<Rightarrow> [writeLengthCodedNumber (Some i)])))"

section \<open>What the packets carry\<close>

named_theorems field_bytes \<open>the bytes each writer emits\<close>

lemma emits_writeString:
  assumes "encode c s enc = Inr b" and "s = [] \<longrightarrow> b = []"
  shows "emits z (writeString c (Some s) enc) b"
proof (cases "s = []")
  case True
  then show ?thesis
    using assms(2) by (auto simp: emits_def writeString_def)
next
  case False
  then have "writeString c (Some s) enc = writeBuffer b"
    using assms(1) by (simp add: writeString_def fun_eq_iff)
  then show ?thesis
    by (simp add: emits_writeBuffer)
qed

lemma emits_writeInt8_int:
  "0 \<le> v \<Longrightarrow> v < 256 \<Longrightarrow> emits z (writeInt8 v) [word_of_nat (nat v)]"
  using emits_writeInt8 [of "nat v" z] by simp

lemmas emits_fields = emits_Cons emits_Nil emits_writeBuffer emits_nul_string emits_writeInt8_int
  emits_writeInt16 emits_writeInt32 emits_writeString emits_writeLengthCodedNumber

text \<open>A \<open>toPacket\<close> is well formed: the frame writer takes it and its payload is \<open>bs\<close>.\<close>

definition packs :: "packet result \<Rightarrow> bytes \<Rightarrow> bool" where
  "packs r bs \<longleftrightarrow> (\<exists>p. r = Inr p \<and> payload p = bs \<and> start p = 0 \<and> 4 \<le> length (buffer p) \<and>
     end_pos p = length (buffer p) \<and> \<not> is_mock p)"

lemma packs_build:
  assumes "emits z (writes ws) bs" and "length mem = length bs + 4"
    and "z \<Longrightarrow> drop 4 mem = replicate (length bs) 0"
  shows "packs (build mem ws) bs"
  using build_payload [OF assms] assms(2) by (auto simp: packs_def)

lemma packs_build_unsafe:
  "emits False (writes ws) bs \<Longrightarrow> length mem = length bs + 4 \<Longrightarrow> packs (build mem ws) bs"
  using packs_build [of False] by simp

lemma reads_all_nul_then_rest:
  assumes "text_ok c enc s b" and "0 \<notin> set b"
  shows "reads_all (rbind readInt8 (\<lambda>_. rbind (readNullTerminatedString c enc) (\<lambda>name.
      rbind readRest (\<lambda>data. rret \<lparr>pluginName = name, pluginData = data\<rparr>))))
    (m # b @ 0 # data) \<lparr>pluginName = s, pluginData = data\<rparr>"
proof -
  have "reads_all (rbind readInt8 (\<lambda>_. rbind (readNullTerminatedString c enc) (\<lambda>name.
      rbind readRest (\<lambda>data. rret \<lparr>pluginName = name, pluginData = data\<rparr>))))
    ([m] @ (b @ [0]) @ data) \<lparr>pluginName = s, pluginData = data\<rparr>"
    by (intro reads_all_bind [OF reads_readInt8] reads_all_bind [OF reads_nul_string [OF assms]]
        reads_all_bind_ret [OF reads_all_rest]) simp
  then show ?thesis by simp
qed

text \<open>A plugin name that takes one byte per character, as the names of the plugins do.\<close>

definition name_ok :: "codec \<Rightarrow> string option \<Rightarrow> jstring \<Rightarrow> bytes \<Rightarrow> bool" where
  "name_ok c enc s b \<longleftrightarrow> text_ok c enc s b \<and> 0 \<notin> set b \<and> length b = length s"

lemma AuthSwitchRequest_packs:
  assumes "\<And>n. length (mem n) = n" and "name_ok c (Some ''cesu8'') (pluginName a) b"
  shows "packs (AuthSwitchRequest_toPacket c mem a) (254 # b @ 0 # pluginData a)"
proof -
  have "emits False (writes [writeInt8 254, writeNullTerminatedString c (pluginName a) (Some ''cesu8''),
      writeBuffer (pluginData a)]) ([word_of_nat (nat 254)] @ (b @ [0]) @ pluginData a @ [])"
    using assms(2) by (intro emits_fields) (auto simp: name_ok_def)
  then show ?thesis
    using assms by (simp add: AuthSwitchRequest_toPacket_def Let_def packs_build_unsafe name_ok_def
        del: writes.simps)
qed

lemma AuthNextFactor_packs:
  assumes "\<And>n. length (mem n) = n" and "name_ok c enc (pluginName a) b"
  shows "packs (AuthNextFactor_toPacket c mem a enc) (2 # b @ 0 # pluginData a)"
proof -
  have "emits False (writes [writeInt8 2, writeNullTerminatedString c (pluginName a) enc,
      writeBuffer (pluginData a)]) ([word_of_nat (nat 2)] @ (b @ [0]) @ pluginData a @ [])"
    using assms(2) by (intro emits_fields) (auto simp: name_ok_def)
  then show ?thesis
    using assms by (simp add: AuthNextFactor_toPacket_def Let_def packs_build_unsafe name_ok_def
        del: writes.simps)
qed

lemma MoreData_packs:
  assumes "\<And>n. length (mem n) = n"
  shows "packs (AuthSwitchRequestMoreData_toPacket mem data) (1 # data)"
proof -
  have "emits False (writes [writeInt8 1, writeBuffer data]) ([word_of_nat (nat 1)] @ data @ [])"
    by (intro emits_fields) auto
  then show ?thesis
    using assms by (simp add: AuthSwitchRequestMoreData_toPacket_def packs_build_unsafe del: writes.simps)
qed

lemma AuthSwitchResponse_packs:
  assumes "\<And>n. length (mem n) = n"
  shows "packs (AuthSwitchResponse_toPacket mem data) data"
proof -
  have "emits False (writes [writeBuffer data]) (data @ [])"
    by (intro emits_fields)
  then show ?thesis
    using assms by (simp add: AuthSwitchResponse_toPacket_def packs_build_unsafe del: writes.simps)
qed

lemma MoreData_reads: "reads_all AuthSwitchRequestMoreData_fromPacket (m # data) data"
  using reads_all_bind [OF reads_readInt8 [of m], of "\<lambda>_. readRest" data data] reads_all_rest
  by (simp add: AuthSwitchRequestMoreData_fromPacket_def)

text \<open>The runtime's UTF-8: \<open>Buffer.from(s, 'utf8')\<close> has the bytes \<open>byteLength\<close> counts.\<close>

definition utf8_ok :: "codec \<Rightarrow> bool" where
  "utf8_ok c \<longleftrightarrow> codec_ok c \<and> (\<forall>s. bufferFrom c ''utf8'' s = utf8Bytes c s) \<and>
     (\<forall>s. bufferFrom c ''utf-8'' s = utf8Bytes c s) \<and> utf8Bytes c [] = []"

lemma encode_utf8:
  "utf8_ok c \<Longrightarrow> enc = Some ''utf8'' \<or> enc = Some ''utf-8'' \<Longrightarrow> encode c s enc = Inr (utf8Bytes c s)"
  by (auto simp: utf8_ok_def codec_ok_def encode_def)

definition sql_state_bytes :: bytes where
  "sql_state_bytes = [35, 95, 95, 95, 95, 95]"

lemma Error_packs:
  assumes "\<And>n. length (mem n) = n" and "utf8_ok c" and "code < 65536"
    and "utf8Bytes c (js ''#_____'') = sql_state_bytes"
  shows "packs (Error_toPacket c mem code message (Some ''utf8''))
    (255 # le_bytes 2 code @ sql_state_bytes @ utf8Bytes c message)"
proof -
  have "emits False (writes [writeInt8 255, writeInt16 (int code),
      writeString c (Some (js ''#_____'')) (Some ''utf8''), writeString c (Some message) (Some ''utf8'')])
    ([word_of_nat (nat 255)] @ le_bytes 2 code @ sql_state_bytes @ utf8Bytes c message @ [])"
    using assms(2-4) by (intro emits_fields) (auto simp: encode_utf8 utf8_ok_def js_def)
  then show ?thesis
    using assms(1) by (simp add: Error_toPacket_def Let_def packs_build_unsafe sql_state_bytes_def
        del: writes.simps)
qed

lemma reads_window:
  assumes "\<And>pre post. decode c (pre @ bs @ post) enc (length pre) (length pre + length bs) = Inr s"
  shows "reads (readString c (Some (length bs)) enc) bs s"
  using assms by (auto simp: reads_def readString_def Let_def)

lemma reads_ascii: "reads (readString c (Some (length bs)) (Some ''ascii'')) bs (asciiSlice bs)"
proof (rule reads_window)
  fix pre post
  have "decode c bs (Some ''ascii'') 0 (length bs) = Inr (asciiSlice bs)"
    by (cases bs) (simp_all add: decode_def asciiSlice_def Let_def slice_def)
  then show "decode c (pre @ bs @ post) (Some ''ascii'') (length pre) (length pre + length bs) =
      Inr (asciiSlice bs)"
    by (simp add: decode_window)
qed

text \<open>A NUL-terminated string that the packet's end cuts off.\<close>

lemma nul_string_at_end:
  assumes "text_ok c enc s b" and "0 \<notin> set b" and "holds p b"
  shows "readNullTerminatedString c enc p = Inr (s, p\<lparr>offset := end_pos p + 1\<rparr>)"
proof -
  note split = holds_split [OF assms(3)]
  have "scan_nul (buffer p) (end_pos p) (offset p) = end_pos p"
  proof (rule scan_nul_end)
    fix k assume k: "offset p \<le> k" "k < end_pos p"
    then have "b ! (k - offset p) = buffer p ! k"
      using assms(3) by (auto simp: holds_def nth_slice)
    moreover have "b ! (k - offset p) \<noteq> 0"
      using k split(2) assms(2) nth_mem [of "k - offset p" b] by fastforce
    ultimately show "byte_at (buffer p) k \<noteq> Some 0"
      using k split(4) by (simp add: byte_at_def unat_eq_zero)
  qed (use split in simp)
  moreover have "decode c (buffer p) enc (offset p) (end_pos p) = Inr s"
    using assms(1,3) decode_at_slice [of "offset p" "end_pos p" "buffer p" c enc] split(2)
    by (auto simp: holds_def text_ok_def)
  ultimately show ?thesis
    by (simp add: readNullTerminatedString_def Let_def)
qed

lemma Error_reads:
  assumes c: "utf8_ok c" and code: "code < 65536"
    and msg: "text_ok c (Some ''utf8'') message b" "0 \<notin> set b"
    and q: "holds q (255 # le_bytes 2 code @ sql_state_bytes @ b)"
  shows "\<exists>q'. Error_fromPacket c q = Inr ((code, message), q')"
proof -
  let ?k = "\<lambda>code. rbind (readString c (Some 1) (Some ''ascii'')) (\<lambda>_.
       rbind (readString c (Some 5) (Some ''ascii'')) (\<lambda>_.
       rbind (readNullTerminatedString c (Some ''utf8'')) (\<lambda>message. rret (code, message))))"
  note split = holds_split [OF q]
  obtain pre post where p0: "buffer q = pre @ [255] @ le_bytes 2 code @ sql_state_bytes @ b @ post"
    and pre: "offset q = length pre"
    using split by (metis append.assoc append_Cons append_Nil length_take min.absorb2 le_trans)
  have end_q: "end_pos q = length pre + 9 + length b"
    using split(2,3) pre by (simp add: sql_state_bytes_def)
  have five: "length [95, 95, 95, 95, 95 :: byte] = 5"
    by simp
  have r1: "readInt8 q = Inr (Some 255, q\<lparr>offset := length pre + 1\<rparr>)"
    using readsD [OF reads_readInt8 p0] pre end_q by simp
  have r2: "readInt16 (q\<lparr>offset := length pre + 1\<rparr>) = Inr (code, q\<lparr>offset := length pre + 3\<rparr>)"
    using readsD [OF reads_uint_le [of code 2], of "q\<lparr>offset := length pre + 1\<rparr>" "pre @ [255]"
        "sql_state_bytes @ b @ post"] p0 pre end_q code by (simp add: readInt16_def)
  have r3: "readString c (Some 1) (Some ''ascii'') (q\<lparr>offset := length pre + 3\<rparr>) =
      Inr (asciiSlice [35], q\<lparr>offset := length pre + 4\<rparr>)"
    using readsD [OF reads_ascii [of c "[35]"], of "q\<lparr>offset := length pre + 3\<rparr>"
        "pre @ [255] @ le_bytes 2 code" "[95, 95, 95, 95, 95] @ b @ post"] p0 pre end_q
    by (simp add: sql_state_bytes_def)
  have r4: "readString c (Some 5) (Some ''ascii'') (q\<lparr>offset := length pre + 4\<rparr>) =
      Inr (asciiSlice [95, 95, 95, 95, 95], q\<lparr>offset := length pre + 9\<rparr>)"
    using readsD [OF reads_ascii [of c "[95, 95, 95, 95, 95]", unfolded five],
        of "q\<lparr>offset := length pre + 4\<rparr>"
        "pre @ [255] @ le_bytes 2 code @ [35]" "b @ post"] p0 pre end_q
    by (simp add: sql_state_bytes_def)
  have "holds (q\<lparr>offset := length pre + 9\<rparr>) b"
    using end_q p0 by (simp add: holds_def slice_def sql_state_bytes_def)
  then show ?thesis
    using r1 r2 r3 r4 nul_string_at_end [OF msg, of "q\<lparr>offset := length pre + 9\<rparr>"]
    by (simp add: Error_fromPacket_def rbind_def rret_def)
qed

section \<open>Properties\<close>

lemma latin1_utf8_ok: "utf8_ok latin1_codec"
  using latin1_codec_ok by (simp add: utf8_ok_def latin1_codec_def)

lemma latin1_sql_state: "utf8Bytes latin1_codec (js ''#_____'') = sql_state_bytes"
  by (simp add: latin1_codec_def js_def sql_state_bytes_def)

text \<open>
  The packets of the authentication exchange carry what they were given: an auth
  switch request and a next-factor request are read back with the same plugin name and data,
  the data packets with the same bytes.
\<close>

theorem auth_packets_roundtrip:
  assumes "\<And>n. length (mem n) = n" and "name_ok c (Some ''cesu8'') (pluginName a) b"
    and "name_ok c enc (pluginName a) b'"
  shows "\<exists>bs1 bs2 bs3 bs4.
    packs (AuthSwitchRequest_toPacket c mem a) bs1 \<and>
      reads_all (AuthSwitchRequest_fromPacket c) bs1 \<lparr>pluginName = pluginName a, pluginData = pluginData a\<rparr> \<and>
    packs (AuthNextFactor_toPacket c mem a enc) bs2 \<and>
      reads_all (AuthNextFactor_fromPacket c enc) bs2 \<lparr>pluginName = pluginName a, pluginData = pluginData a\<rparr> \<and>
    packs (AuthSwitchRequestMoreData_toPacket mem data) bs3 \<and>
      reads_all AuthSwitchRequestMoreData_fromPacket bs3 data \<and>
    packs (AuthSwitchResponse_toPacket mem data) bs4 \<and>
      reads_all AuthSwitchResponse_fromPacket bs4 data"
  using AuthSwitchRequest_packs [OF assms(1,2)] AuthNextFactor_packs [OF assms(1,3)]
    MoreData_packs [OF assms(1)] AuthSwitchResponse_packs [OF assms(1)] MoreData_reads
    reads_all_nul_then_rest assms(2,3) reads_all_rest
  unfolding AuthSwitchRequest_fromPacket_def AuthNextFactor_fromPacket_def
    AuthSwitchResponse_fromPacket_def name_ok_def
  by (intro exI conjI) blast+

theorem auth_packets_roundtrip_witness:
  "\<exists>bs. packs (AuthSwitchRequest_toPacket latin1_codec (\<lambda>n. replicate n 9)
      \<lparr>pluginName = js ''ab'', pluginData = [1, 2]\<rparr>) bs \<and>
    reads_all (AuthSwitchRequest_fromPacket latin1_codec) bs \<lparr>pluginName = js ''ab'', pluginData = [1, 2]\<rparr>"
proof -
  have "name_ok latin1_codec (Some e) (js ''ab'') [97, 98]" for e
    by (simp add: name_ok_def text_ok_def encode_def decode_def latin1_codec_def js_def slice_def
        latin1Slice_def asciiSlice_def Let_def)
  then show ?thesis
    using auth_packets_roundtrip [of "\<lambda>n. replicate n 9" latin1_codec
        "\<lparr>pluginName = js ''ab'', pluginData = [1, 2]\<rparr>" "[97, 98]" "Some ''utf8''" "[97, 98]"] by auto
qed

text \<open>
  An Error packet is read back with its code and message (any message without NUL
  characters).
\<close>

theorem error_packet_roundtrip:
  assumes "\<And>n. length (mem n) = n" and "utf8_ok c" and "code < 65536"
    and "utf8Bytes c (js ''#_____'') = sql_state_bytes"
    and "text_ok c (Some ''utf8'') message b" and "0 \<notin> set b"
  shows "\<exists>bs. packs (Error_toPacket c mem code message (Some ''utf8'')) bs \<and>
    (\<forall>q. holds q bs \<longrightarrow> (\<exists>q'. Error_fromPacket c q = Inr ((code, message), q')))"
proof -
  have "utf8Bytes c message = b"
    using assms(5) encode_utf8 [OF assms(2), of "Some ''utf8''" message] by (simp add: text_ok_def)
  then show ?thesis
    using Error_packs [OF assms(1,2,3,4), of message] Error_reads [OF assms(2,3,5,6)] by blast
qed

theorem error_packet_roundtrip_witness:
  "\<exists>bs. packs (Error_toPacket latin1_codec (\<lambda>n. replicate n 9) 1040 (js ''no'') (Some ''utf8'')) bs \<and>
    (\<forall>q. holds q bs \<longrightarrow> (\<exists>q'. Error_fromPacket latin1_codec q = Inr ((1040, js ''no''), q')))"
proof (rule error_packet_roundtrip [OF _ latin1_utf8_ok _ latin1_sql_state])
  show "text_ok latin1_codec (Some ''utf8'') (js ''no'') [110, 111]"
    by (simp add: text_ok_def encode_def decode_def latin1_codec_def js_def slice_def latin1Slice_def Let_def)
qed simp_all

text \<open>
  The OK packet of the server side never carries its message: the buffer has no room
  for it, and the bytes sent are those of an OK packet without a message.
\<close>

theorem ok_packet_message_lost:
  assumes "\<And>n. length (mem n) = n" and "encode c (ok_message args) enc = Inr b"
    and "affectedRows args < 2 ^ 64" and "insertId args < 2 ^ 64"
    and "serverStatus args < 65536" and "warningCount args < 65536"
  shows "\<exists>p p0. OK_toPacket c mem args enc = Inr p \<and>
    OK_toPacket c mem (args\<lparr>ok_message := []\<rparr>) enc = Inr p0 \<and> buffer p = buffer p0"
proof -
  let ?bs = "[0] @ lcn_bytes (affectedRows args) @ lcn_bytes (insertId args) @
    le_bytes 2 (serverStatus args) @ le_bytes 2 (warningCount args) @ []"
  let ?ws = "[writeInt8 0, writeLengthCodedNumber (Some (affectedRows args)),
      writeLengthCodedNumber (Some (insertId args)), writeInt16 (int (serverStatus args)),
      writeInt16 (int (warningCount args))]"
  define m where "m = mem (9 + lengthCodedNumberLength (affectedRows args) + lengthCodedNumberLength (insertId args))"
  have e: "emits False (writes ?ws) ?bs"
    using assms(3-6) emits_writeInt8_int [of 0 False] by (intro emits_fields) auto
  have "length m = length ?bs + 4"
    using assms(1) by (simp add: m_def length_lcn_bytes)
  then obtain p where p: "build m ?ws = Inr p" "length (buffer p) = length m" "offset p = length m"
    using build_payload [OF e, of m] by auto
  have snoc: "build m (?ws @ [w]) = w p" for w
    using p(1) by (rule build_snoc)
  show ?thesis
  proof (cases "ok_message args = []")
    case True
    then have "args\<lparr>ok_message := []\<rparr> = args"
      by simp
    then show ?thesis
      using snoc [of "writeString c (Some []) enc"] True
      by (simp add: OK_toPacket_def m_def [symmetric] writeString_def)
  next
    case False
    then have "OK_toPacket c mem args enc = Inr (p\<lparr>offset := offset p + length b\<rparr>)"
      using snoc [of "writeString c (Some (ok_message args)) enc"] assms(2) p
      by (simp add: OK_toPacket_def m_def [symmetric] writeString_def writeBuffer_def copy_into_def)
    then show ?thesis
      using snoc [of "writeString c (Some []) enc"]
      by (simp add: OK_toPacket_def m_def [symmetric] writeString_def)
  qed
qed

theorem ok_packet_message_lost_witness:
  "\<exists>p p0. OK_toPacket latin1_codec (\<lambda>n. replicate n 9)
      \<lparr>affectedRows = 1, insertId = 0, serverStatus = 2, warningCount = 0, ok_message = js ''done''\<rparr>
      (Some ''utf8'') = Inr p \<and>
    OK_toPacket latin1_codec (\<lambda>n. replicate n 9)
      \<lparr>affectedRows = 1, insertId = 0, serverStatus = 2, warningCount = 0, ok_message = []\<rparr>
      (Some ''utf8'') = Inr p0 \<and> buffer p = buffer p0"
  using ok_packet_message_lost [of "\<lambda>n. replicate n 9" latin1_codec "\<lparr>affectedRows = 1, insertId = 0,
      serverStatus = 2, warningCount = 0, ok_message = js ''done''\<rparr>" "Some ''utf8''"]
  by (simp add: encode_def latin1_codec_def)

text \<open>
  The query text is put into the buffer in one of three ways; the payload is the command byte, the
  two attribute counts when they are negotiated, and the encoded text.
\<close>

definition query_payload :: "nat \<Rightarrow> bytes \<Rightarrow> bytes" where
  "query_payload clientFlags b =
     3 # (if isSet ClientConstants clientFlags ''CLIENT_QUERY_ATTRIBUTES'' then [0, 1] else []) @ b"

lemma toQueryPacket_packs:
  assumes "length m = h + length b" and "h = 5 \<or> h = 7"
  shows "packs (Inr (toQueryPacket (copy_into b h m) h (h + length b)))
    (3 # (if h = 7 then [0, 1] else []) @ b)"
proof -
  have m: "copy_into b h m = take h m @ b"
    using assms by (cases b) (auto simp: copy_into_def)
  have h: "length (take h m) = h"
    using assms(1) by simp
  define k where "k = take h m"
  have k: "length k = h"
    by (simp add: k_def assms(1))
  have "k = take 4 k @ drop 4 k" and len: "length (take 4 k) = 4" "length (drop 4 k) = h - 4"
    using k assms(2) by auto
  then obtain hd4 tl4 where k': "k = hd4 @ tl4" "length hd4 = 4" "length tl4 = h - 4"
    by metis
  show ?thesis
  proof (cases "h = 5")
    case True
    then obtain x where "tl4 = [x]"
      using k'(3) by (auto simp: length_Suc_conv)
    then show ?thesis
      using True k'(2) unfolding m k_def [symmetric] k'(1)
      by (simp add: toQueryPacket_def packs_def payload_def new_packet_def code_of_simps Let_def
          list_update_append)
  next
    case False
    then obtain x y z where "tl4 = [x, y, z]"
      using k'(3) assms(2) by (auto simp: length_Suc_conv numeral_3_eq_3)
    then show ?thesis
      using False assms(2) k'(2) unfolding m k_def [symmetric] k'(1)
      by (simp add: toQueryPacket_def packs_def payload_def new_packet_def code_of_simps Let_def
          list_update_append)
  qed
qed

text \<open>
  A query packet carries the command, the attribute counts and the text encoded in
  the connection's charset, whichever of the code paths built it: the fast UTF-8 path, the
  native encoders and the iconv path agree.
\<close>

theorem com_query_payload:
  assumes "\<And>n. length (mem n) = n" and "utf8_ok c"
    and "encode c query (CharsetToEncoding charset) = Inr b"
  shows "packs (Query_toPacket c mem hasFastUtf8Write query charset clientFlags) (query_payload clientFlags b)"
proof -
  define h where "h = (if isSet ClientConstants clientFlags ''CLIENT_QUERY_ATTRIBUTES'' then 7 else 5 :: nat)"
  have p: "packs (Inr (toQueryPacket (copy_into b h (mem (h + length b))) h (h + length b)))
      (query_payload clientFlags b)"
    using toQueryPacket_packs [of "mem (h + length b)" h b] assms(1)
    by (cases "isSet ClientConstants clientFlags ''CLIENT_QUERY_ATTRIBUTES''")
       (simp_all add: query_payload_def h_def)
  show ?thesis
  proof (cases "hasFastUtf8Write \<and> (CharsetToEncoding charset = Some ''utf8'' \<or> CharsetToEncoding charset = Some ''utf-8'')")
    case True
    then have "b = utf8Bytes c query"
      using assms(3) encode_utf8 [OF assms(2)] by force
    then show ?thesis
      using True p by (simp add: Query_toPacket_def h_def [symmetric] Let_def)
  next
    case False
    show ?thesis
    proof (cases "\<exists>e\<in>set_option (CharsetToEncoding charset). isEncoding c e")
      case True
      then have "b = bufferFrom c (the (CharsetToEncoding charset)) query"
        using assms(3) by (auto simp: encode_def)
      then show ?thesis
        using True False p by (auto simp: Query_toPacket_def h_def [symmetric] Let_def)
    next
      case native: False
      then show ?thesis
        using False p assms(3) by (auto simp: Query_toPacket_def h_def [symmetric] Let_def)
    qed
  qed
qed

theorem com_query_payload_witness:
  "packs (Query_toPacket latin1_codec (\<lambda>n. replicate n 9) True (js ''DO 1'') 45 134217728)
     [3, 0, 1, 68, 79, 32, 49]"
proof -
  have "isSet ClientConstants 134217728 ''CLIENT_QUERY_ATTRIBUTES''"
    by (simp add: isSet_def code_of_def ClientConstants_def)
  moreover have "CharsetToEncoding 45 = Some ''utf8''"
    by code_simp
  then have "encode latin1_codec (js ''DO 1'') (CharsetToEncoding 45) = Inr [68, 79, 32, 49]"
    by (simp add: encode_def latin1_codec_def js_def)
  ultimately show ?thesis
    using com_query_payload [of "\<lambda>n. replicate n 9" latin1_codec "js ''DO 1''" 45 "[68, 79, 32, 49]"
        True 134217728] latin1_utf8_ok by (simp add: query_payload_def)
qed

text \<open>
  \<open>COM_BINLOG_DUMP\<close> and \<open>COM_REGISTER_SLAVE\<close> write their texts without naming an
  encoding, which iconv-lite rejects: a binlog file name, and a replica's host name, raise an
  exception instead of being sent.
\<close>

theorem replication_text_raises:
  assumes "\<And>n. length (mem n) = n" and "\<And>s. iconvEncode c None s = Inl e"
    and "filename d \<noteq> []" and "binlogPos d < 2 ^ 32" "dumpFlags d < 2 ^ 16" "dumpServerId d < 2 ^ 32"
    and "slaveHostname r \<noteq> []" and "serverId r < 2 ^ 32" and "length (utf8Bytes c (slaveHostname r)) < 256"
  shows "BinlogDump_toPacket c mem d = Inl e \<and> RegisterSlave_toPacket c mem r = Inl e"
proof -
  have bad: "writeString c (Some s) None p = Inl e" if "s \<noteq> []" for s and p :: packet
    using that assms(2) by (simp add: writeString_def encode_def)
  have fails: "build m (ws @ w # vs) = Inl e" if "build m ws = Inr p" "w p = Inl e" for m ws w vs p
    using that by (simp add: build_def writes_append wbind_def)
  define m where "m = mem (15 + length (utf8Bytes c (filename d)))"
  have "emits False (writes [writeInt8 (cmd ''BINLOG_DUMP''), writeInt32 (int (binlogPos d)),
      writeInt16 (int (dumpFlags d)), writeInt32 (int (dumpServerId d))])
    ([word_of_nat (nat (cmd ''BINLOG_DUMP''))] @ le_bytes 4 (binlogPos d) @ le_bytes 2 (dumpFlags d) @
     le_bytes 4 (dumpServerId d) @ [])"
    using assms(4-6) by (intro emits_fields) (auto simp: cmd_def code_of_def CommandCodes_def)
  from build_room [OF this, of m]
  obtain p where "build m [writeInt8 (cmd ''BINLOG_DUMP''), writeInt32 (int (binlogPos d)),
      writeInt16 (int (dumpFlags d)), writeInt32 (int (dumpServerId d))] = Inr p"
    using assms(1) by (auto simp: m_def)
  from fails [OF this bad [OF assms(3)], where vs = "[]"]
  have 1: "BinlogDump_toPacket c mem d = Inl e"
    by (simp add: BinlogDump_toPacket_def m_def [symmetric] Let_def)
  define m' where "m' = mem (15 + length (utf8Bytes c (slaveHostname r)) + length (utf8Bytes c (slaveUser r)) +
              length (utf8Bytes c (slavePassword r)) + 3 + 4)"
  have "emits False (writes [writeInt8 (cmd ''REGISTER_SLAVE''), writeInt32 (int (serverId r)),
      writeInt8 (int (length (utf8Bytes c (slaveHostname r))))])
    ([word_of_nat (nat (cmd ''REGISTER_SLAVE''))] @ le_bytes 4 (serverId r) @
     [word_of_nat (nat (int (length (utf8Bytes c (slaveHostname r)))))] @ [])"
    using assms(8,9) by (intro emits_fields) (auto simp: cmd_def code_of_def CommandCodes_def)
  from build_room [OF this, of m']
  obtain q where "build m' [writeInt8 (cmd ''REGISTER_SLAVE''), writeInt32 (int (serverId r)),
      writeInt8 (int (length (utf8Bytes c (slaveHostname r))))] = Inr q"
    using assms(1) by (auto simp: m'_def)
  from fails [OF this, of "writeString c (Some (slaveHostname r)) None"] bad [OF assms(7)]
  have "RegisterSlave_toPacket c mem r = Inl e"
    by (simp add: RegisterSlave_toPacket_def m'_def Let_def add.assoc)
  with 1 show ?thesis ..
qed

theorem replication_text_raises_witness:
  "BinlogDump_toPacket (latin1_codec\<lparr>iconvEncode := \<lambda>_ _. Inl (JsError '''' ''Encoding not recognized'')\<rparr>)
     (\<lambda>n. replicate n 0)
     \<lparr>binlogPos = 4, dumpServerId = 1, dumpFlags = 0, filename = js ''mysql-bin.000007''\<rparr> =
   Inl (JsError '''' ''Encoding not recognized'')"
  using replication_text_raises [of "\<lambda>n. replicate n 0"
      "latin1_codec\<lparr>iconvEncode := \<lambda>_ _. Inl (JsError '''' ''Encoding not recognized'')\<rparr>"
      "JsError '''' ''Encoding not recognized''"
      "\<lparr>binlogPos = 4, dumpServerId = 1, dumpFlags = 0, filename = js ''mysql-bin.000007''\<rparr>"
      "\<lparr>serverId = 1, slaveHostname = js ''h'', slaveUser = [], slavePassword = [], slavePort = 0,
        replicationRank = 0, masterId = 0\<rparr>"]
  by (simp add: js_def latin1_codec_def)

end
