(* ===== verification/Handshake.thy ===== *)
theory Handshake
  imports Packets
begin

text \<open>
  The packets of the connection phase (\<open>src/lib/packets/handshake.js\<close>, \<open>handshake_response.js\<close>,
  \<open>ssl_request.js\<close>, \<open>change_user.js\<close>) and the tokens of \<open>src/lib/auth_41.js\<close>. The hash functions of
  \<open>node:crypto\<close> are a parameter, the record \<open>crypto_lib\<close>.
\<close>

section \<open>auth_41.js\<close>

text \<open>\<open>publicEncrypt\<close> takes the key and the message; the padding is OAEP with SHA-1 wherever it is used.\<close>

record crypto_lib =
  hash_sha1 :: "bytes \<Rightarrow> bytes"
  hash_sha256 :: "bytes \<Rightarrow> bytes"
  publicEncrypt :: "bytes \<Rightarrow> bytes \<Rightarrow> bytes result"

definition crypto_ok :: "crypto_lib \<Rightarrow> bool" where
  "crypto_ok h \<longleftrightarrow> (\<forall>x. length (hash_sha1 h x) = 20) \<and> (\<forall>x. length (hash_sha256 h x) = 32)"

text \<open>A byte outside \<open>b\<close> is \<open>undefined\<close>, 0 under \<open>^\<close>.\<close>

fun xor_bytes :: "bytes \<Rightarrow> bytes \<Rightarrow> bytes" where
  "xor_bytes [] b = []"
| "xor_bytes (x # xs) [] = x # xor_bytes xs []"
| "xor_bytes (x # xs) (y # ys) = (x XOR y) # xor_bytes xs ys"

definition xorRotating :: "bytes \<Rightarrow> bytes \<Rightarrow> bytes" where
  "xorRotating a seed =
     (if seed = [] then a
      else map (\<lambda>i. a ! i XOR seed ! (i mod length seed)) [0..<length a])"

definition calculateTokenFromPasswordSha :: "crypto_lib \<Rightarrow> bytes \<Rightarrow> bytes \<Rightarrow> bytes \<Rightarrow> bytes" where
  "calculateTokenFromPasswordSha h passwordSha scramble1 scramble2 =
     (let stage2 = hash_sha1 h passwordSha;
          stage3 = hash_sha1 h (slice 0 8 scramble1 @ slice 0 12 scramble2 @ stage2)
      in xor_bytes stage3 passwordSha)"

text \<open>A password is a string or missing; the empty string is falsy too.\<close>

definition js_truthy :: "jstring option \<Rightarrow> bool" where
  "js_truthy s \<longleftrightarrow> (case s of None \<Rightarrow> False | Some t \<Rightarrow> t \<noteq> [])"

definition calculateToken :: "crypto_lib \<Rightarrow> codec \<Rightarrow> jstring option \<Rightarrow> bytes \<Rightarrow> bytes \<Rightarrow> bytes" where
  "calculateToken h c password scramble1 scramble2 =
     (if \<not> js_truthy password then []
      else calculateTokenFromPasswordSha h (hash_sha1 h (utf8Bytes c (the password))) scramble1 scramble2)"

definition verifyToken :: "crypto_lib \<Rightarrow> bytes \<Rightarrow> bytes \<Rightarrow> bytes \<Rightarrow> bytes \<Rightarrow> bool" where
  "verifyToken h publicSeed1 publicSeed2 token doubleSha =
     (let hashStage1 = xor_bytes token (hash_sha1 h (publicSeed1 @ publicSeed2 @ doubleSha))
      in hash_sha1 h hashStage1 = doubleSha)"

definition doubleSha1 :: "crypto_lib \<Rightarrow> codec \<Rightarrow> jstring \<Rightarrow> bytes" where
  "doubleSha1 h c password = hash_sha1 h (hash_sha1 h (utf8Bytes c password))"

section \<open>The server's greeting\<close>

record handshake =
  protocolVersion :: "nat option"
  serverVersion :: jstring
  capabilityFlags :: nat
  connectionId :: nat
  authPluginData1 :: bytes
  authPluginData2 :: "bytes option"
  characterSet :: "nat option"
  statusFlags :: "nat option"
  authPluginName :: "jstring option"
  mariadbExtendedCapabilityFlags :: nat

text \<open>The server side sets all but the plugin name, which \<open>toPacket\<close> does not look at.\<close>

definition Handshake_toPacket :: "codec \<Rightarrow> handshake \<Rightarrow> packet result" where
  "Handshake_toPacket c h =
     (let n = 68 + length (utf8Bytes c (serverVersion h)) + 4;
          flags = le_bytes 4 (capabilityFlags h) in
      if capabilityFlags h \<ge> 2 ^ 32 then Inl RangeError
      else build (replicate n 0)
        [writeInt8 (int (the (protocolVersion h))), writeString c (Some (serverVersion h)) (Some ''cesu8''),
         writeInt8 0, writeInt32 (int (connectionId h)), writeBuffer (authPluginData1 h), writeInt8 0,
         writeBuffer (slice 0 2 flags), writeInt8 (int (the (characterSet h))),
         writeInt16 (int (the (statusFlags h))), writeBuffer (slice 2 4 flags), writeInt8 21, wskip 10,
         writeBuffer (the (authPluginData2 h)), writeInt8 0,
         writeString c (Some (js ''mysql_native_password'')) (Some ''latin1''), writeInt8 0])"

text \<open>
  The part behind the lower capability flags: character set, status, upper flags, length of the
  plugin data and the MariaDB flags. The length is 0 when the flag asks for none, and
  \<open>undefined\<close> (\<open>None\<close>) when its byte is missing.
\<close>

definition greeting_tail ::
    "nat \<Rightarrow> (nat option \<times> nat option \<times> nat \<times> nat option \<times> nat) rd" where
  "greeting_tail lower =
     rbind readInt8 (\<lambda>cs. rbind readInt16 (\<lambda>st. rbind readInt8 (\<lambda>b2. rbind readInt8 (\<lambda>b3.
       let flags = lower + bits_of b2 * 2 ^ 16 + bits_of b3 * 2 ^ 24 in
       rbind (if isSet ClientConstants flags ''PLUGIN_AUTH'' then readInt8
              else rbind (rskip 1) (\<lambda>_. rret (Some 0))) (\<lambda>len.
       rbind (rskip 6) (\<lambda>_.
       rbind (if isSet ClientConstants flags ''LONG_PASSWORD''
              then rbind (rskip 4) (\<lambda>_. rret 0) else readInt32) (\<lambda>ext.
         rret (cs, Some st, flags, len, ext))))))))"

text \<open>
  The second part of the scramble. With an \<open>undefined\<close> length \<open>Math.max(13, NaN)\<close> is
  \<open>NaN\<close>, so is the offset \<open>readBuffer\<close> leaves, and its slice from \<open>NaN\<close> to
  \<open>NaN\<close> is empty; at such an offset the plugin name (\<open>greeting_name\<close>) is read as
  the empty string. Nothing is read behind it, so the offset itself is not kept.
\<close>

definition greeting_data2 :: "nat \<Rightarrow> nat option \<Rightarrow> bytes option rd" where
  "greeting_data2 flags len =
     (if isSet ClientConstants flags ''SECURE_CONNECTION'' then
        (case len of
           None \<Rightarrow> rret (Some [])
         | Some 0 \<Rightarrow> rbind (readBuffer 12) (\<lambda>b. rbind (rskip 1) (\<lambda>_. rret (Some b)))
         | Some n \<Rightarrow> rbind (readBuffer (max 13 (n - 8))) (\<lambda>b. rret (Some b)))
      else rret None)"

definition greeting_name :: "codec \<Rightarrow> nat \<Rightarrow> nat option \<Rightarrow> jstring option rd" where
  "greeting_name c flags len =
     (if \<not> isSet ClientConstants flags ''PLUGIN_AUTH'' then rret None
      else if isSet ClientConstants flags ''SECURE_CONNECTION'' \<and> len = None then rret (Some [])
      else rbind (readNullTerminatedString c (Some ''ascii'')) (\<lambda>s. rret (Some s)))"

definition Handshake_fromPacket :: "codec \<Rightarrow> handshake rd" where
  "Handshake_fromPacket c =
     rbind readInt8 (\<lambda>version. rbind (readNullTerminatedString c (Some ''cesu8'')) (\<lambda>server.
     rbind readInt32 (\<lambda>conn. rbind (readBuffer 8) (\<lambda>d1. rbind (rskip 1) (\<lambda>_.
     rbind readInt8 (\<lambda>b0. rbind readInt8 (\<lambda>b1.
     let lower = bits_of b0 + bits_of b1 * 2 ^ 8 in
     rbind (\<lambda>p. if haveMoreData p then greeting_tail lower p
                else Inr ((None, None, lower, None, 0), p)) (\<lambda>(cs, st, flags, len, ext).
     rbind (greeting_data2 flags len) (\<lambda>d2.
     rbind (greeting_name c flags len) (\<lambda>name.
       rret \<lparr>protocolVersion = version, serverVersion = server, capabilityFlags = flags,
             connectionId = conn, authPluginData1 = d1, authPluginData2 = d2, characterSet = cs,
             statusFlags = st, authPluginName = name, mariadbExtendedCapabilityFlags = ext\<rparr>))))))))))"

text \<open>\<open>setScrambleData\<close>; \<open>random\<close> is what \<open>randomBytes(20)\<close> delivers.\<close>

definition setScrambleData :: "bytes result \<Rightarrow> handshake \<Rightarrow> handshake result" where
  "setScrambleData random h =
     (case random of
        Inl e \<Rightarrow> Inl e
      | Inr data \<Rightarrow> Inr (h\<lparr>authPluginData1 := slice 0 8 data, authPluginData2 := Some (slice 8 20 data)\<rparr>))"

section \<open>The client's answers\<close>

text \<open>
  Client flags went through the bitwise operators, so they are 32-bit integers and may be negative;
  \<open>writeInt32\<close> then raises.
\<close>

definition client_isSet :: "int \<Rightarrow> string \<Rightarrow> bool" where
  "client_isSet flags name \<longleftrightarrow> flags AND int (code_of ClientConstants name) \<noteq> 0"

record handshake_response =
  hr_clientFlags :: int
  hr_mariadbExtendedClientFlags :: int
  hr_user :: jstring
  hr_database :: jstring
  hr_authToken :: bytes
  hr_authPluginName :: jstring
  hr_charsetNumber :: nat
  hr_connectAttributes :: "(jstring \<times> jstring) list"

text \<open>
  The constructor. \<open>given\<close> is the token with its plugin when the caller has both; the token of
  \<open>mysql_native_password\<close> needs both parts of the scramble.
\<close>

definition native_token ::
    "crypto_lib \<Rightarrow> codec \<Rightarrow> jstring option \<Rightarrow> bytes option \<Rightarrow> bytes \<Rightarrow> bytes \<Rightarrow> bytes" where
  "native_token h c password passwordSha1 data1 data2 =
     (case passwordSha1 of
        Some sha \<Rightarrow> calculateTokenFromPasswordSha h sha data1 data2
      | None \<Rightarrow> calculateToken h c password data1 data2)"

definition new_handshake_response ::
    "crypto_lib \<Rightarrow> codec \<Rightarrow> int \<Rightarrow> int \<Rightarrow> jstring option \<Rightarrow> jstring option \<Rightarrow> jstring option \<Rightarrow> bytes option \<Rightarrow>
     nat \<Rightarrow> bytes \<Rightarrow> bytes \<Rightarrow> (jstring \<times> jstring) list \<Rightarrow> (bytes \<times> jstring) option \<Rightarrow> handshake_response" where
  "new_handshake_response h c flags ext user database password passwordSha1 charset data1 data2 attrs given =
     (let (token, plugin) = (case given of
            Some tp \<Rightarrow> tp
          | None \<Rightarrow> (native_token h c password passwordSha1 data1 data2, js ''mysql_native_password'')) in
      \<lparr>hr_clientFlags = flags, hr_mariadbExtendedClientFlags = ext,
       hr_user = (case user of None \<Rightarrow> [] | Some u \<Rightarrow> u),
       hr_database = (case database of None \<Rightarrow> [] | Some d \<Rightarrow> d),
       hr_authToken = token, hr_authPluginName = plugin, hr_charsetNumber = charset,
       hr_connectAttributes = attrs\<rparr>)"

text \<open>The attributes in a packet: their total length, then names and values.\<close>

fun attr_strings :: "(jstring \<times> jstring) list \<Rightarrow> jstring list" where
  "attr_strings [] = []"
| "attr_strings ((k, v) # as) = k # v # attr_strings as"

fun strings_length :: "codec \<Rightarrow> string option \<Rightarrow> jstring list \<Rightarrow> nat result" where
  "strings_length c enc [] = Inr 0"
| "strings_length c enc (s # ss) =
     (case lengthCodedStringLength c s enc of
        Inl e \<Rightarrow> Inl e
      | Inr n \<Rightarrow> (case strings_length c enc ss of Inl e \<Rightarrow> Inl e | Inr m \<Rightarrow> Inr (n + m)))"

definition write_attributes :: "codec \<Rightarrow> string option \<Rightarrow> (jstring \<times> jstring) list \<Rightarrow> wr" where
  "write_attributes c enc attrs p =
     (case strings_length c enc (attr_strings attrs) of
        Inl e \<Rightarrow> Inl e
      | Inr n \<Rightarrow>
          writes (writeLengthCodedNumber (Some n) #
            map (\<lambda>s. writeLengthCodedString c s enc) (attr_strings attrs)) p)"

text \<open>\<open>serializeResponse\<close>: the writers; \<open>toPacket\<close> runs them on the mock buffer first.\<close>

definition serializeResponse :: "codec \<Rightarrow> handshake_response \<Rightarrow> wr list" where
  "serializeResponse c r =
     (let enc = CharsetToEncoding (hr_charsetNumber r); set = client_isSet (hr_clientFlags r) in
      [writeInt32 (hr_clientFlags r), writeInt32 0, writeInt8 (int (hr_charsetNumber r)), wskip 19,
       writeInt32 (hr_mariadbExtendedClientFlags r), writeNullTerminatedString c (hr_user r) enc] @
      (if set ''PLUGIN_AUTH_LENENC_CLIENT_DATA''
       then [writeLengthCodedNumber (Some (length (hr_authToken r))), writeBuffer (hr_authToken r)]
       else if set ''SECURE_CONNECTION''
       then [writeInt8 (int (length (hr_authToken r))), writeBuffer (hr_authToken r)]
       else [writeBuffer (hr_authToken r), writeInt8 0]) @
      (if set ''CONNECT_WITH_DB'' then [writeNullTerminatedString c (hr_database r) enc] else []) @
      (if set ''PLUGIN_AUTH''
       then [writeNullTerminatedString c
               (if hr_authPluginName r = [] then js ''mysql_native_password'' else hr_authPluginName r)
               (Some ''latin1'')] else []) @
      (if set ''CONNECT_ATTRS'' then [write_attributes c enc (hr_connectAttributes r)] else []))"

text \<open>A dry run gives the length, then a buffer of \<open>mem\<close> is filled.\<close>

definition dry_then_build :: "(nat \<Rightarrow> bytes) \<Rightarrow> wr list \<Rightarrow> packet result" where
  "dry_then_build mem ws =
     (case writes ws mock_packet of Inl e \<Rightarrow> Inl e | Inr p \<Rightarrow> build (mem (offset p)) ws)"

definition HandshakeResponse_toPacket :: "codec \<Rightarrow> handshake_response \<Rightarrow> packet result" where
  "HandshakeResponse_toPacket c r = dry_then_build (\<lambda>n. replicate n 0) (serializeResponse c r)"

record response_args =
  ra_clientFlags :: nat
  ra_maxPacketSize :: nat
  ra_charsetNumber :: "nat option"
  ra_user :: jstring
  ra_authToken :: "bytes + jstring"
  ra_database :: "jstring option"
  ra_authPluginName :: "jstring option"
  ra_connectAttributes :: "(jstring option \<times> jstring option) list option"

fun read_attributes ::
    "long_lib \<Rightarrow> codec \<Rightarrow> string option \<Rightarrow> nat \<Rightarrow> nat \<Rightarrow> (jstring option \<times> jstring option) list rd" where
  "read_attributes L c enc 0 stop p = Inr ([], p)"
| "read_attributes L c enc (Suc fuel) stop p =
     (if offset p < stop then
        rbind (readLengthCodedString L c enc) (\<lambda>k. rbind (readLengthCodedString L c enc) (\<lambda>v.
          rbind (read_attributes L c enc fuel stop) (\<lambda>as. rret ((k, v) # as)))) p
      else Inr ([], p))"

text \<open>
  The charset number is that of one byte; no encoding when it is missing. Every attribute takes
  bytes, so the length is enough fuel.
\<close>

definition HandshakeResponse_fromPacket :: "long_lib \<Rightarrow> codec \<Rightarrow> nat \<Rightarrow> response_args rd" where
  "HandshakeResponse_fromPacket L c serverFlags =
     rbind readInt32 (\<lambda>flags. rbind readInt32 (\<lambda>maxSize. rbind readInt8 (\<lambda>charset.
     let set = (\<lambda>name. isSet ClientConstants (flags AND serverFlags) name);
         enc = (case charset of None \<Rightarrow> None | Some n \<Rightarrow> CharsetToEncoding n) in
     rbind (rskip 23) (\<lambda>_. rbind (readNullTerminatedString c enc) (\<lambda>user.
     rbind (if set ''PLUGIN_AUTH_LENENC_CLIENT_DATA''
            then rbind (readLength L) (\<lambda>n. rbind (readBuffer (case n of None \<Rightarrow> 0 | Some k \<Rightarrow> k)) (\<lambda>b. rret (Inl b)))
            else if set ''SECURE_CONNECTION''
            then rbind readInt8 (\<lambda>n. rbind (case n of None \<Rightarrow> readRest | Some k \<Rightarrow> readBuffer k) (\<lambda>b. rret (Inl b)))
            else rbind (readNullTerminatedString c enc) (\<lambda>s. rret (Inr s))) (\<lambda>token.
     rbind (if set ''CONNECT_WITH_DB''
            then rbind (readNullTerminatedString c enc) (\<lambda>s. rret (Some s)) else rret None) (\<lambda>db.
     rbind (if set ''PLUGIN_AUTH''
            then rbind (readNullTerminatedString c enc) (\<lambda>s. rret (Some s)) else rret None) (\<lambda>plugin.
     rbind (if set ''CONNECT_ATTRS''
            then rbind (readLength L) (\<lambda>n p. let k = (case n of None \<Rightarrow> 0 | Some k \<Rightarrow> k) in
                   rbind (read_attributes L c enc k (offset p + k)) (\<lambda>as. rret (Some as)) p)
            else rret None) (\<lambda>attrs.
       rret \<lparr>ra_clientFlags = flags, ra_maxPacketSize = maxSize, ra_charsetNumber = charset, ra_user = user,
             ra_authToken = token, ra_database = db, ra_authPluginName = plugin,
             ra_connectAttributes = attrs\<rparr>)))))))))"

definition SSLRequest_toPacket :: "int \<Rightarrow> nat \<Rightarrow> int \<Rightarrow> packet result" where
  "SSLRequest_toPacket flags charset mariadbExtendedClientFlags =
     (let clientFlags = to_int32 flags OR int (code_of ClientConstants ''SSL'') in
      build (replicate 36 0)
        [writeInt32 clientFlags, writeInt32 0, writeInt8 (int charset), wskip 19,
         writeInt32 mariadbExtendedClientFlags])"

section \<open>COM_CHANGE_USER\<close>

record change_user_opts =
  cu_flags :: int
  cu_user :: jstring
  cu_database :: jstring
  cu_authToken :: bytes
  cu_charsetNumber :: nat
  cu_connectAttributes :: "(jstring \<times> jstring) list"

text \<open>The constructor: the token is that of \<open>mysql_native_password\<close>.\<close>

definition new_change_user ::
    "crypto_lib \<Rightarrow> codec \<Rightarrow> int \<Rightarrow> jstring option \<Rightarrow> jstring option \<Rightarrow> jstring option \<Rightarrow> bytes option \<Rightarrow>
     bytes \<Rightarrow> bytes \<Rightarrow> nat \<Rightarrow> (jstring \<times> jstring) list \<Rightarrow> change_user_opts" where
  "new_change_user h c flags user database password passwordSha1 data1 data2 charset attrs =
     \<lparr>cu_flags = flags, cu_user = (case user of None \<Rightarrow> [] | Some u \<Rightarrow> u),
      cu_database = (case database of None \<Rightarrow> [] | Some d \<Rightarrow> d),
      cu_authToken = native_token h c password passwordSha1 data1 data2,
      cu_charsetNumber = charset, cu_connectAttributes = attrs\<rparr>"

definition serializeToBuffer :: "codec \<Rightarrow> change_user_opts \<Rightarrow> wr list" where
  "serializeToBuffer c r =
     (let enc = CharsetToEncoding (cu_charsetNumber r); set = client_isSet (cu_flags r) in
      [writeInt8 (cmd ''CHANGE_USER''), writeNullTerminatedString c (cu_user r) enc] @
      (if set ''SECURE_CONNECTION''
       then [writeInt8 (int (length (cu_authToken r))), writeBuffer (cu_authToken r)]
       else [writeBuffer (cu_authToken r), writeInt8 0]) @
      [writeNullTerminatedString c (cu_database r) enc, writeInt16 (int (cu_charsetNumber r))] @
      (if set ''PLUGIN_AUTH''
       then [writeNullTerminatedString c (js ''mysql_native_password'') (Some ''latin1'')] else []) @
      (if set ''CONNECT_ATTRS'' then [write_attributes c enc (cu_connectAttributes r)] else []))"

definition ChangeUser_toPacket :: "codec \<Rightarrow> (nat \<Rightarrow> bytes) \<Rightarrow> change_user_opts \<Rightarrow> packet result" where
  "ChangeUser_toPacket c mem r = dry_then_build mem (serializeToBuffer c r)"

section \<open>Tokens\<close>

lemma length_xor_bytes [simp]: "length (xor_bytes a b) = length a"
  by (induction a b rule: xor_bytes.induct) auto

lemma xor_bytes_twice: "length b = length a \<Longrightarrow> xor_bytes (xor_bytes a b) a = b"
  by (induction a b rule: xor_bytes.induct) (auto simp: xor.commute xor.left_commute)

text \<open>The token of the client and the check of a server, for a scramble with or without its NUL.\<close>

lemma native_token_ok:
  assumes "crypto_ok h" and "password \<noteq> []" and "length seed1 = 8" and "length seed2 = 12"
  shows "verifyToken h seed1 seed2 (calculateToken h c (Some password) seed1 (seed2 @ rest)) (doubleSha1 h c password)"
proof -
  let ?stage1 = "hash_sha1 h (utf8Bytes c password)"
  have "calculateToken h c (Some password) seed1 (seed2 @ rest) =
      xor_bytes (hash_sha1 h (seed1 @ seed2 @ hash_sha1 h ?stage1)) ?stage1"
    using assms(2-4) by (simp add: calculateToken_def js_truthy_def calculateTokenFromPasswordSha_def slice_def)
  moreover have "length ?stage1 = length (hash_sha1 h (seed1 @ seed2 @ hash_sha1 h ?stage1))"
    using assms(1) by (simp add: crypto_ok_def)
  ultimately show ?thesis
    by (simp add: verifyToken_def doubleSha1_def xor_bytes_twice)
qed

lemma xorRotating_twice: "xorRotating (xorRotating a seed) seed = a"
  by (rule nth_equalityI) (auto simp: xorRotating_def xor.assoc)

section \<open>The greeting is read back\<close>

lemma reads_more_data:
  assumes "reads r bs x" and "bs \<noteq> []"
  shows "reads (\<lambda>p. if haveMoreData p then r p else z p) bs x"
  using assms by (cases bs) (auto simp: reads_def haveMoreData_def)

lemma reads_skip_zeros: "reads (rskip n) (replicate n 0) ()"
  by (rule reads_skip) simp

lemma four: "(4 :: nat) = Suc (Suc (Suc (Suc 0)))"
  by simp

lemma reads_int32_zero: "reads readInt32 (replicate 4 0) 0"
proof -
  have "le_bytes 4 0 = replicate 4 0"
    unfolding four by simp
  then show ?thesis
    using reads_uint_le [of 0 4] by (simp add: readInt32_def)
qed

lemma flags_from_bytes:
  assumes "flags < 2 ^ 32"
  shows "unat (word_of_nat flags :: byte) + unat (word_of_nat (flags div 256) :: byte) * 2 ^ 8 +
    unat (word_of_nat (flags div 256 div 256) :: byte) * 2 ^ 16 +
    unat (word_of_nat (flags div 256 div 256 div 256) :: byte) * 2 ^ 24 = flags"
proof -
  have "le_val (le_bytes 4 flags) = flags"
    using assms by (simp add: le_val_le_bytes)
  then show ?thesis
    by (simp add: le_bytes_4 algebra_simps)
qed

text \<open>What the greeting carries, for a version with the bytes \<open>vb\<close> and a plugin name with \<open>nb\<close>.\<close>

definition greeting_ok :: "codec \<Rightarrow> handshake \<Rightarrow> bytes \<Rightarrow> bytes \<Rightarrow> bool" where
  "greeting_ok c h vb nb \<longleftrightarrow>
     (\<exists>v cs st. protocolVersion h = Some v \<and> v < 256 \<and> characterSet h = Some cs \<and> cs < 256 \<and>
        statusFlags h = Some st \<and> st < 65536) \<and>
     text_ok c (Some ''cesu8'') (serverVersion h) vb \<and> 0 \<notin> set vb \<and> (serverVersion h = [] \<longrightarrow> vb = []) \<and>
     length (utf8Bytes c (serverVersion h)) = length vb \<and> capabilityFlags h < 2 ^ 32 \<and> connectionId h < 2 ^ 32 \<and>
     length (authPluginData1 h) = 8 \<and> (\<exists>d2. authPluginData2 h = Some d2 \<and> length d2 = 12) \<and>
     encode c (js ''mysql_native_password'') (Some ''latin1'') = Inr nb \<and> 0 \<notin> set nb \<and> length nb = 21 \<and>
     text_ok c (Some ''ascii'') (js ''mysql_native_password'') nb"

definition greeting_bytes :: "handshake \<Rightarrow> bytes \<Rightarrow> bytes \<Rightarrow> bytes" where
  "greeting_bytes h vb nb =
     [word_of_nat (the (protocolVersion h))] @ (vb @ [0]) @ le_bytes 4 (connectionId h) @
     authPluginData1 h @ [0] @ slice 0 2 (le_bytes 4 (capabilityFlags h)) @
     ([word_of_nat (the (characterSet h))] @ le_bytes 2 (the (statusFlags h)) @
      slice 2 4 (le_bytes 4 (capabilityFlags h)) @ [21] @ replicate 6 0 @ replicate 4 0) @
     (the (authPluginData2 h) @ [0]) @ nb @ [0]"

lemma Handshake_packs:
  assumes "greeting_ok c h vb nb"
  shows "packs (Handshake_toPacket c h) (greeting_bytes h vb nb)"
proof -
  note ok = assms [unfolded greeting_ok_def]
  have zero: "emits z (writeInt8 0) [0]" for z
    using emits_writeInt8 [of 0 z] by simp
  have len: "emits True (writeInt8 21) [21]"
    using emits_writeInt8 [of 21 True] by simp
  have name: "emits True (writeString c (Some (js ''mysql_native_password'')) (Some ''latin1'')) nb"
    using ok by (intro emits_writeString) (auto simp: js_def)
  have version: "emits True (writeString c (Some (serverVersion h)) (Some ''cesu8'')) vb"
    using ok by (intro emits_writeString) (auto simp: text_ok_def)
  have "emits True (writes
        [writeInt8 (int (the (protocolVersion h))), writeString c (Some (serverVersion h)) (Some ''cesu8''),
         writeInt8 0, writeInt32 (int (connectionId h)), writeBuffer (authPluginData1 h), writeInt8 0,
         writeBuffer (slice 0 2 (le_bytes 4 (capabilityFlags h))), writeInt8 (int (the (characterSet h))),
         writeInt16 (int (the (statusFlags h))), writeBuffer (slice 2 4 (le_bytes 4 (capabilityFlags h))),
         writeInt8 21, wskip 10, writeBuffer (the (authPluginData2 h)), writeInt8 0,
         writeString c (Some (js ''mysql_native_password'')) (Some ''latin1''), writeInt8 0])
      ([word_of_nat (the (protocolVersion h))] @ vb @ [0] @ le_bytes 4 (connectionId h) @ authPluginData1 h @ [0] @
       slice 0 2 (le_bytes 4 (capabilityFlags h)) @ [word_of_nat (the (characterSet h))] @
       le_bytes 2 (the (statusFlags h)) @ slice 2 4 (le_bytes 4 (capabilityFlags h)) @ [21] @ replicate 10 0 @
       the (authPluginData2 h) @ [0] @ nb @ [0] @ [])"
    using ok
    by (intro emits_Cons emits_Nil zero len name version emits_writeBuffer emits_skip emits_writeInt8
        emits_writeInt16 emits_writeInt32) auto
  moreover have "replicate 10 (0 :: byte) = replicate 6 0 @ replicate 4 0"
    by (simp add: replicate_add [symmetric])
  ultimately show ?thesis
    using ok unfolding Handshake_toPacket_def greeting_bytes_def Let_def
    by (auto intro!: packs_build [of True] simp del: writes.simps)
qed

lemma greeting_tail_reads:
  assumes ok: "greeting_ok c h vb nb" and plugin: "isSet ClientConstants (capabilityFlags h) ''PLUGIN_AUTH''"
    and lower: "slice 0 2 (le_bytes 4 (capabilityFlags h)) = [b0, b1]" "lower = unat b0 + unat b1 * 2 ^ 8"
  shows "reads (greeting_tail lower)
    ([word_of_nat (the (characterSet h))] @ le_bytes 2 (the (statusFlags h)) @
     slice 2 4 (le_bytes 4 (capabilityFlags h)) @ [21] @ replicate 6 0 @ replicate 4 0)
    (characterSet h, statusFlags h, capabilityFlags h, Some 21, 0)"
proof -
  let ?f = "capabilityFlags h"
  obtain cs st where vals: "characterSet h = Some cs" "cs < 256" "statusFlags h = Some st" "st < 65536"
    "?f < 2 ^ 32"
    using ok by (auto simp: greeting_ok_def)
  let ?b2 = "word_of_nat (?f div 256 div 256) :: byte" and ?b3 = "word_of_nat (?f div 256 div 256 div 256) :: byte"
  have upper: "slice 2 4 (le_bytes 4 ?f) = [?b2] @ [?b3]"
    by (simp add: le_bytes_4 slice_def)
  have flags: "lower + unat ?b2 * 2 ^ 16 + unat ?b3 * 2 ^ 24 = ?f"
    using lower flags_from_bytes [OF vals(5)] by (simp add: le_bytes_4 slice_def)
  have skip4: "reads (rbind (rskip 4) (\<lambda>_. rret (0 :: nat))) (replicate 4 0) 0"
    by (rule reads_bind_ret [OF reads_skip_zeros]) simp
  have ext: "reads (if isSet ClientConstants ?f ''LONG_PASSWORD''
      then rbind (rskip 4) (\<lambda>_. rret 0) else readInt32) (replicate 4 0) 0"
    by (cases "isSet ClientConstants ?f ''LONG_PASSWORD''") (simp_all only: if_True if_False skip4 reads_int32_zero)
  have status: "reads readInt16 (le_bytes 2 st) st"
    unfolding readInt16_def by (rule reads_uint_le) (simp add: vals(4))
  have len: "reads readInt8 [21] (Some 21)"
    using reads_u8 [of 21] by simp
  have last: "reads (rbind (if isSet ClientConstants ?f ''LONG_PASSWORD''
      then rbind (rskip 4) (\<lambda>_. rret 0) else readInt32) (\<lambda>ext. rret (Some cs, Some st, ?f, Some 21, ext)))
      (replicate 4 0) (Some cs, Some st, ?f, Some 21, 0)"
    by (rule reads_bind_ret [OF ext]) simp
  have behind: "reads (rbind (rskip 6) (\<lambda>_. rbind (if isSet ClientConstants ?f ''LONG_PASSWORD''
      then rbind (rskip 4) (\<lambda>_. rret 0) else readInt32) (\<lambda>ext. rret (Some cs, Some st, ?f, Some 21, ext))))
      (replicate 6 0 @ replicate 4 0) (Some cs, Some st, ?f, Some 21, 0)"
    by (rule reads_bind, rule reads_skip_zeros, rule last)
  have "reads (greeting_tail lower) ([word_of_nat cs] @ le_bytes 2 st @ [?b2] @ [?b3] @ [21] @ replicate 6 0 @ replicate 4 0)
      (Some cs, Some st, ?f, Some 21, 0)"
    unfolding greeting_tail_def
    apply (rule reads_bind [OF reads_u8 [OF vals(2)]])
    apply (rule reads_bind [OF status])
    apply (rule reads_bind [OF reads_readInt8])
    apply (rule reads_bind [OF reads_readInt8])
    apply (simp only: bits_of_def option.case Let_def flags plugin if_True)
    apply (rule reads_bind [OF len], rule behind)
    done
  then show ?thesis
    using vals upper by simp
qed

lemma greeting_data2_reads:
  assumes "isSet ClientConstants flags ''SECURE_CONNECTION''" and "length d2 = 12"
  shows "reads (greeting_data2 flags (Some 21)) (d2 @ [0]) (Some (d2 @ [0]))"
proof -
  have "greeting_data2 flags (Some 21) = rbind (readBuffer 13) (\<lambda>b. rret (Some b))"
    using assms(1) by (simp add: greeting_data2_def)
  then show ?thesis
    using assms(2) by (auto intro!: reads_bind_ret reads_readBuffer)
qed

text \<open>What the client makes of the greeting: the NUL behind the scramble stays in \<open>authPluginData2\<close>.\<close>

definition as_read :: "handshake \<Rightarrow> handshake" where
  "as_read h = h\<lparr>authPluginData2 := Some (the (authPluginData2 h) @ [0]),
     authPluginName := Some (js ''mysql_native_password''), mariadbExtendedCapabilityFlags := 0\<rparr>"

lemma handshake_reads:
  assumes ok: "greeting_ok c h vb nb"
    and flags: "isSet ClientConstants (capabilityFlags h) ''PLUGIN_AUTH''"
      "isSet ClientConstants (capabilityFlags h) ''SECURE_CONNECTION''"
  shows "reads_all (Handshake_fromPacket c) (greeting_bytes h vb nb) (as_read h)"
proof -
  let ?f = "capabilityFlags h"
  obtain v d2 where vals: "protocolVersion h = Some v" "v < 256" "authPluginData2 h = Some d2" "length d2 = 12"
    "connectionId h < 2 ^ 32" "length (authPluginData1 h) = 8"
    and version: "text_ok c (Some ''cesu8'') (serverVersion h) vb" "0 \<notin> set vb"
    and name: "text_ok c (Some ''ascii'') (js ''mysql_native_password'') nb" "0 \<notin> set nb"
    using ok by (auto simp: greeting_ok_def)
  obtain b0 b1 where low: "slice 0 2 (le_bytes 4 ?f) = [b0, b1]"
    by (simp add: le_bytes_4 slice_def)
  define tail where "tail = [word_of_nat (the (characterSet h))] @ le_bytes 2 (the (statusFlags h)) @
     slice 2 4 (le_bytes 4 ?f) @ [21] @ replicate 6 (0 :: byte) @ replicate 4 0"
  have "reads (\<lambda>p. if haveMoreData p then greeting_tail (unat b0 + unat b1 * 2 ^ 8) p
        else Inr ((None, None, unat b0 + unat b1 * 2 ^ 8, None, 0), p)) tail
      (characterSet h, statusFlags h, ?f, Some 21, 0)"
    using reads_more_data [OF greeting_tail_reads [OF ok flags(1) low refl]] unfolding tail_def by simp
  note tail_reads = this
  have conn: "reads readInt32 (le_bytes 4 (connectionId h)) (connectionId h)"
    unfolding readInt32_def using vals(5) by (intro reads_uint_le) simp
  have skip: "reads (rskip 1) [0] ()"
    by (rule reads_skip) simp
  have "reads (rbind (readNullTerminatedString c (Some ''ascii'')) (\<lambda>s. rret (Some s))) (nb @ [0])
      (Some (js ''mysql_native_password''))"
    by (rule reads_bind_ret [OF reads_nul_string [OF name]]) simp
  then have last: "reads (greeting_name c ?f (Some 21)) (nb @ [0]) (Some (js ''mysql_native_password''))"
    using flags by (simp add: greeting_name_def)
  have whole: "reads (Handshake_fromPacket c)
      ([word_of_nat v] @ (vb @ [0]) @ le_bytes 4 (connectionId h) @ authPluginData1 h @ [0] @ [b0] @ [b1] @
       tail @ (d2 @ [0]) @ (nb @ [0])) (as_read h)"
    unfolding Handshake_fromPacket_def
    apply (rule reads_bind [OF reads_u8 [OF vals(2)]])
    apply (rule reads_bind [OF reads_nul_string [OF version]])
    apply (rule reads_bind [OF conn])
    apply (rule reads_bind [OF reads_readBuffer [OF vals(6)]])
    apply (rule reads_bind [OF skip])
    apply (rule reads_bind [OF reads_readInt8])
    apply (rule reads_bind [OF reads_readInt8])
    apply (unfold bits_of_def option.case Let_def)
    apply (rule reads_bind [OF tail_reads])
    apply (unfold prod.case)
    apply (rule reads_bind [OF greeting_data2_reads [OF flags(2) vals(4)]])
    apply (rule reads_bind_ret [OF last])
    apply (use vals in \<open>cases h, simp add: as_read_def\<close>)
    done
  have "greeting_bytes h vb nb = [word_of_nat v] @ (vb @ [0]) @ le_bytes 4 (connectionId h) @ authPluginData1 h @
      [0] @ [b0] @ [b1] @ tail @ (d2 @ [0]) @ (nb @ [0])"
    using vals low by (simp add: greeting_bytes_def tail_def)
  then show "reads_all (Handshake_fromPacket c) (greeting_bytes h vb nb) (as_read h)"
    using reads_reads_all [OF whole] by simp
qed

text \<open>
  Claim C23. The client reads the greeting the server side writes, for every version, connection id,
  character set, status and every set of capability flags with \<open>PLUGIN_AUTH\<close> and
  \<open>SECURE_CONNECTION\<close>: all these fields and the first part of the scramble come back; the
  second part gains its terminating NUL, the plugin name is \<open>mysql_native_password\<close> (the
  server writes no other) and the MariaDB flags are 0 (\<open>as_read\<close>).
\<close>

theorem handshake_roundtrip:
  assumes "greeting_ok c h vb nb"
    and "isSet ClientConstants (capabilityFlags h) ''PLUGIN_AUTH''"
    and "isSet ClientConstants (capabilityFlags h) ''SECURE_CONNECTION''"
  shows "packs (Handshake_toPacket c h) (greeting_bytes h vb nb) \<and>
    reads_all (Handshake_fromPacket c) (greeting_bytes h vb nb) (as_read h)"
  by (rule conjI [OF Handshake_packs [OF assms(1)] handshake_reads [OF assms]])

definition demo_greeting :: handshake where
  "demo_greeting = \<lparr>protocolVersion = Some 10, serverVersion = js ''8.0'', capabilityFlags = 557056, connectionId = 77,
     authPluginData1 = replicate 8 5, authPluginData2 = Some (replicate 12 6), characterSet = Some 224,
     statusFlags = Some 2, authPluginName = None, mariadbExtendedCapabilityFlags = 0\<rparr>"

definition demo_name :: bytes where
  "demo_name = map of_char ''mysql_native_password''"

lemma demo_greeting_ok: "greeting_ok latin1_codec demo_greeting (map of_char ''8.0'') demo_name"
  by (simp add: greeting_ok_def text_ok_def demo_greeting_def demo_name_def encode_def decode_def latin1_codec_def
      asciiSlice_def js_def slice_def latin1Slice_def Let_def)

theorem handshake_roundtrip_witness:
  "packs (Handshake_toPacket latin1_codec demo_greeting)
      (greeting_bytes demo_greeting (map of_char ''8.0'') demo_name) \<and>
    reads_all (Handshake_fromPacket latin1_codec)
      (greeting_bytes demo_greeting (map of_char ''8.0'') demo_name) (as_read demo_greeting)"
  by (rule handshake_roundtrip [OF demo_greeting_ok])
    (simp_all add: demo_greeting_def isSet_def code_of_def ClientConstants_def)

section \<open>The client's response is read back\<close>

lemma emits_if: "(b \<Longrightarrow> emits z (writes ws) bs) \<Longrightarrow> emits z (writes (if b then ws else [])) (if b then bs else [])"
  by (simp add: emits_Nil del: writes.simps)

lemma emits_one: "emits z w bs \<Longrightarrow> emits z (writes [w]) bs"
  using emits_Cons [OF _ emits_Nil, of z w bs] by simp

lemma dry_packs:
  assumes "emits True (writes ws) bs"
  shows "packs (dry_then_build (\<lambda>n. replicate n 0) ws) bs"
proof -
  have "writes ws mock_packet = Inr (mock_packet\<lparr>offset := 4 + length bs\<rparr>)"
    using emits_mockD [OF assms, of mock_packet] by (simp add: mock_packet_def new_packet_def)
  then show ?thesis
    using packs_build [OF assms, of "replicate (4 + length bs) 0"]
    by (simp add: dry_then_build_def)
qed

text \<open>The attributes: what is written, and that the server reads them back.\<close>

fun attr_bytes :: "bytes list \<Rightarrow> bytes" where
  "attr_bytes [] = []"
| "attr_bytes (b # bs) = lcn_bytes (length b) @ b @ attr_bytes bs"

definition attrs_ok :: "codec \<Rightarrow> string option \<Rightarrow> jstring list \<Rightarrow> bytes list \<Rightarrow> bool" where
  "attrs_ok c enc ss bs \<longleftrightarrow> list_all2 (\<lambda>s b. text_ok c enc s b \<and> length b < 2 ^ 53) ss bs"

lemma strings_length_ok:
  "attrs_ok c enc ss bs \<Longrightarrow> strings_length c enc ss = Inr (length (attr_bytes bs))"
  unfolding attrs_ok_def
  by (induction ss bs rule: list_all2_induct)
    (auto simp: lengthCodedStringLength_def text_ok_def length_lcn_bytes)

lemma emits_attr_strings:
  "attrs_ok c enc ss bs \<Longrightarrow> emits z (writes (map (\<lambda>s. writeLengthCodedString c s enc) ss)) (attr_bytes bs)"
  unfolding attrs_ok_def
proof (induction ss bs rule: list_all2_induct)
  case (Cons s ss b bs)
  then show ?case
    using emits_Cons [OF emits_lenenc_string [of c enc s b z] Cons.IH] by (simp del: writes.simps)
qed (simp add: emits_Nil del: writes.simps)

lemma emits_attributes:
  assumes "attrs_ok c enc (attr_strings attrs) bs" and "length (attr_bytes bs) < 2 ^ 53"
  shows "emits z (write_attributes c enc attrs) (lcn_bytes (length (attr_bytes bs)) @ attr_bytes bs)"
proof -
  have "write_attributes c enc attrs =
      writes (writeLengthCodedNumber (Some (length (attr_bytes bs))) #
        map (\<lambda>s. writeLengthCodedString c s enc) (attr_strings attrs))"
    using strings_length_ok [OF assms(1)] by (intro ext) (simp add: write_attributes_def del: writes.simps)
  then show ?thesis
    using emits_Cons [OF emits_writeLengthCodedNumber emits_attr_strings [OF assms(1)], of "length (attr_bytes bs)" z] assms(2)
    by simp
qed

lemma lcn_bytes_pos [simp]: "0 < length (lcn_bytes n)"
  by (simp add: lcn_bytes_def)

lemma read_attributes_ok:
  assumes "long_ok L" "codec_ok c"
  shows "attrs_ok c enc (attr_strings attrs) bs \<Longrightarrow> length (attr_bytes bs) \<le> fuel \<Longrightarrow>
    buffer p = pre @ attr_bytes bs @ post \<Longrightarrow> offset p = length pre \<Longrightarrow>
    length pre + length (attr_bytes bs) \<le> end_pos p \<Longrightarrow>
    read_attributes L c enc fuel (length pre + length (attr_bytes bs)) p =
      Inr (map (\<lambda>(k, v). (Some k, Some v)) attrs, p\<lparr>offset := length pre + length (attr_bytes bs)\<rparr>)"
proof (induction attrs arbitrary: bs fuel p pre)
  case Nil
  then have "bs = []"
    by (simp add: attrs_ok_def)
  with Nil show ?case
    by (cases fuel) auto
next
  case (Cons kv attrs)
  obtain k v where kv: "kv = (k, v)"
    by fastforce
  from Cons.prems(1) obtain b1 b2 bs' where bs: "bs = b1 # b2 # bs'" "text_ok c enc k b1" "length b1 < 2 ^ 53"
    "text_ok c enc v b2" "length b2 < 2 ^ 53" "attrs_ok c enc (attr_strings attrs) bs'"
    by (auto simp: kv attrs_ok_def list_all2_Cons1)
  let ?w1 = "lcn_bytes (length b1) @ b1" and ?w2 = "lcn_bytes (length b2) @ b2"
  obtain f where f: "fuel = Suc f"
    using Cons.prems(2) lcn_bytes_pos [of "length b1"] by (cases fuel) (auto simp: bs(1))
  have all: "attr_bytes bs = ?w1 @ ?w2 @ attr_bytes bs'"
    by (simp add: bs(1))
  have less: "offset p < length pre + length (attr_bytes bs)"
    using Cons.prems(4) lcn_bytes_pos [of "length b1"] by (simp add: all)
  have shorter: "length (attr_bytes bs') \<le> f"
    using Cons.prems(2) lcn_bytes_pos [of "length b1"] unfolding all f length_append by linarith
  define p1 where "p1 = p\<lparr>offset := length pre + length ?w1\<rparr>"
  define p2 where "p2 = p1\<lparr>offset := length (pre @ ?w1) + length ?w2\<rparr>"
  have "readLengthCodedString L c enc p = Inr (Some k, p1)"
    unfolding p1_def by (rule readsD [OF reads_lenenc_string [OF assms bs(2,3)], of _ _ "?w2 @ attr_bytes bs' @ post"])
      (use Cons.prems in \<open>simp_all add: all\<close>)
  moreover have "readLengthCodedString L c enc p1 = Inr (Some v, p2)"
    unfolding p2_def by (rule readsD [OF reads_lenenc_string [OF assms bs(4,5)], of _ _ "attr_bytes bs' @ post"])
      (use Cons.prems in \<open>simp_all add: all p1_def\<close>)
  moreover have "read_attributes L c enc f (length (pre @ ?w1 @ ?w2) + length (attr_bytes bs')) p2 =
      Inr (map (\<lambda>(k, v). (Some k, Some v)) attrs, p2\<lparr>offset := length (pre @ ?w1 @ ?w2) + length (attr_bytes bs')\<rparr>)"
    by (rule Cons.IH [OF bs(6)])
      (use Cons.prems shorter in \<open>simp_all add: all p1_def p2_def\<close>)
  ultimately show ?case
    using less by (simp add: f kv all p1_def p2_def rbind_def rret_def add.assoc)
qed

lemma client_isSet_int: "client_isSet (int flags) name = isSet ClientConstants flags name"
  by (simp add: client_isSet_def isSet_def flip: of_nat_and_eq)

text \<open>What a response carries: the flags and the bytes of its texts.\<close>

record response_parts =
  rp_flags :: nat
  rp_ext :: nat
  rp_user :: bytes
  rp_database :: bytes
  rp_plugin :: bytes
  rp_attrs :: "bytes list"
  rp_tokenText :: jstring

text \<open>
  The token in its three layouts: behind its length as a length-coded number, behind its length in
  one byte, and terminated by a NUL, when the server side reads it as a text.
\<close>

definition token_ok :: "codec \<Rightarrow> handshake_response \<Rightarrow> response_parts \<Rightarrow> bool" where
  "token_ok c r x \<longleftrightarrow>
     (if isSet ClientConstants (rp_flags x) ''PLUGIN_AUTH_LENENC_CLIENT_DATA'' then length (hr_authToken r) < 2 ^ 53
      else if isSet ClientConstants (rp_flags x) ''SECURE_CONNECTION'' then length (hr_authToken r) < 256
      else text_ok c (CharsetToEncoding (hr_charsetNumber r)) (rp_tokenText x) (hr_authToken r) \<and>
           0 \<notin> set (hr_authToken r))"

definition token_bytes :: "handshake_response \<Rightarrow> response_parts \<Rightarrow> bytes" where
  "token_bytes r x =
     (if isSet ClientConstants (rp_flags x) ''PLUGIN_AUTH_LENENC_CLIENT_DATA''
      then lcn_bytes (length (hr_authToken r)) @ hr_authToken r
      else if isSet ClientConstants (rp_flags x) ''SECURE_CONNECTION''
      then [word_of_nat (length (hr_authToken r))] @ hr_authToken r
      else hr_authToken r @ [0])"

definition token_read :: "handshake_response \<Rightarrow> response_parts \<Rightarrow> bytes + jstring" where
  "token_read r x =
     (if isSet ClientConstants (rp_flags x) ''PLUGIN_AUTH_LENENC_CLIENT_DATA'' \<or>
         isSet ClientConstants (rp_flags x) ''SECURE_CONNECTION''
      then Inl (hr_authToken r) else Inr (rp_tokenText x))"

definition response_ok :: "codec \<Rightarrow> handshake_response \<Rightarrow> response_parts \<Rightarrow> bool" where
  "response_ok c r x \<longleftrightarrow>
     (let enc = CharsetToEncoding (hr_charsetNumber r) in
      hr_clientFlags r = int (rp_flags x) \<and> rp_flags x < 2 ^ 32 \<and>
      hr_mariadbExtendedClientFlags r = int (rp_ext x) \<and> rp_ext x < 2 ^ 32 \<and> hr_charsetNumber r < 256 \<and>
      text_ok c enc (hr_user r) (rp_user x) \<and> 0 \<notin> set (rp_user x) \<and>
      text_ok c enc (hr_database r) (rp_database x) \<and> 0 \<notin> set (rp_database x) \<and>
      hr_authPluginName r \<noteq> [] \<and> text_ok c (Some ''latin1'') (hr_authPluginName r) (rp_plugin x) \<and>
      text_ok c enc (hr_authPluginName r) (rp_plugin x) \<and> 0 \<notin> set (rp_plugin x) \<and>
      attrs_ok c enc (attr_strings (hr_connectAttributes r)) (rp_attrs x) \<and>
      length (attr_bytes (rp_attrs x)) < 2 ^ 53 \<and> token_ok c r x)"

definition response_bytes :: "handshake_response \<Rightarrow> response_parts \<Rightarrow> bytes" where
  "response_bytes r x =
     (let set = isSet ClientConstants (rp_flags x) in
      le_bytes 4 (rp_flags x) @ le_bytes 4 0 @ [word_of_nat (hr_charsetNumber r)] @
      (replicate 19 0 @ le_bytes 4 (rp_ext x)) @ (rp_user x @ [0]) @
      token_bytes r x @
      (if set ''CONNECT_WITH_DB'' then rp_database x @ [0] else []) @
      (if set ''PLUGIN_AUTH'' then rp_plugin x @ [0] else []) @
      (if set ''CONNECT_ATTRS'' then lcn_bytes (length (attr_bytes (rp_attrs x))) @ attr_bytes (rp_attrs x) else []))"

lemma emits_token:
  assumes "token_ok c r x"
  shows "emits True (writes
      (if isSet ClientConstants (rp_flags x) ''PLUGIN_AUTH_LENENC_CLIENT_DATA''
       then [writeLengthCodedNumber (Some (length (hr_authToken r))), writeBuffer (hr_authToken r)]
       else if isSet ClientConstants (rp_flags x) ''SECURE_CONNECTION''
       then [writeInt8 (int (length (hr_authToken r))), writeBuffer (hr_authToken r)]
       else [writeBuffer (hr_authToken r), writeInt8 0])) (token_bytes r x)"
proof -
  let ?t = "hr_authToken r" and ?set = "isSet ClientConstants (rp_flags x)"
  have lenenc: "emits True (writes [writeLengthCodedNumber (Some (length ?t)), writeBuffer ?t])
      (lcn_bytes (length ?t) @ ?t @ [])" if "length ?t < 2 ^ 53"
    by (intro emits_Cons emits_Nil emits_writeLengthCodedNumber emits_writeBuffer) (use that in simp)
  have short: "emits True (writes [writeInt8 (int (length ?t)), writeBuffer ?t])
      ([word_of_nat (length ?t)] @ ?t @ [])" if "length ?t < 256"
    by (intro emits_Cons emits_Nil emits_writeInt8 emits_writeBuffer) (use that in simp)
  have nul: "emits True (writes [writeBuffer ?t, writeInt8 (int 0)]) (?t @ [word_of_nat 0] @ [])"
    by (intro emits_Cons emits_Nil emits_writeInt8 emits_writeBuffer) simp
  show ?thesis
    using assms lenenc short nul
    by (cases "?set ''PLUGIN_AUTH_LENENC_CLIENT_DATA''"; cases "?set ''SECURE_CONNECTION''")
       (simp_all add: token_ok_def token_bytes_def del: writes.simps)
qed

lemma HandshakeResponse_packs:
  assumes "response_ok c r x"
  shows "packs (HandshakeResponse_toPacket c r) (response_bytes r x)"
proof -
  let ?enc = "CharsetToEncoding (hr_charsetNumber r)" and ?set = "isSet ClientConstants (rp_flags x)"
  note ok = assms [unfolded response_ok_def Let_def]
  have zero: "emits True (writeInt32 0) (le_bytes 4 0)"
    using emits_writeInt32 [of 0 True] by simp
  have head: "emits True (writes
      [writeInt32 (int (rp_flags x)), writeInt32 0, writeInt8 (int (hr_charsetNumber r)), wskip 19,
       writeInt32 (int (rp_ext x)), writeNullTerminatedString c (hr_user r) ?enc])
      (le_bytes 4 (rp_flags x) @ le_bytes 4 0 @ [word_of_nat (hr_charsetNumber r)] @ replicate 19 0 @
       le_bytes 4 (rp_ext x) @ (rp_user x @ [0]) @ [])"
    using ok by (intro emits_Cons emits_Nil emits_writeInt32 emits_writeInt8 emits_skip zero emits_nul_string) auto
  have token: "token_ok c r x"
    using ok by simp
  have db: "emits True (writes (if ?set ''CONNECT_WITH_DB'' then [writeNullTerminatedString c (hr_database r) ?enc] else []))
      (if ?set ''CONNECT_WITH_DB'' then rp_database x @ [0] else [])"
    using ok by (intro emits_if emits_one emits_nul_string) auto
  have plugin: "emits True (writes (if ?set ''PLUGIN_AUTH''
        then [writeNullTerminatedString c (hr_authPluginName r) (Some ''latin1'')] else []))
      (if ?set ''PLUGIN_AUTH'' then rp_plugin x @ [0] else [])"
    using ok by (intro emits_if emits_one emits_nul_string) auto
  have attrs: "emits True (writes (if ?set ''CONNECT_ATTRS''
        then [write_attributes c ?enc (hr_connectAttributes r)] else []))
      (if ?set ''CONNECT_ATTRS'' then lcn_bytes (length (attr_bytes (rp_attrs x))) @ attr_bytes (rp_attrs x) else [])"
    using ok by (intro emits_if emits_one emits_attributes) auto
  have fields: "hr_clientFlags r = int (rp_flags x)" "hr_mariadbExtendedClientFlags r = int (rp_ext x)"
    and named: "(hr_authPluginName r = []) = False"
    using ok by simp_all
  from dry_packs [OF emits_append [OF head emits_append [OF emits_token [OF token] emits_append [OF db emits_append [OF plugin attrs]]]]]
  show ?thesis
    unfolding HandshakeResponse_toPacket_def serializeResponse_def response_bytes_def Let_def fields
      client_isSet_int named
    by (simp only: if_True if_False append_assoc append_Nil2)
qed

lemma reads_if:
  "(b \<Longrightarrow> reads r b1 x) \<Longrightarrow> (\<not> b \<Longrightarrow> reads r' b2 y) \<Longrightarrow>
   reads (if b then r else r') (if b then b1 else b2) (if b then x else y)"
  by simp

lemma reads_some: "reads r bs x \<Longrightarrow> reads (rbind r (\<lambda>s. rret (Some s))) bs (Some x)"
  by (rule reads_bind_ret) simp_all

lemma reads_attributes:
  assumes "long_ok L" "codec_ok c" and "attrs_ok c enc (attr_strings attrs) bs" and "length (attr_bytes bs) < 2 ^ 53"
  shows "reads (rbind (readLength L) (\<lambda>n p. let k = (case n of None \<Rightarrow> 0 | Some k \<Rightarrow> k) in
      rbind (read_attributes L c enc k (offset p + k)) (\<lambda>as. rret (Some as)) p))
    (lcn_bytes (length (attr_bytes bs)) @ attr_bytes bs) (Some (map (\<lambda>(k, v). (Some k, Some v)) attrs))"
proof (rule reads_bind [OF reads_readLength [OF assms(1,4)]], unfold reads_def, intro allI impI)
  fix p :: packet and pre post
  assume p: "buffer p = pre @ attr_bytes bs @ post" "offset p = length pre"
    "length pre + length (attr_bytes bs) \<le> end_pos p"
  show "(let k = (case Some (length (attr_bytes bs)) of None \<Rightarrow> 0 | Some k \<Rightarrow> k) in
      rbind (read_attributes L c enc k (offset p + k)) (\<lambda>as. rret (Some as)) p) =
    Inr (Some (map (\<lambda>(k, v). (Some k, Some v)) attrs), p\<lparr>offset := length pre + length (attr_bytes bs)\<rparr>)"
    using read_attributes_ok [OF assms(1,2,3) order_refl p] by (simp add: p(2) rbind_def rret_def)
qed

definition response_read :: "handshake_response \<Rightarrow> response_parts \<Rightarrow> response_args" where
  "response_read r x =
     (let set = isSet ClientConstants (rp_flags x) in
      \<lparr>ra_clientFlags = rp_flags x, ra_maxPacketSize = 0, ra_charsetNumber = Some (hr_charsetNumber r),
       ra_user = hr_user r, ra_authToken = token_read r x,
       ra_database = (if set ''CONNECT_WITH_DB'' then Some (hr_database r) else None),
       ra_authPluginName = (if set ''PLUGIN_AUTH'' then Some (hr_authPluginName r) else None),
       ra_connectAttributes = (if set ''CONNECT_ATTRS''
         then Some (map (\<lambda>(k, v). (Some k, Some v)) (hr_connectAttributes r)) else None)\<rparr>)"

lemma reads_token:
  assumes "token_ok c r x" and "long_ok L"
  shows "reads (if isSet ClientConstants (rp_flags x) ''PLUGIN_AUTH_LENENC_CLIENT_DATA''
        then rbind (readLength L) (\<lambda>n. rbind (readBuffer (case n of None \<Rightarrow> 0 | Some k \<Rightarrow> k)) (\<lambda>b. rret (Inl b)))
        else if isSet ClientConstants (rp_flags x) ''SECURE_CONNECTION''
        then rbind readInt8 (\<lambda>n. rbind (case n of None \<Rightarrow> readRest | Some k \<Rightarrow> readBuffer k) (\<lambda>b. rret (Inl b)))
        else rbind (readNullTerminatedString c (CharsetToEncoding (hr_charsetNumber r))) (\<lambda>s. rret (Inr s)))
      (token_bytes r x) (token_read r x)"
proof -
  let ?t = "hr_authToken r" and ?set = "isSet ClientConstants (rp_flags x)"
  have "reads (rbind (readLength L) (\<lambda>n. rbind (readBuffer (case n of None \<Rightarrow> 0 | Some k \<Rightarrow> k)) (\<lambda>b. rret (Inl b :: bytes + jstring))))
      (lcn_bytes (length ?t) @ ?t) (Inl ?t)" if "length ?t < 2 ^ 53"
    by (rule reads_bind [OF reads_readLength [OF assms(2) that]], rule reads_bind_ret [OF reads_readBuffer]) simp_all
  moreover have "reads (rbind readInt8 (\<lambda>n. rbind (case n of None \<Rightarrow> readRest | Some k \<Rightarrow> readBuffer k) (\<lambda>b. rret (Inl b :: bytes + jstring))))
      ([word_of_nat (length ?t)] @ ?t) (Inl ?t)" if "length ?t < 256"
    by (rule reads_bind [OF reads_u8 [OF that]], unfold option.case, rule reads_bind_ret [OF reads_readBuffer]) simp_all
  moreover have "reads (rbind (readNullTerminatedString c enc) (\<lambda>s. rret (Inr s :: bytes + jstring))) (?t @ [0]) (Inr (rp_tokenText x))"
    if "text_ok c enc (rp_tokenText x) ?t" "0 \<notin> set ?t" for enc
    by (rule reads_bind_ret [OF reads_nul_string [OF that]]) simp
  ultimately show ?thesis
    using assms(1)
    by (cases "?set ''PLUGIN_AUTH_LENENC_CLIENT_DATA''"; cases "?set ''SECURE_CONNECTION''")
       (simp_all add: token_ok_def token_bytes_def token_read_def)
qed

text \<open>
  Claim C22. The server side reads the response the client writes: user, token, and, as far as the
  flags ask for them, database, plugin name and the connection attributes (as the pairs read) come
  back, for every combination of the 32 flags; the layout of the token follows the flags on both
  sides. With \<open>PLUGIN_AUTH_LENENC_CLIENT_DATA\<close> the token is any buffer, with only
  \<open>SECURE_CONNECTION\<close> one shorter than 256 bytes, and with neither flag it comes back as the
  text it decodes to, provided that it has no NUL byte. The texts are ones their encoding
  represents, without NUL (\<open>response_ok\<close>).
\<close>

theorem handshake_response_roundtrip:
  assumes ok: "response_ok c r x" and lib: "long_ok L" "codec_ok c" and server: "rp_flags x AND serverFlags = rp_flags x"
  shows "packs (HandshakeResponse_toPacket c r) (response_bytes r x) \<and>
    reads_all (HandshakeResponse_fromPacket L c serverFlags) (response_bytes r x) (response_read r x)"
proof
  show "packs (HandshakeResponse_toPacket c r) (response_bytes r x)"
    by (rule HandshakeResponse_packs [OF ok])
next
  let ?enc = "CharsetToEncoding (hr_charsetNumber r)" and ?set = "isSet ClientConstants (rp_flags x)"
  note k = ok [unfolded response_ok_def Let_def]
  have flags: "reads readInt32 (le_bytes 4 (rp_flags x)) (rp_flags x)" "reads readInt32 (le_bytes 4 0) 0"
    unfolding readInt32_def using k by (intro reads_uint_le; simp)+
  have charset: "reads readInt8 [word_of_nat (hr_charsetNumber r)] (Some (hr_charsetNumber r))"
    using k by (intro reads_u8) simp
  have skip: "reads (rskip 23) (replicate 19 0 @ le_bytes 4 (rp_ext x)) ()"
    by (rule reads_skip) simp
  have user: "reads (readNullTerminatedString c ?enc) (rp_user x @ [0]) (hr_user r)"
    using k by (intro reads_nul_string) auto
  have token: "token_ok c r x"
    using k by simp
  have db: "reads (if ?set ''CONNECT_WITH_DB'' then rbind (readNullTerminatedString c ?enc) (\<lambda>s. rret (Some s)) else rret None)
      (if ?set ''CONNECT_WITH_DB'' then rp_database x @ [0] else [])
      (if ?set ''CONNECT_WITH_DB'' then Some (hr_database r) else None)"
    using k by (intro reads_if reads_some reads_nul_string reads_ret) auto
  have plugin: "reads (if ?set ''PLUGIN_AUTH'' then rbind (readNullTerminatedString c ?enc) (\<lambda>s. rret (Some s)) else rret None)
      (if ?set ''PLUGIN_AUTH'' then rp_plugin x @ [0] else [])
      (if ?set ''PLUGIN_AUTH'' then Some (hr_authPluginName r) else None)"
    using k by (intro reads_if reads_some reads_nul_string reads_ret) auto
  have attrs: "reads (if ?set ''CONNECT_ATTRS''
        then rbind (readLength L) (\<lambda>n p. let k = (case n of None \<Rightarrow> 0 | Some k \<Rightarrow> k) in
               rbind (read_attributes L c ?enc k (offset p + k)) (\<lambda>as. rret (Some as)) p) else rret None)
      (if ?set ''CONNECT_ATTRS'' then lcn_bytes (length (attr_bytes (rp_attrs x))) @ attr_bytes (rp_attrs x) else [])
      (if ?set ''CONNECT_ATTRS'' then Some (map (\<lambda>(k, v). (Some k, Some v)) (hr_connectAttributes r)) else None)"
    using k by (intro reads_if reads_attributes reads_ret lib) auto
  have "reads (HandshakeResponse_fromPacket L c serverFlags) (response_bytes r x) (response_read r x)"
    unfolding HandshakeResponse_fromPacket_def response_bytes_def response_read_def Let_def
    apply (rule reads_bind [OF flags(1)])
    apply (rule reads_bind [OF flags(2)])
    apply (rule reads_bind [OF charset])
    apply (unfold server option.case)
    apply (rule reads_bind [OF skip])
    apply (rule reads_bind [OF user])
    apply (rule reads_bind [OF reads_token [OF token lib(1)]])
    apply (rule reads_bind [OF db])
    apply (rule reads_bind [OF plugin])
    apply (rule reads_bind_ret [OF attrs [unfolded Let_def]])
    apply (rule refl)
    done
  then show "reads_all (HandshakeResponse_fromPacket L c serverFlags) (response_bytes r x) (response_read r x)"
    by (rule reads_reads_all)
qed

definition demo_response :: handshake_response where
  "demo_response = \<lparr>hr_clientFlags = 3702792, hr_mariadbExtendedClientFlags = 0, hr_user = js ''me'',
     hr_database = js ''db'', hr_authToken = replicate 20 7, hr_authPluginName = js ''p'', hr_charsetNumber = 8,
     hr_connectAttributes = [(js ''k'', js ''v'')]\<rparr>"

definition demo_parts :: response_parts where
  "demo_parts = \<lparr>rp_flags = 3702792, rp_ext = 0, rp_user = [109, 101], rp_database = [100, 98], rp_plugin = [112],
     rp_attrs = [[107], [118]], rp_tokenText = []\<rparr>"

lemma charset_8: "CharsetToEncoding 8 = Some ''latin1''"
  by code_simp

lemma demo_response_ok: "response_ok latin1_codec demo_response demo_parts"
  by (simp add: response_ok_def token_ok_def demo_response_def demo_parts_def charset_8 text_ok_def encode_def decode_def
      latin1_codec_def js_def slice_def latin1Slice_def Let_def attrs_ok_def lcn_bytes_def
      isSet_def code_of_def ClientConstants_def)

theorem handshake_response_roundtrip_witness:
  "packs (HandshakeResponse_toPacket latin1_codec demo_response) (response_bytes demo_response demo_parts) \<and>
    reads_all (HandshakeResponse_fromPacket long_impl latin1_codec 4294967295) (response_bytes demo_response demo_parts)
      (response_read demo_response demo_parts)"
  by (rule handshake_response_roundtrip [OF demo_response_ok long_impl_ok latin1_codec_ok])
    (simp add: demo_parts_def)

text \<open>
  The charset number is written into one byte: one of the collations numbered above 255 makes the
  response raise an exception.
\<close>

lemma response_large_charset:
  assumes "hr_clientFlags r = int flags" and "255 < hr_charsetNumber r"
    and "writes (serializeResponse c r) mock_packet = Inr p"
  shows "HandshakeResponse_toPacket c r = Inl RangeError"
proof -
  define mem where "mem = replicate (offset p) (0 :: byte)"
  obtain ws where ws: "serializeResponse c r =
      writeInt32 (int flags) # writeInt32 0 # writeInt8 (int (hr_charsetNumber r)) # ws"
    by (simp add: serializeResponse_def assms(1) Let_def)
  have int8: "writeInt8 (int (hr_charsetNumber r)) q = Inl RangeError" if "\<not> is_mock q" for q
    using that assms(2) by (simp add: writeInt8_def write_uint_def write_le_def)
  have int32: "writeInt32 v q = Inl RangeError \<or> (\<exists>q'. writeInt32 v q = Inr q' \<and> \<not> is_mock q')" if "\<not> is_mock q" for v q
    using that by (auto simp: writeInt32_def write_uint_def write_le_def)
  have rest: "writes (writeInt32 0 # writeInt8 (int (hr_charsetNumber r)) # ws) q = Inl RangeError" if "\<not> is_mock q" for q
    using int32 [OF that, of 0] int8 by (auto simp: wbind_def)
  have "\<not> is_mock (new_packet 0 mem 0 (length mem))"
    by (simp add: new_packet_def)
  from int32 [OF this, of "int flags"] rest have "build mem (serializeResponse c r) = Inl RangeError"
    unfolding ws build_def by (subst writes.simps) (auto simp: wbind_def simp del: writes.simps)
  then show ?thesis
    using assms(3) by (simp add: HandshakeResponse_toPacket_def dry_then_build_def mem_def)
qed

end
