(* ===== verification/Connection.thy ===== *)
theory Connection
  imports RingQueue Framing Packets "HOL-Library.Sublist"
begin

text \<open>
  \<open>src/lib/base/connection.js\<close>: the command queue of a connection and its error states. A
  command is any value; what the connection asks of it are the parameters \<open>onResult\<close> (it has a
  callback), \<open>isHandshake\<close> and \<open>execute\<close>, the call \<open>_command.execute(packet, this)\<close>,
  which may change the connection, finish the command, go on or throw. The effects the outside
  sees (callbacks, events, stream calls, the calls of \<open>execute\<close> themselves) are recorded in
  order in \<open>cn_log\<close>, and so is each command \<open>addCommand\<close> accepts (\<open>Added\<close>). Handlers are
  atomic; what the callbacks they call do to the connection is part of \<open>execute\<close>:
  \<open>run_handler\<close> is the \<open>execute\<close> of handlers that act on the connection through its methods.
  Debug output and tracing are left out.
\<close>

section \<open>State\<close>

record conn_error =
  ce_error :: js_error
  ce_fatal :: bool

datatype 'c effect =
    CallResult 'c conn_error
  | Added 'c
  | EmitError conn_error
  | EmitWarn nat nat
  | EmitEnd
  | EmitConnect
  | Execute 'c "packet option"
  | StreamWrite bytes
  | StreamEnd
  | StreamDestroy
  | StreamPause
  | StreamResume
  | ClearConnectTimer

record 'c connection =
  cn_commands :: "'c ring_queue"
  cn_command :: "'c option"
  cn_paused :: bool
  cn_paused_packets :: "packet ring_queue"
  cn_sequenceId :: nat
  cn_compressedSequenceId :: nat
  cn_authorized :: bool
  cn_handshakePacket :: bool
  cn_fatalError :: "conn_error option"
  cn_protocolError :: "conn_error option"
  cn_closing :: bool
  cn_listening :: bool
  cn_destroyed :: bool
  cn_connectTimeout :: bool
  cn_addCommandClosed :: bool
  cn_writeClosed :: bool
  cn_pool :: bool
  cn_log :: "'c effect list"

definition new_connection :: "'c connection" where
  "new_connection =
     \<lparr>cn_commands = ring_new, cn_command = None, cn_paused = False, cn_paused_packets = ring_new,
      cn_sequenceId = 0, cn_compressedSequenceId = 0, cn_authorized = False,
      cn_handshakePacket = False, cn_fatalError = None, cn_protocolError = None,
      cn_closing = False, cn_listening = True, cn_destroyed = False, cn_connectTimeout = False,
      cn_addCommandClosed = False, cn_writeClosed = False, cn_pool = False, cn_log = []\<rparr>"

definition emit :: "'c effect \<Rightarrow> 'c connection \<Rightarrow> 'c connection" where
  "emit e s = s\<lparr>cn_log := cn_log s @ [e]\<rparr>"

definition clearConnectTimeout :: "'c connection \<Rightarrow> 'c connection" where
  "clearConnectTimeout s =
     (if cn_connectTimeout s then emit ClearConnectTimer (s\<lparr>cn_connectTimeout := False\<rparr>) else s)"

datatype exec_outcome = Threw js_error | Finished | Continues

section \<open>Closing and errors\<close>

definition close :: "'c connection \<Rightarrow> 'c connection" where
  "close s =
     (let s1 = clearConnectTimeout s in
      emit StreamEnd (s1\<lparr>cn_closing := True\<rparr>)\<lparr>cn_addCommandClosed := True\<rparr>)"

definition ClosedState :: conn_error where
  "ClosedState = \<lparr>ce_error = JsError [] ''Can't add new command when connection is in closed state'',
                  ce_fatal = True\<rparr>"

definition addCommandClosedState :: "('c \<Rightarrow> bool) \<Rightarrow> 'c \<Rightarrow> 'c connection \<Rightarrow> 'c connection" where
  "addCommandClosedState onResult c s =
     (if onResult c then emit (CallResult c ClosedState) s else emit (EmitError ClosedState) s)"

text \<open>
  The loop \<open>while ((command = this._commands.shift()))\<close> of \<open>_notifyError\<close>: the queue has one
  item less at each turn, so its length plus one is enough fuel.
\<close>

definition notify_queued :: "('c \<Rightarrow> bool) \<Rightarrow> conn_error \<Rightarrow> bool \<Rightarrow> 'c connection \<Rightarrow> bool \<times> 'c connection" where
  "notify_queued onResult err bubble s =
     (let (cs, q) = drain ring_shift (Suc (ring_length (cn_commands s))) (cn_commands s) in
      (bubble \<or> (\<exists>c\<in>set cs. \<not> onResult c),
       s\<lparr>cn_commands := q,
         cn_log := cn_log s @ map (\<lambda>c. CallResult c err) (filter onResult cs)\<rparr>))"

text \<open>The command that runs: whether the error bubbles, and the connection without the command.\<close>

definition notify_current ::
    "('c \<Rightarrow> bool) \<Rightarrow> ('c \<Rightarrow> bool) \<Rightarrow> conn_error \<Rightarrow> 'c connection \<Rightarrow> bool \<times> 'c connection" where
  "notify_current onResult isHandshake err s =
     (let bubble = (cn_command s = None) in
      case cn_command s of
        Some c \<Rightarrow>
          if onResult c then (bubble, (emit (CallResult c err) s)\<lparr>cn_command := None\<rparr>)
          else if \<not> (isHandshake c \<and> ring_length (cn_commands s) > 0) then (True, s)
          else (bubble, s)
      | None \<Rightarrow> (True, s))"

definition notifyError ::
    "('c \<Rightarrow> bool) \<Rightarrow> ('c \<Rightarrow> bool) \<Rightarrow> conn_error \<Rightarrow> 'c connection \<Rightarrow> 'c connection" where
  "notifyError onResult isHandshake err s0 =
     (let s = clearConnectTimeout s0 in
      if cn_fatalError s \<noteq> None then s
      else
        let (bubble1, s1) = notify_current onResult isHandshake err s;
            (bubble2, s2) = notify_queued onResult err bubble1 s1;
            s3 = (if bubble2 \<or> cn_pool s2 then emit (EmitError err) s2 else s2)
        in if ce_fatal err then close s3 else s3)"

definition handleFatalError ::
    "('c \<Rightarrow> bool) \<Rightarrow> ('c \<Rightarrow> bool) \<Rightarrow> js_error \<Rightarrow> 'c connection \<Rightarrow> 'c connection" where
  "handleFatalError onResult isHandshake e s =
     (let err = \<lparr>ce_error = e, ce_fatal = True\<rparr>;
          s1 = s\<lparr>cn_listening := False, cn_addCommandClosed := True, cn_writeClosed := True\<rparr>
      in (notifyError onResult isHandshake err s1)\<lparr>cn_fatalError := Some err\<rparr>)"

definition has_code :: "string \<Rightarrow> js_error \<Rightarrow> bool" where
  "has_code code e \<longleftrightarrow> (case e of JsError c m \<Rightarrow> c = code | _ \<Rightarrow> False)"

definition handleNetworkError ::
    "('c \<Rightarrow> bool) \<Rightarrow> ('c \<Rightarrow> bool) \<Rightarrow> js_error \<Rightarrow> 'c connection \<Rightarrow> 'c connection" where
  "handleNetworkError onResult isHandshake e s0 =
     (let s = clearConnectTimeout s0 in
      if has_code ''ECONNRESET'' e \<and> cn_closing s then s
      else handleFatalError onResult isHandshake e s)"

definition handleTimeoutError ::
    "('c \<Rightarrow> bool) \<Rightarrow> ('c \<Rightarrow> bool) \<Rightarrow> 'c connection \<Rightarrow> 'c connection" where
  "handleTimeoutError onResult isHandshake s0 =
     (let s = (emit StreamDestroy (clearConnectTimeout s0))\<lparr>cn_destroyed := True\<rparr> in
      handleNetworkError onResult isHandshake (JsError ''ETIMEDOUT'' ''connect ETIMEDOUT'') s)"

text \<open>The listener of the stream's \<open>close\<close> event.\<close>

definition ConnectionLost :: conn_error where
  "ConnectionLost = \<lparr>ce_error = JsError ''PROTOCOL_CONNECTION_LOST''
      ''Connection lost: The server closed the connection.'', ce_fatal = True\<rparr>"

definition streamClose :: "('c \<Rightarrow> bool) \<Rightarrow> ('c \<Rightarrow> bool) \<Rightarrow> 'c connection \<Rightarrow> 'c connection" where
  "streamClose onResult isHandshake s =
     (if cn_closing s then s
      else let s1 = (if cn_protocolError s = None then s\<lparr>cn_protocolError := Some ConnectionLost\<rparr> else s)
           in notifyError onResult isHandshake (the (cn_protocolError s1)) s1)"

text \<open>The listener of the handshake command's \<open>error\<close> event.\<close>

definition handshakeError ::
    "('c \<Rightarrow> bool) \<Rightarrow> ('c \<Rightarrow> bool) \<Rightarrow> conn_error \<Rightarrow> 'c connection \<Rightarrow> 'c connection" where
  "handshakeError onResult isHandshake err s = notifyError onResult isHandshake err (s\<lparr>cn_closing := True\<rparr>)"

definition protocolError :: "js_error \<Rightarrow> 'c connection \<Rightarrow> 'c connection" where
  "protocolError e s =
     (if cn_closing s then s else emit (EmitError \<lparr>ce_error = e, ce_fatal = True\<rparr>) s)"

definition UnexpectedPacket :: js_error where
  "UnexpectedPacket = JsError ''PROTOCOL_UNEXPECTED_PACKET''
     ''Unexpected packet while no commands in the queue''"

definition write_stream :: "bytes \<Rightarrow> 'c connection \<Rightarrow> 'c connection" where
  "write_stream b s =
     (if cn_writeClosed s
      then emit (EmitError \<lparr>ce_error = JsError [] ''Can't write in closed state'', ce_fatal = False\<rparr>) s
      else emit (StreamWrite b) s)"

text \<open>\<open>get state()\<close>.\<close>

definition conn_state :: "'c connection \<Rightarrow> string" where
  "conn_state s =
     (if cn_fatalError s \<noteq> None \<or> cn_protocolError s \<noteq> None then ''error''
      else if cn_closing s \<or> cn_destroyed s then ''disconnected''
      else if cn_authorized s then ''authenticated''
      else if cn_handshakePacket s then ''connected''
      else ''protocol_handshake'')"

section \<open>Packets and commands\<close>

definition resetSequenceId :: "'c connection \<Rightarrow> 'c connection" where
  "resetSequenceId s = s\<lparr>cn_sequenceId := 0, cn_compressedSequenceId := 0\<rparr>"

text \<open>The part of \<open>handlePacket\<close> that compares and bumps the sequence id.\<close>

definition checkSequence :: "packet option \<Rightarrow> 'c connection \<Rightarrow> 'c connection" where
  "checkSequence packet s =
     (case packet of
        None \<Rightarrow> s
      | Some p \<Rightarrow>
          let s' = (if cn_sequenceId s \<noteq> sequenceId p
                    then emit (EmitWarn (cn_sequenceId s) (sequenceId p)) s else s)
          in s'\<lparr>cn_sequenceId := bumpSequenceId (cn_sequenceId s') (numPackets p)\<rparr>)"

text \<open>
  \<open>handlePacket\<close>. The packet is missing (\<open>None\<close>) when a command is to start. Fuel bounds the
  commands that finish as soon as they start; \<open>None\<close> is the result without fuel. A packet that
  is missing with no command either is a call on \<open>undefined\<close>, which throws.
\<close>

fun handlePacket ::
    "codec \<Rightarrow> ('c \<Rightarrow> bool) \<Rightarrow> ('c \<Rightarrow> bool) \<Rightarrow>
     ('c \<Rightarrow> packet option \<Rightarrow> 'c connection \<Rightarrow> exec_outcome \<times> 'c connection) \<Rightarrow>
     nat \<Rightarrow> packet option \<Rightarrow> 'c connection \<Rightarrow> 'c connection result option" where
  "handlePacket cd onResult isHandshake execute 0 packet s = None"
| "handlePacket cd onResult isHandshake execute (Suc fuel) packet s =
     (if cn_paused s
      then Some (Inr (s\<lparr>cn_paused_packets := snd (ring_push (cn_paused_packets s) (map_option clone packet))\<rparr>))
      else case cn_command s of
        None \<Rightarrow>
          (case packet of
             None \<Rightarrow> Some (Inl TypeError)
           | Some p \<Rightarrow>
               if peekByte p = Some 0xff then
                 (case Error_fromPacket cd p of
                    Inl e \<Rightarrow> Some (Inl e)
                  | Inr ((code, message), _) \<Rightarrow>
                      Some (Inr (close (protocolError
                        (ServerError (if code = 0 then None else Some code) message) s))))
               else Some (Inr (close (protocolError UnexpectedPacket s))))
      | Some c \<Rightarrow>
          let s1 = checkSequence packet s in
          if cn_fatalError s1 \<noteq> None then Some (Inr s1)
          else
            (case execute c packet (emit (Execute c packet) s1) of
               (Threw e, s2) \<Rightarrow>
                 Some (Inr (emit StreamDestroy (handleFatalError onResult isHandshake e s2)\<lparr>cn_destroyed := True\<rparr>))
             | (Continues, s2) \<Rightarrow> Some (Inr s2)
             | (Finished, s2) \<Rightarrow>
                 let (next_command, q) = ring_shift (cn_commands s2);
                     s3 = s2\<lparr>cn_commands := q, cn_command := next_command\<rparr>
                 in if next_command = None then Some (Inr s3)
                    else handlePacket cd onResult isHandshake execute fuel None (resetSequenceId s3)))"

definition addCommand ::
    "codec \<Rightarrow> ('c \<Rightarrow> bool) \<Rightarrow> ('c \<Rightarrow> bool) \<Rightarrow>
     ('c \<Rightarrow> packet option \<Rightarrow> 'c connection \<Rightarrow> exec_outcome \<times> 'c connection) \<Rightarrow>
     nat \<Rightarrow> 'c \<Rightarrow> 'c connection \<Rightarrow> 'c connection result option" where
  "addCommand cd onResult isHandshake execute fuel c s =
     (if cn_addCommandClosed s then Some (Inr (addCommandClosedState onResult c s))
      else if cn_command s = None
      then handlePacket cd onResult isHandshake execute fuel None (emit (Added c) (s\<lparr>cn_command := Some c\<rparr>))
      else Some (Inr (emit (Added c) (s\<lparr>cn_commands := snd (ring_push (cn_commands s) (Some c))\<rparr>))))"

definition pause :: "'c connection \<Rightarrow> 'c connection" where
  "pause s = emit StreamPause (s\<lparr>cn_paused := True\<rparr>)"

text \<open>
  The loop of \<open>resume\<close>, one turn per packet kept: a packet handled while the connection is not
  paused is not kept again, so the packets kept at the start plus one are enough turns. The
  last argument is the bound on the turns, \<open>fuel\<close> the one of \<open>handlePacket\<close>.
\<close>

fun resume_loop ::
    "codec \<Rightarrow> ('c \<Rightarrow> bool) \<Rightarrow> ('c \<Rightarrow> bool) \<Rightarrow>
     ('c \<Rightarrow> packet option \<Rightarrow> 'c connection \<Rightarrow> exec_outcome \<times> 'c connection) \<Rightarrow>
     nat \<Rightarrow> nat \<Rightarrow> 'c connection \<Rightarrow> 'c connection result option" where
  "resume_loop cd onResult isHandshake execute fuel 0 s = None"
| "resume_loop cd onResult isHandshake execute fuel (Suc turns) s =
     (let (packet, q) = ring_shift (cn_paused_packets s); s1 = s\<lparr>cn_paused_packets := q\<rparr> in
      case packet of
        None \<Rightarrow> Some (Inr (emit StreamResume s1))
      | Some p \<Rightarrow>
          (case handlePacket cd onResult isHandshake execute fuel (Some p) s1 of
             Some (Inr s2) \<Rightarrow>
               if cn_paused s2 then Some (Inr s2)
               else resume_loop cd onResult isHandshake execute fuel turns s2
           | r \<Rightarrow> r))"

definition resume ::
    "codec \<Rightarrow> ('c \<Rightarrow> bool) \<Rightarrow> ('c \<Rightarrow> bool) \<Rightarrow>
     ('c \<Rightarrow> packet option \<Rightarrow> 'c connection \<Rightarrow> exec_outcome \<times> 'c connection) \<Rightarrow>
     nat \<Rightarrow> 'c connection \<Rightarrow> 'c connection result option" where
  "resume cd onResult isHandshake execute fuel s =
     resume_loop cd onResult isHandshake execute fuel (Suc (ring_length (cn_paused_packets s)))
       (s\<lparr>cn_paused := False\<rparr>)"

text \<open>\<open>writePacket\<close> inside the connection: the frames go to \<open>write\<close>.\<close>

definition connectionWritePacket :: "packet \<Rightarrow> 'c connection \<Rightarrow> 'c connection result" where
  "connectionWritePacket p s =
     (case writePacket (cn_sequenceId s) p of
        Inl e \<Rightarrow> Inl e
      | Inr (bs, seq) \<Rightarrow> Inr (fold write_stream bs (s\<lparr>cn_sequenceId := seq\<rparr>)))"

text \<open>\<open>connect(cb)\<close>: what the callback gets at once, or that it waits for an event.\<close>

datatype connect_reply = ConnectFailed conn_error | Connected | WaitForEvent

definition connect :: "'c connection \<Rightarrow> connect_reply" where
  "connect s =
     (case cn_fatalError s of
        Some e \<Rightarrow> ConnectFailed e
      | None \<Rightarrow>
          (case cn_protocolError s of
             Some e \<Rightarrow> ConnectFailed e
           | None \<Rightarrow> if cn_handshakePacket s then Connected else WaitForEvent))"

text \<open>
  The listeners of the stream's \<open>end\<close> event and of the handshake command's \<open>end\<close> event
  (\<open>received\<close>: the command has seen a handshake packet), and \<open>end()\<close> on the client side.
\<close>

definition streamEnd :: "'c connection \<Rightarrow> 'c connection" where
  "streamEnd s = emit EmitEnd s"

definition handshakeEnd :: "bool \<Rightarrow> 'c connection \<Rightarrow> 'c connection" where
  "handshakeEnd received s0 =
     (let s = clearConnectTimeout s0 in
      if \<not> received \<or> cn_fatalError s \<noteq> None \<or> cn_protocolError s \<noteq> None then s
      else emit EmitConnect (s\<lparr>cn_handshakePacket := True\<rparr>))"

definition conn_end ::
    "codec \<Rightarrow> ('c \<Rightarrow> bool) \<Rightarrow> ('c \<Rightarrow> bool) \<Rightarrow>
     ('c \<Rightarrow> packet option \<Rightarrow> 'c connection \<Rightarrow> exec_outcome \<times> 'c connection) \<Rightarrow>
     nat \<Rightarrow> 'c \<Rightarrow> 'c connection \<Rightarrow> 'c connection result option" where
  "conn_end cd onResult isHandshake execute fuel quitCmd s =
     map_option (map_sum (\<lambda>e. e) (\<lambda>t. t\<lparr>cn_addCommandClosed := True\<rparr>))
       (addCommand cd onResult isHandshake execute fuel quitCmd s)"

text \<open>The constructor on the client side: the handshake is the first command.\<close>

definition create_connection ::
    "codec \<Rightarrow> ('c \<Rightarrow> bool) \<Rightarrow> ('c \<Rightarrow> bool) \<Rightarrow>
     ('c \<Rightarrow> packet option \<Rightarrow> 'c connection \<Rightarrow> exec_outcome \<times> 'c connection) \<Rightarrow>
     nat \<Rightarrow> bool \<Rightarrow> 'c \<Rightarrow> 'c connection result option" where
  "create_connection cd onResult isHandshake execute fuel connectTimeout handshakeCommand =
     map_option (map_sum (\<lambda>e. e) (\<lambda>t. t\<lparr>cn_connectTimeout := connectTimeout\<rparr>))
       (addCommand cd onResult isHandshake execute fuel handshakeCommand new_connection)"

text \<open>What can happen to a connection, and a run of such events. A run ends at the first exception.\<close>

datatype 'c conn_op =
    AddCommand 'c | Packet packet | WritePacket packet | NetworkError js_error | ConnectTimeout
  | StreamClosed | StreamEnded | HandshakeFailed conn_error | HandshakeEnded bool
  | End 'c | Close | Pause | Resume

fun conn_apply ::
    "codec \<Rightarrow> ('c \<Rightarrow> bool) \<Rightarrow> ('c \<Rightarrow> bool) \<Rightarrow>
     ('c \<Rightarrow> packet option \<Rightarrow> 'c connection \<Rightarrow> exec_outcome \<times> 'c connection) \<Rightarrow>
     nat \<Rightarrow> 'c conn_op \<Rightarrow> 'c connection \<Rightarrow> 'c connection result option" where
  "conn_apply cd onResult isHandshake execute fuel (AddCommand c) s =
     addCommand cd onResult isHandshake execute fuel c s"
| "conn_apply cd onResult isHandshake execute fuel (Packet p) s =
     (if cn_listening s then handlePacket cd onResult isHandshake execute fuel (Some p) s
      else Some (Inr s))"
| "conn_apply cd onResult isHandshake execute fuel (WritePacket p) s =
     Some (connectionWritePacket p s)"
| "conn_apply cd onResult isHandshake execute fuel (NetworkError e) s =
     Some (Inr (handleNetworkError onResult isHandshake e s))"
| "conn_apply cd onResult isHandshake execute fuel ConnectTimeout s =
     Some (Inr (handleTimeoutError onResult isHandshake s))"
| "conn_apply cd onResult isHandshake execute fuel StreamClosed s =
     Some (Inr (streamClose onResult isHandshake s))"
| "conn_apply cd onResult isHandshake execute fuel (HandshakeFailed err) s =
     Some (Inr (handshakeError onResult isHandshake err s))"
| "conn_apply cd onResult isHandshake execute fuel StreamEnded s = Some (Inr (streamEnd s))"
| "conn_apply cd onResult isHandshake execute fuel (HandshakeEnded received) s =
     Some (Inr (handshakeEnd received s))"
| "conn_apply cd onResult isHandshake execute fuel (End c) s =
     conn_end cd onResult isHandshake execute fuel c s"
| "conn_apply cd onResult isHandshake execute fuel Close s = Some (Inr (close s))"
| "conn_apply cd onResult isHandshake execute fuel Pause s = Some (Inr (pause s))"
| "conn_apply cd onResult isHandshake execute fuel Resume s =
     resume cd onResult isHandshake execute fuel s"

fun conn_run ::
    "codec \<Rightarrow> ('c \<Rightarrow> bool) \<Rightarrow> ('c \<Rightarrow> bool) \<Rightarrow>
     ('c \<Rightarrow> packet option \<Rightarrow> 'c connection \<Rightarrow> exec_outcome \<times> 'c connection) \<Rightarrow>
     nat \<Rightarrow> 'c conn_op list \<Rightarrow> 'c connection \<Rightarrow> 'c connection result option" where
  "conn_run cd onResult isHandshake execute fuel [] s = Some (Inr s)"
| "conn_run cd onResult isHandshake execute fuel (p # ps) s =
     (case conn_apply cd onResult isHandshake execute fuel p s of
        Some (Inr t) \<Rightarrow> conn_run cd onResult isHandshake execute fuel ps t
      | r \<Rightarrow> r)"

section \<open>Handlers\<close>

text \<open>
  What a command's handler, and the callbacks of the program it calls, do to the connection:
  write packets, add commands (queries of the program, the \<open>CloseStatement\<close> of an evicted
  statement), end or close it, pause it, report errors, and note the outcome of the handshake.
  Calls of \<open>resume\<close> from inside a handler are not among them.
\<close>

datatype 'c action =
    DoWrite packet | DoAdd 'c | DoEnd 'c | DoClose | DoPause | DoProtocolError js_error
  | DoHandshakeError conn_error | DoAuthorize

text \<open>
  \<open>addCommand\<close> while a command runs: \<open>_command\<close> is set, so the new command is queued, unless
  the connection is closed for commands.
\<close>

definition add_running :: "('c \<Rightarrow> bool) \<Rightarrow> 'c \<Rightarrow> 'c connection \<Rightarrow> 'c connection" where
  "add_running onResult c s =
     (if cn_addCommandClosed s then addCommandClosedState onResult c s
      else emit (Added c) (s\<lparr>cn_commands := snd (ring_push (cn_commands s) (Some c))\<rparr>))"

fun perform :: "('c \<Rightarrow> bool) \<Rightarrow> 'c action \<Rightarrow> 'c connection \<Rightarrow> 'c connection result" where
  "perform onResult (DoWrite p) s = connectionWritePacket p s"
| "perform onResult (DoAdd c) s = Inr (add_running onResult c s)"
| "perform onResult (DoEnd c) s = Inr ((add_running onResult c s)\<lparr>cn_addCommandClosed := True\<rparr>)"
| "perform onResult DoClose s = Inr (close s)"
| "perform onResult DoPause s = Inr (pause s)"
| "perform onResult (DoProtocolError e) s = Inr (protocolError e s)"
| "perform onResult (DoHandshakeError err) s =
     Inr (s\<lparr>cn_fatalError := Some err, cn_protocolError := Some err\<rparr>)"
| "perform onResult DoAuthorize s = Inr (s\<lparr>cn_authorized := True\<rparr>)"

text \<open>An action that raises ends the handler.\<close>

fun performs :: "('c \<Rightarrow> bool) \<Rightarrow> 'c action list \<Rightarrow> 'c connection \<Rightarrow> js_error option \<times> 'c connection" where
  "performs onResult [] s = (None, s)"
| "performs onResult (a # as) s =
     (case perform onResult a s of Inl e \<Rightarrow> (Some e, s) | Inr t \<Rightarrow> performs onResult as t)"

text \<open>
  A handler decides what to do from the packet and all that happened so far (the log is part of
  the connection).
\<close>

type_synonym 'c command_handler = "'c \<Rightarrow> packet option \<Rightarrow> 'c connection \<Rightarrow> 'c action list \<times> exec_outcome"

definition run_handler ::
    "('c \<Rightarrow> bool) \<Rightarrow> 'c command_handler \<Rightarrow> 'c \<Rightarrow> packet option \<Rightarrow> 'c connection \<Rightarrow> exec_outcome \<times> 'c connection" where
  "run_handler onResult handler c packet s =
     (case handler c packet s of
        (as, outcome) \<Rightarrow>
          (case performs onResult as s of
             (Some e, t) \<Rightarrow> (Threw e, t)
           | (None, t) \<Rightarrow> (outcome, t)))"

section \<open>Errors reach every command once\<close>

definition conn_inv :: "'c connection \<Rightarrow> bool" where
  "conn_inv s \<longleftrightarrow> ring_inv (cn_commands s) \<and> ring_inv (cn_paused_packets s) \<and>
     None \<notin> set (ring_contents (cn_commands s))"

definition queued :: "'c connection \<Rightarrow> 'c list" where
  "queued s = map the (ring_contents (cn_commands s))"

lemma contents_queued: "conn_inv s \<Longrightarrow> ring_contents (cn_commands s) = map Some (queued s)"
  unfolding conn_inv_def queued_def by (auto intro!: nth_equalityI simp: in_set_conv_nth)

lemma ring_length_contents: "ring_inv q \<Longrightarrow> ring_length q = length (ring_contents q)"
  using ring_rel_length [OF ring_invD] .

lemma drain_queued:
  assumes "conn_inv s"
  shows "fst (drain ring_shift (Suc (ring_length (cn_commands s))) (cn_commands s)) = queued s \<and>
    ring_inv (snd (drain ring_shift (Suc (ring_length (cn_commands s))) (cn_commands s))) \<and>
    ring_contents (snd (drain ring_shift (Suc (ring_length (cn_commands s))) (cn_commands s))) = []"
  using assms contents_queued [OF assms]
  by (intro rq.drain_all) (auto simp: conn_inv_def ring_length_contents)

lemma conn_inv_simps [simp]:
  "conn_inv (emit e s) = conn_inv s"
  "conn_inv (s\<lparr>cn_command := c\<rparr>) = conn_inv s"
  "conn_inv (s\<lparr>cn_paused := b\<rparr>) = conn_inv s"
  "conn_inv (s\<lparr>cn_sequenceId := n\<rparr>) = conn_inv s"
  "conn_inv (s\<lparr>cn_connectTimeout := b\<rparr>) = conn_inv s"
  "conn_inv (s\<lparr>cn_log := l\<rparr>) = conn_inv s"
  "conn_inv (clearConnectTimeout s) = conn_inv s"
  "conn_inv (resetSequenceId s) = conn_inv s"
  by (simp_all add: conn_inv_def emit_def clearConnectTimeout_def resetSequenceId_def)

lemma queued_simps [simp]:
  "queued (emit e s) = queued s"
  "queued (s\<lparr>cn_command := c\<rparr>) = queued s"
  "queued (s\<lparr>cn_sequenceId := n\<rparr>) = queued s"
  "queued (s\<lparr>cn_paused := b\<rparr>) = queued s"
  "queued (s\<lparr>cn_connectTimeout := b\<rparr>) = queued s"
  "queued (s\<lparr>cn_log := l\<rparr>) = queued s"
  "queued (clearConnectTimeout s) = queued s"
  "queued (resetSequenceId s) = queued s"
  by (simp_all add: queued_def emit_def clearConnectTimeout_def resetSequenceId_def)

lemma close_simps [simp]:
  "cn_log (close s) = cn_log s @ (if cn_connectTimeout s then [ClearConnectTimer] else []) @ [StreamEnd]"
  "queued (close s) = queued s" "conn_inv (close s) = conn_inv s"
  "cn_fatalError (close s) = cn_fatalError s" "cn_command (close s) = cn_command s"
  by (simp_all add: close_def clearConnectTimeout_def emit_def queued_def conn_inv_def)

text \<open>Whether an error is also emitted on the connection.\<close>

definition bubbles :: "('c \<Rightarrow> bool) \<Rightarrow> ('c \<Rightarrow> bool) \<Rightarrow> 'c connection \<Rightarrow> bool" where
  "bubbles onResult isHandshake s \<longleftrightarrow>
     (case cn_command s of
        None \<Rightarrow> True
      | Some c \<Rightarrow> \<not> onResult c \<and> \<not> (isHandshake c \<and> queued s \<noteq> [])) \<or>
     (\<exists>c\<in>set (queued s). \<not> onResult c) \<or> cn_pool s"

definition notify_log :: "('c \<Rightarrow> bool) \<Rightarrow> ('c \<Rightarrow> bool) \<Rightarrow> conn_error \<Rightarrow> 'c connection \<Rightarrow> 'c effect list" where
  "notify_log onResult isHandshake err s =
     (if cn_connectTimeout s then [ClearConnectTimer] else []) @
     map (\<lambda>c. CallResult c err)
       (filter onResult ((case cn_command s of None \<Rightarrow> [] | Some c \<Rightarrow> [c]) @ queued s)) @
     (if bubbles onResult isHandshake s then [EmitError err] else []) @
     (if ce_fatal err then [StreamEnd] else [])"

lemma notify_queued_eq:
  assumes "conn_inv s"
  obtains q where "ring_inv q" "ring_contents q = []"
    "\<And>b. notify_queued onResult err b s =
      (b \<or> (\<exists>c\<in>set (queued s). \<not> onResult c),
       s\<lparr>cn_commands := q,
         cn_log := cn_log s @ map (\<lambda>c. CallResult c err) (filter onResult (queued s))\<rparr>)"
  using drain_queued [OF assms] that
  by (auto simp: notify_queued_def case_prod_unfold Let_def)

definition notified :: "('c \<Rightarrow> bool) \<Rightarrow> 'c connection \<Rightarrow> 'c option" where
  "notified onResult s =
     (case cn_command s of None \<Rightarrow> None | Some c \<Rightarrow> if onResult c then None else Some c)"

lemma notify_current_eq:
  assumes "conn_inv s"
  shows "notify_current onResult isHandshake err s =
    ((case cn_command s of None \<Rightarrow> True
      | Some c \<Rightarrow> \<not> onResult c \<and> \<not> (isHandshake c \<and> queued s \<noteq> [])),
     s\<lparr>cn_command := notified onResult s,
       cn_log := cn_log s @ map (\<lambda>c. CallResult c err)
         (filter onResult (case cn_command s of None \<Rightarrow> [] | Some c \<Rightarrow> [c]))\<rparr>)"
proof -
  have "0 < ring_length (cn_commands s) \<longleftrightarrow> queued s \<noteq> []"
    using assms contents_queued [OF assms] by (auto simp: ring_length_contents conn_inv_def)
  then show ?thesis
    by (cases "cn_command s") (auto simp: notify_current_def notified_def emit_def)
qed

lemma notifyError_log:
  assumes inv: "conn_inv s" and fatal: "cn_fatalError s = None"
  shows "cn_log (notifyError onResult isHandshake err s) =
      cn_log s @ notify_log onResult isHandshake err s \<and>
    queued (notifyError onResult isHandshake err s) = [] \<and>
    conn_inv (notifyError onResult isHandshake err s) \<and>
    cn_command (notifyError onResult isHandshake err s) = notified onResult s"
proof -
  define t where "t = clearConnectTimeout s"
  define u where "u = snd (notify_current onResult isHandshake err t)"
  have t: "cn_log t = cn_log s @ (if cn_connectTimeout s then [ClearConnectTimer] else [])"
    "queued t = queued s" "cn_command t = cn_command s" "cn_pool t = cn_pool s"
    "cn_fatalError t = None" "cn_connectTimeout t = False" "conn_inv t"
    using fatal inv by (simp_all add: t_def clearConnectTimeout_def emit_def)
  note cur = notify_current_eq [OF t(7), of onResult isHandshake err]
  have u: "conn_inv u" "queued u = queued s" "cn_command u = notified onResult s"
    "cn_log u = cn_log t @ map (\<lambda>c. CallResult c err)
       (filter onResult (case cn_command s of None \<Rightarrow> [] | Some c \<Rightarrow> [c]))"
    "cn_pool u = cn_pool s" "cn_connectTimeout u = False"
    using t(2-7) by (simp_all add: u_def cur notified_def)
  obtain q where q: "ring_inv q" "ring_contents q = []"
    "\<And>b. notify_queued onResult err b u = (b \<or> (\<exists>c\<in>set (queued u). \<not> onResult c),
       u\<lparr>cn_commands := q, cn_log := cn_log u @ map (\<lambda>c. CallResult c err) (filter onResult (queued u))\<rparr>)"
    using notify_queued_eq [OF u(1), of onResult err] by blast
  define v where "v = u\<lparr>cn_commands := q,
    cn_log := cn_log u @ map (\<lambda>c. CallResult c err) (filter onResult (queued u))\<rparr>"
  have cur': "notify_current onResult isHandshake err t = (case cn_command s of None \<Rightarrow> True
      | Some c \<Rightarrow> \<not> onResult c \<and> \<not> (isHandshake c \<and> queued s \<noteq> []), u)"
    by (simp only: u_def cur t(2,3) fst_conv snd_conv)
  have eq: "notifyError onResult isHandshake err s =
    (let s3 = (if bubbles onResult isHandshake s then emit (EmitError err) v else v)
     in if ce_fatal err then close s3 else s3)"
    using t(5) u(2,5)
    by (simp add: notifyError_def t_def [symmetric] cur' q(3) v_def [symmetric] bubbles_def disj_ac)
       (simp add: v_def)
  have v: "conn_inv v" "queued v = []" "cn_command v = notified onResult s" "cn_connectTimeout v = False"
    "cn_log v = cn_log u @ map (\<lambda>c. CallResult c err) (filter onResult (queued s))"
    using u q by (simp_all add: v_def conn_inv_def queued_def)
  show ?thesis
    unfolding eq notify_log_def using v u(4) t(1) by (simp add: Let_def) (simp add: emit_def)
qed

section \<open>A fatal error is final\<close>

text \<open>What may still happen to a connection in the error state.\<close>

definition quiet :: "'c effect \<Rightarrow> bool" where
  "quiet e \<longleftrightarrow> (case e of Execute c p \<Rightarrow> False | StreamWrite b \<Rightarrow> False | EmitConnect \<Rightarrow> False
                | CallResult c err \<Rightarrow> err = ClosedState | _ \<Rightarrow> True)"

definition dead :: "'c connection \<Rightarrow> bool" where
  "dead s \<longleftrightarrow> cn_fatalError s \<noteq> None \<and> cn_addCommandClosed s \<and> cn_writeClosed s \<and> \<not> cn_listening s \<and>
     ring_inv (cn_paused_packets s)"

text \<open>The refusals among the effects: the answers given to the commands of \<open>cs\<close>.\<close>

definition refusals :: "'c effect list \<Rightarrow> 'c effect list" where
  "refusals l = filter (\<lambda>x. x = EmitError ClosedState \<or> (\<exists>c. x = CallResult c ClosedState)) l"

definition refusal :: "('c \<Rightarrow> bool) \<Rightarrow> 'c \<Rightarrow> 'c effect" where
  "refusal onResult c = (if onResult c then CallResult c ClosedState else EmitError ClosedState)"

lemma refusals_simps [simp]:
  "refusals [] = []" "refusals (k @ l) = refusals k @ refusals l"
  "refusals (e # l) = (if e = EmitError ClosedState \<or> (\<exists>c. e = CallResult c ClosedState) then [e] else []) @ refusals l"
  by (simp_all add: refusals_def)

definition dead_step :: "'c effect list \<Rightarrow> 'c connection \<Rightarrow> 'c connection \<Rightarrow> bool" where
  "dead_step rs s t \<longleftrightarrow> dead t \<and> (\<exists>l. cn_log t = cn_log s @ l \<and> (\<forall>e\<in>set l. quiet e) \<and> refusals l = rs)"

lemma dead_step_refl: "dead s \<Longrightarrow> dead_step [] s s"
  by (simp add: dead_step_def)

lemma dead_step_trans: "dead_step rs s t \<Longrightarrow> dead_step qs t u \<Longrightarrow> dead_step (rs @ qs) s u"
  unfolding dead_step_def by (elim conjE exE) (auto intro!: exI)

lemma dead_step_trans0: "dead_step [] s t \<Longrightarrow> dead_step [] t u \<Longrightarrow> dead_step [] s u"
  using dead_step_trans [of "[]" s t "[]" u] by simp

lemma dead_stepI: "dead t \<Longrightarrow> cn_log t = cn_log s @ l \<Longrightarrow> \<forall>e\<in>set l. quiet e \<Longrightarrow> dead_step (refusals l) s t"
  by (auto simp: dead_step_def)

lemma dead_clear: "dead s \<Longrightarrow> dead_step [] s (clearConnectTimeout s)"
  by (auto simp: clearConnectTimeout_def emit_def dead_def quiet_def dead_step_def)

lemma dead_emit: "dead s \<Longrightarrow> quiet e \<Longrightarrow> dead_step (refusals [e]) s (emit e s)"
  by (auto simp: emit_def dead_def dead_step_def)

lemma dead_close: "dead s \<Longrightarrow> dead_step [] s (close s)"
  using dead_clear [of s]
  by (auto simp: close_def emit_def dead_def dead_step_def Let_def quiet_def)

lemma paused_clear [simp]: "cn_paused_packets (clearConnectTimeout s) = cn_paused_packets s"
  by (simp add: clearConnectTimeout_def emit_def)

lemma dead_notifyError: "dead s \<Longrightarrow> dead_step [] s (notifyError onResult isHandshake err s)"
  using dead_clear [of s] by (auto simp: notifyError_def Let_def dead_step_def dead_def)

lemma dead_upd: "dead_step [] s t \<Longrightarrow> dead u \<Longrightarrow> cn_log u = cn_log t \<Longrightarrow> dead_step [] s u"
  by (simp add: dead_step_def)

lemma dead_handleFatalError:
  "dead s \<Longrightarrow> dead_step [] s (handleFatalError onResult isHandshake e s)"
  using dead_notifyError [of "s\<lparr>cn_listening := False, cn_addCommandClosed := True, cn_writeClosed := True\<rparr>"
    onResult isHandshake "\<lparr>ce_error = e, ce_fatal = True\<rparr>"]
  by (auto simp: handleFatalError_def Let_def dead_step_def dead_def)

lemma dead_handleNetworkError:
  "dead s \<Longrightarrow> dead_step [] s (handleNetworkError onResult isHandshake e s)"
  using dead_clear [of s] dead_handleFatalError [of "clearConnectTimeout s" onResult isHandshake e]
  by (auto simp: handleNetworkError_def Let_def dead_step_def intro: dead_step_trans0)

lemma dead_handleTimeoutError:
  assumes "dead s"
  shows "dead_step [] s (handleTimeoutError onResult isHandshake s)"
proof -
  let ?t = "(emit StreamDestroy (clearConnectTimeout s))\<lparr>cn_destroyed := True\<rparr>"
  have "dead_step [] s ?t"
    using dead_clear [OF assms] by (auto simp: dead_step_def dead_def emit_def quiet_def)
  then show ?thesis
    using dead_handleNetworkError [of ?t] dead_step_trans0 [of s ?t]
    by (simp add: handleTimeoutError_def Let_def) (simp add: dead_step_def [of _ s ?t])
qed

lemma dead_streamClose: "dead s \<Longrightarrow> dead_step [] s (streamClose onResult isHandshake s)"
  using dead_notifyError [of "s\<lparr>cn_protocolError := Some ConnectionLost\<rparr>"] dead_notifyError [of s]
  by (auto simp: streamClose_def Let_def dead_step_def dead_def)

lemma dead_handshake: "dead s \<Longrightarrow> dead_step [] s (handshakeError onResult isHandshake err s)"
  using dead_notifyError [of "s\<lparr>cn_closing := True\<rparr>"] by (simp add: handshakeError_def dead_step_def dead_def)

lemma dead_handshakeEnd: "dead s \<Longrightarrow> dead_step [] s (handshakeEnd received s)"
  using dead_clear [of s] by (auto simp: handshakeEnd_def Let_def dead_step_def dead_def)

lemma dead_protocolError:
  assumes "dead s" and "e \<noteq> ce_error ClosedState"
  shows "dead_step [] s (close (protocolError e s))"
proof -
  have "dead_step [] s (protocolError e s)"
    using assms dead_emit [OF assms(1), of "EmitError \<lparr>ce_error = e, ce_fatal = True\<rparr>"] dead_step_refl [OF assms(1)]
    by (auto simp: protocolError_def quiet_def ClosedState_def split: if_splits)
  moreover from this have "dead (protocolError e s)"
    by (simp add: dead_step_def)
  ultimately show ?thesis
    using dead_close dead_step_trans0 by blast
qed

lemma dead_writes: "dead s \<Longrightarrow> dead_step [] s (fold write_stream bs s)"
proof (induction bs arbitrary: s)
  case (Cons b bs)
  have "dead_step [] s (write_stream b s)"
    using Cons.prems dead_emit [OF Cons.prems, of "EmitError \<lparr>ce_error = JsError [] ''Can't write in closed state'', ce_fatal = False\<rparr>"]
    by (auto simp: write_stream_def dead_def quiet_def ClosedState_def)
  then show ?case
    using Cons.IH [of "write_stream b s"] by (auto simp: dead_step_def intro: dead_step_trans0)
qed (simp add: dead_step_refl)

text \<open>A result of a handler in the error state: it returns, and with nothing but quiet effects.\<close>

definition dies :: "'c effect list \<Rightarrow> 'c connection \<Rightarrow> 'c connection result option \<Rightarrow> bool" where
  "dies rs s r \<longleftrightarrow> (\<exists>e. r = Some (Inl e)) \<or> (\<exists>t. r = Some (Inr t) \<and> dead_step rs s t)"

lemma diesI [intro]: "dead_step rs s t \<Longrightarrow> dies rs s (Some (Inr t))"
  and dies_Inl [intro, simp]: "dies rs s (Some (Inl e))"
  by (auto simp: dies_def)

lemma dead_handlePacket:
  assumes "dead s"
  shows "dies [] s (handlePacket cd onResult isHandshake execute (Suc fuel) packet s)"
proof (cases "cn_paused s")
  case True
  then show ?thesis
    using assms by (auto simp: dead_step_def dead_def ring_simps)
next
  case False
  show ?thesis
  proof (cases "cn_command s")
    case None
    then show ?thesis
      using False dead_protocolError [OF assms]
      by (auto simp: Let_def ClosedState_def UnexpectedPacket_def split: option.split sum.split)
  next
    case (Some c)
    have "dead_step [] s (checkSequence packet s)"
      using assms by (auto simp: checkSequence_def dead_step_def dead_def emit_def quiet_def Let_def split: option.split)
    moreover have "handlePacket cd onResult isHandshake execute (Suc fuel) packet s = Some (Inr (checkSequence packet s))"
      using False Some assms by (auto simp: Let_def checkSequence_def dead_def emit_def split: option.split)
    ultimately show ?thesis by auto
  qed
qed

lemma handlePacket_keeps_paused:
  assumes "dead s" and "\<not> cn_paused s"
    and "handlePacket cd onResult isHandshake execute (Suc fuel) packet s = Some (Inr t)"
  shows "cn_paused_packets t = cn_paused_packets s \<and> \<not> cn_paused t"
  using assms
  by (auto simp: Let_def dead_def emit_def close_def protocolError_def checkSequence_def clearConnectTimeout_def
      split: option.splits sum.splits if_splits)

lemma dead_resume_loop:
  assumes "dead s" and "\<not> cn_paused s" and "length (ring_contents (cn_paused_packets s)) < turns"
  shows "dies [] s (resume_loop cd onResult isHandshake execute (Suc fuel) turns s)"
  using assms
proof (induction turns arbitrary: s)
  case (Suc turns)
  define q where "q = snd (ring_shift (cn_paused_packets s))"
  define s1 where "s1 = s\<lparr>cn_paused_packets := q\<rparr>"
  have inv: "ring_inv (cn_paused_packets s)"
    using Suc.prems(1) by (simp add: dead_def)
  have s1: "dead s1" "dead_step [] s s1" "\<not> cn_paused s1"
    using Suc.prems(1,2) ring_inv_shift [OF inv] by (simp_all add: s1_def q_def dead_def dead_step_def)
  show ?case
  proof (cases "fst (ring_shift (cn_paused_packets s))")
    case None
    then show ?thesis
      using s1 dead_emit [OF s1(1), of StreamResume]
      by (auto simp: case_prod_unfold q_def s1_def Let_def quiet_def intro: dead_step_trans0)
  next
    case (Some p)
    have len: "length (ring_contents q) < turns"
      using Suc.prems(3) Some rq.contents_shift [OF inv] ring_shift_empty [OF inv]
      by (cases "ring_contents (cn_paused_packets s)") (auto simp: q_def)
    have eq: "resume_loop cd onResult isHandshake execute (Suc fuel) (Suc turns) s =
      (case handlePacket cd onResult isHandshake execute (Suc fuel) (Some p) s1 of
         Some (Inr s2) \<Rightarrow> if cn_paused s2 then Some (Inr s2)
           else resume_loop cd onResult isHandshake execute (Suc fuel) turns s2
       | r \<Rightarrow> r)"
      using Some by (simp add: case_prod_unfold Let_def s1_def q_def del: handlePacket.simps)
    from dead_handlePacket [OF s1(1), of cd onResult isHandshake execute fuel "Some p"]
    consider (throws) e where "handlePacket cd onResult isHandshake execute (Suc fuel) (Some p) s1 = Some (Inl e)"
      | (runs) t where "handlePacket cd onResult isHandshake execute (Suc fuel) (Some p) s1 = Some (Inr t)"
          "dead_step [] s1 t"
      unfolding dies_def by blast
    then show ?thesis
    proof cases
      case throws
      then show ?thesis unfolding eq by (simp del: handlePacket.simps)
    next
      case runs
      have t: "cn_paused_packets t = q" "\<not> cn_paused t" "dead t"
        using handlePacket_keeps_paused [OF s1(1,3) runs(1)] runs(2)
        by (simp_all add: s1_def dead_step_def)
      have st: "dead_step [] s t"
        using s1(2) runs(2) by (rule dead_step_trans0)
      have "dies [] t (resume_loop cd onResult isHandshake execute (Suc fuel) turns t)"
        using Suc.IH [OF t(3,2)] len t(1) by simp
      then have "dies [] s (resume_loop cd onResult isHandshake execute (Suc fuel) turns t)"
        using st by (auto simp: dies_def intro: dead_step_trans0)
      then show ?thesis
        unfolding eq using runs(1) t(2) by (simp del: handlePacket.simps)
    qed
  qed
qed simp

lemma dead_refuses: "dead s \<Longrightarrow> dead_step [refusal onResult c] s (addCommandClosedState onResult c s)"
  using dead_emit [of s "CallResult c ClosedState"] dead_emit [of s "EmitError ClosedState"]
  by (simp add: addCommandClosedState_def refusal_def quiet_def)

fun added :: "'c conn_op \<Rightarrow> 'c list" where
  "added (AddCommand c) = [c]"
| "added (End c) = [c]"
| "added _ = []"

lemma dead_apply:
  assumes "dead s"
  shows "dies (map (refusal onResult) (added p)) s (conn_apply cd onResult isHandshake execute (Suc fuel) p s)"
proof -
  have not_listening: "\<not> cn_listening s"
    using assms by (simp add: dead_def)
  show ?thesis
  proof (cases p)
    case (WritePacket x)
    then show ?thesis
      using dead_writes [of "s\<lparr>cn_sequenceId := n\<rparr>" for n] assms
      by (auto simp: connectionWritePacket_def dies_def dead_step_def dead_def split: sum.split prod.split)
  next
    case (AddCommand c)
    then show ?thesis
      using assms dead_refuses [OF assms] by (auto simp: addCommand_def dead_def)
  next
    case (End c)
    have "dead_step [refusal onResult c] s ((addCommandClosedState onResult c s)\<lparr>cn_addCommandClosed := True\<rparr>)"
      using dead_refuses [OF assms, of onResult c] by (simp add: dead_step_def dead_def)
    then show ?thesis
      using assms End by (auto simp: conn_end_def addCommand_def dead_def)
  next
    case Resume
    have "dead (s\<lparr>cn_paused := False\<rparr>)"
      using assms by (simp add: dead_def)
    then have "dies [] (s\<lparr>cn_paused := False\<rparr>) (conn_apply cd onResult isHandshake execute (Suc fuel) Resume s)"
      using assms by (simp add: resume_def ring_length_contents dead_def del: resume_loop.simps)
        (rule dead_resume_loop, simp_all add: dead_def)
    then show ?thesis
      using Resume by (auto simp: dies_def dead_step_def)
  next
    case Pause
    then show ?thesis
      using assms by (auto simp: pause_def dead_step_def dead_def emit_def quiet_def)
  next
    case StreamEnded
    then show ?thesis
      using dead_emit [OF assms, of EmitEnd] by (auto simp: streamEnd_def quiet_def)
  qed (use assms in \<open>simp_all add: diesI dead_handleNetworkError dead_handleTimeoutError dead_streamClose
    dead_handshake dead_handshakeEnd dead_close not_listening dead_step_refl\<close>)
qed

text \<open>Only a write, or a kept packet that cannot be parsed, raises.\<close>

lemma dead_apply_raises:
  assumes "dead s" and "conn_apply cd onResult isHandshake execute (Suc fuel) p s = Some (Inl e)"
  shows "p = Resume \<or> (\<exists>x. p = WritePacket x)"
  using assms by (cases p) (auto simp: addCommand_def conn_end_def dead_def)

lemma dead_run:
  "dead s \<Longrightarrow>
   (\<exists>u. conn_run cd onResult isHandshake execute (Suc fuel) ops s = Some (Inr u) \<and>
      dead_step (map (refusal onResult) (concat (map added ops))) s u) \<or>
   (\<exists>e before p after u. ops = before @ p # after \<and>
      conn_run cd onResult isHandshake execute (Suc fuel) ops s = Some (Inl e) \<and>
      conn_run cd onResult isHandshake execute (Suc fuel) before s = Some (Inr u) \<and>
      conn_apply cd onResult isHandshake execute (Suc fuel) p u = Some (Inl e) \<and>
      (p = Resume \<or> (\<exists>x. p = WritePacket x)))"
proof (induction ops arbitrary: s)
  case Nil
  then show ?case by (simp add: dead_step_refl)
next
  case (Cons p ps)
  from dead_apply [OF Cons.prems, of onResult p cd isHandshake execute fuel]
  consider (raises) e where "conn_apply cd onResult isHandshake execute (Suc fuel) p s = Some (Inl e)"
    | (runs) t where "conn_apply cd onResult isHandshake execute (Suc fuel) p s = Some (Inr t)"
        "dead_step (map (refusal onResult) (added p)) s t"
    unfolding dies_def by blast
  then show ?case
  proof cases
    case raises
    then show ?thesis
      using dead_apply_raises [OF Cons.prems raises]
      by (intro disjI2 exI [of _ e] exI [of _ "[]"] exI [of _ p] exI [of _ ps] exI [of _ s])
        (simp del: conn_apply.simps)
  next
    case (runs t)
    then have "dead t" by (simp add: dead_step_def)
    from Cons.IH [OF this]
    consider (ends) u where "conn_run cd onResult isHandshake execute (Suc fuel) ps t = Some (Inr u)"
        "dead_step (map (refusal onResult) (concat (map added ps))) t u"
      | (stop) e before q after u where "ps = before @ q # after"
        "conn_run cd onResult isHandshake execute (Suc fuel) ps t = Some (Inl e)"
        "conn_run cd onResult isHandshake execute (Suc fuel) before t = Some (Inr u)"
        "conn_apply cd onResult isHandshake execute (Suc fuel) q u = Some (Inl e)"
        "q = Resume \<or> (\<exists>x. q = WritePacket x)"
      by blast
    then show ?thesis
    proof cases
      case ends
      then show ?thesis
        using runs dead_step_trans [OF runs(2) ends(2)] by (intro disjI1) (simp del: conn_apply.simps)
    next
      case stop
      then show ?thesis
        using runs(1)
        by (intro disjI2 exI [of _ e] exI [of _ "p # before"] exI [of _ q] exI [of _ after] exI [of _ u])
          (simp del: conn_apply.simps)
    qed
  qed
qed

lemma notify_fields:
  "cn_listening (snd (notify_current onResult isHandshake err s)) = cn_listening s"
  "cn_writeClosed (snd (notify_current onResult isHandshake err s)) = cn_writeClosed s"
  "cn_paused_packets (snd (notify_current onResult isHandshake err s)) = cn_paused_packets s"
  "cn_addCommandClosed (snd (notify_current onResult isHandshake err s)) = cn_addCommandClosed s"
  "cn_listening (snd (notify_queued onResult err b s)) = cn_listening s"
  "cn_writeClosed (snd (notify_queued onResult err b s)) = cn_writeClosed s"
  "cn_paused_packets (snd (notify_queued onResult err b s)) = cn_paused_packets s"
  "cn_addCommandClosed (snd (notify_queued onResult err b s)) = cn_addCommandClosed s"
  "cn_listening (clearConnectTimeout s) = cn_listening s"
  "cn_writeClosed (clearConnectTimeout s) = cn_writeClosed s"
  "cn_addCommandClosed (clearConnectTimeout s) = cn_addCommandClosed s"
  "cn_listening (close s) = cn_listening s" "cn_writeClosed (close s) = cn_writeClosed s"
  "cn_paused_packets (close s) = cn_paused_packets s" "cn_addCommandClosed (close s)"
  "cn_listening (emit e s) = cn_listening s" "cn_writeClosed (emit e s) = cn_writeClosed s"
  "cn_paused_packets (emit e s) = cn_paused_packets s"
  "cn_addCommandClosed (emit e s) = cn_addCommandClosed s"
  by (auto simp: notify_current_def notify_queued_def clearConnectTimeout_def emit_def close_def
      Let_def case_prod_unfold split: option.split)

lemma notifyError_fields:
  "cn_listening (notifyError onResult isHandshake err s) = cn_listening s"
  "cn_writeClosed (notifyError onResult isHandshake err s) = cn_writeClosed s"
  "cn_paused_packets (notifyError onResult isHandshake err s) = cn_paused_packets s"
  "cn_addCommandClosed s \<Longrightarrow> cn_addCommandClosed (notifyError onResult isHandshake err s)"
  by (simp_all add: notifyError_def Let_def case_prod_unfold notify_fields)

lemma handleFatalError_dead:
  "conn_inv s \<Longrightarrow> dead (handleFatalError onResult isHandshake e s)"
  by (simp add: handleFatalError_def dead_def notifyError_fields conn_inv_def Let_def)

section \<open>Commands start in the order they were added\<close>

definition starts :: "'c effect list \<Rightarrow> 'c list" where
  "starts l = List.map_filter (\<lambda>e. case e of Execute c None \<Rightarrow> Some c | _ \<Rightarrow> None) l"

lemma starts_simps [simp]:
  "starts [] = []" "starts (k @ l) = starts k @ starts l"
  "starts [e] = (case e of Execute c None \<Rightarrow> [c] | _ \<Rightarrow> [])"
  "starts (map (\<lambda>c. CallResult c err) cs) = []"
  by (auto simp: starts_def List.map_filter_def split: effect.split option.split)

definition order :: "'c connection \<Rightarrow> 'c list" where
  "order s = starts (cn_log s) @ queued s"

lemma order_simps [simp]:
  "order (s\<lparr>cn_fatalError := f\<rparr>) = order s" "conn_inv (s\<lparr>cn_fatalError := f\<rparr>) = conn_inv s"
  "order (s\<lparr>cn_destroyed := b\<rparr>) = order s" "conn_inv (s\<lparr>cn_destroyed := b\<rparr>) = conn_inv s"
  "order (s\<lparr>cn_closing := b\<rparr>) = order s" "conn_inv (s\<lparr>cn_closing := b\<rparr>) = conn_inv s"
  "order (s\<lparr>cn_protocolError := f\<rparr>) = order s" "conn_inv (s\<lparr>cn_protocolError := f\<rparr>) = conn_inv s"
  "order (s\<lparr>cn_addCommandClosed := b\<rparr>) = order s" "conn_inv (s\<lparr>cn_addCommandClosed := b\<rparr>) = conn_inv s"
  "order (s\<lparr>cn_handshakePacket := b\<rparr>) = order s" "conn_inv (s\<lparr>cn_handshakePacket := b\<rparr>) = conn_inv s"
  "order (s\<lparr>cn_sequenceId := n\<rparr>) = order s" "order (s\<lparr>cn_paused := b\<rparr>) = order s"
  "order (s\<lparr>cn_command := c\<rparr>) = order s"
  "(\<forall>c. e \<noteq> Execute c None) \<Longrightarrow> order (emit e s) = order s"
  "order (clearConnectTimeout s) = order s" "order (close s) = order s"
  "order (resetSequenceId s) = order s"
  by (auto simp: order_def queued_def conn_inv_def emit_def clearConnectTimeout_def close_def
      resetSequenceId_def Let_def split: effect.split option.split)

text \<open>A connection without a command has none in its queue either.\<close>

definition conn_ok :: "'c connection \<Rightarrow> bool" where
  "conn_ok s \<longleftrightarrow> conn_inv s \<and> (cn_command s = None \<longrightarrow> queued s = [])"

lemma conn_ok_simps [simp]:
  "conn_ok (s\<lparr>cn_fatalError := f\<rparr>) = conn_ok s" "conn_ok (s\<lparr>cn_destroyed := b\<rparr>) = conn_ok s"
  "conn_ok (s\<lparr>cn_closing := b\<rparr>) = conn_ok s" "conn_ok (s\<lparr>cn_protocolError := f\<rparr>) = conn_ok s"
  "conn_ok (s\<lparr>cn_addCommandClosed := b\<rparr>) = conn_ok s" "conn_ok (s\<lparr>cn_handshakePacket := b\<rparr>) = conn_ok s"
  "conn_ok (s\<lparr>cn_sequenceId := n\<rparr>) = conn_ok s" "conn_ok (s\<lparr>cn_paused := b\<rparr>) = conn_ok s"
  "conn_ok (emit e s) = conn_ok s" "conn_ok (clearConnectTimeout s) = conn_ok s"
  "conn_ok (close s) = conn_ok s" "conn_ok (resetSequenceId s) = conn_ok s"
  by (auto simp: conn_ok_def conn_inv_def queued_def emit_def clearConnectTimeout_def close_def
      resetSequenceId_def Let_def)

text \<open>The commands \<open>addCommand\<close> accepted.\<close>

definition adds :: "'c effect list \<Rightarrow> 'c list" where
  "adds l = List.map_filter (\<lambda>e. case e of Added c \<Rightarrow> Some c | _ \<Rightarrow> None) l"

lemma adds_simps [simp]:
  "adds [] = []" "adds (k @ l) = adds k @ adds l"
  "adds [e] = (case e of Added c \<Rightarrow> [c] | _ \<Rightarrow> [])"
  "adds (map (\<lambda>c. CallResult c err) cs) = []"
  by (auto simp: adds_def List.map_filter_def split: effect.split)

lemma two_effects:
  "starts [a, b] = starts [a] @ starts [b]" "adds [a, b] = adds [a] @ adds [b]"
  using starts_simps(2) [of "[a]" "[b]"] adds_simps(2) [of "[a]" "[b]"] by simp_all

lemma adds_state [simp]:
  "(\<forall>c. e \<noteq> Added c) \<Longrightarrow> adds (cn_log (emit e s)) = adds (cn_log s)"
  "adds (cn_log (emit (Added c) s)) = adds (cn_log s) @ [c]"
  "adds (cn_log (clearConnectTimeout s)) = adds (cn_log s)"
  "cn_log (resetSequenceId s) = cn_log s"
  by (auto simp: emit_def clearConnectTimeout_def resetSequenceId_def split: effect.split)

text \<open>
  What the order rests on: a command's handler leaves the command that runs and the packets kept,
  starts no command itself, and adds commands at the back of the queue only. Handlers that act
  through the methods of the connection do.
\<close>

definition disciplined ::
    "('c \<Rightarrow> packet option \<Rightarrow> 'c connection \<Rightarrow> exec_outcome \<times> 'c connection) \<Rightarrow> bool" where
  "disciplined execute \<longleftrightarrow> (\<forall>c packet s. conn_inv s \<longrightarrow> (let t = snd (execute c packet s) in
     conn_inv t \<and> cn_command t = cn_command s \<and> cn_paused_packets t = cn_paused_packets s \<and>
     starts (cn_log t) = starts (cn_log s) \<and>
     (\<exists>new. queued t = queued s @ new \<and> adds (cn_log t) = adds (cn_log s) @ new)))"

lemma disciplinedD:
  assumes "disciplined execute" and "execute c packet s = (r, t)" and "conn_inv s"
  obtains new where "conn_inv t" "cn_command t = cn_command s" "cn_paused_packets t = cn_paused_packets s"
    "starts (cn_log t) = starts (cn_log s)" "queued t = queued s @ new" "adds (cn_log t) = adds (cn_log s) @ new"
  using assms(1) [unfolded disciplined_def Let_def, rule_format, of s c packet] assms(2,3) by auto

definition action_adds :: "'c action \<Rightarrow> 'c list" where
  "action_adds a = (case a of DoAdd c \<Rightarrow> [c] | DoEnd c \<Rightarrow> [c] | _ \<Rightarrow> [])"

text \<open>One action, and then all of them; a connection closed for commands refuses what is added.\<close>

definition acted :: "'c connection \<Rightarrow> 'c connection \<Rightarrow> 'c list \<Rightarrow> bool" where
  "acted s t new \<longleftrightarrow> conn_inv t \<and> cn_command t = cn_command s \<and> cn_paused_packets t = cn_paused_packets s \<and>
     starts (cn_log t) = starts (cn_log s) \<and> queued t = queued s @ new \<and> adds (cn_log t) = adds (cn_log s) @ new"

lemma acted_refl: "conn_inv s \<Longrightarrow> acted s s []"
  by (simp add: acted_def)

lemma acted_trans: "acted s t k \<Longrightarrow> acted t u l \<Longrightarrow> acted s u (k @ l)"
  by (simp add: acted_def)

lemma acted_write: "conn_inv s \<Longrightarrow> acted s (fold write_stream bs s) []"
proof (induction bs arbitrary: s)
  case (Cons b bs)
  have "acted s (write_stream b s) []"
    using Cons.prems by (auto simp: acted_def write_stream_def) (auto simp: emit_def)
  moreover from this have "conn_inv (write_stream b s)"
    by (simp add: acted_def)
  ultimately show ?case
    using Cons.IH [of "write_stream b s"] acted_trans [of s "write_stream b s" "[]" _ "[]"] by simp
qed (simp add: acted_refl)

lemma acted_add:
  assumes "conn_inv s"
  shows "acted s (add_running onResult c s) (if cn_addCommandClosed s then [] else [c])"
  using assms
  by (auto simp: add_running_def addCommandClosedState_def acted_def ring_simps queued_def conn_inv_def emit_def)

lemma perform_acted:
  assumes "conn_inv s" and "perform onResult a s = Inr t"
  shows "\<exists>new. acted s t new \<and> subseq new (action_adds a)"
proof (cases a)
  case (DoWrite p)
  then obtain bs n where "t = fold write_stream bs (s\<lparr>cn_sequenceId := n\<rparr>)"
    using assms(2) by (auto simp: connectionWritePacket_def split: sum.splits prod.splits)
  then show ?thesis
    using acted_write [of "s\<lparr>cn_sequenceId := n\<rparr>" bs] assms(1) DoWrite
    by (auto simp: acted_def action_adds_def)
next
  case (DoAdd c)
  then show ?thesis
    using acted_add [OF assms(1), of onResult c] assms(2) by (auto simp: action_adds_def)
next
  case (DoEnd c)
  then have "acted s t (if cn_addCommandClosed s then [] else [c])"
    using acted_add [OF assms(1), of onResult c] assms(2)
    by (auto simp: acted_def conn_inv_def queued_def)
  then show ?thesis
    using DoEnd by (auto simp: action_adds_def)
qed (use assms in \<open>auto simp: acted_def action_adds_def pause_def protocolError_def conn_inv_def queued_def
  emit_def close_def clearConnectTimeout_def Let_def two_effects split: if_splits\<close>)

lemma performs_acted:
  "conn_inv s \<Longrightarrow> performs onResult as s = (e, t) \<Longrightarrow>
   \<exists>new. acted s t new \<and> subseq new (concat (map action_adds as))"
proof (induction as arbitrary: s)
  case (Cons a as)
  show ?case
  proof (cases "perform onResult a s")
    case (Inl err)
    then show ?thesis using Cons.prems acted_refl by fastforce
  next
    case (Inr u)
    obtain k where k: "acted s u k" "subseq k (action_adds a)"
      using perform_acted [OF Cons.prems(1) Inr] by blast
    then obtain l where "acted u t l" "subseq l (concat (map action_adds as))"
      using Cons.IH [of u] Cons.prems(2) Inr by (auto simp: acted_def)
    then show ?thesis
      using acted_trans [OF k(1)] list_emb_append_mono [OF k(2)] by fastforce
  qed
qed (fastforce intro: acted_refl)

lemma run_handler_acted:
  assumes "conn_inv s" and "run_handler onResult handler c packet s = (r, t)"
  obtains as new where "handler c packet s = (as, r) \<or> (\<exists>e. r = Threw e)" "acted s t new"
    "subseq new (concat (map action_adds as))"
proof -
  obtain as outcome where h: "handler c packet s = (as, outcome)"
    by fastforce
  obtain e u where u: "performs onResult as s = (e, u)"
    by fastforce
  obtain new where "acted s u new" "subseq new (concat (map action_adds as))"
    using performs_acted [OF assms(1) u] by blast
  then show ?thesis
    using assms(2) h u by (intro that [of as new]) (auto simp: run_handler_def split: option.splits)
qed

lemma run_handler_disciplined: "disciplined (run_handler onResult handler)"
  unfolding disciplined_def Let_def
proof (intro allI impI)
  fix c packet and s :: "'a connection"
  assume inv: "conn_inv s"
  obtain r t where rt: "run_handler onResult handler c packet s = (r, t)"
    by fastforce
  obtain as new where "acted s t new"
    by (rule run_handler_acted [OF inv rt])
  then show "conn_inv (snd (run_handler onResult handler c packet s)) \<and>
      cn_command (snd (run_handler onResult handler c packet s)) = cn_command s \<and>
      cn_paused_packets (snd (run_handler onResult handler c packet s)) = cn_paused_packets s \<and>
      starts (cn_log (snd (run_handler onResult handler c packet s))) = starts (cn_log s) \<and>
      (\<exists>new. queued (snd (run_handler onResult handler c packet s)) = queued s @ new \<and>
        adds (cn_log (snd (run_handler onResult handler c packet s))) = adds (cn_log s) @ new)"
    using rt by (auto simp: acted_def)
qed

lemma shift_queued:
  assumes "conn_inv s" and "ring_shift (cn_commands s) = (n, q)"
  shows "conn_inv (s\<lparr>cn_commands := q, cn_command := d\<rparr>)"
    and "queued s = (case n of None \<Rightarrow> [] | Some c \<Rightarrow> c # queued (s\<lparr>cn_commands := q, cn_command := d\<rparr>))"
    and "n = None \<Longrightarrow> queued (s\<lparr>cn_commands := q, cn_command := d\<rparr>) = []"
proof -
  have inv: "ring_inv (cn_commands s)" "None \<notin> set (ring_contents (cn_commands s))"
    "ring_inv (cn_paused_packets s)"
    using assms(1) by (simp_all add: conn_inv_def)
  have q: "ring_inv q" "ring_contents q = tl (ring_contents (cn_commands s))"
    using ring_inv_shift [OF inv(1)] rq.contents_shift [OF inv(1)] assms(2) by simp_all
  show "conn_inv (s\<lparr>cn_commands := q, cn_command := d\<rparr>)"
    using inv q by (auto simp: conn_inv_def dest: list.set_sel(2) [rotated])
      (metis list.sel(2) list.set_sel(2))
  have "n = (case ring_contents (cn_commands s) of [] \<Rightarrow> None | x # xs \<Rightarrow> x)"
    using assms(2) ring_shift_empty [OF inv(1)] ring_shift_nonempty [OF inv(1)]
    by (cases "ring_contents (cn_commands s)") auto
  then show "queued s = (case n of None \<Rightarrow> [] | Some c \<Rightarrow> c # queued (s\<lparr>cn_commands := q, cn_command := d\<rparr>))"
    and "n = None \<Longrightarrow> queued (s\<lparr>cn_commands := q, cn_command := d\<rparr>) = []"
    using inv(2) q(2) by (cases n; auto simp: queued_def split: list.splits)+
qed

lemma notifyError_order:
  assumes "conn_ok s"
  shows "conn_ok (notifyError onResult isHandshake err s) \<and>
    starts (cn_log (notifyError onResult isHandshake err s)) = starts (cn_log s) \<and>
    adds (cn_log (notifyError onResult isHandshake err s)) = adds (cn_log s) \<and>
    subseq (order (notifyError onResult isHandshake err s)) (order s)"
proof (cases "cn_fatalError s")
  case None
  then show ?thesis
    using notifyError_log [of s onResult isHandshake err] assms
    by (simp add: order_def notify_log_def prefix_imp_subseq conn_ok_def)
next
  case (Some e)
  then have "notifyError onResult isHandshake err s = clearConnectTimeout s"
    by (simp add: notifyError_def clearConnectTimeout_def emit_def)
  then show ?thesis
    using assms by (simp add: order_def clearConnectTimeout_def emit_def conn_ok_def)
qed

lemma handleFatalError_order:
  assumes "conn_ok s"
  shows "conn_ok (handleFatalError onResult isHandshake e s) \<and>
    adds (cn_log (handleFatalError onResult isHandshake e s)) = adds (cn_log s) \<and>
    subseq (order (handleFatalError onResult isHandshake e s)) (order s)"
proof -
  let ?t = "s\<lparr>cn_listening := False, cn_addCommandClosed := True, cn_writeClosed := True\<rparr>"
  have "conn_ok ?t" "order ?t = order s"
    using assms by (simp_all add: conn_ok_def conn_inv_def order_def queued_def)
  then show ?thesis
    using notifyError_order [of ?t onResult isHandshake "\<lparr>ce_error = e, ce_fatal = True\<rparr>"]
    by (simp add: handleFatalError_def Let_def)
qed

definition at_hand :: "packet option \<Rightarrow> 'c connection \<Rightarrow> 'c list" where
  "at_hand packet s = (case packet of None \<Rightarrow> (case cn_command s of None \<Rightarrow> [] | Some c \<Rightarrow> [c]) | Some p \<Rightarrow> [])"

lemma checkSequence_order:
  "conn_inv (checkSequence packet s) = conn_inv s" "order (checkSequence packet s) = order s"
  "queued (checkSequence packet s) = queued s" "cn_fatalError (checkSequence packet s) = cn_fatalError s"
  "starts (cn_log (checkSequence packet s)) = starts (cn_log s)"
  "adds (cn_log (checkSequence packet s)) = adds (cn_log s)"
  "cn_commands (checkSequence packet s) = cn_commands s"
  "cn_command (checkSequence packet s) = cn_command s"
  by (auto simp: checkSequence_def Let_def emit_def order_def split: option.split)

text \<open>A command that finishes hands over to the head of the queue.\<close>

lemma next_order:
  assumes "conn_inv s" and "ring_shift (cn_commands s) = (n, q)"
    and t: "t = s\<lparr>cn_commands := q, cn_command := n\<rparr>"
  shows "conn_inv t" and "n = None \<Longrightarrow> order t = order s" and "conn_ok t"
    and "starts (cn_log (resetSequenceId t)) @ at_hand None (resetSequenceId t) @ queued (resetSequenceId t) = order s"
proof -
  note q = shift_queued [OF assms(1,2), of n, folded t]
  have log: "cn_log t = cn_log s" "cn_command t = n"
    by (simp_all add: t)
  show "conn_inv t" by (rule q(1))
  show "conn_ok t"
    using q log by (auto simp: conn_ok_def)
  show "order t = order s" if "n = None"
    using q(2,3) log that by (simp add: order_def)
  show "starts (cn_log (resetSequenceId t)) @ at_hand None (resetSequenceId t) @ queued (resetSequenceId t) = order s"
    using q(2,3) log by (cases n) (simp_all add: order_def at_hand_def resetSequenceId_def queued_def)
qed

text \<open>
  A step of the connection: the commands started and queued afterwards are, in order, some of
  those started, waiting to start (\<open>first\<close>) and queued before, and those added meanwhile.
\<close>

definition steps_in_order :: "'c list \<Rightarrow> 'c connection \<Rightarrow> 'c connection \<Rightarrow> bool" where
  "steps_in_order first s t \<longleftrightarrow> conn_ok t \<and>
     (\<exists>new. adds (cn_log t) = adds (cn_log s) @ new \<and>
       subseq (order t) (starts (cn_log s) @ first @ queued s @ new))"

lemma steps_in_orderI:
  "conn_ok t \<Longrightarrow> adds (cn_log t) = adds (cn_log s) \<Longrightarrow> subseq (order t) (order s) \<Longrightarrow> steps_in_order [] s t"
  by (simp add: steps_in_order_def order_def)

lemma steps_in_order_refl: "conn_ok s \<Longrightarrow> steps_in_order [] s s"
  by (rule steps_in_orderI) simp_all

lemma steps_in_order_first: "steps_in_order [] s t \<Longrightarrow> steps_in_order first s t"
proof -
  have "subseq (starts (cn_log s) @ queued s @ new) (starts (cn_log s) @ first @ queued s @ new)" for new
    by (simp add: subseq_append' list_emb_append2)
  then show "steps_in_order [] s t \<Longrightarrow> steps_in_order first s t"
    unfolding steps_in_order_def append_Nil using subseq_order.order_trans by blast
qed

lemma steps_in_order_trans:
  assumes "steps_in_order [] s t" and "steps_in_order [] t u"
  shows "steps_in_order [] s u"
proof -
  obtain k l where k: "adds (cn_log t) = adds (cn_log s) @ k" "subseq (order t) (order s @ k)"
    and l: "adds (cn_log u) = adds (cn_log t) @ l" "subseq (order u) (order t @ l)" "conn_ok u"
    using assms by (auto simp: steps_in_order_def order_def)
  have "subseq (order t @ l) (order s @ k @ l)"
    using k(2) by (metis append.assoc list_emb_append_mono subseq_order.order_refl)
  then show ?thesis
    using k(1) l subseq_order.order_trans by (auto simp: steps_in_order_def order_def intro!: exI [of _ "k @ l"])
qed

lemma handlePacket_order:
  assumes keeps: "disciplined execute"
  shows "conn_ok s \<Longrightarrow> handlePacket cd onResult isHandshake execute fuel packet s = Some (Inr t) \<Longrightarrow>
    steps_in_order (at_hand packet s) s t"
proof (induction fuel arbitrary: packet s)
  case (Suc fuel)
  consider (paused) "cn_paused s" | (idle) "\<not> cn_paused s" "cn_command s = None"
    | (dead) c e where "\<not> cn_paused s" "cn_command s = Some c" "cn_fatalError s = Some e"
    | (exec) c r u where "\<not> cn_paused s" "cn_command s = Some c" "cn_fatalError s = None"
        "execute c packet (emit (Execute c packet) (checkSequence packet s)) = (r, u)"
    by (metis not_None_eq surj_pair)
  then show ?case
  proof cases
    case paused
    then have "order t = order s" "conn_ok t" "cn_log t = cn_log s"
      using Suc.prems by (auto simp: order_def queued_def conn_inv_def conn_ok_def ring_simps)
    then show ?thesis by (simp add: steps_in_order_first steps_in_orderI)
  next
    case idle
    then obtain e where "t = close (protocolError e s)"
      using Suc.prems(2) by (auto simp: Let_def split: option.splits if_splits sum.splits)
    then have "order t = order s" "conn_ok t" "adds (cn_log t) = adds (cn_log s)"
      using Suc.prems(1) by (simp_all add: protocolError_def conn_ok_def) (simp_all add: emit_def)
    then show ?thesis by (simp add: steps_in_order_first steps_in_orderI)
  next
    case dead
    then have "t = checkSequence packet s"
      using Suc.prems by (auto simp: checkSequence_order)
    then show ?thesis
      using Suc.prems(1)
      by (simp add: steps_in_order_first [OF steps_in_orderI] checkSequence_order conn_ok_def)
  next
    case exec
    have inv: "conn_inv (emit (Execute c packet) (checkSequence packet s))"
      using Suc.prems(1) by (simp add: checkSequence_order conn_ok_def)
    obtain new where k: "conn_inv u"
      "cn_command u = cn_command (emit (Execute c packet) (checkSequence packet s))"
      "starts (cn_log u) = starts (cn_log (emit (Execute c packet) (checkSequence packet s)))"
      "queued u = queued (emit (Execute c packet) (checkSequence packet s)) @ new"
      "adds (cn_log u) = adds (cn_log (emit (Execute c packet) (checkSequence packet s))) @ new"
      by (rule disciplinedD [OF keeps exec(4) inv])
    then have k: "conn_inv u" "cn_command u = Some c"
      "starts (cn_log u) = starts (cn_log (emit (Execute c packet) (checkSequence packet s)))"
      "queued u = queued s @ new" "adds (cn_log u) = adds (cn_log s) @ new"
      using exec(2) by (simp_all add: checkSequence_order) (simp add: emit_def checkSequence_order)
    have u: "conn_ok u" "order u = starts (cn_log s) @ at_hand packet s @ queued s @ new"
      using k exec(2)
      by (auto simp: order_def conn_ok_def checkSequence_order at_hand_def emit_def split: option.split)
    have after: "steps_in_order (at_hand packet s) s v"
      if "conn_ok v" "adds (cn_log v) = adds (cn_log u) @ l" "subseq (order v) (order u @ l)" for v l
      using that u k(5) by (auto simp: steps_in_order_def intro!: exI [of _ "new @ l"])
    obtain n q where sh: "ring_shift (cn_commands u) = (n, q)"
      by (cases "ring_shift (cn_commands u)")
    note nx = next_order [OF k(1) sh refl]
    show ?thesis
    proof (cases r)
      case (Threw e)
      then show ?thesis
        using Suc.prems(2) exec handleFatalError_order [OF u(1), of onResult isHandshake e]
        by (intro after [of t "[]"]) (auto simp: checkSequence_order)
    next
      case Continues
      then show ?thesis
        using Suc.prems(2) exec u(1) by (intro after [of t "[]"]) (simp_all add: checkSequence_order)
    next
      case Finished
      define v where "v = u\<lparr>cn_commands := q, cn_command := n\<rparr>"
      have v: "conn_ok v" "cn_log v = cn_log u" "n = None \<Longrightarrow> order v = order u"
        "starts (cn_log u) @ at_hand None (resetSequenceId v) @ queued v = order u"
        using nx by (simp_all add: v_def)
      show ?thesis
      proof (cases n)
        case None
        then have "t = v"
          using Suc.prems(2) exec sh Finished by (simp add: checkSequence_order Let_def v_def)
        then show ?thesis using after [of v "[]"] v None by simp
      next
        case (Some d)
        have "steps_in_order (at_hand None (resetSequenceId v)) (resetSequenceId v) t"
          using Suc.prems(2) exec sh Finished Some
          v(1) by (intro Suc.IH) (simp_all add: checkSequence_order Let_def v_def)
        then obtain l where "conn_ok t" "adds (cn_log t) = adds (cn_log u) @ l"
          "subseq (order t) (starts (cn_log u) @ at_hand None (resetSequenceId v) @ queued v @ l)"
          by (auto simp: steps_in_order_def v(2))
        then show ?thesis
          using after [of t l] v(4) by (metis append.assoc)
      qed
    qed
  qed
qed simp

lemma handleNetworkError_order:
  "conn_ok s \<Longrightarrow> conn_ok (handleNetworkError onResult isHandshake e s) \<and>
    adds (cn_log (handleNetworkError onResult isHandshake e s)) = adds (cn_log s) \<and>
    subseq (order (handleNetworkError onResult isHandshake e s)) (order s)"
  using handleFatalError_order [of "clearConnectTimeout s"] by (simp add: handleNetworkError_def Let_def)

lemma fold_write_order:
  "order (fold write_stream bs s) = order s \<and> conn_ok (fold write_stream bs s) = conn_ok s \<and>
   adds (cn_log (fold write_stream bs s)) = adds (cn_log s)"
  by (induction bs arbitrary: s) (simp_all add: write_stream_def)

lemma addCommand_order:
  assumes "disciplined execute" and ok: "conn_ok s"
    and "addCommand cd onResult isHandshake execute fuel c s = Some (Inr t)"
  shows "steps_in_order [] s t"
proof -
  consider "cn_addCommandClosed s"
    | "\<not> cn_addCommandClosed s" "cn_command s = None"
        "handlePacket cd onResult isHandshake execute fuel None (emit (Added c) (s\<lparr>cn_command := Some c\<rparr>)) = Some (Inr t)"
    | "\<not> cn_addCommandClosed s" "cn_command s \<noteq> None"
        "t = emit (Added c) (s\<lparr>cn_commands := snd (ring_push (cn_commands s) (Some c))\<rparr>)"
    using assms(3) unfolding addCommand_def by (auto split: if_splits)
  then show ?thesis
  proof cases
    case 1
    then have "t = addCommandClosedState onResult c s"
      using assms(3) by (simp add: addCommand_def)
    then show ?thesis
      using ok by (auto simp: addCommandClosedState_def intro!: steps_in_orderI)
  next
    case 2
    let ?u = "emit (Added c) (s\<lparr>cn_command := Some c\<rparr>)"
    have "conn_ok ?u" "queued s = []"
      using ok 2(2) by (simp_all add: conn_ok_def)
    then have "steps_in_order [c] ?u t"
      using handlePacket_order [OF assms(1) _ 2(3)] by (simp add: at_hand_def emit_def)
    moreover have "starts (cn_log ?u) = starts (cn_log s)" "adds (cn_log ?u) = adds (cn_log s) @ [c]" "queued ?u = []"
      using \<open>queued s = []\<close> by simp_all (simp_all add: emit_def)
    ultimately show ?thesis
      using \<open>queued s = []\<close> by (auto simp: steps_in_order_def)
  next
    case 3
    then have "conn_ok t" "order t = order s @ [c]" "adds (cn_log t) = adds (cn_log s) @ [c]"
      using ok by (auto simp: conn_ok_def conn_inv_def order_def queued_def ring_simps emit_def)
    then show ?thesis by (simp add: steps_in_order_def order_def)
  qed
qed

lemma resume_loop_order:
  assumes "disciplined execute"
  shows "conn_ok s \<Longrightarrow> resume_loop cd onResult isHandshake execute fuel turns s = Some (Inr t) \<Longrightarrow>
    steps_in_order [] s t"
proof (induction turns arbitrary: s)
  case (Suc turns)
  obtain packet q where sh: "ring_shift (cn_paused_packets s) = (packet, q)"
    by (cases "ring_shift (cn_paused_packets s)")
  define s1 where "s1 = s\<lparr>cn_paused_packets := q\<rparr>"
  have s1: "conn_ok s1" "order s1 = order s" "cn_log s1 = cn_log s"
    using Suc.prems(1) sh ring_inv_shift [of "cn_paused_packets s"]
    by (auto simp: s1_def conn_ok_def conn_inv_def queued_def order_def)
  have first: "steps_in_order [] s s1"
    using s1 by (intro steps_in_orderI) simp_all
  show ?case
  proof (cases packet)
    case None
    then have "t = emit StreamResume s1"
      using Suc.prems(2) sh by (simp add: s1_def)
    then show ?thesis
      using s1 by (intro steps_in_orderI) simp_all
  next
    case (Some p)
    then obtain u where u: "handlePacket cd onResult isHandshake execute fuel (Some p) s1 = Some (Inr u)"
      "cn_paused u \<and> t = u \<or> resume_loop cd onResult isHandshake execute fuel turns u = Some (Inr t)"
      using Suc.prems(2) sh by (auto simp: s1_def [symmetric] split: option.splits sum.splits if_splits)
    have "steps_in_order [] s1 u"
      using handlePacket_order [OF assms s1(1) u(1)] by (simp add: at_hand_def)
    then have "steps_in_order [] s u" "conn_ok u"
      using steps_in_order_trans [OF first] by (auto simp: steps_in_order_def)
    then show ?thesis
      using u(2) Suc.IH [of u] steps_in_order_trans [of s u t] by blast
  qed
qed simp

lemma apply_order:
  assumes "disciplined execute" and ok: "conn_ok s"
    and ap: "conn_apply cd onResult isHandshake execute fuel p s = Some (Inr t)"
  shows "steps_in_order [] s t"
proof (cases p)
  case (AddCommand c)
  then show ?thesis using addCommand_order [OF assms(1,2)] ap by simp
next
  case (End c)
  then obtain u where u: "addCommand cd onResult isHandshake execute fuel c s = Some (Inr u)"
    "t = u\<lparr>cn_addCommandClosed := True\<rparr>"
  proof -
    obtain r where r: "addCommand cd onResult isHandshake execute fuel c s = Some r" "map_sum (\<lambda>e. e) (\<lambda>t. t\<lparr>cn_addCommandClosed := True\<rparr>) r = Inr t"
      using ap End by (auto simp: conn_end_def)
    then show ?thesis using that by (cases r) auto
  qed
  then show ?thesis
    using addCommand_order [OF assms(1,2) u(1)] by (simp add: steps_in_order_def)
next
  case (Packet x)
  then show ?thesis
    using handlePacket_order [OF assms(1,2), of cd onResult isHandshake fuel "Some x" t] ap ok steps_in_order_refl
    by (auto simp: at_hand_def split: if_splits)
next
  case (WritePacket x)
  then show ?thesis
    using ap ok
    by (auto simp: connectionWritePacket_def fold_write_order split: sum.splits prod.splits intro!: steps_in_orderI)
next
  case (NetworkError e)
  then show ?thesis
    using ap handleNetworkError_order [OF ok, of onResult isHandshake e] by (auto intro!: steps_in_orderI)
next
  case ConnectTimeout
  then show ?thesis
    using ap ok handleNetworkError_order [of "(emit StreamDestroy (clearConnectTimeout s))\<lparr>cn_destroyed := True\<rparr>"]
    by (auto simp: handleTimeoutError_def Let_def intro!: steps_in_orderI)
next
  case StreamClosed
  then show ?thesis
    using ap ok notifyError_order [of "s\<lparr>cn_protocolError := Some ConnectionLost\<rparr>" onResult isHandshake]
      notifyError_order [OF ok, of onResult isHandshake] steps_in_order_refl [OF ok]
    by (auto simp: streamClose_def Let_def split: if_splits intro!: steps_in_orderI)
next
  case (HandshakeFailed err)
  then show ?thesis
    using ap ok notifyError_order [of "s\<lparr>cn_closing := True\<rparr>" onResult isHandshake err]
    by (auto simp: handshakeError_def intro!: steps_in_orderI)
next
  case Resume
  then have "steps_in_order [] (s\<lparr>cn_paused := False\<rparr>) t"
    using ap ok by (intro resume_loop_order [OF assms(1)]) (simp_all add: resume_def del: resume_loop.simps)
  then show ?thesis
    by (simp add: steps_in_order_def)
qed (use ap ok in \<open>auto simp: streamEnd_def handshakeEnd_def pause_def Let_def intro!: steps_in_orderI\<close>)

lemma run_order:
  assumes "disciplined execute"
  shows "conn_ok s \<Longrightarrow> conn_run cd onResult isHandshake execute fuel ops s = Some (Inr t) \<Longrightarrow>
    steps_in_order [] s t"
proof (induction ops arbitrary: s)
  case (Cons p ops)
  then obtain u where u: "conn_apply cd onResult isHandshake execute fuel p s = Some (Inr u)"
    "conn_run cd onResult isHandshake execute fuel ops u = Some (Inr t)"
    by (auto split: option.splits sum.splits)
  have 1: "steps_in_order [] s u"
    by (rule apply_order [OF assms Cons.prems(1) u(1)])
  then have "steps_in_order [] u t"
    using Cons.IH [OF _ u(2)] by (simp add: steps_in_order_def)
  with 1 show ?case
    by (rule steps_in_order_trans)
qed (simp add: steps_in_order_refl)

lemma conn_ok_new: "conn_ok new_connection" "order new_connection = []" "cn_log new_connection = []"
  by (simp_all add: rq.inv_empty rq.contents_empty conn_ok_def conn_inv_def new_connection_def queued_def order_def)

text \<open>
  \<open>handlePacket\<close> ends when every command that finishes leaves less work than it was: \<open>weight\<close>
  measures a command, and fuel above the weight of the commands there are is enough.
\<close>

definition total_weight :: "('c \<Rightarrow> nat) \<Rightarrow> 'c connection \<Rightarrow> nat" where
  "total_weight weight s =
     (case cn_command s of None \<Rightarrow> 0 | Some c \<Rightarrow> weight c) + sum_list (map weight (queued s))"

lemma sum_subseq: "subseq xs ys \<Longrightarrow> sum_list (map weight xs) \<le> (sum_list (map weight ys) :: nat)"
  by (induction rule: list_emb.induct) auto

lemma handlePacket_returns:
  fixes handler :: "'c command_handler" and weight :: "'c \<Rightarrow> nat"
  assumes light: "\<And>c packet s as. handler c packet s = (as, Finished) \<Longrightarrow>
    sum_list (map weight (concat (map action_adds as))) < weight c"
  shows "conn_inv s \<Longrightarrow> total_weight weight s < fuel \<Longrightarrow>
    handlePacket cd onResult isHandshake (run_handler onResult handler) fuel packet s \<noteq> None"
proof (induction fuel arbitrary: packet s)
  case (Suc fuel)
  show ?case
  proof (cases "cn_paused s \<or> cn_command s = None \<or> cn_fatalError s \<noteq> None")
    case True
    then show ?thesis
      by (auto simp: checkSequence_order Let_def split: option.splits sum.splits)
  next
    case False
    then obtain c where c: "cn_command s = Some c" by auto
    obtain r u where ex: "run_handler onResult handler c packet (emit (Execute c packet) (checkSequence packet s)) = (r, u)"
      by (meson surj_pair)
    have inv: "conn_inv (emit (Execute c packet) (checkSequence packet s))"
      using Suc.prems(1) by (simp add: checkSequence_order)
    obtain as new where k: "handler c packet (emit (Execute c packet) (checkSequence packet s)) = (as, r) \<or> (\<exists>e. r = Threw e)"
      "acted (emit (Execute c packet) (checkSequence packet s)) u new" "subseq new (concat (map action_adds as))"
      by (rule run_handler_acted [OF inv ex])
    have u: "conn_inv u" "queued u = queued s @ new"
      using k(2) by (simp_all add: acted_def checkSequence_order)
    obtain n q where sh: "ring_shift (cn_commands u) = (n, q)"
      by (cases "ring_shift (cn_commands u)")
    note q = shift_queued [OF u(1) sh, of n]
    have "handlePacket cd onResult isHandshake (run_handler onResult handler) fuel None
        (resetSequenceId (u\<lparr>cn_commands := q, cn_command := n\<rparr>)) \<noteq> None" if "n \<noteq> None" "r = Finished"
    proof (rule Suc.IH)
      have "sum_list (map weight new) < weight c"
        using k(1,3) light that(2) sum_subseq [OF k(3), of weight] by fastforce
      then have "sum_list (map weight (queued u)) < total_weight weight s"
        using u(2) c by (simp add: total_weight_def)
      moreover have "total_weight weight (resetSequenceId (u\<lparr>cn_commands := q, cn_command := n\<rparr>)) =
          sum_list (map weight (queued u))"
        using q(2) that(1) by (auto simp: total_weight_def resetSequenceId_def queued_def)
      ultimately show "total_weight weight (resetSequenceId (u\<lparr>cn_commands := q, cn_command := n\<rparr>)) < fuel"
        using Suc.prems(2) by simp
    qed (use q in simp)
    then show ?thesis
      using False c ex sh by (auto simp: checkSequence_order Let_def split: exec_outcome.split)
  qed
qed simp

section \<open>Properties\<close>

text \<open>
  Claim C9. An error of the connection reaches the command that runs and every queued command
  that has a callback, once each and in queue order; the queue is empty afterwards, and a fatal
  error ends the stream after the callbacks. The error is emitted on the connection as well when
  the connection belongs to a pool, when no command runs, when a queued command has no callback, or
  when the one that runs has none, except that a running handshake with commands behind it is
  passed over in silence.
\<close>

theorem notifyError_reaches_all:
  assumes "conn_inv s" and "cn_fatalError s = None"
  shows "queued (notifyError onResult isHandshake err s) = [] \<and>
    cn_log (notifyError onResult isHandshake err s) = cn_log s @
      (if cn_connectTimeout s then [ClearConnectTimer] else []) @
      map (\<lambda>c. CallResult c err)
        (filter onResult ((case cn_command s of None \<Rightarrow> [] | Some c \<Rightarrow> [c]) @ queued s)) @
      (if cn_pool s \<or> (\<exists>c\<in>set (queued s). \<not> onResult c) \<or>
          (case cn_command s of
             None \<Rightarrow> True
           | Some c \<Rightarrow> \<not> onResult c \<and> \<not> (isHandshake c \<and> queued s \<noteq> []))
       then [EmitError err] else []) @
      (if ce_fatal err then [StreamEnd] else [])"
  using notifyError_log [OF assms, of onResult isHandshake err]
  by (simp add: notify_log_def bubbles_def disj_ac)

definition busy_connection :: "nat connection" where
  "busy_connection = new_connection\<lparr>cn_command := Some 1,
     cn_commands := snd (ring_push (snd (ring_push ring_new (Some 2))) (Some 3))\<rparr>"

lemma busy_connection: "conn_inv busy_connection" "queued busy_connection = [2, 3]"
  "cn_command busy_connection = Some 1" "cn_log busy_connection = []"
  "cn_fatalError busy_connection = None" "cn_connectTimeout busy_connection = False"
  "cn_pool busy_connection = False"
  by (simp_all add: busy_connection_def conn_inv_def queued_def new_connection_def ring_simps
      rq.inv_empty rq.contents_empty)

theorem notifyError_reaches_all_witness:
  "cn_log (notifyError (\<lambda>c. c \<noteq> 2) (\<lambda>c. False) ConnectionLost busy_connection) =
    [CallResult 1 ConnectionLost, CallResult 3 ConnectionLost, EmitError ConnectionLost, StreamEnd]"
  using notifyError_reaches_all [OF busy_connection(1,5), of "\<lambda>c. c \<noteq> 2" "\<lambda>c. False" ConnectionLost]
  by (simp add: busy_connection ConnectionLost_def)

text \<open>
  Claim C10. A fatal error is final. Whatever happens to the connection afterwards, no command
  runs, nothing is written to the stream and no connection is reported; the state reads
  \<open>error\<close>; and the commands added (by \<open>addCommand\<close> or \<open>end\<close>) are the only ones
  answered, each exactly once and in turn with the closed-state error, through its callback or else
  by an \<open>error\<close> event. If a run ends in an exception, all this holds up to the operation that
  raised it, which is a write of the caller's own packet or a \<open>resume\<close> that meets a kept packet
  it cannot parse.
\<close>

theorem fatal_error_is_final:
  assumes "conn_inv s" and "t = handleFatalError onResult isHandshake e s"
  shows "(\<exists>u l. conn_run cd onResult isHandshake execute (Suc fuel) ops t = Some (Inr u) \<and>
      conn_state u = ''error'' \<and> cn_log u = cn_log t @ l \<and>
      (\<forall>x\<in>set l. (\<forall>c p. x \<noteq> Execute c p) \<and> (\<forall>b. x \<noteq> StreamWrite b) \<and> x \<noteq> EmitConnect \<and>
         (\<forall>c err. x = CallResult c err \<longrightarrow> err = ClosedState)) \<and>
      filter (\<lambda>x. x = EmitError ClosedState \<or> (\<exists>c. x = CallResult c ClosedState)) l =
        map (\<lambda>c. if onResult c then CallResult c ClosedState else EmitError ClosedState)
          (concat (map added ops))) \<or>
    (\<exists>e' before p after u. ops = before @ p # after \<and>
      conn_run cd onResult isHandshake execute (Suc fuel) ops t = Some (Inl e') \<and>
      conn_run cd onResult isHandshake execute (Suc fuel) before t = Some (Inr u) \<and>
      conn_apply cd onResult isHandshake execute (Suc fuel) p u = Some (Inl e') \<and>
      (p = Resume \<or> (\<exists>x. p = WritePacket x)))"
proof -
  have quiet: "\<forall>x\<in>set l. (\<forall>c p. x \<noteq> Execute c p) \<and> (\<forall>b. x \<noteq> StreamWrite b) \<and> x \<noteq> EmitConnect \<and>
      (\<forall>c err. x = CallResult c err \<longrightarrow> err = ClosedState)" if "\<forall>x\<in>set l. quiet x" for l :: "'a effect list"
    using that by (auto simp: quiet_def)
  have "dead t"
    using handleFatalError_dead [OF assms(1)] assms(2) by simp
  from dead_run [OF this, of cd onResult isHandshake execute fuel ops] show ?thesis
  proof (elim disjE)
    assume "\<exists>u. conn_run cd onResult isHandshake execute (Suc fuel) ops t = Some (Inr u) \<and>
      dead_step (map (refusal onResult) (concat (map added ops))) t u"
    then obtain u l where u: "conn_run cd onResult isHandshake execute (Suc fuel) ops t = Some (Inr u)"
      "dead u" "cn_log u = cn_log t @ l" "\<forall>x\<in>set l. quiet x"
      "refusals l = map (refusal onResult) (concat (map added ops))"
      by (auto simp: dead_step_def)
    then have "conn_state u = ''error''"
      by (simp add: dead_def conn_state_def)
    moreover have "filter (\<lambda>x. x = EmitError ClosedState \<or> (\<exists>c. x = CallResult c ClosedState)) l =
        map (\<lambda>c. if onResult c then CallResult c ClosedState else EmitError ClosedState) (concat (map added ops))"
      using u(5) by (simp add: refusals_def refusal_def)
    ultimately show ?thesis
      using u(1,3) quiet [OF u(4)] by blast
  qed blast
qed

theorem fatal_error_is_final_witness:
  "\<exists>u l. conn_run latin1_codec (\<lambda>c. c \<noteq> 8) (\<lambda>c. False) (\<lambda>c p s. (Continues, s)) (Suc 0)
      [AddCommand 7, Close, AddCommand 8, ConnectTimeout]
      (handleFatalError (\<lambda>c. c \<noteq> 8) (\<lambda>c. False) TypeError busy_connection) = Some (Inr u) \<and>
    conn_state u = ''error'' \<and>
    cn_log u = cn_log (handleFatalError (\<lambda>c. c \<noteq> 8) (\<lambda>c. False) TypeError busy_connection) @ l \<and>
    filter (\<lambda>x. x = EmitError ClosedState \<or> (\<exists>c. x = CallResult c ClosedState)) l =
      [CallResult 7 ClosedState, EmitError ClosedState]"
proof -
  let ?t = "handleFatalError (\<lambda>c. c \<noteq> 8) (\<lambda>c. False) TypeError busy_connection"
  let ?run = "conn_run latin1_codec (\<lambda>c. c \<noteq> 8) (\<lambda>c. False) (\<lambda>c p s. (Continues, s)) (Suc 0)
      [AddCommand 7, Close, AddCommand 8, ConnectTimeout] ?t"
  have "case ?run of Some (Inr u) \<Rightarrow> True | _ \<Rightarrow> False"
    by code_simp
  then have "\<exists>e. ?run \<noteq> Some (Inl e)" "\<And>e. ?run \<noteq> Some (Inl e)"
    by (auto split: option.splits sum.splits simp del: conn_run.simps)
  then show ?thesis
    using fatal_error_is_final [OF busy_connection(1) refl, where cd = latin1_codec and
      onResult = "\<lambda>c. c \<noteq> 8" and isHandshake = "\<lambda>c. False" and e = TypeError and
      execute = "\<lambda>c p s. (Continues, s)" and fuel = 0 and
      ops = "[AddCommand 7, Close, AddCommand 8, ConnectTimeout]"]
    by (elim disjE) (auto simp del: conn_run.simps)
qed


text \<open>A command whose callback adds two more while it runs.\<close>

definition demo_handler :: "nat command_handler" where
  "demo_handler c packet s = (if c = 5 then ([DoAdd 7, DoAdd 8], Finished) else ([], Continues))"


text \<open>
  Claim C12. Handling a packet ends, with as much fuel as the commands there are weigh, when a
  command that finishes adds only commands that weigh less than it did, all together. With the
  weight 1 for every command: when the handlers that finish add no command (one more turn for each
  command of the queue). Handlers that add and wait, or throw, are free to add what they like.
\<close>

theorem handlePacket_terminates:
  fixes handler :: "'c command_handler" and weight :: "'c \<Rightarrow> nat"
  assumes "\<And>c packet s as. handler c packet s = (as, Finished) \<Longrightarrow>
    sum_list (map weight (concat (map action_adds as))) < weight c"
    and "conn_inv s"
    and "(case cn_command s of None \<Rightarrow> 0 | Some c \<Rightarrow> weight c) + sum_list (map weight (queued s)) < fuel"
  shows "\<exists>r. handlePacket cd onResult isHandshake (run_handler onResult handler) fuel packet s = Some r"
  using handlePacket_returns [of handler weight s fuel cd onResult isHandshake packet] assms
  by (fastforce simp: total_weight_def)

theorem handlePacket_terminates_witness:
  "\<exists>r. handlePacket latin1_codec (\<lambda>c. True) (\<lambda>c. False) (run_handler (\<lambda>c. True) demo_handler) 6 None
      busy_connection = Some r"
proof (rule handlePacket_terminates [where weight = "\<lambda>c :: nat. if c = 5 then 3 else 1 :: nat"])
  show "conn_inv busy_connection" by (rule busy_connection)
  show "(case cn_command busy_connection of None \<Rightarrow> 0 | Some c \<Rightarrow> (if c = 5 then 3 else (1 :: nat))) +
      sum_list (map (\<lambda>c. if c = 5 then 3 else 1) (queued busy_connection)) < 6"
    by (simp add: busy_connection)
qed (auto simp: demo_handler_def action_adds_def split: if_splits)

text \<open>
  Claim C13. A command added to an idle connection that is paused is never started: the missing
  packet that stands for its start is queued with the packets, where the loop of \<open>resume\<close> takes
  it for the end of the queue. After \<open>resume\<close> the connection is running, has the command as its
  current one, has started nothing, and queues the next command behind it.
\<close>

theorem paused_command_never_starts:
  assumes "conn_ok s" and "cn_command s = None" and "\<not> cn_addCommandClosed s"
    and "ring_contents (cn_paused_packets s) = []"
  shows "\<exists>t. conn_run cd onResult isHandshake execute (Suc fuel)
        [Pause, AddCommand c, Resume, AddCommand d] s = Some (Inr t) \<and>
      cn_command t = Some c \<and> queued t = [d] \<and> \<not> cn_paused t \<and>
      ring_contents (cn_paused_packets t) = [] \<and>
      cn_log t = cn_log s @ [StreamPause, Added c, StreamResume, Added d]"
proof -
  have inv: "ring_inv (cn_paused_packets s)" "ring_inv (cn_commands s)" "ring_contents (cn_commands s) = []"
    using assms(1,2) by (auto simp: conn_ok_def conn_inv_def queued_def)
  define q where "q = snd (ring_push (cn_paused_packets s) None)"
  have q: "ring_inv q" "ring_contents q = [None]"
    using inv(1) assms(4) by (simp_all add: q_def ring_simps)
  obtain r where r: "ring_shift q = (None, r)" "ring_contents r = []"
    using ring_shift_nonempty [OF q] by (cases "ring_shift q") auto
  define u where "u = s\<lparr>cn_command := Some c, cn_paused := True, cn_paused_packets := q,
    cn_log := cn_log s @ [StreamPause, Added c]\<rparr>"
  define v where "v = u\<lparr>cn_paused := False, cn_paused_packets := r, cn_log := cn_log s @ [StreamPause, Added c, StreamResume]\<rparr>"
  define t where "t = v\<lparr>cn_commands := snd (ring_push (cn_commands s) (Some d)),
    cn_log := cn_log s @ [StreamPause, Added c, StreamResume, Added d]\<rparr>"
  have 1: "conn_apply cd onResult isHandshake execute (Suc fuel) (AddCommand c) (pause s) = Some (Inr u)"
    using assms(2,3) by (simp add: pause_def addCommand_def emit_def q_def u_def)
  have 2: "conn_apply cd onResult isHandshake execute (Suc fuel) Resume u = Some (Inr v)"
    using r by (simp add: resume_def u_def v_def emit_def)
  have 3: "conn_apply cd onResult isHandshake execute (Suc fuel) (AddCommand d) v = Some (Inr t)"
    using assms(3) by (simp add: addCommand_def t_def v_def u_def emit_def)
  have "conn_run cd onResult isHandshake execute (Suc fuel) [Pause, AddCommand c, Resume, AddCommand d] s =
      Some (Inr t)"
    using 1 2 3 by (simp del: conn_apply.simps add: conn_apply.simps(12,13))
  then show ?thesis
    using r(2) inv by (auto simp: t_def v_def u_def queued_def ring_simps)
qed

theorem paused_command_never_starts_witness:
  "\<exists>t. conn_run latin1_codec (\<lambda>c. True) (\<lambda>c. False) (\<lambda>c p s. (Finished, s)) (Suc 0)
        [Pause, AddCommand 5, Resume, AddCommand 6] new_connection = Some (Inr t) \<and>
      cn_command t = Some (5 :: nat) \<and> queued t = [6] \<and>
      cn_log t = [StreamPause, Added 5, StreamResume, Added 6]"
proof -
  have new: "cn_command new_connection = (None :: nat option)"
    "\<not> cn_addCommandClosed (new_connection :: nat connection)"
    "ring_contents (cn_paused_packets (new_connection :: nat connection)) = []"
    "cn_log (new_connection :: nat connection) = []"
    by (simp_all add: new_connection_def rq.contents_empty)
  show ?thesis
    using paused_command_never_starts [OF conn_ok_new(1) new(1-3), unfolded new(4), where cd = latin1_codec and
      onResult = "\<lambda>c. True" and isHandshake = "\<lambda>c. False" and execute = "\<lambda>c p s. (Finished, s)" and
      fuel = 0 and c = "5 :: nat" and d = 6] by (auto simp del: conn_run.simps)
qed

text \<open>
  A packet kept while the connection is paused is a clone, and \<open>clone\<close> forgets how many
  frames a large packet was joined from: after \<open>resume\<close> the sequence id has advanced by one instead
  of by the number of frames, so the next packet of the server is reported out of order.
\<close>

theorem paused_large_packet_miscounted:
  assumes "conn_ok s" and "cn_command s = Some c" and "cn_fatalError s = None" and "\<not> cn_paused s"
    and "cn_listening s" and "ring_contents (cn_paused_packets s) = []"
    and "\<And>packet u. execute c packet u = (Continues, u)"
  shows "\<exists>t u. conn_run cd onResult isHandshake execute (Suc fuel) [Packet p] s = Some (Inr t) \<and>
      cn_sequenceId t = (cn_sequenceId s + numPackets p) mod 256 \<and>
      conn_run cd onResult isHandshake execute (Suc fuel) [Pause, Packet p, Resume] s = Some (Inr u) \<and>
      cn_sequenceId u = (cn_sequenceId s + 1) mod 256"
proof -
  have inv: "ring_inv (cn_paused_packets s)"
    using assms(1) by (simp add: conn_ok_def conn_inv_def)
  define q where "q = snd (ring_push (cn_paused_packets s) (Some (clone p)))"
  have q: "ring_inv q" "ring_contents q = [Some (clone p)]"
    using inv assms(6) by (simp_all add: q_def ring_simps)
  obtain r where r: "ring_shift q = (Some (clone p), r)" "ring_inv r" "ring_contents r = []"
    using ring_shift_nonempty [OF q] ring_inv_shift [OF q(1)] by (cases "ring_shift q") auto
  have handle: "handlePacket cd onResult isHandshake execute (Suc fuel) (Some x) v =
      Some (Inr (emit (Execute c (Some x)) (checkSequence (Some x) v)))"
    if "cn_command v = Some c" "cn_fatalError v = None" "\<not> cn_paused v" for x v
    using that assms(7) by (simp add: checkSequence_order)
  have seq: "cn_sequenceId (emit e (checkSequence (Some x) v)) = (cn_sequenceId v + numPackets x) mod 256" for e x v
    by (simp add: checkSequence_def emit_def bumpSequenceId_def Let_def)
  define s1 where "s1 = (pause s)\<lparr>cn_paused_packets := q\<rparr>"
  have s1: "cn_paused_packets s1 = q"
    by (simp add: s1_def)
  define s2 where "s2 = s1\<lparr>cn_paused := False, cn_paused_packets := r\<rparr>"
  have s2: "cn_command s2 = Some c" "cn_fatalError s2 = None" "\<not> cn_paused s2" "cn_sequenceId s2 = cn_sequenceId s"
    using assms(2,3) by (simp_all add: s2_def s1_def pause_def emit_def)
  define s3 where "s3 = emit (Execute c (Some (clone p))) (checkSequence (Some (clone p)) s2)"
  have s3: "\<not> cn_paused s3" "cn_paused_packets s3 = r"
    using s2(3) by (simp_all add: s3_def emit_def checkSequence_def Let_def s2_def)
  have 1: "conn_apply cd onResult isHandshake execute (Suc fuel) (Packet p) (pause s) = Some (Inr s1)"
    using assms(5) by (simp add: pause_def emit_def q_def s1_def)
  have "conn_apply cd onResult isHandshake execute (Suc fuel) Resume s1 =
      resume_loop cd onResult isHandshake execute (Suc fuel) (Suc (Suc 0)) (s1\<lparr>cn_paused := False\<rparr>)"
    using q by (simp add: resume_def s1_def ring_length_contents del: resume_loop.simps)
  also have "\<dots> = Some (Inr (emit StreamResume (s3\<lparr>cn_paused_packets := r\<rparr>)))"
    using handle [OF s2(1-3), of "clone p"] r(1) s3 ring_shift_empty [OF r(2,3)] s1
    by (simp add: s2_def [symmetric] s3_def [symmetric] Let_def del: handlePacket.simps)
  finally have 2: "conn_apply cd onResult isHandshake execute (Suc fuel) Resume s1 =
      Some (Inr (emit StreamResume (s3\<lparr>cn_paused_packets := r\<rparr>)))" .
  have "cn_sequenceId (emit StreamResume (s3\<lparr>cn_paused_packets := r\<rparr>)) = (cn_sequenceId s + 1) mod 256"
    using seq [of _ "clone p" s2] s2(4) by (simp add: s3_def emit_def clone_def new_packet_def)
  then show ?thesis
    using 1 2 handle [OF assms(2-4), of p] assms(5) seq [of _ p s]
    by (simp del: conn_apply.simps handlePacket.simps add: conn_apply.simps(2,12))
qed

theorem paused_large_packet_miscounted_witness:
  "\<exists>t u. conn_run latin1_codec (\<lambda>c. True) (\<lambda>c. False) (\<lambda>c p s. (Continues, s)) (Suc 0)
        [Packet (mock_packet\<lparr>numPackets := 3\<rparr>)] (new_connection\<lparr>cn_command := Some (5 :: nat)\<rparr>) = Some (Inr t) \<and>
      cn_sequenceId t = 3 \<and>
      conn_run latin1_codec (\<lambda>c. True) (\<lambda>c. False) (\<lambda>c p s. (Continues, s)) (Suc 0)
        [Pause, Packet (mock_packet\<lparr>numPackets := 3\<rparr>), Resume] (new_connection\<lparr>cn_command := Some (5 :: nat)\<rparr>) = Some (Inr u) \<and>
      cn_sequenceId u = 1"
proof -
  let ?s = "new_connection\<lparr>cn_command := Some (5 :: nat)\<rparr>"
  have s: "conn_ok ?s" "cn_command ?s = Some 5" "cn_fatalError ?s = None" "\<not> cn_paused ?s" "cn_listening ?s"
    "ring_contents (cn_paused_packets ?s) = []" "cn_sequenceId ?s = 0"
    by (simp_all add: conn_ok_def conn_inv_def new_connection_def queued_def rq.inv_empty rq.contents_empty)
  show ?thesis
    using paused_large_packet_miscounted [OF s(1-6), where cd = latin1_codec and fuel = 0 and
      onResult = "\<lambda>c. True" and isHandshake = "\<lambda>c. False" and execute = "\<lambda>c p s. (Continues, s)" and
      p = "mock_packet\<lparr>numPackets := 3\<rparr>"] s(7)
    by (simp del: conn_run.simps)
qed

end
