(* ===== verification/Pool.thy ===== *)
theory Pool
  imports RingQueue "HOL-Library.Multiset"
begin

text \<open>
  \<open>src/lib/base/pool.js\<close> and \<open>src/lib/pool_connection.js\<close>: the connections of a pool, the free
  ones, the callers that wait. Connections are numbered in the order they are created; the
  properties the pool keeps on them (\<open>_pool\<close>, \<open>_released\<close>, \<open>lastActiveTime\<close>) are functions of the
  number. Callbacks are values; \<open>process.nextTick\<close> is the list \<open>pl_ticks\<close>, run in order, and what
  a callback does are the events that follow. Connecting and resetting are answered by events.
\<close>

section \<open>Queues as lists\<close>

definition wf :: "'a ring_queue \<Rightarrow> bool" where
  "wf q \<longleftrightarrow> ring_inv q \<and> None \<notin> set (ring_contents q)"

definition items :: "'a ring_queue \<Rightarrow> 'a list" where
  "items q = map the (ring_contents q)"

lemma wf_contents: "wf q \<Longrightarrow> ring_contents q = map Some (items q)"
  unfolding wf_def items_def by (auto intro!: nth_equalityI simp: in_set_conv_nth)

lemma wf_items_iff: "wf q \<and> items q = xs \<longleftrightarrow> ring_rel q (map Some xs)"
proof
  assume "ring_rel q (map Some xs)"
  then show "wf q \<and> items q = xs"
    using ring_relI [of q "map Some xs"] by (auto simp: wf_def items_def comp_def)
next
  assume "wf q \<and> items q = xs"
  then show "ring_rel q (map Some xs)"
    using wf_contents [of q] ring_invD [of q] by (simp add: wf_def)
qed

lemma wf_rel: "wf q \<Longrightarrow> ring_rel q (map Some (items q))"
  using wf_items_iff by blast

lemma items_new [simp]: "wf ring_new" "items ring_new = []"
  using wf_items_iff [of ring_new "[]"] ring_rel_new by auto

lemma items_push [simp]:
  assumes "wf q"
  shows "wf (snd (ring_push q (Some x)))" "items (snd (ring_push q (Some x))) = items q @ [x]"
  using wf_items_iff [of "snd (ring_push q (Some x))" "items q @ [x]"] ring_rel_push [OF wf_rel [OF assms], of "Some x"]
  by simp_all

lemma length_items [simp]: "wf q \<Longrightarrow> ring_length q = length (items q)"
  using ring_rel_length [OF wf_rel] by simp

lemma items_shift:
  assumes "wf q" and "items q = x # xs"
  shows "fst (ring_shift q) = Some x" "wf (snd (ring_shift q))" "items (snd (ring_shift q)) = xs"
  using ring_rel_shift [of q "Some x" "map Some xs"] wf_rel [OF assms(1)] assms(2)
    wf_items_iff [of "snd (ring_shift q)" xs] by auto

lemma items_pop:
  assumes "wf q" and "items q = xs @ [x]"
  shows "fst (ring_pop q) = Some x" "wf (snd (ring_pop q))" "items (snd (ring_pop q)) = xs"
  using ring_rel_pop [of q "map Some xs" "Some x"] wf_rel [OF assms(1)] assms(2)
    wf_items_iff [of "snd (ring_pop q)" xs] by auto

lemma items_get:
  assumes "wf q" and "length (items q) < 2 ^ 31" and "i < length (items q)"
  shows "ring_get q (int i) = Some (items q ! i)"
  using ring_rel_peekAt [OF wf_rel [OF assms(1)], of "int i"] assms by (simp add: ring_get_def)

text \<open>\<open>spliceConnection\<close>: remove the first occurrence, with \<open>get\<close> and \<open>removeOne\<close>.\<close>

function splice_from :: "nat \<Rightarrow> nat \<Rightarrow> 'a ring_queue \<Rightarrow> 'a \<Rightarrow> 'a ring_queue" where
  "splice_from i len queue connection =
     (if i < len then
        if ring_get queue (int i) = Some connection then snd (ring_removeOne queue (int i))
        else splice_from (i + 1) len queue connection
      else queue)"
  by pat_completeness auto
termination by (relation "measure (\<lambda>(i, len, q, c). len - i)") auto

declare splice_from.simps [simp del]

definition spliceConnection :: "'a ring_queue \<Rightarrow> 'a \<Rightarrow> 'a ring_queue" where
  "spliceConnection queue connection = splice_from 0 (ring_length queue) queue connection"

lemma items_splice_from:
  assumes "wf q" and "length (items q) < 2 ^ 31"
  shows "wf (splice_from i (length (items q)) q c) \<and>
    items (splice_from i (length (items q)) q c) = take i (items q) @ remove1 c (drop i (items q))"
proof (induction "length (items q) - i" arbitrary: i)
  case 0
  then show ?case using assms(1) by (simp add: splice_from.simps)
next
  case (Suc n)
  then have i: "i < length (items q)" by simp
  show ?case
  proof (cases "items q ! i = c")
    case True
    have "ring_rel (snd (ring_removeOne q (int i))) (list_remove i (map Some (items q)))"
      using ring_removeOne_list [OF wf_rel [OF assms(1)], of "int i"] i assms(2)
      by (auto simp: list_index_def)
    then have "wf (snd (ring_removeOne q (int i))) \<and>
        items (snd (ring_removeOne q (int i))) = list_remove i (items q)"
      using wf_items_iff [of "snd (ring_removeOne q (int i))" "list_remove i (items q)"]
      by (simp add: list_remove_def take_map drop_map)
    then show ?thesis
      using True i items_get [OF assms i] Cons_nth_drop_Suc [OF i, symmetric]
      by (simp add: splice_from.simps [of i] list_remove_def)
  next
    case False
    have "drop i (items q) = items q ! i # drop (Suc i) (items q)"
      "take (Suc i) (items q) = take i (items q) @ [items q ! i]"
      using i by (simp_all add: Cons_nth_drop_Suc take_Suc_conv_app_nth)
    then show ?thesis
      using False i items_get [OF assms i] Suc.hyps(1) [of "Suc i"] Suc.hyps(2)
      by (simp add: splice_from.simps [of i])
  qed
qed

lemma items_splice [simp]:
  assumes "wf q" and "length (items q) < 2 ^ 31"
  shows "wf (spliceConnection q c)" "items (spliceConnection q c) = remove1 c (items q)"
  using items_splice_from [OF assms, of 0 c] assms(1) by (simp_all add: spliceConnection_def)

section \<open>State\<close>

record pool_config =
  waitForConnections :: bool
  connectionLimit :: nat
  maxIdle :: nat
  idleTimeout :: nat
  queueLimit :: nat
  resetOnRelease :: bool
  gracefulEnd :: bool

datatype pool_error = PoolClosed | NoConnections | QueueLimitReached | ConnectError

text \<open>The functions handed to \<open>process.nextTick\<close>.\<close>

datatype 'cb tick =
    Give nat 'cb              \<comment> \<open>mark the connection as taken, \<open>cb(null, connection)\<close>\<close>
  | Again 'cb                 \<comment> \<open>\<open>getConnection(cb)\<close>\<close>
  | Fail 'cb pool_error       \<comment> \<open>\<open>cb(err)\<close>\<close>

datatype 'cb pool_effect =
    Answer 'cb "pool_error + nat"
  | Acquire nat | Release nat | NewConnection nat | Enqueue
  | Connect nat | SendReset nat | DestroyConnection nat | EndConnection nat | WarnEnd nat

record 'cb pool =
  pl_config :: pool_config
  pl_all :: "nat ring_queue"
  pl_free :: "nat ring_queue"
  pl_queue :: "'cb ring_queue"
  pl_closed :: bool
  pl_next :: nat
  pl_attached :: "nat \<Rightarrow> bool"
  pl_released :: "nat \<Rightarrow> bool"
  pl_lastActive :: "nat \<Rightarrow> nat"
  pl_connecting :: "(nat \<times> 'cb) list"
  pl_resetting :: "nat list"
  pl_ticks :: "'cb tick list"
  pl_log :: "'cb pool_effect list"

definition new_pool :: "pool_config \<Rightarrow> 'cb pool" where
  "new_pool cfg =
     \<lparr>pl_config = cfg, pl_all = ring_new, pl_free = ring_new, pl_queue = ring_new, pl_closed = False,
      pl_next = 0, pl_attached = (\<lambda>c. False), pl_released = (\<lambda>c. False), pl_lastActive = (\<lambda>c. 0),
      pl_connecting = [], pl_resetting = [], pl_ticks = [], pl_log = []\<rparr>"

definition say :: "'cb pool_effect \<Rightarrow> 'cb pool \<Rightarrow> 'cb pool" where
  "say e s = s\<lparr>pl_log := pl_log s @ [e]\<rparr>"

definition nextTick :: "'cb tick \<Rightarrow> 'cb pool \<Rightarrow> 'cb pool" where
  "nextTick t s = s\<lparr>pl_ticks := pl_ticks s @ [t]\<rparr>"

section \<open>Taking a connection\<close>

text \<open>\<open>new PoolConnection(pool, ...)\<close>, added to the pool and connecting.\<close>

definition create_conn :: "nat \<Rightarrow> 'cb \<Rightarrow> 'cb pool \<Rightarrow> 'cb pool" where
  "create_conn now cb s =
     (let c = pl_next s in
      say (Connect c) (s\<lparr>pl_next := c + 1, pl_attached := (pl_attached s)(c := True),
         pl_released := (pl_released s)(c := False), pl_lastActive := (pl_lastActive s)(c := now),
         pl_all := snd (ring_push (pl_all s) (Some c)), pl_connecting := pl_connecting s @ [(c, cb)]\<rparr>))"

definition getConnection :: "nat \<Rightarrow> 'cb \<Rightarrow> 'cb pool \<Rightarrow> 'cb pool" where
  "getConnection now cb s =
     (let cfg = pl_config s in
      if pl_closed s then nextTick (Fail cb PoolClosed) s
      else if ring_length (pl_free s) > 0 then
        (case ring_pop (pl_free s) of
           (Some c, q) \<Rightarrow> nextTick (Give c cb) (say (Acquire c) (s\<lparr>pl_free := q\<rparr>))
         | (None, q) \<Rightarrow> s\<lparr>pl_free := q\<rparr>)
      else if connectionLimit cfg = 0 \<or> ring_length (pl_all s) < connectionLimit cfg then create_conn now cb s
      else if \<not> waitForConnections cfg then nextTick (Fail cb NoConnections) s
      else if queueLimit cfg \<noteq> 0 \<and> ring_length (pl_queue s) \<ge> queueLimit cfg
      then say (Answer cb (Inl QueueLimitReached)) s
      else (say Enqueue s)\<lparr>pl_queue := snd (ring_push (pl_queue s) (Some cb))\<rparr>)"

text \<open>The callback of \<open>connection.connect\<close>.\<close>

definition connectReply :: "nat \<Rightarrow> bool \<Rightarrow> 'cb pool \<Rightarrow> 'cb pool" where
  "connectReply c failed s =
     (case map_of (pl_connecting s) c of
        None \<Rightarrow> s
      | Some cb \<Rightarrow>
          let s1 = s\<lparr>pl_connecting := filter (\<lambda>p. fst p \<noteq> c) (pl_connecting s)\<rparr> in
          if pl_closed s1 then say (Answer cb (Inl PoolClosed)) s1
          else if failed then say (Answer cb (Inl ConnectError)) s1
          else say (Answer cb (Inr c)) (say (Acquire c) (say (NewConnection c) s1)))"

section \<open>Giving it back\<close>

definition wake_next :: "'cb pool \<Rightarrow> 'cb pool" where
  "wake_next s =
     (if ring_length (pl_queue s) \<noteq> 0 then
        (case ring_shift (pl_queue s) of
           (Some cb, q) \<Rightarrow> nextTick (Again cb) (s\<lparr>pl_queue := q\<rparr>)
         | (None, q) \<Rightarrow> s\<lparr>pl_queue := q\<rparr>)
      else s)"

definition handleSuccessfulRelease :: "nat \<Rightarrow> 'cb pool \<Rightarrow> 'cb pool" where
  "handleSuccessfulRelease c s =
     (if ring_length (pl_queue s) \<noteq> 0 then
        (case ring_shift (pl_queue s) of
           (Some cb, q) \<Rightarrow> nextTick (Give c cb) (s\<lparr>pl_queue := q\<rparr>)
         | (None, q) \<Rightarrow> s\<lparr>pl_queue := q\<rparr>)
      else say (Release c) (s\<lparr>pl_free := snd (ring_push (pl_free s) (Some c))\<rparr>))"

definition releaseConnection :: "nat \<Rightarrow> 'cb pool \<Rightarrow> 'cb pool" where
  "releaseConnection c s =
     (if \<not> pl_attached s c then wake_next s
      else if resetOnRelease (pl_config s)
      then say (SendReset c) (s\<lparr>pl_resetting := pl_resetting s @ [c]\<rparr>)
      else handleSuccessfulRelease c s)"

definition removeConnection :: "nat \<Rightarrow> 'cb pool \<Rightarrow> 'cb pool" where
  "removeConnection c s =
     releaseConnection c
       (s\<lparr>pl_all := spliceConnection (pl_all s) c, pl_free := spliceConnection (pl_free s) c\<rparr>)"

text \<open>The methods of \<open>PoolConnection\<close>.\<close>

definition removeFromPool :: "nat \<Rightarrow> 'cb pool \<Rightarrow> 'cb pool" where
  "removeFromPool c s =
     (if \<not> pl_attached s c \<or> pl_closed s then s
      else removeConnection c (s\<lparr>pl_attached := (pl_attached s)(c := False)\<rparr>))"

definition release :: "nat \<Rightarrow> nat \<Rightarrow> 'cb pool \<Rightarrow> 'cb pool" where
  "release now c s =
     (if pl_released s c then s
      else if \<not> pl_attached s c \<or> pl_closed s then s
      else releaseConnection c (s\<lparr>pl_released := (pl_released s)(c := True),
                                  pl_lastActive := (pl_lastActive s)(c := now)\<rparr>))"

definition destroy :: "nat \<Rightarrow> 'cb pool \<Rightarrow> 'cb pool" where
  "destroy c s = say (DestroyConnection c) (removeFromPool c s)"

definition pool_conn_end :: "nat \<Rightarrow> nat \<Rightarrow> 'cb pool \<Rightarrow> 'cb pool" where
  "pool_conn_end now c s =
     (if gracefulEnd (pl_config s) then say (EndConnection c) (removeFromPool c s)
      else release now c (say (WarnEnd c) s))"

text \<open>The callback of \<open>connection.reset\<close> in \<open>releaseConnection\<close>.\<close>

definition resetReply :: "nat \<Rightarrow> bool \<Rightarrow> 'cb pool \<Rightarrow> 'cb pool" where
  "resetReply c failed s =
     (if c \<notin> set (pl_resetting s) then s
      else
        let s1 = s\<lparr>pl_resetting := remove1 c (pl_resetting s)\<rparr> in
        if failed then
          wake_next (destroy c (s1\<lparr>pl_attached := (pl_attached s1)(c := False),
                                   pl_all := spliceConnection (pl_all s1) c\<rparr>))
        else handleSuccessfulRelease c s1)"

text \<open>\<open>end\<close>: the waiting callers are told, every connection is sent a quit command.\<close>

definition pool_end :: "'cb pool \<Rightarrow> 'cb pool" where
  "pool_end s =
     (let (cbs, q) = drain ring_shift (Suc (ring_length (pl_queue s))) (pl_queue s);
          s1 = s\<lparr>pl_closed := True, pl_queue := q,
                 pl_ticks := pl_ticks s @ map (\<lambda>cb. Fail cb PoolClosed) cbs\<rparr>
      in s1\<lparr>pl_log := pl_log s1 @
          map (\<lambda>i. EndConnection (the (ring_get (pl_all s1) (int i)))) [0..<ring_length (pl_all s1)]\<rparr>)"

text \<open>\<open>process.nextTick\<close>: the first function in line.\<close>

definition run_tick :: "nat \<Rightarrow> 'cb pool \<Rightarrow> 'cb pool" where
  "run_tick now s =
     (case pl_ticks s of
        [] \<Rightarrow> s
      | t # ts \<Rightarrow>
          let s1 = s\<lparr>pl_ticks := ts\<rparr> in
          (case t of
             Give c cb \<Rightarrow> say (Answer cb (Inr c)) (s1\<lparr>pl_released := (pl_released s1)(c := False)\<rparr>)
           | Again cb \<Rightarrow> getConnection now cb s1
           | Fail cb e \<Rightarrow> say (Answer cb (Inl e)) s1))"

text \<open>
  The timer job \<open>_removeIdleTimeoutConnections\<close>: a loop that ends the first free connection while
  there are too many or it is idle for too long. \<open>None\<close> is a loop that has not ended within the fuel.
\<close>

fun removeIdle :: "nat \<Rightarrow> nat \<Rightarrow> 'cb pool \<Rightarrow> 'cb pool option" where
  "removeIdle 0 now s = None"
| "removeIdle (Suc fuel) now s =
     (let cfg = pl_config s in
      if ring_length (pl_free s) > maxIdle cfg \<or>
         (ring_length (pl_free s) > 0 \<and>
          now - pl_lastActive s (the (ring_get (pl_free s) 0)) > idleTimeout cfg)
      then removeIdle fuel now
             (if gracefulEnd cfg then pool_conn_end now (the (ring_get (pl_free s) 0)) s
              else destroy (the (ring_get (pl_free s) 0)) s)
      else Some s)"

text \<open>\<open>isReadOnlyError\<close>, and what \<open>query\<close> and \<open>execute\<close> do with the connection when the command ends.\<close>

definition isReadOnlyError :: "nat option \<Rightarrow> bool" where
  "isReadOnlyError errno \<longleftrightarrow> errno = Some 1290 \<or> errno = Some 1792 \<or> errno = Some 1836"

definition query_ended :: "nat \<Rightarrow> nat option \<Rightarrow> nat \<Rightarrow> 'cb pool \<Rightarrow> 'cb pool" where
  "query_ended now errno c s = (if isReadOnlyError errno then destroy c s else release now c s)"

definition execute_ended :: "nat \<Rightarrow> nat option \<Rightarrow> nat \<Rightarrow> 'cb pool \<Rightarrow> 'cb pool" where
  "execute_ended now errno c s = release now c (if isReadOnlyError errno then destroy c s else s)"

section \<open>Events\<close>

text \<open>
  What can happen to a pool. A client uses a connection only once it has connected: the events on
  a connection that does not exist or is still connecting are the listeners of its \<open>end\<close> and
  \<open>error\<close> events (\<open>Lost\<close>) only.
\<close>

datatype 'cb pool_event =
    GetConnection 'cb | ConnectReply nat bool | ReleaseConn nat | DestroyConn nat | EndConn nat
  | Lost nat | ResetReply nat bool | Tick | QueryEnded nat "nat option" | ExecuteEnded nat "nat option" | EndPool

definition in_use :: "nat \<Rightarrow> 'cb pool \<Rightarrow> bool" where
  "in_use c s \<longleftrightarrow> c < pl_next s \<and> c \<notin> fst ` set (pl_connecting s)"

fun pool_apply :: "nat \<Rightarrow> 'cb pool_event \<Rightarrow> 'cb pool \<Rightarrow> 'cb pool" where
  "pool_apply now (GetConnection cb) s = getConnection now cb s"
| "pool_apply now (ConnectReply c failed) s = connectReply c failed s"
| "pool_apply now (ReleaseConn c) s = (if in_use c s then release now c s else s)"
| "pool_apply now (DestroyConn c) s = (if in_use c s then destroy c s else s)"
| "pool_apply now (EndConn c) s = (if in_use c s then pool_conn_end now c s else s)"
| "pool_apply now (Lost c) s = removeFromPool c s"
| "pool_apply now (ResetReply c failed) s = resetReply c failed s"
| "pool_apply now Tick s = run_tick now s"
| "pool_apply now (QueryEnded c errno) s = (if in_use c s then query_ended now errno c s else s)"
| "pool_apply now (ExecuteEnded c errno) s = (if in_use c s then execute_ended now errno c s else s)"
| "pool_apply now EndPool s = pool_end s"

text \<open>A run: events with the time of the clock.\<close>

definition pool_run :: "(nat \<times> 'cb pool_event) list \<Rightarrow> 'cb pool \<Rightarrow> 'cb pool" where
  "pool_run evs s = fold (\<lambda>(now, e). pool_apply now e) evs s"

section \<open>Invariant\<close>

definition gives :: "'cb tick list \<Rightarrow> nat list" where
  "gives ts = List.map_filter (\<lambda>t. case t of Give c cb \<Rightarrow> Some c | _ \<Rightarrow> None) ts"

definition agains :: "'cb tick list \<Rightarrow> 'cb list" where
  "agains ts = List.map_filter (\<lambda>t. case t of Again cb \<Rightarrow> Some cb | _ \<Rightarrow> None) ts"

lemma tick_simps [simp]:
  "gives [] = []" "gives (ts @ us) = gives ts @ gives us"
  "gives (t # ts) = (case t of Give c cb \<Rightarrow> [c] | _ \<Rightarrow> []) @ gives ts"
  "agains [] = []" "agains (ts @ us) = agains ts @ agains us"
  "agains (t # ts) = (case t of Again cb \<Rightarrow> [cb] | _ \<Rightarrow> []) @ agains ts"
  "gives (map (\<lambda>cb. Fail cb e) cbs) = []" "agains (map (\<lambda>cb. Fail cb e) cbs) = []"
  by (auto simp: gives_def agains_def List.map_filter_def split: tick.split)

text \<open>
  Connections that no client holds: free, about to be given, or being reset. Such a connection is
  marked as released, so that a client's \<open>release\<close> is without effect.
\<close>

definition parked :: "'cb pool \<Rightarrow> nat list" where
  "parked s = items (pl_free s) @ gives (pl_ticks s) @ pl_resetting s"

definition pool_wf :: "'cb pool \<Rightarrow> bool" where
  "pool_wf s \<longleftrightarrow> wf (pl_all s) \<and> wf (pl_free s) \<and> wf (pl_queue s) \<and>
     distinct (parked s) \<and> (\<forall>c\<in>set (parked s). pl_released s c \<and> c \<notin> fst ` set (pl_connecting s)) \<and>
     (\<forall>c\<in>set (parked s) \<union> fst ` set (pl_connecting s) \<union> set (items (pl_all s)). c < pl_next s) \<and>
     distinct (items (pl_all s)) \<and> (\<forall>c. pl_attached s c \<longleftrightarrow> c \<in> set (items (pl_all s))) \<and>
     distinct (map fst (pl_connecting s)) \<and> (\<forall>c\<in>fst ` set (pl_connecting s). \<not> pl_released s c) \<and>
     pl_next s < 2 ^ 31"

text \<open>
  The limits, and no lost wake-up: callers wait only when no connection is free, and then the
  pool is at its limit but for the connections that callers already woken are about to create.
\<close>

definition pool_limits :: "'cb pool \<Rightarrow> bool" where
  "pool_limits s \<longleftrightarrow>
     (connectionLimit (pl_config s) = 0 \<or> length (items (pl_all s)) \<le> connectionLimit (pl_config s)) \<and>
     (queueLimit (pl_config s) = 0 \<or> length (items (pl_queue s)) \<le> queueLimit (pl_config s)) \<and>
     (items (pl_queue s) \<noteq> [] \<longrightarrow> items (pl_free s) = [] \<and> \<not> pl_closed s \<and>
        connectionLimit (pl_config s) \<noteq> 0 \<and>
        connectionLimit (pl_config s) \<le> length (items (pl_all s)) + length (agains (pl_ticks s)))"

lemma pool_wf_new: "pool_wf (new_pool cfg)" "pool_limits (new_pool cfg)"
  by (simp_all add: new_pool_def pool_wf_def pool_limits_def parked_def)

lemma say_simps [simp]:
  "pool_wf (say e s) = pool_wf s" "pool_limits (say e s) = pool_limits s"
  "parked (say e s) = parked s" "pl_next (say e s) = pl_next s" "pl_config (say e s) = pl_config s"
  "pl_all (say e s) = pl_all s" "pl_free (say e s) = pl_free s" "pl_queue (say e s) = pl_queue s"
  "pl_closed (say e s) = pl_closed s" "pl_attached (say e s) = pl_attached s"
  "pl_released (say e s) = pl_released s" "pl_ticks (say e s) = pl_ticks s"
  "pl_connecting (say e s) = pl_connecting s" "pl_resetting (say e s) = pl_resetting s"
  "pl_lastActive (say e s) = pl_lastActive s"
  by (simp_all add: say_def pool_wf_def pool_limits_def parked_def)

lemma say_queue [simp]:
  "pool_wf ((say e s)\<lparr>pl_queue := q\<rparr>) = pool_wf (s\<lparr>pl_queue := q\<rparr>)"
  "pool_limits ((say e s)\<lparr>pl_queue := q\<rparr>) = pool_limits (s\<lparr>pl_queue := q\<rparr>)"
  by (simp_all add: say_def pool_wf_def pool_limits_def parked_def)

lemma distinct_below: "distinct xs \<Longrightarrow> \<forall>x\<in>set xs. x < n \<Longrightarrow> length xs \<le> (n :: nat)"
  by (metis card_lessThan card_mono distinct_card finite_lessThan lessThan_iff subsetI)

lemma pool_small:
  assumes "pool_wf s"
  shows "length (items (pl_all s)) < 2 ^ 31" "length (items (pl_free s)) < 2 ^ 31"
  using assms distinct_below [of "items (pl_all s)" "pl_next s"] distinct_below [of "items (pl_free s)" "pl_next s"]
  by (auto simp: pool_wf_def parked_def)

text \<open>One step of the queue of waiting callers, whoever the first is handed to.\<close>

lemma shift_waiting:
  assumes "wf q"
  obtains "items q = []" "ring_length q = 0"
    | x xs q' where "items q = x # xs" "ring_length q \<noteq> 0" "ring_shift q = (Some x, q')" "wf q'" "items q' = xs"
proof (cases "items q")
  case Nil
  then show ?thesis using assms that(1) by simp
next
  case (Cons x xs)
  then show ?thesis
    using items_shift [OF assms Cons] assms that(2) by (cases "ring_shift q") auto
qed

lemma pop_free:
  assumes "wf q"
  obtains "items q = []" "ring_length q = 0"
    | x xs q' where "items q = xs @ [x]" "ring_length q \<noteq> 0" "ring_pop q = (Some x, q')" "wf q'" "items q' = xs"
proof (cases "items q" rule: rev_cases)
  case Nil
  then show ?thesis using assms that(1) by simp
next
  case (snoc xs x)
  then show ?thesis
    using items_pop [OF assms snoc] assms that(2) by (cases "ring_pop q") auto
qed

definition pool_inv :: "'cb pool \<Rightarrow> bool" where
  "pool_inv s \<longleftrightarrow> pool_wf s \<and> pool_limits s"

lemma wake_next_inv:
  assumes "pool_wf s"
  shows "pool_wf (wake_next s)" "parked (wake_next s) = parked s" "pl_next (wake_next s) = pl_next s"
proof -
  have "wf (pl_queue s)" using assms by (simp add: pool_wf_def)
  then show "pool_wf (wake_next s)" "parked (wake_next s) = parked s" "pl_next (wake_next s) = pl_next s"
    using assms by (cases rule: shift_waiting; auto simp: wake_next_def nextTick_def pool_wf_def parked_def)+
qed

text \<open>Waking a caller makes up for one connection less.\<close>

definition short_of_one :: "'cb pool \<Rightarrow> bool" where
  "short_of_one s \<longleftrightarrow>
     (connectionLimit (pl_config s) = 0 \<or> length (items (pl_all s)) \<le> connectionLimit (pl_config s)) \<and>
     (queueLimit (pl_config s) = 0 \<or> length (items (pl_queue s)) \<le> queueLimit (pl_config s)) \<and>
     (items (pl_queue s) \<noteq> [] \<longrightarrow> items (pl_free s) = [] \<and> \<not> pl_closed s \<and>
        connectionLimit (pl_config s) \<noteq> 0 \<and>
        connectionLimit (pl_config s) \<le> length (items (pl_all s)) + length (agains (pl_ticks s)) + 1)"

lemma wake_next_limits:
  assumes "wf (pl_queue s)" and "short_of_one s"
  shows "pool_limits (wake_next s)"
  using assms(1)
  by (cases rule: shift_waiting)
     (use assms(2) in \<open>auto simp: wake_next_def nextTick_def pool_limits_def short_of_one_def\<close>)

lemma limits_short: "pool_limits s \<Longrightarrow> short_of_one s"
  by (auto simp: pool_limits_def short_of_one_def)

lemma successful_inv:
  assumes "pool_inv s" and "c \<notin> set (parked s)" and "pl_released s c" and "c < pl_next s"
    and "c \<notin> fst ` set (pl_connecting s)"
  shows "pool_inv (handleSuccessfulRelease c s)"
proof -
  have "wf (pl_queue s)" using assms by (simp add: pool_inv_def pool_wf_def)
  then show ?thesis
    by (cases rule: shift_waiting)
      (use assms in \<open>auto simp: handleSuccessfulRelease_def nextTick_def pool_inv_def pool_wf_def pool_limits_def parked_def\<close>)
qed

lemma release_inv:
  assumes "pool_inv s" and "c \<notin> fst ` set (pl_connecting s)"
  shows "pool_inv (release now c s)"
proof (cases "pl_released s c \<or> \<not> pl_attached s c \<or> pl_closed s")
  case True
  then show ?thesis using assms(1) by (auto simp: release_def)
next
  case False
  let ?s = "s\<lparr>pl_released := (pl_released s)(c := True), pl_lastActive := (pl_lastActive s)(c := now)\<rparr>"
  have c: "c \<notin> set (parked s)" "c < pl_next s"
    using False assms(1) by (auto simp: pool_inv_def pool_wf_def)
  have marks: "\<forall>d\<in>fst ` set (pl_connecting s). \<not> ((pl_released s)(c := True)) d"
    "\<forall>d\<in>set (parked s). ((pl_released s)(c := True)) d \<and> d \<notin> fst ` set (pl_connecting s)"
    using assms c(1) by (auto simp: pool_inv_def pool_wf_def)
  have park: "parked ?s = parked s"
    by (simp add: parked_def)
  have wf: "pool_wf ?s"
    using assms(1) marks unfolding pool_inv_def pool_wf_def park by simp
  have inv: "pool_inv ?s"
    using assms(1) wf by (simp add: pool_inv_def pool_limits_def)
  show ?thesis
  proof (cases "resetOnRelease (pl_config s)")
    case True
    have "parked (?s\<lparr>pl_resetting := pl_resetting s @ [c]\<rparr>) = parked s @ [c]"
      by (simp add: parked_def)
    then have "pool_wf (?s\<lparr>pl_resetting := pl_resetting s @ [c]\<rparr>)"
      using wf c assms(2) unfolding pool_wf_def park by simp
    then have "pool_inv (?s\<lparr>pl_resetting := pl_resetting s @ [c]\<rparr>)"
      using inv by (simp add: pool_inv_def pool_limits_def)
    then show ?thesis
      using True False by (simp add: release_def releaseConnection_def pool_inv_def)
  next
    case no: False
    then show ?thesis
      using False inv c assms(2) park successful_inv [OF inv, of c]
      by (simp add: release_def releaseConnection_def)
  qed
qed

lemma in_set_remove1_distinct: "distinct xs \<Longrightarrow> x \<in> set (remove1 y xs) \<longleftrightarrow> x \<noteq> y \<and> x \<in> set xs"
  by auto

lemma removed_wf:
  assumes "pool_wf s"
  shows "pool_wf (s\<lparr>pl_attached := (pl_attached s)(c := False), pl_all := spliceConnection (pl_all s) c,
    pl_free := spliceConnection (pl_free s) c\<rparr>)"
  using assms pool_small [OF assms]
  by (auto simp: pool_wf_def parked_def distinct_remove1 in_set_remove1_distinct dest: notin_set_remove1)

lemma length_remove1_ge: "length xs \<le> Suc (length (remove1 x xs))"
  by (induction xs) auto

lemma removed_short:
  assumes "pool_wf s" and "pool_limits s"
  shows "short_of_one (s\<lparr>pl_attached := (pl_attached s)(c := False), pl_all := spliceConnection (pl_all s) c,
    pl_free := spliceConnection (pl_free s) c\<rparr>)"
proof -
  have "wf (pl_all s)" "wf (pl_free s)"
    using assms(1) by (simp_all add: pool_wf_def)
  then show ?thesis
    using assms(2) pool_small [OF assms(1)] length_remove1_ge [of "items (pl_all s)" c]
    by (auto simp: pool_limits_def short_of_one_def length_remove1 split: if_splits)
qed

lemma unlisted_wf:
  assumes "pool_wf s" and "c \<notin> set (items (pl_free s))"
  shows "pool_wf (s\<lparr>pl_attached := (pl_attached s)(c := False), pl_all := spliceConnection (pl_all s) c\<rparr>)"
  using assms pool_small [OF assms(1)]
  by (auto simp: pool_wf_def parked_def distinct_remove1 in_set_remove1_distinct dest: notin_set_remove1)

lemma unlisted_short:
  assumes "pool_wf s" and "pool_limits s"
  shows "short_of_one (s\<lparr>pl_attached := (pl_attached s)(c := False), pl_all := spliceConnection (pl_all s) c\<rparr>)"
proof -
  have "wf (pl_all s)"
    using assms(1) by (simp add: pool_wf_def)
  then show ?thesis
    using assms(2) pool_small [OF assms(1)] length_remove1_ge [of "items (pl_all s)" c]
    by (auto simp: pool_limits_def short_of_one_def length_remove1 split: if_splits)
qed

lemma short_say [simp]: "short_of_one (say e s) = short_of_one s"
  by (simp add: short_of_one_def)

lemma removeFromPool_inv:
  assumes "pool_inv s"
  shows "pool_inv (removeFromPool c s)"
proof (cases "\<not> pl_attached s c \<or> pl_closed s")
  case True
  then show ?thesis using assms by (simp add: removeFromPool_def)
next
  case False
  let ?s = "s\<lparr>pl_attached := (pl_attached s)(c := False), pl_all := spliceConnection (pl_all s) c,
    pl_free := spliceConnection (pl_free s) c\<rparr>"
  have "pool_wf ?s" "short_of_one ?s" "wf (pl_queue ?s)"
    using assms removed_wf [of s c] removed_short [of s c] by (simp_all add: pool_inv_def) (simp add: pool_wf_def)
  then have "pool_inv (wake_next ?s)"
    unfolding pool_inv_def using wake_next_inv(1) wake_next_limits by blast
  moreover have "removeFromPool c s = wake_next ?s"
    using False by (simp add: removeFromPool_def removeConnection_def releaseConnection_def)
  ultimately show ?thesis by simp
qed

lemma destroy_inv: "pool_inv s \<Longrightarrow> pool_inv (destroy c s)"
  using removeFromPool_inv [of s c] by (simp add: destroy_def pool_inv_def)

lemma pool_inv_say [simp]: "pool_inv (say e s) = pool_inv s"
  by (simp add: pool_inv_def)

lemma pool_conn_end_inv:
  "pool_inv s \<Longrightarrow> c \<notin> fst ` set (pl_connecting s) \<Longrightarrow> pool_inv (pool_conn_end now c s)"
  using removeFromPool_inv [of s c] release_inv [of "say (WarnEnd c) s" c now] by (simp add: pool_conn_end_def)

lemma create_conn_wf:
  assumes "pool_wf s" and "pl_next s + 1 < 2 ^ 31"
  shows "pool_wf (create_conn now cb s)"
proof -
  let ?c = "pl_next s"
  have wf: "wf (pl_all s)" "wf (pl_free s)" "wf (pl_queue s)"
    using assms(1) by (simp_all add: pool_wf_def)
  have new: "?c \<notin> set (parked s)" "?c \<notin> fst ` set (pl_connecting s)" "?c \<notin> set (items (pl_all s))"
    using assms(1) by (auto simp: pool_wf_def)
  have same: "parked (create_conn now cb s) = parked s"
    by (simp add: create_conn_def parked_def Let_def)
  have "pl_released (create_conn now cb s) c = pl_released s c" if "c \<in> set (parked s)" for c
    using that new(1) by (auto simp: create_conn_def Let_def)
  then show ?thesis
    using assms wf new unfolding pool_wf_def same
    by (auto simp: create_conn_def Let_def less_Suc_eq)
qed

lemma create_conn_limits:
  assumes "wf (pl_all s)" and "short_of_one s" and "items (pl_free s) = []"
    and "connectionLimit (pl_config s) = 0 \<or> length (items (pl_all s)) < connectionLimit (pl_config s)"
  shows "pool_limits (create_conn now cb s)"
  using assms by (auto simp: create_conn_def Let_def pool_limits_def short_of_one_def)

lemma full_limits:
  assumes "short_of_one s" and "connectionLimit (pl_config s) \<noteq> 0"
    and "\<not> length (items (pl_all s)) < connectionLimit (pl_config s)"
  shows "pool_limits s"
  using assms by (auto simp: pool_limits_def short_of_one_def)

lemma getConnection_wf_ticks:
  "pool_wf s \<Longrightarrow> pool_wf (nextTick (Fail cb e) s)" "pool_limits s \<Longrightarrow> pool_limits (nextTick (Fail cb e) s)"
  by (simp_all add: nextTick_def pool_wf_def pool_limits_def parked_def)

lemma getConnection_inv:
  assumes "pool_wf s" and "short_of_one s" and "pl_next (getConnection now cb s) < 2 ^ 31"
  shows "pool_inv (getConnection now cb s)"
proof -
  have wf: "wf (pl_all s)" "wf (pl_free s)" "wf (pl_queue s)"
    using assms(1) by (simp_all add: pool_wf_def)
  let ?lim = "connectionLimit (pl_config s)"
  show ?thesis
  proof (cases "pl_closed s")
    case True
    then have "pool_limits s"
      using assms(2) by (auto simp: pool_limits_def short_of_one_def)
    then show ?thesis
      using True assms(1) by (simp add: getConnection_def pool_inv_def getConnection_wf_ticks)
  next
    case opened: False
    from wf(2) show ?thesis
    proof (cases rule: pop_free)
      case none: 1
      consider (create) "?lim = 0 \<or> length (items (pl_all s)) < ?lim"
        | (full) "?lim \<noteq> 0" "\<not> length (items (pl_all s)) < ?lim" by blast
      then show ?thesis
      proof cases
        case create
        then have "getConnection now cb s = create_conn now cb s"
          using opened none wf by (auto simp: getConnection_def)
        moreover from this have "pl_next s + 1 < 2 ^ 31"
          using assms(3) by (simp add: create_conn_def Let_def)
        ultimately show ?thesis
          using create_conn_wf [OF assms(1)] create_conn_limits [OF wf(1) assms(2) none(1) create]
          by (simp add: pool_inv_def)
      next
        case full
        then have lim: "pool_limits s"
          using assms(2) full_limits by blast
        have eq: "getConnection now cb s =
          (if \<not> waitForConnections (pl_config s) then nextTick (Fail cb NoConnections) s
           else if queueLimit (pl_config s) \<noteq> 0 \<and> length (items (pl_queue s)) \<ge> queueLimit (pl_config s)
           then say (Answer cb (Inl QueueLimitReached)) s
           else (say Enqueue s)\<lparr>pl_queue := snd (ring_push (pl_queue s) (Some cb))\<rparr>)"
          using opened none wf full by (auto simp: getConnection_def Let_def)
        have "pool_inv (s\<lparr>pl_queue := snd (ring_push (pl_queue s) (Some cb))\<rparr>)"
          if "queueLimit (pl_config s) = 0 \<or> length (items (pl_queue s)) < queueLimit (pl_config s)"
          using that lim assms(1) wf full none opened
          by (auto simp: pool_inv_def pool_wf_def pool_limits_def parked_def)
        then show ?thesis
          unfolding eq using lim assms(1) by (auto simp: pool_inv_def getConnection_wf_ticks)
      qed
    next
      case (2 x xs q')
      then show ?thesis
        using assms opened
        by (auto simp: getConnection_def nextTick_def pool_inv_def pool_wf_def
            pool_limits_def short_of_one_def parked_def Let_def)
    qed
  qed
qed

lemma connectReply_inv:
  assumes "pool_inv s"
  shows "pool_inv (connectReply c failed s)"
proof -
  have "pool_inv (s\<lparr>pl_connecting := filter (\<lambda>p. fst p \<noteq> c) (pl_connecting s)\<rparr>)"
    using assms by (auto simp: pool_inv_def pool_wf_def pool_limits_def parked_def distinct_map_filter)
  then show ?thesis
    using assms by (auto simp: connectReply_def Let_def split: option.split)
qed

lemma resetReply_inv:
  assumes "pool_inv s"
  shows "pool_inv (resetReply c failed s)"
proof (cases "c \<in> set (pl_resetting s)")
  case True
  let ?r = "s\<lparr>pl_resetting := remove1 c (pl_resetting s)\<rparr>"
  have c: "c \<in> set (parked s)" "distinct (parked s)" "c \<notin> set (items (pl_free s))"
    using True assms by (auto simp: pool_inv_def pool_wf_def parked_def)
  have r: "pool_inv ?r" "c \<notin> set (parked ?r)" "pl_released ?r c" "c < pl_next ?r" "c \<notin> fst ` set (pl_connecting ?r)"
    using True assms by (auto simp: pool_inv_def pool_wf_def pool_limits_def parked_def dest: notin_set_remove1)
  show ?thesis
  proof (cases failed)
    case False
    then show ?thesis
      using True successful_inv [OF r] by (simp add: resetReply_def Let_def)
  next
    case failed: True
    let ?u = "?r\<lparr>pl_attached := (pl_attached ?r)(c := False), pl_all := spliceConnection (pl_all ?r) c\<rparr>"
    have u: "pool_wf ?u" "short_of_one ?u"
      using unlisted_wf [of ?r c] unlisted_short [of ?r c] r(1) c(3) by (simp_all add: pool_inv_def)
    then have "wf (pl_queue (say (DestroyConnection c) ?u))"
      by (simp add: pool_wf_def)
    then have "pool_inv (wake_next (say (DestroyConnection c) ?u))"
      unfolding pool_inv_def using u wake_next_inv(1) wake_next_limits by (metis say_simps(1) short_say)
    moreover have "resetReply c failed s = wake_next (say (DestroyConnection c) ?u)"
      using True failed by (simp add: resetReply_def Let_def destroy_def removeFromPool_def)
    ultimately show ?thesis by simp
  qed
qed (simp add: resetReply_def assms)

lemma pool_end_inv:
  assumes "pool_inv s"
  shows "pool_inv (pool_end s)"
proof -
  have wf: "wf (pl_queue s)" using assms by (simp add: pool_inv_def pool_wf_def)
  obtain cbs q where d: "drain ring_shift (Suc (ring_length (pl_queue s))) (pl_queue s) = (cbs, q)"
    by (meson surj_pair)
  have "ring_inv q" "ring_contents q = []" "cbs = items (pl_queue s)"
    using rq.drain_all [of "pl_queue s" "items (pl_queue s)" "Suc (ring_length (pl_queue s))"] wf d wf_contents [OF wf]
    by (simp_all add: wf_def [of "pl_queue s"])
  then have "wf q" "items q = []"
    by (simp_all add: wf_def items_def)
  then show ?thesis
    using assms d by (auto simp: pool_end_def Let_def pool_inv_def pool_wf_def pool_limits_def parked_def)
qed

lemma run_tick_inv:
  assumes "pool_inv s" and "pl_next (run_tick now s) < 2 ^ 31"
  shows "pool_inv (run_tick now s)"
proof (cases "pl_ticks s")
  case Nil
  then show ?thesis using assms(1) by (simp add: run_tick_def)
next
  case (Cons t ts)
  show ?thesis
  proof (cases t)
    case (Give c cb)
    then show ?thesis
      using Cons assms by (auto simp: run_tick_def pool_inv_def pool_wf_def pool_limits_def parked_def)
  next
    case (Again cb)
    have "pool_wf (s\<lparr>pl_ticks := ts\<rparr>)" "short_of_one (s\<lparr>pl_ticks := ts\<rparr>)"
      using assms(1) Cons Again by (auto simp: pool_inv_def pool_wf_def parked_def pool_limits_def short_of_one_def)
    then show ?thesis
      using Cons Again assms(2) getConnection_inv by (simp add: run_tick_def)
  next
    case (Fail cb e)
    then show ?thesis
      using Cons assms by (auto simp: run_tick_def pool_inv_def pool_wf_def pool_limits_def parked_def)
  qed
qed

lemma next_mono:
  "pl_next (wake_next s) = pl_next s" "pl_next (handleSuccessfulRelease c s) = pl_next s"
  "pl_next (releaseConnection c s) = pl_next s" "pl_next (removeFromPool c s) = pl_next s"
  "pl_next (release now c s) = pl_next s" "pl_next (destroy c s) = pl_next s"
  "pl_next (pool_conn_end now c s) = pl_next s" "pl_next (resetReply c failed s) = pl_next s"
  "pl_next (connectReply c failed s) = pl_next s" "pl_next (pool_end s) = pl_next s"
  by (simp_all add: wake_next_def handleSuccessfulRelease_def releaseConnection_def removeFromPool_def
      removeConnection_def release_def destroy_def pool_conn_end_def resetReply_def connectReply_def
      pool_end_def nextTick_def Let_def case_prod_unfold split: option.split)

lemma getConnection_next: "pl_next s \<le> pl_next (getConnection now cb s)"
  by (simp add: getConnection_def create_conn_def nextTick_def Let_def case_prod_unfold split: option.split)

lemma run_tick_next: "pl_next s \<le> pl_next (run_tick now s)"
  using getConnection_next [of "s\<lparr>pl_ticks := tl (pl_ticks s)\<rparr>"]
  by (auto simp: run_tick_def Let_def split: list.split tick.split)

lemma apply_next: "pl_next s \<le> pl_next (pool_apply now e s)"
  by (cases e) (simp_all add: next_mono getConnection_next run_tick_next query_ended_def execute_ended_def)

lemma getConnection_next_le: "pl_next (getConnection now cb s) \<le> pl_next s + 1"
  by (simp add: getConnection_def create_conn_def nextTick_def Let_def case_prod_unfold split: option.split)

lemma run_tick_next_le: "pl_next (run_tick now s) \<le> pl_next s + 1"
  using getConnection_next_le [of now _ "s\<lparr>pl_ticks := tl (pl_ticks s)\<rparr>"]
  by (auto simp: run_tick_def Let_def split: list.split tick.split)

lemma apply_next_le: "pl_next (pool_apply now e s) \<le> pl_next s + 1"
  using getConnection_next_le [of now _ s] run_tick_next_le [of now s]
  by (cases e) (simp_all add: next_mono query_ended_def execute_ended_def)

lemma apply_inv:
  assumes "pool_inv s" and "pl_next (pool_apply now e s) < 2 ^ 31"
  shows "pool_inv (pool_apply now e s)"
proof (cases e)
  case (GetConnection cb)
  then show ?thesis
    using assms getConnection_inv [of s now cb] limits_short [of s] by (simp add: pool_inv_def)
next
  case (ExecuteEnded c errno)
  then show ?thesis
    using assms release_inv [of "if isReadOnlyError errno then destroy c s else s" c now] destroy_inv [of s c]
    by (auto simp: execute_ended_def in_use_def destroy_def removeFromPool_def removeConnection_def
        releaseConnection_def wake_next_def nextTick_def case_prod_unfold split: option.splits)
qed (use assms in \<open>simp_all add: connectReply_inv release_inv destroy_inv pool_conn_end_inv
    removeFromPool_inv resetReply_inv run_tick_inv pool_end_inv query_ended_def in_use_def\<close>)

lemma run_snoc: "pool_run (evs @ [e]) s = pool_apply (fst e) (snd e) (pool_run evs s)"
  by (simp add: pool_run_def case_prod_unfold)

lemma run_next_le: "pl_next (pool_run evs (new_pool cfg)) \<le> length evs"
proof (induction evs rule: rev_induct)
  case (snoc e evs)
  then show ?case
    using apply_next_le [of "fst e" "snd e" "pool_run evs (new_pool cfg)"] by (simp add: run_snoc)
qed (simp add: pool_run_def new_pool_def)

lemma run_next_small: "length evs < 2 ^ 31 \<Longrightarrow> pl_next (pool_run evs (new_pool cfg)) < 2 ^ 31"
  using run_next_le [of evs cfg] by simp

lemma run_inv:
  assumes "pl_next (pool_run evs (new_pool cfg)) < 2 ^ 31"
  shows "pool_inv (pool_run evs (new_pool cfg))"
  using assms
proof (induction evs rule: rev_induct)
  case Nil
  then show ?case using pool_wf_new [of cfg] by (simp add: pool_run_def pool_inv_def)
next
  case (snoc e evs)
  then show ?case
    using apply_inv [of "pool_run evs (new_pool cfg)" "fst e" "snd e"]
      apply_next [of "pool_run evs (new_pool cfg)" "fst e" "snd e"] by (simp add: run_snoc)
qed

lemma config_const:
  "pl_config (wake_next s) = pl_config s" "pl_config (handleSuccessfulRelease c s) = pl_config s"
  "pl_config (releaseConnection c s) = pl_config s" "pl_config (removeFromPool c s) = pl_config s"
  "pl_config (release now c s) = pl_config s" "pl_config (destroy c s) = pl_config s"
  "pl_config (pool_conn_end now c s) = pl_config s" "pl_config (resetReply c failed s) = pl_config s"
  "pl_config (connectReply c failed s) = pl_config s" "pl_config (pool_end s) = pl_config s"
  "pl_config (getConnection now cb s) = pl_config s"
  by (simp_all add: wake_next_def handleSuccessfulRelease_def releaseConnection_def removeFromPool_def
      removeConnection_def release_def destroy_def pool_conn_end_def resetReply_def connectReply_def
      pool_end_def nextTick_def getConnection_def create_conn_def Let_def case_prod_unfold split: option.split)

lemma run_tick_config: "pl_config (run_tick now s) = pl_config s"
  by (simp add: run_tick_def config_const Let_def split: list.split tick.split)

lemma apply_config: "pl_config (pool_apply now e s) = pl_config s"
  by (cases e) (simp_all add: config_const run_tick_config query_ended_def execute_ended_def)

lemma run_config: "pl_config (pool_run evs s) = pl_config s"
  by (induction evs rule: rev_induct) (simp_all add: run_snoc apply_config, simp add: pool_run_def)

section \<open>Every caller gets one answer\<close>

definition replies :: "'cb pool_effect list \<Rightarrow> ('cb \<times> (pool_error + nat)) list" where
  "replies l = List.map_filter (\<lambda>e. case e of Answer cb r \<Rightarrow> Some (cb, r) | _ \<Rightarrow> None) l"

lemma replies_simps [simp]:
  "replies [] = []" "replies (k @ l) = replies k @ replies l"
  "replies (e # l) = (case e of Answer cb r \<Rightarrow> [(cb, r)] | _ \<Rightarrow> []) @ replies l"
  "replies (map (\<lambda>i. EndConnection (f i)) is) = []"
  by (auto simp: replies_def List.map_filter_def split: pool_effect.split)

fun tick_cb :: "'cb tick \<Rightarrow> 'cb" where
  "tick_cb (Give c cb) = cb" | "tick_cb (Again cb) = cb" | "tick_cb (Fail cb e) = cb"

text \<open>The callers the pool has heard of: answered, waiting, in line for a tick, connecting.\<close>

definition callers :: "'cb pool \<Rightarrow> 'cb multiset" where
  "callers s = mset (map fst (replies (pl_log s))) + mset (items (pl_queue s)) +
     mset (map tick_cb (pl_ticks s)) + mset (map snd (pl_connecting s))"

lemma callers_say: "callers (say e s) = callers s + mset (map fst (replies [e]))"
  by (simp add: callers_def say_def)

lemma callers_tick: "callers (nextTick t s) = callers s + {#tick_cb t#}"
  by (simp add: callers_def nextTick_def)

lemma callers_same:
  "callers (s\<lparr>pl_all := q\<rparr>) = callers s" "callers (s\<lparr>pl_free := q\<rparr>) = callers s"
  "callers (s\<lparr>pl_attached := a\<rparr>) = callers s" "callers (s\<lparr>pl_released := r\<rparr>) = callers s"
  "callers (s\<lparr>pl_lastActive := t\<rparr>) = callers s" "callers (s\<lparr>pl_resetting := z\<rparr>) = callers s"
  by (simp_all add: callers_def)

lemma callers_wake: "wf (pl_queue s) \<Longrightarrow> callers (wake_next s) = callers s"
  by (erule shift_waiting) (auto simp: wake_next_def callers_def nextTick_def)

lemma callers_successful: "wf (pl_queue s) \<Longrightarrow> callers (handleSuccessfulRelease c s) = callers s"
  by (erule shift_waiting) (auto simp: handleSuccessfulRelease_def callers_def nextTick_def say_def)

lemma callers_release: "wf (pl_queue s) \<Longrightarrow> callers (release now c s) = callers s"
  by (simp add: release_def releaseConnection_def callers_same callers_say callers_wake callers_successful)

lemma callers_remove: "wf (pl_queue s) \<Longrightarrow> callers (removeFromPool c s) = callers s"
  by (simp add: removeFromPool_def removeConnection_def releaseConnection_def callers_same callers_wake)

lemma callers_destroy: "wf (pl_queue s) \<Longrightarrow> callers (destroy c s) = callers s"
  by (simp add: destroy_def callers_say callers_remove)

lemma wf_queue_destroy: "wf (pl_queue s) \<Longrightarrow> wf (pl_queue (destroy c s))"
  by (frule shift_waiting)
     (auto simp: destroy_def removeFromPool_def removeConnection_def releaseConnection_def wake_next_def nextTick_def)

lemma callers_end: "wf (pl_queue s) \<Longrightarrow> callers (pool_conn_end now c s) = callers s"
  by (simp add: pool_conn_end_def callers_say callers_remove callers_release)

lemma callers_get:
  assumes "wf (pl_free s)" and "wf (pl_queue s)"
  shows "callers (getConnection now cb s) = callers s + {#cb#}"
  using assms(1)
proof (cases rule: pop_free)
  case 1
  then show ?thesis
    using assms by (auto simp: getConnection_def create_conn_def callers_tick callers_say Let_def)
      (auto simp: callers_def say_def)
next
  case (2 x xs q')
  then show ?thesis
    by (auto simp: getConnection_def callers_tick callers_say callers_same Let_def)
qed

lemma mset_connecting:
  "distinct (map fst ps) \<Longrightarrow> map_of ps c = Some cb \<Longrightarrow>
     mset (map snd ps) = mset (map snd (filter (\<lambda>p. fst p \<noteq> c) ps)) + {#cb#}"
proof (induction ps)
  case (Cons p ps)
  show ?case
  proof (cases "fst p = c")
    case True
    then have "c \<notin> fst ` set ps"
      using Cons.prems(1) by auto
    then have "filter (\<lambda>p. fst p \<noteq> c) ps = ps"
      by (intro filter_True) blast
    then show ?thesis using True Cons.prems by (cases p) auto
  next
    case False
    then show ?thesis using Cons by (cases p) auto
  qed
qed simp

lemma callers_connect:
  assumes "distinct (map fst (pl_connecting s))"
  shows "callers (connectReply c failed s) = callers s"
proof (cases "map_of (pl_connecting s) c")
  case (Some cb)
  have "callers s = callers (s\<lparr>pl_connecting := filter (\<lambda>p. fst p \<noteq> c) (pl_connecting s)\<rparr>) + {#cb#}"
    using mset_connecting [OF assms Some] by (simp add: callers_def)
  then show ?thesis
    using Some by (simp add: connectReply_def callers_say Let_def)
qed (simp add: connectReply_def)

lemma callers_reset: "wf (pl_queue s) \<Longrightarrow> callers (resetReply c failed s) = callers s"
  using wf_queue_destroy [of "s\<lparr>pl_resetting := remove1 c (pl_resetting s),
      pl_attached := (pl_attached s)(c := False), pl_all := spliceConnection (pl_all s) c\<rparr>" c]
  by (simp add: resetReply_def Let_def callers_wake callers_destroy callers_successful callers_same)

lemma callers_pool_end:
  assumes "wf (pl_queue s)"
  shows "callers (pool_end s) = callers s"
proof -
  obtain cbs q where d: "drain ring_shift (Suc (ring_length (pl_queue s))) (pl_queue s) = (cbs, q)"
    by (meson surj_pair)
  have q: "ring_contents q = []" "cbs = items (pl_queue s)"
    using rq.drain_all [of "pl_queue s" "items (pl_queue s)" "Suc (ring_length (pl_queue s))"] assms d
      wf_contents [OF assms] by (simp_all add: wf_def [of "pl_queue s"])
  then have "items q = []" by (simp add: items_def)
  then show ?thesis
    using d q(2) by (simp add: pool_end_def Let_def callers_def comp_def)
qed

lemma callers_run_tick:
  assumes "wf (pl_queue s)" and "wf (pl_free s)"
  shows "callers (run_tick now s) = callers s"
proof (cases "pl_ticks s")
  case (Cons t ts)
  have "callers s = callers (s\<lparr>pl_ticks := ts\<rparr>) + {#tick_cb t#}"
    using Cons by (simp add: callers_def)
  then show ?thesis
    using Cons assms callers_get [of "s\<lparr>pl_ticks := ts\<rparr>"]
    by (cases t) (simp_all add: run_tick_def Let_def callers_say callers_same)
qed (simp add: run_tick_def)

definition requests :: "(nat \<times> 'cb pool_event) list \<Rightarrow> 'cb list" where
  "requests evs = List.map_filter (\<lambda>(now, e). case e of GetConnection cb \<Rightarrow> Some cb | _ \<Rightarrow> None) evs"

lemma apply_callers:
  assumes "pool_inv s"
  shows "callers (pool_apply now e s) = callers s + mset (requests [(now, e)])"
proof -
  have wf: "wf (pl_queue s)" "wf (pl_free s)" "distinct (map fst (pl_connecting s))"
    using assms by (simp_all add: pool_inv_def pool_wf_def)
  show ?thesis
    using wf wf_queue_destroy [OF wf(1)]
    by (cases e) (simp_all add: requests_def List.map_filter_def callers_get callers_connect callers_release
        callers_destroy callers_end callers_remove callers_reset callers_run_tick callers_pool_end
        query_ended_def execute_ended_def)
qed

lemma run_callers:
  assumes "pl_next (pool_run evs (new_pool cfg)) < 2 ^ 31"
  shows "callers (pool_run evs (new_pool cfg)) = mset (requests evs)"
  using assms
proof (induction evs rule: rev_induct)
  case Nil
  then show ?case by (simp add: pool_run_def new_pool_def callers_def requests_def List.map_filter_def)
next
  case (snoc e evs)
  have "pl_next (pool_run evs (new_pool cfg)) < 2 ^ 31"
    using snoc.prems apply_next [of "pool_run evs (new_pool cfg)" "fst e" "snd e"] by (simp add: run_snoc)
  moreover have "requests (evs @ [e]) = requests evs @ requests [(fst e, snd e)]"
    by (simp add: requests_def List.map_filter_def)
  ultimately show ?case
    using snoc.IH apply_callers [OF run_inv, of evs cfg "fst e" "snd e"] by (simp add: run_snoc)
qed

section \<open>The idle job\<close>

lemma free_head:
  assumes "wf q" and "items q = c # cs" and "length (items q) < 2 ^ 31"
  shows "ring_get q 0 = Some c"
  using items_get [OF assms(1,3), of 0] assms(2) by simp

lemma removeIdle_step:
  assumes "pool_inv s" and "items (pl_free s) = c # cs" and "pl_attached s c" and "\<not> pl_closed s"
    and t_def: "t = (if gracefulEnd (pl_config s) then pool_conn_end now c s else destroy c s)"
  shows "pool_inv t" "items (pl_free t) = cs" "pl_closed t = pl_closed s" "pl_config t = pl_config s"
    "pl_attached t = (pl_attached s)(c := False)" "pl_lastActive t = pl_lastActive s"
proof -
  have con: "c \<notin> fst ` set (pl_connecting s)" and wf: "wf (pl_queue s)" "wf (pl_free s)"
    using assms(1,2) by (auto simp: pool_inv_def pool_wf_def parked_def)
  show "pool_inv t"
    using assms(1) con destroy_inv [of s c] pool_conn_end_inv [of s c now] by (simp add: t_def)
  have small: "length (items (pl_free s)) < 2 ^ 31"
    using pool_small(2) [of s] assms(1) by (simp add: pool_inv_def)
  have "pl_free (wake_next u) = pl_free u \<and> pl_closed (wake_next u) = pl_closed u \<and>
      pl_attached (wake_next u) = pl_attached u \<and> pl_lastActive (wake_next u) = pl_lastActive u \<and>
      pl_config (wake_next u) = pl_config u" for u :: "'a pool"
    by (simp add: wake_next_def nextTick_def case_prod_unfold split: option.split)
  then show "items (pl_free t) = cs" "pl_closed t = pl_closed s" "pl_config t = pl_config s"
    "pl_attached t = (pl_attached s)(c := False)" "pl_lastActive t = pl_lastActive s"
    using assms(2-4) wf small
    by (simp_all add: t_def pool_conn_end_def destroy_def removeFromPool_def removeConnection_def
        releaseConnection_def)
qed

lemma removeIdle_ends:
  assumes "pool_inv s" and "\<not> pl_closed s" and "set (items (pl_free s)) \<subseteq> set (items (pl_all s))"
    and "length (items (pl_free s)) < fuel"
  shows "\<exists>t. removeIdle fuel now s = Some t \<and> pool_inv t \<and>
    (\<exists>n. items (pl_free t) = drop n (items (pl_free s))) \<and>
    length (items (pl_free t)) \<le> maxIdle (pl_config s) \<and>
    (case items (pl_free t) of [] \<Rightarrow> True | c # cs \<Rightarrow> now - pl_lastActive s c \<le> idleTimeout (pl_config s))"
  using assms
proof (induction fuel arbitrary: s)
  case (Suc fuel)
  have wf: "wf (pl_free s)" and small: "length (items (pl_free s)) < 2 ^ 31"
    using Suc.prems(1) pool_small by (auto simp: pool_inv_def pool_wf_def)
  show ?case
  proof (cases "items (pl_free s)")
    case Nil
    then show ?thesis
      using wf Suc.prems(1) by (intro exI [of _ s]) (simp add: Let_def)
  next
    case (Cons c cs)
    define t where "t = (if gracefulEnd (pl_config s) then pool_conn_end now c s else destroy c s)"
    have att: "\<forall>x\<in>set (c # cs). pl_attached s x" and dist: "c \<notin> set cs"
      using Suc.prems(1,3) Cons by (auto simp: pool_inv_def pool_wf_def parked_def)
    note step = removeIdle_step [OF Suc.prems(1) Cons _ Suc.prems(2) t_def]
    have t: "pool_inv t" "items (pl_free t) = cs" "\<not> pl_closed t" "pl_config t = pl_config s"
      "pl_lastActive t = pl_lastActive s"
      using step att Suc.prems(2) by simp_all
    have "pl_attached t x \<longleftrightarrow> x \<in> set (items (pl_all t))" for x
      using t(1) by (simp add: pool_inv_def pool_wf_def)
    moreover have "pl_attached t x" if "x \<in> set cs" for x
      using step(5) that att dist by auto
    ultimately have sub: "set (items (pl_free t)) \<subseteq> set (items (pl_all t))"
      using t(2) by blast
    show ?thesis
    proof (cases "length (items (pl_free s)) > maxIdle (pl_config s) \<or>
        now - pl_lastActive s c > idleTimeout (pl_config s)")
      case True
      then have eq: "removeIdle (Suc fuel) now s = removeIdle fuel now t"
        using wf Cons free_head [OF wf Cons small] by (simp add: t_def Let_def)
      obtain u n where "removeIdle fuel now t = Some u" "pool_inv u" "items (pl_free u) = drop n cs"
        "length (items (pl_free u)) \<le> maxIdle (pl_config s)"
        "case items (pl_free u) of [] \<Rightarrow> True | c # cs \<Rightarrow> now - pl_lastActive s c \<le> idleTimeout (pl_config s)"
        using Suc.IH [OF t(1,3) sub, unfolded t(2,4,5)] Suc.prems(4) Cons by auto
      then show ?thesis
        unfolding eq using Cons by (intro exI [of _ u]) (auto intro: exI [of _ "Suc n"])
    next
      case False
      then show ?thesis
        using wf Cons free_head [OF wf Cons small] Suc.prems(1)
        by (intro exI [of _ s]) (auto simp: Let_def intro: exI [of _ 0])
    qed
  qed
qed simp

text \<open>Without resetting on release, every free connection is one of the pool.\<close>

definition free_listed :: "'cb pool \<Rightarrow> bool" where
  "free_listed s \<longleftrightarrow> (\<forall>c\<in>set (items (pl_free s)). pl_attached s c) \<and> pl_resetting s = []"

lemma free_listed_wake: "free_listed (wake_next s) = free_listed s"
  by (simp add: free_listed_def wake_next_def nextTick_def case_prod_unfold split: option.split)

lemma free_listed_say [simp]: "free_listed (say e s) = free_listed s"
  by (simp add: free_listed_def)

lemma free_listed_release:
  assumes "free_listed s" and "pool_inv s" and "\<not> resetOnRelease (pl_config s)"
  shows "free_listed (release now c s)"
proof -
  have "wf (pl_free s)" "wf (pl_queue s)"
    using assms(2) by (simp_all add: pool_inv_def pool_wf_def)
  then show ?thesis
    using assms by (auto simp: release_def releaseConnection_def handleSuccessfulRelease_def free_listed_def
        nextTick_def case_prod_unfold split: option.split)
qed

lemma free_listed_remove:
  assumes "free_listed s" and "pool_inv s"
  shows "free_listed (removeFromPool c s)"
proof (cases "\<not> pl_attached s c \<or> pl_closed s")
  case False
  let ?s = "s\<lparr>pl_attached := (pl_attached s)(c := False), pl_all := spliceConnection (pl_all s) c,
    pl_free := spliceConnection (pl_free s) c\<rparr>"
  have "wf (pl_free s)" "distinct (items (pl_free s))" "length (items (pl_free s)) < 2 ^ 31"
    using assms(2) pool_small(2) [of s] by (auto simp: pool_inv_def pool_wf_def parked_def)
  then have "free_listed ?s"
    using assms(1) by (simp add: free_listed_def)
  then show ?thesis
    using False by (simp add: removeFromPool_def removeConnection_def releaseConnection_def free_listed_wake)
qed (use assms in \<open>simp add: removeFromPool_def\<close>)

lemma free_listed_destroy: "free_listed s \<Longrightarrow> pool_inv s \<Longrightarrow> free_listed (destroy c s)"
  by (simp add: destroy_def free_listed_remove)

lemma free_listed_get:
  assumes "free_listed s" and "wf (pl_free s)"
  shows "free_listed (getConnection now cb s)"
  using assms(2)
proof (cases rule: pop_free)
  case 1
  then show ?thesis
    using assms by (auto simp: getConnection_def create_conn_def nextTick_def free_listed_def Let_def)
next
  case (2 x xs q')
  then show ?thesis
    using assms by (auto simp: getConnection_def nextTick_def free_listed_def Let_def)
qed

lemma free_listed_run_tick:
  assumes "free_listed s" and "wf (pl_free s)"
  shows "free_listed (run_tick now s)"
proof (cases "pl_ticks s")
  case (Cons t ts)
  have "free_listed (s\<lparr>pl_ticks := ts\<rparr>)"
    using assms(1) by (simp add: free_listed_def)
  then show ?thesis
    using Cons assms free_listed_get [of "s\<lparr>pl_ticks := ts\<rparr>"]
    by (cases t) (simp_all add: run_tick_def Let_def, simp_all add: free_listed_def)
qed (use assms in \<open>simp add: run_tick_def\<close>)

lemma apply_free_listed:
  assumes "free_listed s" and "pool_inv s" and "\<not> resetOnRelease (pl_config s)"
  shows "free_listed (pool_apply now e s)"
proof -
  have "wf (pl_free s)"
    using assms(2) by (simp add: pool_inv_def pool_wf_def)
  moreover have "pl_resetting s = []"
    using assms(1) by (simp add: free_listed_def)
  moreover have "free_listed (connectReply c failed s)" for c failed
    using assms(1) by (auto simp: connectReply_def Let_def free_listed_def split: option.split)
  moreover have "free_listed (pool_end s)"
    using assms(1) by (simp add: pool_end_def free_listed_def Let_def case_prod_unfold)
  moreover have "free_listed (release now c (destroy d s))" for c d
    using assms free_listed_release [of "destroy d s"] destroy_inv config_const(6) [of d s] free_listed_destroy
    by metis
  moreover have "free_listed (say e s)" "pool_inv (say e s)" for e
    using assms by simp_all
  ultimately show ?thesis
    using assms free_listed_release [OF _ _ assms(3)] free_listed_release [of "say (WarnEnd c) s" now c for c]
    by (cases e) (simp_all add: free_listed_get free_listed_remove free_listed_destroy free_listed_run_tick
        query_ended_def execute_ended_def pool_conn_end_def resetReply_def)
qed

lemma run_free_listed:
  assumes "pl_next (pool_run evs (new_pool cfg)) < 2 ^ 31" and "\<not> resetOnRelease cfg"
  shows "free_listed (pool_run evs (new_pool cfg))"
  using assms(1)
proof (induction evs rule: rev_induct)
  case Nil
  then show ?case by (simp add: pool_run_def new_pool_def free_listed_def)
next
  case (snoc e evs)
  have small: "pl_next (pool_run evs (new_pool cfg)) < 2 ^ 31"
    using snoc.prems apply_next [of "pool_run evs (new_pool cfg)" "fst e" "snd e"] by (simp add: run_snoc)
  have "pl_config (pool_run evs (new_pool cfg)) = cfg"
    by (simp add: run_config) (simp add: new_pool_def)
  then show ?case
    using apply_free_listed [OF snoc.IH [OF small] run_inv [OF small]] assms(2) by (simp add: run_snoc)
qed

section \<open>Properties\<close>

text \<open>
  Claim C14. In every run of a pool the connections never exceed the connection limit and the
  waiting callers never exceed the queue limit (a limit of 0 is no limit).
\<close>

theorem pool_within_limits:
  assumes "pl_next (pool_run evs (new_pool cfg)) < 2 ^ 31"
  shows "(connectionLimit cfg = 0 \<or>
       ring_length (pl_all (pool_run evs (new_pool cfg))) \<le> connectionLimit cfg) \<and>
    (queueLimit cfg = 0 \<or> ring_length (pl_queue (pool_run evs (new_pool cfg))) \<le> queueLimit cfg)"
proof -
  have "pl_config (pool_run evs (new_pool cfg)) = cfg"
    by (simp add: run_config) (simp add: new_pool_def)
  then show ?thesis
    using run_inv [OF assms] by (simp add: pool_inv_def pool_limits_def pool_wf_def)
qed

definition demo_config :: pool_config where
  "demo_config = \<lparr>waitForConnections = True, connectionLimit = 1, maxIdle = 0, idleTimeout = 60000,
     queueLimit = 0, resetOnRelease = False, gracefulEnd = False\<rparr>"

text \<open>A pool of one connection, taken by caller 7; caller 8 waits.\<close>

definition demo_taken :: "nat pool" where
  "demo_taken = pool_run [(0, GetConnection 7), (5, ConnectReply 0 False)] (new_pool demo_config)"

lemma demo_created: "pool_run [(0, GetConnection 7)] (new_pool demo_config) = create_conn 0 7 (new_pool demo_config)"
  by (simp add: pool_run_def getConnection_def new_pool_def demo_config_def)

lemma demo_taken: "items (pl_all demo_taken) = [0]" "items (pl_free demo_taken) = []"
  "items (pl_queue demo_taken) = []" "wf (pl_all demo_taken)" "wf (pl_free demo_taken)" "wf (pl_queue demo_taken)"
  "pl_config demo_taken = demo_config" "pl_closed demo_taken = False" "pl_connecting demo_taken = []"
  "pl_attached demo_taken 0" "\<not> pl_released demo_taken 0" "pl_next demo_taken = 1"
  by (simp_all add: demo_taken_def pool_run_def getConnection_def create_conn_def connectReply_def
      new_pool_def say_def demo_config_def)

lemma demo_waiting: "pool_run [(0, GetConnection 7), (5, ConnectReply 0 False), (6, GetConnection 8)]
    (new_pool demo_config) = (say Enqueue demo_taken)\<lparr>pl_queue := snd (ring_push (pl_queue demo_taken) (Some 8))\<rparr>"
proof -
  have "getConnection 6 8 demo_taken =
      (say Enqueue demo_taken)\<lparr>pl_queue := snd (ring_push (pl_queue demo_taken) (Some 8))\<rparr>"
    by (simp add: getConnection_def demo_taken) (simp add: demo_config_def)
  then show ?thesis
    by (simp add: demo_taken_def pool_run_def)
qed

lemma demo_free: "pool_run [(0, GetConnection 7), (5, ConnectReply 0 False), (6, ReleaseConn 0)]
    (new_pool demo_config) = release 6 0 demo_taken" "items (pl_free (release 6 0 demo_taken)) = [0]"
  "wf (pl_free (release 6 0 demo_taken))" "\<not> pl_closed (release 6 0 demo_taken)"
proof -
  have "pool_apply 6 (ReleaseConn 0) demo_taken = release 6 0 demo_taken"
    by (simp add: in_use_def demo_taken)
  then show "pool_run [(0, GetConnection 7), (5, ConnectReply 0 False), (6, ReleaseConn 0)]
    (new_pool demo_config) = release 6 0 demo_taken"
    by (simp add: demo_taken_def pool_run_def)
  show "items (pl_free (release 6 0 demo_taken)) = [0]" "wf (pl_free (release 6 0 demo_taken))"
    "\<not> pl_closed (release 6 0 demo_taken)"
    by (simp_all add: release_def releaseConnection_def handleSuccessfulRelease_def demo_taken)
       (simp_all add: demo_config_def demo_taken)
qed


theorem pool_within_limits_witness:
  "ring_length (pl_all (pool_run [(0, GetConnection 7), (5, ConnectReply 0 False), (6, GetConnection 8),
     (9, ReleaseConn 0)] (new_pool demo_config))) \<le> 1"
  using pool_within_limits [OF run_next_small, of "[(0, GetConnection 7), (5, ConnectReply 0 False),
      (6, GetConnection 8), (9, ReleaseConn 0)]" demo_config]
  by (simp add: demo_config_def)

text \<open>
  Claim C17. No wake-up is lost: callers wait only while no connection is free, and then the pool
  is full but for the places that callers already woken are about to take.
\<close>

theorem pool_no_lost_wakeup:
  assumes "pl_next (pool_run evs (new_pool cfg)) < 2 ^ 31"
    and "s = pool_run evs (new_pool cfg)" and "ring_length (pl_queue s) > 0"
  shows "ring_length (pl_free s) = 0 \<and> connectionLimit cfg > 0 \<and>
    connectionLimit cfg \<le> ring_length (pl_all s) + length (agains (pl_ticks s))"
proof -
  have "pl_config s = cfg"
    by (simp add: assms(2) run_config) (simp add: new_pool_def)
  moreover have "pool_inv s"
    using run_inv [OF assms(1)] assms(2) by simp
  ultimately show ?thesis
    using assms(3) by (auto simp: pool_inv_def pool_limits_def pool_wf_def)
qed

theorem pool_no_lost_wakeup_witness:
  "ring_length (pl_free (pool_run [(0, GetConnection 7), (5, ConnectReply 0 False), (6, GetConnection (8 :: nat))]
     (new_pool demo_config))) = 0"
  using pool_no_lost_wakeup [OF run_next_small refl, of "[(0, GetConnection 7), (5, ConnectReply 0 False),
      (6, GetConnection (8 :: nat))]" demo_config]
  by (simp add: demo_waiting demo_taken)

text \<open>
  Claim C15. Every call of \<open>getConnection\<close> is answered at most once and none is forgotten: the
  callers answered, waiting, in line for a tick or connecting are, with multiplicity, those that called.
\<close>

theorem pool_answers_once:
  assumes "pl_next (pool_run evs (new_pool cfg)) < 2 ^ 31" and "s = pool_run evs (new_pool cfg)"
  shows "mset (map fst (replies (pl_log s))) + mset (items (pl_queue s)) + mset (map tick_cb (pl_ticks s)) +
    mset (map snd (pl_connecting s)) = mset (requests evs)"
  using run_callers [OF assms(1)] assms(2) by (simp add: callers_def)

theorem pool_answers_once_witness:
  "mset (map fst (replies (pl_log (pool_run [(0, GetConnection 7), (5, ConnectReply 0 False), (6, GetConnection 8),
     (9, ReleaseConn 0)] (new_pool demo_config))))) \<subseteq># {#7, 8 :: nat#}"
  using pool_answers_once [OF run_next_small refl, of "[(0, GetConnection 7), (5, ConnectReply 0 False),
      (6, GetConnection (8 :: nat)), (9, ReleaseConn 0)]" demo_config]
  by (simp add: requests_def List.map_filter_def add.assoc del: mset_map) (metis mset_subset_eq_add_left)

text \<open>The replies of one event.\<close>

definition holds_conn :: "'cb pool \<Rightarrow> nat \<Rightarrow> bool" where
  "holds_conn s c \<longleftrightarrow> in_use c s \<and> \<not> pl_released s c"

lemma replies_same:
  "replies (pl_log (wake_next s)) = replies (pl_log s)"
  "replies (pl_log (handleSuccessfulRelease c s)) = replies (pl_log s)"
  "replies (pl_log (releaseConnection c s)) = replies (pl_log s)"
  "replies (pl_log (removeFromPool c s)) = replies (pl_log s)"
  "replies (pl_log (release now c s)) = replies (pl_log s)"
  "replies (pl_log (destroy c s)) = replies (pl_log s)"
  "replies (pl_log (pool_conn_end now c s)) = replies (pl_log s)"
  "replies (pl_log (resetReply c failed s)) = replies (pl_log s)"
  "replies (pl_log (pool_end s)) = replies (pl_log s)"
  by (simp_all add: wake_next_def handleSuccessfulRelease_def releaseConnection_def removeFromPool_def
      removeConnection_def release_def destroy_def pool_conn_end_def resetReply_def say_def
      pool_end_def nextTick_def Let_def case_prod_unfold split: option.split)

lemma replies_get:
  "replies (pl_log (getConnection now cb s)) = replies (pl_log s) \<or>
   replies (pl_log (getConnection now cb s)) = replies (pl_log s) @ [(cb, Inl QueueLimitReached)]"
  by (simp add: getConnection_def create_conn_def say_def nextTick_def Let_def case_prod_unfold split: option.split)

definition one_grant :: "'cb pool \<Rightarrow> 'cb pool \<Rightarrow> bool" where
  "one_grant s t \<longleftrightarrow> (\<exists>r. replies (pl_log t) = replies (pl_log s) @ r \<and>
     (\<forall>cb c. (cb, Inr c) \<in> set r \<longrightarrow> r = [(cb, Inr c)] \<and> \<not> holds_conn s c \<and> holds_conn t c))"

lemma one_grant_same: "replies (pl_log t) = replies (pl_log s) \<Longrightarrow> one_grant s t"
  by (simp add: one_grant_def)

lemma one_grant_fail: "replies (pl_log t) = replies (pl_log s) @ [(cb, Inl e)] \<Longrightarrow> one_grant s t"
  by (simp add: one_grant_def)

lemma one_grant_get: "one_grant s (getConnection now cb s)"
  using replies_get [of now cb s] one_grant_same one_grant_fail by metis

lemma connectReply_grant:
  assumes "pool_inv s"
  shows "one_grant s (connectReply c failed s)"
proof (cases "map_of (pl_connecting s) c")
  case (Some cb)
  then have c: "c \<in> fst ` set (pl_connecting s)"
    using map_of_SomeD by force
  then have "\<not> pl_released s c" "c < pl_next s" "\<not> holds_conn s c"
    using assms by (auto simp: pool_inv_def pool_wf_def holds_conn_def in_use_def)
  then show ?thesis
    using Some by (auto simp: connectReply_def one_grant_def say_def Let_def holds_conn_def in_use_def)
qed (simp add: connectReply_def one_grant_same)

lemma run_tick_grant:
  assumes "pool_inv s"
  shows "one_grant s (run_tick now s)"
proof (cases "pl_ticks s")
  case (Cons t ts)
  show ?thesis
  proof (cases t)
    case (Give c cb)
    then have "pl_released s c" "c < pl_next s" "c \<notin> fst ` set (pl_connecting s)"
      using assms Cons by (auto simp: pool_inv_def pool_wf_def parked_def)
    then show ?thesis
      using Cons Give by (auto simp: run_tick_def one_grant_def say_def Let_def holds_conn_def in_use_def)
  next
    case (Again cb)
    then show ?thesis
      using Cons replies_get [of now cb "s\<lparr>pl_ticks := ts\<rparr>"]
      by (auto simp: run_tick_def Let_def one_grant_def)
  next
    case (Fail cb e)
    then show ?thesis
      using Cons by (auto simp: run_tick_def Let_def one_grant_def say_def)
  qed
qed (simp add: run_tick_def one_grant_same)

lemma apply_grant: "pool_inv s \<Longrightarrow> one_grant s (pool_apply now e s)"
  by (cases e) (simp_all add: one_grant_get connectReply_grant run_tick_grant one_grant_same replies_same
      query_ended_def execute_ended_def)

text \<open>
  Claim C16. A connection is never given to two callers at once: an event that answers a caller
  with a connection gives no other answer, nobody held that connection before (it was connecting,
  free, or handed over on release) and the caller holds it afterwards.
\<close>

theorem pool_gives_exclusively:
  assumes "pl_next (pool_run evs (new_pool cfg)) < 2 ^ 31" and "s = pool_run evs (new_pool cfg)"
    and "replies (pl_log (pool_apply now e s)) = replies (pl_log s) @ r" and "(cb, Inr c) \<in> set r"
  shows "r = [(cb, Inr c)] \<and> \<not> (in_use c s \<and> \<not> pl_released s c) \<and>
    in_use c (pool_apply now e s) \<and> \<not> pl_released (pool_apply now e s) c"
proof -
  have "one_grant s (pool_apply now e s)"
    using apply_grant run_inv [OF assms(1)] assms(2) by blast
  then show ?thesis
    using assms(3,4) by (auto simp: one_grant_def holds_conn_def)
qed

theorem pool_gives_exclusively_witness:
  "in_use 0 (pool_apply 5 (ConnectReply 0 False) (create_conn 0 (7 :: nat) (new_pool demo_config)))"
proof -
  have "replies (pl_log (pool_apply 5 (ConnectReply 0 False) (create_conn 0 7 (new_pool demo_config)))) =
      replies (pl_log (create_conn 0 7 (new_pool demo_config))) @ [(7 :: nat, Inr 0)]"
    by (simp add: connectReply_def create_conn_def new_pool_def say_def)
  then show ?thesis
    using pool_gives_exclusively [OF run_next_small demo_created [symmetric], of 5 "ConnectReply 0 False" "[(7 :: nat, Inr 0)]" 7 0]
    by simp
qed

text \<open>
  Claim C26. Unless connections are reset on release, the idle job of an open pool ends, for every
  configuration: it leaves at most \<open>maxIdle\<close> free connections, the oldest of them not idle for too
  long, and keeps the others in their order.
\<close>

theorem idle_job_ends:
  assumes "pl_next (pool_run evs (new_pool cfg)) < 2 ^ 31" and "s = pool_run evs (new_pool cfg)"
    and "\<not> resetOnRelease cfg" and "\<not> pl_closed s" and "ring_length (pl_free s) < fuel"
  shows "\<exists>t n. removeIdle fuel now s = Some t \<and> items (pl_free t) = drop n (items (pl_free s)) \<and>
    ring_length (pl_free t) \<le> maxIdle cfg \<and>
    (ring_length (pl_free t) > 0 \<longrightarrow> now - pl_lastActive s (hd (items (pl_free t))) \<le> idleTimeout cfg)"
proof -
  have cfg: "pl_config s = cfg"
    by (simp add: assms(2) run_config) (simp add: new_pool_def)
  have inv: "pool_inv s" and listed: "free_listed s"
    using run_inv [OF assms(1)] run_free_listed [OF assms(1,3)] assms(2) by simp_all
  then have "set (items (pl_free s)) \<subseteq> set (items (pl_all s))" "wf (pl_free s)"
    by (auto simp: free_listed_def pool_inv_def pool_wf_def)
  from removeIdle_ends [OF inv assms(4) this(1), of fuel now] this(2) assms(5)
  obtain t n where "removeIdle fuel now s = Some t" "pool_inv t" "items (pl_free t) = drop n (items (pl_free s))"
    "length (items (pl_free t)) \<le> maxIdle cfg"
    "case items (pl_free t) of [] \<Rightarrow> True | c # cs \<Rightarrow> now - pl_lastActive s c \<le> idleTimeout cfg"
    unfolding cfg by auto
  moreover from this have "wf (pl_free t)"
    by (simp add: pool_inv_def pool_wf_def)
  ultimately show ?thesis
    by (intro exI [of _ t] exI [of _ n]) (auto split: list.splits)
qed

theorem idle_job_ends_witness:
  "\<exists>t n. removeIdle 2 10 (release 6 0 demo_taken) = Some t \<and> items (pl_free t) = drop n [0] \<and>
    ring_length (pl_free t) \<le> 0"
proof -
  have "\<exists>t n. removeIdle 2 10 (release 6 0 demo_taken) = Some t \<and>
      items (pl_free t) = drop n (items (pl_free (release 6 0 demo_taken))) \<and>
      ring_length (pl_free t) \<le> maxIdle demo_config \<and>
      (ring_length (pl_free t) > 0 \<longrightarrow>
        10 - pl_lastActive (release 6 0 demo_taken) (hd (items (pl_free t))) \<le> idleTimeout demo_config)"
    by (rule idle_job_ends [OF run_next_small demo_free(1) [symmetric]])
       (simp_all add: demo_free, simp add: demo_config_def)
  then show ?thesis
    unfolding demo_free(2) by (auto simp: demo_config_def simp del: removeIdle.simps)
qed

text \<open>
  With reset on release the pool can take back a connection it has removed: a client
  releases a connection and destroys it while the reset is under way, and the successful reply puts
  it among the free ones. The idle job then never ends: it destroys that connection again and
  again, which no longer removes anything.
\<close>

theorem idle_job_hangs:
  assumes "pool_inv s" and "pl_attached s c" and "\<not> pl_released s c" and "in_use c s"
    and "\<not> pl_closed s" and "items (pl_queue s) = []" and "items (pl_free s) = []" and "pl_resetting s = []"
    and "resetOnRelease (pl_config s)" and "maxIdle (pl_config s) = 0" and "\<not> gracefulEnd (pl_config s)"
    and "t = pool_run [(now, ReleaseConn c), (now, DestroyConn c), (now, ResetReply c False)] s"
  shows "items (pl_free t) = [c] \<and> \<not> pl_attached t c \<and> removeIdle fuel later t = None"
proof -
  have wf: "wf (pl_all s)" "wf (pl_free s)" "wf (pl_queue s)"
    using assms(1) by (simp_all add: pool_inv_def pool_wf_def)
  define s1 where "s1 = release now c s"
  have s1: "s1 = say (SendReset c) (s\<lparr>pl_released := (pl_released s)(c := True),
      pl_lastActive := (pl_lastActive s)(c := now), pl_resetting := [c]\<rparr>)"
    using assms(2,3,5,8,9) by (simp add: s1_def release_def releaseConnection_def)
  define s2 where "s2 = destroy c s1"
  have small: "length (items (pl_free s)) < 2 ^ 31"
    using assms(7) by simp
  have s2: "pl_attached s2 = (pl_attached s)(c := False)" "wf (pl_free s2)" "items (pl_free s2) = []"
    "wf (pl_queue s2)" "items (pl_queue s2) = []" "pl_resetting s2 = [c]" "pl_config s2 = pl_config s"
    using assms(2,5,6,7) wf small
    by (simp_all add: s2_def s1 destroy_def removeFromPool_def removeConnection_def releaseConnection_def wake_next_def)
  define s3 where "s3 = resetReply c False s2"
  have s3: "\<not> pl_attached s3 c" "wf (pl_free s3)" "items (pl_free s3) = [c]" "pl_config s3 = pl_config s"
    using s2 by (simp_all add: s3_def resetReply_def handleSuccessfulRelease_def)
  have "in_use c s1"
    using assms(4) by (simp add: s1 in_use_def)
  then have "t = s3"
    using assms(4,12) by (simp add: pool_run_def s1_def [symmetric] s2_def [symmetric] s3_def)
  moreover have "removeIdle fuel later u = None"
    if "\<not> pl_attached u c" "wf (pl_free u)" "items (pl_free u) = [c]" "maxIdle (pl_config u) = 0"
      "\<not> gracefulEnd (pl_config u)" for u :: "'a pool"
    using that
  proof (induction fuel arbitrary: u)
    case (Suc fuel)
    have "destroy c u = say (DestroyConnection c) u"
      using Suc.prems(1) by (simp add: destroy_def removeFromPool_def)
    then show ?case
      using Suc free_head [of "pl_free u" c "[]"] by simp
  qed simp
  ultimately show ?thesis
    using s3 assms(10,11) by (simp del: removeIdle.simps)
qed

theorem idle_job_hangs_witness:
  "\<forall>fuel. removeIdle fuel 100 (pool_run [(9, ReleaseConn 0), (9, DestroyConn 0), (9, ResetReply 0 False)]
     (pool_run [(0, GetConnection (7 :: nat)), (5, ConnectReply 0 False)]
       (new_pool (demo_config\<lparr>resetOnRelease := True\<rparr>)))) = None"
proof -
  let ?s = "pool_run [(0, GetConnection (7 :: nat)), (5, ConnectReply 0 False)]
       (new_pool (demo_config\<lparr>resetOnRelease := True\<rparr>))"
  have inv: "pool_inv ?s"
    by (rule run_inv [OF run_next_small]) simp
  have s: "pl_attached ?s 0" "\<not> pl_released ?s 0" "in_use 0 ?s" "\<not> pl_closed ?s" "items (pl_queue ?s) = []"
    "items (pl_free ?s) = []" "pl_resetting ?s = []" "resetOnRelease (pl_config ?s)" "maxIdle (pl_config ?s) = 0"
    "\<not> gracefulEnd (pl_config ?s)"
    by (simp_all add: pool_run_def getConnection_def create_conn_def connectReply_def in_use_def
        new_pool_def say_def demo_config_def)
  show ?thesis
    using idle_job_hangs [OF inv s refl] by simp
qed

end
