(* ===== verification/ResultSet.thy ===== *)
theory ResultSet
  imports Packets
begin

text \<open>
  \<open>src/lib/packets/resultset_header.js\<close> and \<open>src/lib/packets/column_definition.js\<close>: the packets
  that open a result set. The strings of a column other than its name are positions in the
  buffer, decoded when they are asked for.
\<close>

section \<open>Column definitions\<close>

record column =
  cd_buf :: bytes
  cd_clientEncoding :: "string option"
  cd_catalog :: "nat \<times> nat"        \<comment> \<open>start and length\<close>
  cd_schema :: "nat \<times> nat"
  cd_table :: "nat \<times> nat"
  cd_orgTable :: "nat \<times> nat"
  cd_orgName :: "nat \<times> nat"
  cd_name :: jstring
  cd_extendedTypeName :: "jstring option"
  cd_extendedFormat :: "jstring option"
  cd_characterSet :: nat
  cd_encoding :: "string option"
  cd_columnLength :: nat
  cd_columnType :: "nat option"
  cd_flags :: nat
  cd_decimals :: "nat option"

text \<open>A length-coded field left where it is: its start and length. The length \<open>null\<close> adds 0.\<close>

definition read_slot :: "long_lib \<Rightarrow> (nat \<times> nat) rd" where
  "read_slot L = rbind (readLength L) (\<lambda>len p.
     let n = (case len of None \<Rightarrow> 0 | Some n \<Rightarrow> n) in
     Inr ((offset p, n), p\<lparr>offset := offset p + n\<rparr>))"

text \<open>The loop over the extended metadata: every turn reads at least the byte of the id.\<close>

fun extended_entries ::
    "long_lib \<Rightarrow> codec \<Rightarrow> nat \<Rightarrow> nat \<Rightarrow> jstring option \<times> jstring option \<Rightarrow>
     (jstring option \<times> jstring option) rd" where
  "extended_entries L c 0 stop acc p = Inr (acc, p)"
| "extended_entries L c (Suc fuel) stop (type_name, format) p =
     (if offset p < stop then
        rbind readInt8 (\<lambda>i. rbind (readLengthCodedString L c (Some ''ascii'')) (\<lambda>v.
          extended_entries L c fuel stop
            (if i = Some 0 then v else type_name, if i = Some 1 then v else format))) p
      else Inr ((type_name, format), p))"

definition parseMariadbExtendedMetadata ::
    "long_lib \<Rightarrow> codec \<Rightarrow> (jstring option \<times> jstring option) rd" where
  "parseMariadbExtendedMetadata L c = rbind (readLength L) (\<lambda>len p.
     let n = (case len of None \<Rightarrow> 0 | Some n \<Rightarrow> n); stop = min (offset p + n) (end_pos p) in
     (case extended_entries L c (stop - offset p) stop (None, None) p of
        Inl e \<Rightarrow> Inl e
      | Inr (acc, p') \<Rightarrow> Inr (acc, p'\<lparr>offset := stop\<rparr>)))"

definition column_encoding :: "string option \<Rightarrow> string option \<Rightarrow> string option" where
  "column_encoding encoding clientEncoding =
     (if encoding = Some ''binary'' then clientEncoding else encoding)"

definition ColumnDefinition ::
    "long_lib \<Rightarrow> codec \<Rightarrow> string option \<Rightarrow> bool \<Rightarrow> column rd" where
  "ColumnDefinition L c clientEncoding mariadbExtendedMetadata p0 =
     rbind (read_slot L) (\<lambda>catalog. rbind (read_slot L) (\<lambda>schema.
     rbind (read_slot L) (\<lambda>table. rbind (read_slot L) (\<lambda>orgTable.
     rbind (read_slot L) (\<lambda>name. rbind (read_slot L) (\<lambda>orgName.
     rbind (if mariadbExtendedMetadata then parseMariadbExtendedMetadata L c else rret (None, None)) (\<lambda>ext.
     rbind (rskip 1) (\<lambda>_. rbind readInt16 (\<lambda>cs.
     rbind (\<lambda>p. case decodeShort c (buffer p0) (column_encoding (CharsetToEncoding cs) clientEncoding)
                         (fst name) (fst name + snd name) of
                  Inl e \<Rightarrow> Inl e | Inr s \<Rightarrow> Inr (s, p)) (\<lambda>nm.
     rbind readInt32 (\<lambda>len. rbind readInt8 (\<lambda>ty. rbind readInt16 (\<lambda>flags. rbind readInt8 (\<lambda>dec.
       rret \<lparr>cd_buf = buffer p0, cd_clientEncoding = clientEncoding, cd_catalog = catalog,
             cd_schema = schema, cd_table = table, cd_orgTable = orgTable, cd_orgName = orgName,
             cd_name = nm, cd_extendedTypeName = fst ext, cd_extendedFormat = snd ext,
             cd_characterSet = cs, cd_encoding = CharsetToEncoding cs, cd_columnLength = len,
             cd_columnType = ty, cd_flags = flags, cd_decimals = dec\<rparr>)))))))))))))) p0"

text \<open>The getters added by \<open>addString\<close>: \<open>catalog\<close>, \<open>schema\<close>, \<open>table\<close>, \<open>orgTable\<close>, \<open>orgName\<close>.\<close>

definition column_string :: "codec \<Rightarrow> (column \<Rightarrow> nat \<times> nat) \<Rightarrow> column \<Rightarrow> jstring result" where
  "column_string c field d =
     decode c (cd_buf d) (column_encoding (cd_encoding d) (cd_clientEncoding d))
       (fst (field d)) (fst (field d) + snd (field d))"

text \<open>What the server side sends for a column.\<close>

record column_spec =
  cs_catalog :: jstring
  cs_schema :: jstring
  cs_table :: jstring
  cs_orgTable :: jstring
  cs_name :: jstring
  cs_orgName :: jstring
  cs_characterSet :: nat
  cs_columnLength :: nat
  cs_columnType :: nat
  cs_flags :: nat
  cs_decimals :: nat

definition column_fields :: "column_spec \<Rightarrow> jstring list" where
  "column_fields d =
     [cs_catalog d, cs_schema d, cs_table d, cs_orgTable d, cs_name d, cs_orgName d]"

fun sum_lengths :: "codec \<Rightarrow> string option \<Rightarrow> jstring list \<Rightarrow> nat \<Rightarrow> nat result" where
  "sum_lengths c enc [] acc = Inr acc"
| "sum_lengths c enc (s # ss) acc =
     (case lengthCodedStringLength c s enc of
        Inl e \<Rightarrow> Inl e | Inr n \<Rightarrow> sum_lengths c enc ss (acc + n))"

definition ColumnDefinition_toPacket ::
    "codec \<Rightarrow> (nat \<Rightarrow> bytes) \<Rightarrow> column_spec \<Rightarrow> packet result" where
  "ColumnDefinition_toPacket c mem d =
     (let enc = CharsetToEncoding (cs_characterSet d) in
      case sum_lengths c enc (column_fields d) 17 of
        Inl e \<Rightarrow> Inl e
      | Inr n \<Rightarrow>
          build (mem n)
            (map (\<lambda>s. writeLengthCodedString c s enc) (column_fields d) @
             [writeInt8 0x0c, writeInt16 (int (cs_characterSet d)), writeInt32 (int (cs_columnLength d)),
              writeInt8 (int (cs_columnType d)), writeInt16 (int (cs_flags d)),
              writeInt8 (int (cs_decimals d)), writeInt16 0]))"

section \<open>Result set headers\<close>

record state_changes =
  systemVariables :: "(jstring option \<times> jstring option) list"
  sc_schema :: "jstring option"
  gtids :: "jstring list"
  trackStateChange :: "jstring option"

record rs_header =
  rs_fieldCount :: js_int
  rs_infileName :: "jstring option"
  rs_affectedRows :: "js_int option"
  rs_insertId :: "js_int option"
  rs_info :: jstring
  rs_serverStatus :: "nat option"
  rs_warningStatus :: "nat option"
  rs_stateChanges :: "state_changes option"
  rs_changedRows :: "int option"

text \<open>\<open>String.prototype.split\<close> with a one-character separator.\<close>

fun js_split :: "16 word \<Rightarrow> jstring \<Rightarrow> jstring list" where
  "js_split sep [] = [[]]"
| "js_split sep (ch # cs) =
     (if ch = sep then [] # js_split sep cs
      else (case js_split sep cs of [] \<Rightarrow> [[ch]] | w # ws \<Rightarrow> (ch # w) # ws))"

text \<open>The regular expression \<open>/\schanged:\s*(\d+)/i\<close>, tried at every position.\<close>

definition js_space :: "16 word \<Rightarrow> bool" where
  "js_space ch \<longleftrightarrow> (9 \<le> ch \<and> ch \<le> 13) \<or> ch = 32 \<or> ch = 160 \<or> ch = 0x1680 \<or>
     (0x2000 \<le> ch \<and> ch \<le> 0x200a) \<or> ch = 0x2028 \<or> ch = 0x2029 \<or> ch = 0x202f \<or> ch = 0x205f \<or>
     ch = 0x3000 \<or> ch = 0xfeff"

definition js_digit :: "16 word \<Rightarrow> bool" where
  "js_digit ch \<longleftrightarrow> 48 \<le> ch \<and> ch \<le> 57"

definition lower_ascii :: "16 word \<Rightarrow> 16 word" where
  "lower_ascii ch = (if 65 \<le> ch \<and> ch \<le> 90 then ch + 32 else ch)"

definition changed_at :: "jstring \<Rightarrow> jstring option" where
  "changed_at s =
     (case s of
        [] \<Rightarrow> None
      | ch # cs \<Rightarrow>
          if js_space ch \<and> map lower_ascii (take 8 cs) = js ''changed:'' then
            let ds = takeWhile js_digit (dropWhile js_space (drop 8 cs)) in
            if ds = [] then None else Some ds
          else None)"

fun match_changed :: "jstring \<Rightarrow> jstring option" where
  "match_changed [] = None"
| "match_changed (ch # cs) =
     (case changed_at (ch # cs) of Some ds \<Rightarrow> Some ds | None \<Rightarrow> match_changed cs)"

definition changedRows_of :: "jstring \<Rightarrow> int" where
  "changedRows_of info =
     (case match_changed info of
        None \<Rightarrow> 0
      | Some ds \<Rightarrow> js_round (int (digits_value (map (\<lambda>d. unat d - 48) ds))))"

text \<open>
  The loop over the session state changes. A change is a type, a length and that many bytes; the
  offset is set to the end the length names, whatever was read. The last component is the charset
  number a \<open>character_set_client\<close> sets on the connection.
\<close>

definition state_change ::
    "long_lib \<Rightarrow> codec \<Rightarrow> string option \<Rightarrow> nat option \<Rightarrow> state_changes \<times> nat option \<Rightarrow>
     (state_changes \<times> nat option) rd" where
  "state_change L c enc ty acc =
     (let (sc, charset) = acc in
      if ty = Some (code_of SessionTrack ''SYSTEM_VARIABLES'') then
        rbind (readLengthCodedString L c enc) (\<lambda>key. rbind (readLengthCodedString L c enc) (\<lambda>val.
          rret (sc\<lparr>systemVariables := systemVariables sc @ [(key, val)]\<rparr>,
                (if key = Some (js ''character_set_client'')
                 then (case val of
                         None \<Rightarrow> charset
                       | Some v \<Rightarrow>
                           (case map_of (map (map_prod js (\<lambda>n. n)) EncodingToCharset) v of
                              None \<Rightarrow> charset | Some n \<Rightarrow> Some n))
                 else charset))))
      else if ty = Some (code_of SessionTrack ''SCHEMA'') then
        rbind (readLengthCodedString L c enc) (\<lambda>key. rret (sc\<lparr>sc_schema := key\<rparr>, charset))
      else if ty = Some (code_of SessionTrack ''STATE_CHANGE'') then
        rbind (readLengthCodedString L c enc) (\<lambda>v. rret (sc\<lparr>trackStateChange := v\<rparr>, charset))
      else if ty = Some (code_of SessionTrack ''STATE_GTIDS'') then
        rbind (readLengthCodedString L c enc) (\<lambda>_. rbind (readLengthCodedString L c enc) (\<lambda>gtid p.
          case gtid of
            None \<Rightarrow> Inl TypeError
          | Some g \<Rightarrow> Inr ((sc\<lparr>gtids := js_split 44 g\<rparr>, charset), p)))
      else rret acc)"

fun state_changes_loop ::
    "long_lib \<Rightarrow> codec \<Rightarrow> string option \<Rightarrow> nat \<Rightarrow> nat \<Rightarrow> state_changes \<times> nat option \<Rightarrow>
     (state_changes \<times> nat option) rd" where
  "state_changes_loop L c enc 0 stop acc p = Inr (acc, p)"
| "state_changes_loop L c enc (Suc fuel) stop acc p =
     (if offset p < stop then
        rbind readInt8 (\<lambda>ty. rbind (readLength L) (\<lambda>len q.
          let stateEnd = offset q + (case len of None \<Rightarrow> 0 | Some n \<Rightarrow> n) in
          case state_change L c enc ty acc q of
            Inl e \<Rightarrow> Inl e
          | Inr (acc', r) \<Rightarrow> state_changes_loop L c enc fuel stop acc' (r\<lparr>offset := stateEnd\<rparr>))) p
      else Inr (acc, p))"

definition no_changes :: state_changes where
  "no_changes = \<lparr>systemVariables = [], sc_schema = None, gtids = [], trackStateChange = None\<rparr>"

definition readSessionState ::
    "long_lib \<Rightarrow> codec \<Rightarrow> string option \<Rightarrow> (state_changes option \<times> nat option) rd" where
  "readSessionState L c enc p0 =
     rbind (\<lambda>p. if offset p < end_pos p then readLength L p else Inr (Some 0, p)) (\<lambda>len p.
       let n = (case len of None \<Rightarrow> 0 | Some n \<Rightarrow> n); stop = offset p + n in
       if n > 0 then
         (case state_changes_loop L c enc n stop (no_changes, None) p of
            Inl e \<Rightarrow> Inl e
          | Inr ((sc, charset), q) \<Rightarrow> Inr ((Some sc, charset), q))
       else Inr ((None, None), p)) p0"

text \<open>
  \<open>new ResultSetHeader(packet, connection)\<close> for the connection's \<open>bigNumberStrings\<close>,
  \<open>serverEncoding\<close> and the capability flags of the server's handshake. The second component is
  the charset number it sets on the connection, if it does.
\<close>

definition ResultSetHeader ::
    "long_lib \<Rightarrow> codec \<Rightarrow> bool \<Rightarrow> string option \<Rightarrow> nat \<Rightarrow> (rs_header \<times> nat option) rd" where
  "ResultSetHeader L c bigNumberStrings encoding flags p0 =
     (if byte_at (buffer p0) (offset p0) \<noteq> Some 0 then
        rbind (readLengthCodedNumber L False False) (\<lambda>n.
        rbind (if n = IntNull then rbind (readString c None encoding) (\<lambda>s. rret (Some s)) else rret None) (\<lambda>infile.
          rret (\<lparr>rs_fieldCount = n, rs_infileName = infile, rs_affectedRows = None, rs_insertId = None,
                 rs_info = [], rs_serverStatus = None, rs_warningStatus = None, rs_stateChanges = None,
                 rs_changedRows = None\<rparr>, None))) p0
      else
        rbind readInt8 (\<lambda>_.
        rbind (readLengthCodedNumber L bigNumberStrings False) (\<lambda>affected.
        rbind (readLengthCodedNumberSigned L bigNumberStrings) (\<lambda>ins.
        rbind (if isSet ClientConstants flags ''PROTOCOL_41''
               then rbind readInt16 (\<lambda>st. rbind readInt16 (\<lambda>w. rret (Some st, Some w)))
               else if isSet ClientConstants flags ''TRANSACTIONS''
               then rbind readInt16 (\<lambda>st. rret (Some st, None))
               else rret (None, None)) (\<lambda>(status, warnings).
        rbind (\<lambda>p.
            if isSet ClientConstants flags ''SESSION_TRACK'' \<and> offset p < end_pos p then
              rbind (readLengthCodedString L c encoding) (\<lambda>info.
              rbind (if (case status of None \<Rightarrow> False | Some st \<Rightarrow> isSet ServerStatus st ''SERVER_SESSION_STATE_CHANGED'')
                     then readSessionState L c encoding else rret (None, None)) (\<lambda>(sc, charset).
                (\<lambda>q. case info of
                       None \<Rightarrow> Inl TypeError
                     | Some s \<Rightarrow> Inr ((s, sc, charset), q)))) p
            else rbind (readString c None encoding) (\<lambda>info. rret (info, None, None)) p) (\<lambda>(info, sc, charset).
          rret (\<lparr>rs_fieldCount = IntNum 0, rs_infileName = None, rs_affectedRows = Some affected,
                 rs_insertId = Some ins, rs_info = info, rs_serverStatus = status,
                 rs_warningStatus = warnings, rs_stateChanges = sc,
                 rs_changedRows = Some (changedRows_of info)\<rparr>, charset)))))) p0)"

end
