(* ===== verification/Commands.thy ===== *)
theory Commands
  imports Connection ResultSet
begin

text \<open>
  \<open>src/lib/commands\<close>: the base class \<open>Command\<close> and the commands that answer one or a few
  packets. A command is a record that extends \<open>command\<close>; the method \<open>this.next\<close> is one of the
  names of a datatype, a handler takes the name, the packet and the state. What the outside sees
  (the callback, events, packets written, timers) is recorded in order in \<open>cmd_log\<close>; a callback
  given to \<open>process.nextTick\<close> is recorded where it is scheduled.
\<close>

section \<open>The base class\<close>

datatype 'r cmd_effect =
    CallOnResult "js_error option" "'r option"
  | EmitCmdError js_error
  | EmitCmdEnd
  | EmitCmd 'r
  | WriteCmd packet
  | ResetSequence
  | StartTimer
  | StopTimer
  | ReportProtocolError string
  | SetClosing
  | ClearStatements
  | AddCloseStatement nat

record ('n, 'r) command =
  cmd_next :: "'n option"
  cmd_onResult :: bool
  cmd_timer :: bool
  cmd_log :: "'r cmd_effect list"

definition cmd_say :: "'r cmd_effect \<Rightarrow> ('n, 'r, 'z) command_scheme \<Rightarrow> ('n, 'r, 'z) command_scheme" where
  "cmd_say e s = s\<lparr>cmd_log := cmd_log s @ [e]\<rparr>"

type_synonym ('n, 's) handler = "'n \<Rightarrow> packet option \<Rightarrow> 's \<Rightarrow> 's \<times> 'n option result"

definition stop_timer :: "('n, 'r, 'z) command_scheme \<Rightarrow> ('n, 'r, 'z) command_scheme" where
  "stop_timer s = (if cmd_timer s then cmd_say StopTimer (s\<lparr>cmd_timer := False\<rparr>) else s)"

text \<open>The branch of \<open>execute\<close> for an error packet.\<close>

definition cmd_failed :: "js_error \<Rightarrow> ('n, 'r, 'z) command_scheme \<Rightarrow> ('n, 'r, 'z) command_scheme" where
  "cmd_failed err s =
     (let s1 = stop_timer s in
      if cmd_onResult s1 then cmd_say EmitCmdEnd (cmd_say (CallOnResult (Some err) None) s1)
      else cmd_say EmitCmdEnd (cmd_say (EmitCmdError err) s1))"

definition Command_execute ::
    "codec \<Rightarrow> string option \<Rightarrow> 'n \<Rightarrow> ('n, ('n, 'r, 'z) command_scheme) handler \<Rightarrow>
     packet option \<Rightarrow> ('n, 'r, 'z) command_scheme \<Rightarrow> ('n, 'r, 'z) command_scheme \<times> exec_outcome" where
  "Command_execute c clientEncoding first handler packet s =
     (let s1 = (if cmd_next s = None then cmd_say ResetSequence (s\<lparr>cmd_next := Some first\<rparr>) else s) in
      if (\<exists>p\<in>set_option packet. isError p) then
        (case asError c clientEncoding (the packet) of
           Inl e \<Rightarrow> (s1, Threw e)
         | Inr err \<Rightarrow> (cmd_failed (ServerError (Some (errno err)) (sqlMessage err)) s1, Finished))
      else
        (case handler (the (cmd_next s1)) packet s1 of
           (s2, Inl e) \<Rightarrow> (s2, Threw e)
         | (s2, Inr (Some n)) \<Rightarrow> (s2\<lparr>cmd_next := Some n\<rparr>, Continues)
         | (s2, Inr None) \<Rightarrow> (cmd_say EmitCmdEnd (s2\<lparr>cmd_next := None\<rparr>), Finished)))"

text \<open>A packet a command writes; building it may raise.\<close>

definition cmd_write ::
    "packet result \<Rightarrow> 'n option \<Rightarrow> ('n, 'r, 'z) command_scheme \<Rightarrow> ('n, 'r, 'z) command_scheme \<times> 'n option result" where
  "cmd_write r n s = (case r of Inl e \<Rightarrow> (s, Inl e) | Inr p \<Rightarrow> (cmd_say (WriteCmd p) s, Inr n))"

definition new_command :: "bool \<Rightarrow> ('n, 'r) command" where
  "new_command onResult = \<lparr>cmd_next = None, cmd_onResult = onResult, cmd_timer = False, cmd_log = []\<rparr>"

section \<open>Commands of one request and one answer\<close>

datatype simple_next = Start | Response

definition code_packet :: "string \<Rightarrow> packet" where
  "code_packet name = new_packet 0 [1, 0, 0, 0, word_of_nat (code_of CommandCodes name)] 0 5"

text \<open>\<open>this.onResult()\<close> on the next tick, when there is one.\<close>

definition call_back :: "'r option \<Rightarrow> ('n, 'r, 'z) command_scheme \<Rightarrow> ('n, 'r, 'z) command_scheme" where
  "call_back r s = (if cmd_onResult s then cmd_say (CallOnResult None r) s else s)"

fun Ping :: "(simple_next, (simple_next, 'r, 'z) command_scheme) handler" where
  "Ping Start packet s = (cmd_say (WriteCmd (code_packet ''PING'')) s, Inr (Some Response))"
| "Ping Response packet s = (call_back None s, Inr None)"

fun Quit :: "(simple_next, (simple_next, 'r, 'z) command_scheme) handler" where
  "Quit Start packet s =
     (cmd_say (WriteCmd (code_packet ''QUIT'')) (call_back None (cmd_say SetClosing s)), Inr None)"
| "Quit Response packet s = (s, Inr None)"

fun ResetConnection :: "(simple_next, (simple_next, 'r, 'z) command_scheme) handler" where
  "ResetConnection Start packet s = cmd_write ResetConnection_toPacket (Some Response) s"
| "ResetConnection Response packet s = (call_back None (cmd_say ClearStatements s), Inr None)"

fun CloseStatement :: "(nat \<Rightarrow> bytes) \<Rightarrow> nat \<Rightarrow> (simple_next, (simple_next, 'r, 'z) command_scheme) handler" where
  "CloseStatement mem stmt Start packet s = cmd_write (CloseStatement_toPacket mem stmt) None s"
| "CloseStatement mem stmt Response packet s = (s, Inr None)"

fun RegisterSlave ::
    "codec \<Rightarrow> (nat \<Rightarrow> bytes) \<Rightarrow> slave_opts \<Rightarrow> (simple_next, (simple_next, 'r, 'z) command_scheme) handler" where
  "RegisterSlave c mem opts Start packet s = cmd_write (RegisterSlave_toPacket c mem opts) (Some Response) s"
| "RegisterSlave c mem opts Response packet s = (call_back None s, Inr None)"

section \<open>Prepare\<close>

text \<open>The settings of the connection the packet readers use.\<close>

record cmd_env =
  ev_long :: long_lib
  ev_codec :: codec
  ev_clientEncoding :: "string option"
  ev_serverEncoding :: "string option"
  ev_extendedMetadata :: bool
  ev_bigNumberStrings :: bool
  ev_capabilities :: nat

record statement =
  st_id :: nat
  st_columns :: "column list"
  st_parameters :: "column list"

datatype prepare_next =
  PrepStart | PrepareHeader | ReadParameter | PrepReadField | ParametersEOF | PrepFieldsEOF

record prepare = "(prepare_next, statement) command" +
  pr_id :: nat
  pr_fieldCount :: nat
  pr_parameterCount :: nat
  pr_fields :: "column list"
  pr_parameterDefinitions :: "column list"
  pr_stored :: "statement option"

definition new_prepare :: "bool \<Rightarrow> prepare" where
  "new_prepare onResult =
     \<lparr>cmd_next = None, cmd_onResult = onResult, cmd_timer = False, cmd_log = [], pr_id = 0,
      pr_fieldCount = 0, pr_parameterCount = 0, pr_fields = [], pr_parameterDefinitions = [],
      pr_stored = None\<rparr>"

text \<open>\<open>prepareDone\<close>: the statement is stored in the connection's cache and passed on.\<close>

definition prepareDone :: "prepare \<Rightarrow> prepare \<times> prepare_next option result" where
  "prepareDone s =
     (let st = \<lparr>st_id = pr_id s, st_columns = pr_fields s, st_parameters = pr_parameterDefinitions s\<rparr>
      in (call_back (Some st) (s\<lparr>pr_stored := Some st\<rparr>), Inr None))"

definition read_column :: "'z cmd_env_scheme \<Rightarrow> packet \<Rightarrow> column result" where
  "read_column ev p =
     (case ColumnDefinition (ev_long ev) (ev_codec ev) (ev_clientEncoding ev) (ev_extendedMetadata ev) p of
        Inl e \<Rightarrow> Inl e | Inr (d, _) \<Rightarrow> Inr d)"

text \<open>
  The handler. \<open>cached\<close> is what the statement cache holds under the key, \<open>cmdPacket\<close> the packet
  \<open>PrepareStatement.toPacket\<close> builds. A state that wants a packet and gets none throws.
\<close>

fun Prepare :: "cmd_env \<Rightarrow> statement option \<Rightarrow> packet result \<Rightarrow> (prepare_next, prepare) handler" where
  "Prepare ev cached cmdPacket PrepStart packet s =
     (case cached of
        Some st \<Rightarrow> (call_back (Some st) s, Inr None)
      | None \<Rightarrow> cmd_write cmdPacket (Some PrepareHeader) s)"
| "Prepare ev cached cmdPacket n None s = (s, Inl TypeError)"
| "Prepare ev cached cmdPacket PrepareHeader (Some p) s =
     (case PreparedStatementHeader p of
        Inl e \<Rightarrow> (s, Inl e)
      | Inr (h, _) \<Rightarrow>
          let s1 = s\<lparr>pr_id := stmt_id h, pr_fieldCount := ps_fieldCount h, pr_parameterCount := parameterCount h\<rparr> in
          if parameterCount h > 0 then (s1, Inr (Some ReadParameter))
          else if ps_fieldCount h > 0 then (s1, Inr (Some PrepReadField))
          else prepareDone s1)"
| "Prepare ev cached cmdPacket ReadParameter (Some p) s =
     (if isEOF p then
        (if pr_fieldCount s > 0 then (s, Inr (Some PrepReadField)) else prepareDone s)
      else
        (case read_column ev p of
           Inl e \<Rightarrow> (s, Inl e)
         | Inr d \<Rightarrow>
             let s1 = s\<lparr>pr_parameterDefinitions := pr_parameterDefinitions s @ [d]\<rparr> in
             (s1, Inr (Some (if length (pr_parameterDefinitions s1) = pr_parameterCount s1
                             then ParametersEOF else ReadParameter)))))"
| "Prepare ev cached cmdPacket PrepReadField (Some p) s =
     (if isEOF p then prepareDone s
      else
        (case read_column ev p of
           Inl e \<Rightarrow> (s, Inl e)
         | Inr d \<Rightarrow>
             let s1 = s\<lparr>pr_fields := pr_fields s @ [d]\<rparr> in
             (s1, Inr (Some (if length (pr_fields s1) = pr_fieldCount s1 then PrepFieldsEOF else PrepReadField)))))"
| "Prepare ev cached cmdPacket ParametersEOF (Some p) s =
     (if \<not> isEOF p then (cmd_say (ReportProtocolError ''Expected EOF packet after parameters'') s, Inr None)
      else if pr_fieldCount s > 0 then (s, Inr (Some PrepReadField))
      else prepareDone s)"
| "Prepare ev cached cmdPacket PrepFieldsEOF (Some p) s =
     (if \<not> isEOF p then (cmd_say (ReportProtocolError ''Expected EOF packet after fields'') s, Inr None)
      else prepareDone s)"

section \<open>Binlog dump\<close>

text \<open>The events of the binary log. A parser takes the packet after the event header.\<close>

record event_header =
  eh_timestamp :: nat
  eh_eventType :: "nat option"
  eh_serverId :: nat
  eh_eventSize :: nat
  eh_logPos :: nat
  eh_flags :: nat

definition BinlogEventHeader :: "event_header rd" where
  "BinlogEventHeader =
     rbind readInt32 (\<lambda>t. rbind readInt8 (\<lambda>ty. rbind readInt32 (\<lambda>i. rbind readInt32 (\<lambda>sz.
     rbind readInt32 (\<lambda>pos. rbind readInt16 (\<lambda>fl.
       rret \<lparr>eh_timestamp = t, eh_eventType = ty, eh_serverId = i, eh_eventSize = sz, eh_logPos = pos,
             eh_flags = fl\<rparr>))))))"

text \<open>\<open>binlog_query_statusvars.js\<close>. A value is a number or a text; the keys are those of the source.\<close>

datatype status_value = StatusNum int | StatusText jstring | StatusTexts "jstring list"

type_synonym status_vars = "(string \<times> status_value) list"

text \<open>\<open>readUInt32LE\<close> and the others raise outside the buffer; \<open>toString\<close> clamps.\<close>

definition sv_uint :: "nat \<Rightarrow> bytes \<Rightarrow> nat \<Rightarrow> status_value result" where
  "sv_uint n buf off = (case read_le n buf off of Inl e \<Rightarrow> Inl e | Inr v \<Rightarrow> Inr (StatusNum (int v)))"

definition sv_text :: "codec \<Rightarrow> bytes \<Rightarrow> nat \<Rightarrow> nat \<Rightarrow> status_value" where
  "sv_text c buf i j = StatusText (utf8Slice c (slice i (min j (length buf)) buf))"

text \<open>The scan \<open>while (buffer[offset++] && offset < buffer.length)\<close>.\<close>

function scan_db :: "bytes \<Rightarrow> nat \<Rightarrow> nat" where
  "scan_db buf i =
     (if (case byte_at buf i of None \<Rightarrow> False | Some b \<Rightarrow> b \<noteq> 0) \<and> i + 1 < length buf
      then scan_db buf (i + 1) else i + 1)"
  by pat_completeness auto
termination by (relation "measure (\<lambda>(buf, i). length buf - i)") auto

declare scan_db.simps [simp del]

fun read_dbs :: "codec \<Rightarrow> bytes \<Rightarrow> nat \<Rightarrow> nat \<Rightarrow> jstring list \<times> nat" where
  "read_dbs c buf 0 off = ([], off)"
| "read_dbs c buf (Suc n) off =
     (let off' = scan_db buf off;
          s = utf8Slice c (slice off (min (off' - 1) (length buf)) buf);
          (rest, stop) = read_dbs c buf n off'
      in (s # rest, stop))"

text \<open>
  One turn of the loop: the entry the key at \<open>off\<close> stands for, and the offset after it. A length
  byte outside the buffer is \<open>undefined\<close>; the offset is then no number and the loop ends
  (\<open>None\<close>). An unknown key takes its byte only.
\<close>

definition status_var :: "codec \<Rightarrow> bytes \<Rightarrow> nat \<Rightarrow> (status_vars \<times> nat option) result" where
  "status_var c buf off =
     (let key = unat (buf ! off); o1 = off + 1;
          num = (\<lambda>name n adv. case sv_uint n buf o1 of
                   Inl e \<Rightarrow> Inl e | Inr v \<Rightarrow> Inr ([(name, v)], Some (o1 + adv)));
          txt = (\<lambda>name extra. case byte_at buf o1 of
                   None \<Rightarrow> Inr ([(name, StatusText [])], None)
                 | Some n \<Rightarrow> Inr ([(name, sv_text c buf (o1 + 1) (o1 + 1 + n))], Some (o1 + 1 + n + extra)))
      in
      if key = 0 then num ''flags'' 4 4
      else if key = 1 then num ''sqlMode'' 4 8
      else if key = 2 then txt ''catalog'' 1
      else if key = 4 then
        (case sv_uint 2 buf o1 of Inl e \<Rightarrow> Inl e | Inr a \<Rightarrow>
         (case sv_uint 2 buf (o1 + 2) of Inl e \<Rightarrow> Inl e | Inr b \<Rightarrow>
          (case sv_uint 2 buf (o1 + 4) of Inl e \<Rightarrow> Inl e | Inr d \<Rightarrow>
             Inr ([(''clientCharset'', a), (''connectionCollation'', b), (''serverCharset'', d)], Some (o1 + 6)))))
      else if key = 5 then txt ''timeZone'' 0
      else if key = 6 then txt ''catalogNz'' 0
      else if key = 7 then num ''lcTimeNames'' 2 2
      else if key = 8 then num ''schemaCharset'' 2 2
      else if key = 9 then
        (case sv_uint 4 buf o1 of Inl e \<Rightarrow> Inl e | Inr a \<Rightarrow>
         (case sv_uint 4 buf (o1 + 4) of Inl e \<Rightarrow> Inl e | Inr b \<Rightarrow>
            Inr ([(''mapForUpdate1'', a), (''mapForUpdate2'', b)], Some (o1 + 8))))
      else if key = 10 then num ''masterDataWritten'' 4 4
      else if key = 11 then
        (case byte_at buf o1 of
           None \<Rightarrow> Inr ([(''invokerUsername'', StatusText []), (''invokerHostname'', StatusText [])], None)
         | Some n \<Rightarrow>
             let o2 = o1 + 1 + n; user = sv_text c buf (o1 + 1) o2 in
             (case byte_at buf o2 of
                None \<Rightarrow> Inr ([(''invokerUsername'', user), (''invokerHostname'', StatusText [])], None)
              | Some m \<Rightarrow> Inr ([(''invokerUsername'', user),
                              (''invokerHostname'', sv_text c buf (o2 + 1) (o2 + 1 + m))], Some (o2 + 1 + m))))
      else if key = 12 then
        (case byte_at buf o1 of
           None \<Rightarrow> Inr ([(''updatedDBs'', StatusTexts [])], Some (o1 + 1))
         | Some n \<Rightarrow>
             let (dbs, stop) = read_dbs c buf n (o1 + 1) in
             Inr ([(''updatedDBs'', StatusTexts dbs)], Some stop))
      else if key = 3 then
        (case read_le 2 buf o1 of
           Inl e \<Rightarrow> Inl e
         | Inr v \<Rightarrow> Inr ([(''microseconds'',
               StatusNum (signed_of 2 v + int (bits_of (byte_at buf (o1 + 2)) * 2 ^ 16)))], Some (o1 + 3)))
      else Inr ([], Some o1))"

text \<open>Every turn moves past its key, so the length of the buffer plus one is enough fuel.\<close>

fun status_loop :: "codec \<Rightarrow> nat \<Rightarrow> bytes \<Rightarrow> nat \<Rightarrow> status_vars result" where
  "status_loop c 0 buf off = Inr []"
| "status_loop c (Suc fuel) buf off =
     (if off < length buf then
        (case status_var c buf off of
           Inl e \<Rightarrow> Inl e
         | Inr (vs, None) \<Rightarrow> Inr vs
         | Inr (vs, Some off') \<Rightarrow>
             (case status_loop c fuel buf off' of Inl e \<Rightarrow> Inl e | Inr ws \<Rightarrow> Inr (vs @ ws)))
      else Inr [])"

definition parseStatusVars :: "codec \<Rightarrow> bytes \<Rightarrow> status_vars result" where
  "parseStatusVars c buf = status_loop c (length buf + 1) buf 0"

datatype binlog_event =
    RotateEvent nat jstring
  | FormatDescriptionEvent nat jstring nat "nat option" bytes
  | QueryEvent nat nat nat jstring status_vars jstring
  | XidEvent nat js_int
  | UnknownEvent

definition RotateEvent_parse :: "codec \<Rightarrow> binlog_event rd" where
  "RotateEvent_parse c =
     rbind readInt32 (\<lambda>pos. rbind readInt32 (\<lambda>_. rbind (readString c None None) (\<lambda>nb.
       rret (RotateEvent pos nb))))"

text \<open>\<open>replace(/\u0000.*/, '')\<close>: \<open>.\<close> stops at a line terminator, the rest stays.\<close>

definition line_end :: "16 word \<Rightarrow> bool" where
  "line_end ch \<longleftrightarrow> ch = 10 \<or> ch = 13 \<or> ch = 0x2028 \<or> ch = 0x2029"

definition strip_nul :: "jstring \<Rightarrow> jstring" where
  "strip_nul s = takeWhile (\<lambda>ch. ch \<noteq> 0) s @
     dropWhile (\<lambda>ch. \<not> line_end ch) (dropWhile (\<lambda>ch. ch \<noteq> 0) s)"

definition FormatDescriptionEvent_parse :: "codec \<Rightarrow> binlog_event rd" where
  "FormatDescriptionEvent_parse c =
     rbind readInt16 (\<lambda>v. rbind (readString c (Some 50) None) (\<lambda>sv. rbind readInt32 (\<lambda>t.
     rbind readInt8 (\<lambda>h. rbind readRest (\<lambda>b. rret (FormatDescriptionEvent v (strip_nul sv) t h b))))))"

definition QueryEvent_parse :: "codec \<Rightarrow> binlog_event rd" where
  "QueryEvent_parse c =
     rbind readInt32 (\<lambda>pid. rbind readInt32 (\<lambda>et. rbind readInt8 (\<lambda>slen. rbind readInt16 (\<lambda>ec.
     rbind readInt16 (\<lambda>vlen. rbind (readBuffer vlen) (\<lambda>vars.
     rbind (case slen of None \<Rightarrow> (\<lambda>_. Inl BadOffset) | Some n \<Rightarrow> readString c (Some n) None) (\<lambda>schema.
     rbind readInt8 (\<lambda>_. rbind (\<lambda>p. case parseStatusVars c vars of Inl e \<Rightarrow> Inl e | Inr v \<Rightarrow> Inr (v, p)) (\<lambda>v.
     rbind (readString c None None) (\<lambda>q. rret (QueryEvent pid et ec schema v q)))))))))))"

definition XidEvent_parse :: "long_lib \<Rightarrow> binlog_event rd" where
  "XidEvent_parse L = rbind readInt16 (\<lambda>v. rbind (readInt64 L) (\<lambda>x. rret (XidEvent v x)))"

definition parse_event :: "cmd_env \<Rightarrow> nat option \<Rightarrow> binlog_event rd" where
  "parse_event ev ty =
     (if ty = Some 2 then QueryEvent_parse (ev_codec ev)
      else if ty = Some 4 then RotateEvent_parse (ev_codec ev)
      else if ty = Some 15 then FormatDescriptionEvent_parse (ev_codec ev)
      else if ty = Some 16 then XidEvent_parse (ev_long ev)
      else rret UnknownEvent)"

text \<open>The handler of \<open>BinlogDump\<close>. The \<open>eof\<close> event carries no event.\<close>

type_synonym dump_event = "(event_header \<times> binlog_event) option"

fun BinlogDump ::
    "cmd_env \<Rightarrow> packet result \<Rightarrow> (simple_next, (simple_next, dump_event, 'z) command_scheme) handler" where
  "BinlogDump ev cmdPacket Start packet s = cmd_write cmdPacket (Some Response) s"
| "BinlogDump ev cmdPacket Response None s = (s, Inl TypeError)"
| "BinlogDump ev cmdPacket Response (Some p) s =
     (if isEOF p then (cmd_say (EmitCmd None) s, Inr None)
      else
        (case rbind readInt8 (\<lambda>_. rbind BinlogEventHeader (\<lambda>h.
                rbind (parse_event ev (eh_eventType h)) (\<lambda>e. rret (h, e)))) p of
           Inl e \<Rightarrow> (s, Inl e)
         | Inr (he, _) \<Rightarrow> (cmd_say (EmitCmd (Some he)) s, Inr (Some Response))))"

end
