(* ===== verification/QueryCommand.thy ===== *)
theory QueryCommand
  imports Commands
begin

text \<open>
  \<open>src/lib/commands/query.js\<close> and \<open>src/lib/commands/execute.js\<close>: the state machines that send a
  statement and collect its result sets. The row parser is a parameter: \<open>make_parser\<close> builds it
  from the columns, \<open>run_parser\<close> applies it to a row packet; both may raise. Debug output is left out.
\<close>

section \<open>State\<close>

datatype query_next = QueryStart | ResultsetHeaderS | QueryReadField | QueryFieldsEOF | Row | InfileOk

text \<open>An entry of \<open>_rows\<close>: the rows of a result set, or the header of a statement without one.\<close>

datatype 'row rows_entry = RowsOf "'row list" | HeaderOf "rs_header option"

text \<open>
  What is passed on: the rows and fields to the callback (those of the only result, or all), and
  the arguments of the events \<open>fields\<close> and \<open>result\<close>.
\<close>

datatype 'row query_out =
    OneResult "'row rows_entry option" "column list option"
  | AllResults "'row rows_entry list" "column list option list"
  | FieldsEvent "column list option"
  | HeaderEvent "rs_header option"
  | RowEvent 'row nat

record ('row, 'parser) query = "(query_next, 'row query_out) command" +
  q_timeout :: bool
  q_fieldCount :: js_int
  q_rowParser :: "'parser option"
  q_fields :: "column list option list"
  q_rows :: "'row rows_entry list"
  q_receivedFieldsCount :: nat
  q_resultIndex :: nat
  q_localStreamError :: "js_error option"
  q_streaming :: bool

definition new_query :: "bool \<Rightarrow> bool \<Rightarrow> ('row, 'parser) query" where
  "new_query onResult timeout =
     \<lparr>cmd_next = None, cmd_onResult = onResult, cmd_timer = False, cmd_log = [], q_timeout = timeout,
      q_fieldCount = IntNum 0, q_rowParser = None, q_fields = [], q_rows = [], q_receivedFieldsCount = 0,
      q_resultIndex = 0, q_localStreamError = None, q_streaming = False\<rparr>"

text \<open>What the command takes from the connection and its options.\<close>

record ('row, 'parser) query_env = cmd_env +
  qe_cmdPacket :: "packet result"
  qe_streamFactory :: bool
  qe_makeParser :: "column list \<Rightarrow> 'parser result"
  qe_runParser :: "'parser \<Rightarrow> packet \<Rightarrow> 'row result"

section \<open>The steps\<close>

definition setTimeout :: "('row, 'parser) query \<Rightarrow> ('row, 'parser) query" where
  "setTimeout s = (if q_timeout s then cmd_say StartTimer (s\<lparr>cmd_timer := True\<rparr>) else s)"

definition TimeoutError :: js_error where
  "TimeoutError = JsError ''PROTOCOL_SEQUENCE_TIMEOUT'' ''Query inactivity timeout''"

text \<open>\<open>_handleTimeoutError\<close>, which the timer calls.\<close>

definition query_timeout :: "('row, 'parser) query \<Rightarrow> ('row, 'parser) query" where
  "query_timeout s0 =
     (let s = stop_timer s0 in
      if cmd_onResult s then cmd_say (CallOnResult (Some TimeoutError) None) s
      else cmd_say (EmitCmdError TimeoutError) s)"

definition query_result :: "('row, 'parser) query \<Rightarrow> 'row query_out" where
  "query_result s =
     (if q_resultIndex s = 0
      then OneResult (if q_rows s = [] then None else Some (hd (q_rows s)))
             (if q_fields s = [] then None else hd (q_fields s))
      else AllResults (q_rows s) (q_fields s))"

definition done_query :: "('row, 'parser) query \<Rightarrow> ('row, 'parser) query \<times> query_next option result" where
  "done_query s0 =
     (let s = s0\<lparr>q_streaming := False\<rparr> in
      if q_timeout s \<and> \<not> cmd_timer s then (s, Inr None)
      else let s1 = stop_timer s in (call_back (Some (query_result s1)) s1, Inr None))"

definition moreResults :: "int \<Rightarrow> bool" where
  "moreResults status \<longleftrightarrow> status AND int (code_of ServerStatus ''SERVER_MORE_RESULTS_EXISTS'') \<noteq> 0"

definition doneInsert ::
    "rs_header option \<Rightarrow> ('row, 'parser) query \<Rightarrow> ('row, 'parser) query \<times> query_next option result" where
  "doneInsert rs s =
     (case q_localStreamError s of
        Some e \<Rightarrow>
          ((if cmd_onResult s then cmd_say (CallOnResult (Some e) (Some (HeaderEvent rs))) s
            else cmd_say (EmitCmdError e) s), Inr None)
      | None \<Rightarrow>
          let s1 = cmd_say (EmitCmd (HeaderEvent rs)) (cmd_say (EmitCmd (FieldsEvent None))
                     (s\<lparr>q_rows := q_rows s @ [HeaderOf rs], q_fields := q_fields s @ [None]\<rparr>)) in
          (case rs of
             None \<Rightarrow> (s1, Inl TypeError)
           | Some h \<Rightarrow>
               if (case rs_serverStatus h of None \<Rightarrow> False | Some st \<Rightarrow> moreResults (int st))
               then (s1\<lparr>q_resultIndex := q_resultIndex s1 + 1\<rparr>, Inr (Some ResultsetHeaderS))
               else done_query s1))"

text \<open>\<open>createEmptyPacket()\<close>: its four bytes are those of \<open>Buffer.allocUnsafe(4)\<close>, all header.\<close>

definition createEmptyPacket :: "(nat \<Rightarrow> bytes) \<Rightarrow> packet" where
  "createEmptyPacket mem = new_packet 0 (mem 4) 0 4"

definition streamLocalInfile ::
    "bool \<Rightarrow> (nat \<Rightarrow> bytes) \<Rightarrow> ('row, 'parser) query \<Rightarrow> ('row, 'parser) query" where
  "streamLocalInfile hasFactory mem s =
     (if hasFactory then s\<lparr>q_streaming := True\<rparr>
      else cmd_say (WriteCmd (createEmptyPacket mem))
             (s\<lparr>q_localStreamError := Some (JsError [] ''LOCAL INFILE without streamFactory'')\<rparr>))"

text \<open>The listeners on the local stream, while it is attached.\<close>

definition infile_data :: "(nat \<Rightarrow> bytes) \<Rightarrow> bytes \<Rightarrow> ('row, 'parser) query \<Rightarrow> ('row, 'parser) query" where
  "infile_data mem data s =
     (if q_streaming s
      then cmd_say (WriteCmd (new_packet 0 (copy_into data 4 (mem (length data + 4))) 0 (length data + 4))) s
      else s)"

definition infile_end :: "(nat \<Rightarrow> bytes) \<Rightarrow> ('row, 'parser) query \<Rightarrow> ('row, 'parser) query" where
  "infile_end mem s = (if q_streaming s then cmd_say (WriteCmd (createEmptyPacket mem)) s else s)"

definition infile_error :: "(nat \<Rightarrow> bytes) \<Rightarrow> js_error \<Rightarrow> ('row, 'parser) query \<Rightarrow> ('row, 'parser) query" where
  "infile_error mem e s =
     (if q_streaming s
      then cmd_say (WriteCmd (createEmptyPacket mem)) (s\<lparr>q_localStreamError := Some e\<rparr>) else s)"

definition read_header :: "'z cmd_env_scheme \<Rightarrow> packet \<Rightarrow> rs_header result" where
  "read_header ev p =
     (case ResultSetHeader (ev_long ev) (ev_codec ev) (ev_bigNumberStrings ev) (ev_serverEncoding ev)
             (ev_capabilities ev) p of
        Inl e \<Rightarrow> Inl e | Inr ((h, _), _) \<Rightarrow> Inr h)"

definition resultsetHeader ::
    "('row, 'parser) query_env \<Rightarrow> (nat \<Rightarrow> bytes) \<Rightarrow> packet \<Rightarrow> ('row, 'parser) query \<Rightarrow>
     ('row, 'parser) query \<times> query_next option result" where
  "resultsetHeader ev mem p s0 =
     (case read_header ev p of
        Inl e \<Rightarrow> (s0, Inl e)
      | Inr rs \<Rightarrow>
          let s = s0\<lparr>q_fieldCount := rs_fieldCount rs\<rparr> in
          if rs_fieldCount rs = IntNum 0 then doneInsert (Some rs) s
          else if rs_fieldCount rs = IntNull
          then (streamLocalInfile (qe_streamFactory ev) mem s, Inr (Some InfileOk))
          else (s\<lparr>q_receivedFieldsCount := 0, q_rows := q_rows s @ [RowsOf []],
                   q_fields := q_fields s @ [Some []]\<rparr>, Inr (Some QueryReadField)))"

text \<open>The list of fields under construction, \<open>this._fields[this._resultIndex]\<close>.\<close>

definition current_fields :: "('row, 'parser) query \<Rightarrow> column list option" where
  "current_fields s = (if q_resultIndex s < length (q_fields s) then q_fields s ! q_resultIndex s else None)"

definition add_field :: "column \<Rightarrow> ('row, 'parser) query \<Rightarrow> ('row, 'parser) query" where
  "add_field d s = s\<lparr>q_fields := (q_fields s)[q_resultIndex s := map_option (\<lambda>ds. ds @ [d]) (current_fields s)]\<rparr>"

text \<open>The end of \<open>readField\<close> in \<open>Query\<close>: the last definition builds the parser.\<close>

definition query_fields_done ::
    "('row, 'parser) query_env \<Rightarrow> ('row, 'parser) query \<Rightarrow> ('row, 'parser) query \<times> query_next option result" where
  "query_fields_done ev s =
     (if IntNum (int (q_receivedFieldsCount s)) = q_fieldCount s then
        let s1 = cmd_say (EmitCmd (FieldsEvent (current_fields s))) s in
        (case qe_makeParser ev (case current_fields s of None \<Rightarrow> [] | Some ds \<Rightarrow> ds) of
           Inl e \<Rightarrow> (s1, Inl e)
         | Inr pr \<Rightarrow> (s1\<lparr>q_rowParser := Some pr\<rparr>, Inr (Some QueryFieldsEOF)))
      else (s, Inr (Some QueryReadField)))"

definition query_readField ::
    "('row, 'parser) query_env \<Rightarrow> packet \<Rightarrow> ('row, 'parser) query \<Rightarrow>
     ('row, 'parser) query \<times> query_next option result" where
  "query_readField ev p s0 =
     (let s = s0\<lparr>q_receivedFieldsCount := q_receivedFieldsCount s0 + 1\<rparr> in
      case current_fields s of
        None \<Rightarrow> (s, Inl TypeError)
      | Some ds \<Rightarrow>
          if IntNum (int (length ds)) \<noteq> q_fieldCount s then
            (case read_column ev p of
               Inl e \<Rightarrow> (s, Inl e)
             | Inr d \<Rightarrow> query_fields_done ev (add_field d s))
          else query_fields_done ev s)"

definition query_fieldsEOF ::
    "packet \<Rightarrow> ('row, 'parser) query \<Rightarrow> ('row, 'parser) query \<times> query_next option result" where
  "query_fieldsEOF p s =
     (if \<not> isEOF p then (cmd_say (ReportProtocolError ''Expected EOF packet'') s, Inr None)
      else (s, Inr (Some Row)))"

text \<open>\<open>this._currentRows.push(row)\<close>: the list is the last entry of \<open>_rows\<close>.\<close>

definition add_row :: "'row \<Rightarrow> 'row rows_entry list \<Rightarrow> 'row rows_entry list" where
  "add_row r rows =
     (case rev rows of
        RowsOf rs # rest \<Rightarrow> rev rest @ [RowsOf (rs @ [r])]
      | _ \<Rightarrow> rows)"

definition query_row ::
    "('row, 'parser) query_env \<Rightarrow> packet \<Rightarrow> ('row, 'parser) query \<Rightarrow>
     ('row, 'parser) query \<times> query_next option result" where
  "query_row ev p s =
     (if isEOF p then
        (case eofStatusFlags p of
           Inl e \<Rightarrow> (s, Inl e)
         | Inr st \<Rightarrow>
             if moreResults st then (s\<lparr>q_resultIndex := q_resultIndex s + 1\<rparr>, Inr (Some ResultsetHeaderS))
             else done_query s)
      else
        (case (case q_rowParser s of None \<Rightarrow> Inl TypeError | Some pr \<Rightarrow> qe_runParser ev pr p) of
           Inl e \<Rightarrow> doneInsert None (s\<lparr>q_localStreamError := Some e\<rparr>)
         | Inr r \<Rightarrow>
             ((if cmd_onResult s then s\<lparr>q_rows := add_row r (q_rows s)\<rparr>
               else cmd_say (EmitCmd (RowEvent r (q_resultIndex s))) s), Inr (Some Row))))"

definition infileOk ::
    "('row, 'parser) query_env \<Rightarrow> packet \<Rightarrow> ('row, 'parser) query \<Rightarrow>
     ('row, 'parser) query \<times> query_next option result" where
  "infileOk ev p s = (case read_header ev p of Inl e \<Rightarrow> (s, Inl e) | Inr rs \<Rightarrow> doneInsert (Some rs) s)"

text \<open>The handler of \<open>Query\<close>.\<close>

fun Query ::
    "('row, 'parser) query_env \<Rightarrow> (nat \<Rightarrow> bytes) \<Rightarrow> (query_next, ('row, 'parser) query) handler" where
  "Query ev mem QueryStart packet s = cmd_write (qe_cmdPacket ev) (Some ResultsetHeaderS) (setTimeout s)"
| "Query ev mem n None s = (s, Inl TypeError)"
| "Query ev mem ResultsetHeaderS (Some p) s = resultsetHeader ev mem p s"
| "Query ev mem QueryReadField (Some p) s = query_readField ev p s"
| "Query ev mem QueryFieldsEOF (Some p) s = query_fieldsEOF p s"
| "Query ev mem Row (Some p) s = query_row ev p s"
| "Query ev mem InfileOk (Some p) s = infileOk ev p s"

text \<open>
  \<open>Execute\<close> shares most steps. Its \<open>readField\<close> keeps every definition, its \<open>fieldsEOF\<close> builds the
  parser, and an exception while the packet is built is passed to the callback. It has no
  \<open>infileOk\<close>: the state that waits for the answer to a local file is \<open>undefined\<close>, which ends the
  command.
\<close>

definition execute_start ::
    "('row, 'parser) query_env \<Rightarrow> ('row, 'parser) query \<Rightarrow> ('row, 'parser) query \<times> query_next option result" where
  "execute_start ev s0 =
     (let s = setTimeout s0 in
      case qe_cmdPacket ev of
        Inr p \<Rightarrow> (cmd_say (WriteCmd p) s, Inr (Some ResultsetHeaderS))
      | Inl e \<Rightarrow>
          let s1 = stop_timer s in
          ((if cmd_onResult s1 then cmd_say (CallOnResult (Some e) None) s1 else cmd_say (EmitCmdError e) s1),
           Inr None))"

definition execute_readField ::
    "('row, 'parser) query_env \<Rightarrow> packet \<Rightarrow> ('row, 'parser) query \<Rightarrow>
     ('row, 'parser) query \<times> query_next option result" where
  "execute_readField ev p s =
     (case read_column ev p of
        Inl e \<Rightarrow> (s, Inl e)
      | Inr d \<Rightarrow>
          let s1 = s\<lparr>q_receivedFieldsCount := q_receivedFieldsCount s + 1\<rparr> in
          (case current_fields s1 of
             None \<Rightarrow> (s1, Inl TypeError)
           | Some ds \<Rightarrow>
               let s2 = add_field d s1 in
               if IntNum (int (q_receivedFieldsCount s2)) = q_fieldCount s2
               then (cmd_say (EmitCmd (FieldsEvent (current_fields s2))) s2, Inr (Some QueryFieldsEOF))
               else (s2, Inr (Some QueryReadField))))"

definition execute_fieldsEOF ::
    "('row, 'parser) query_env \<Rightarrow> packet \<Rightarrow> ('row, 'parser) query \<Rightarrow>
     ('row, 'parser) query \<times> query_next option result" where
  "execute_fieldsEOF ev p s =
     (if \<not> isEOF p then (cmd_say (ReportProtocolError ''Expected EOF packet'') s, Inr None)
      else
        (case qe_makeParser ev (case current_fields s of None \<Rightarrow> [] | Some ds \<Rightarrow> ds) of
           Inl e \<Rightarrow> (s, Inl e)
         | Inr pr \<Rightarrow> (s\<lparr>q_rowParser := Some pr\<rparr>, Inr (Some Row))))"

definition execute_header ::
    "('row, 'parser) query_env \<Rightarrow> (nat \<Rightarrow> bytes) \<Rightarrow> packet \<Rightarrow> ('row, 'parser) query \<Rightarrow>
     ('row, 'parser) query \<times> query_next option result" where
  "execute_header ev mem p s =
     (case resultsetHeader ev mem p s of
        (s1, Inr (Some InfileOk)) \<Rightarrow> (s1, Inr None)
      | r \<Rightarrow> r)"

fun Execute ::
    "('row, 'parser) query_env \<Rightarrow> (nat \<Rightarrow> bytes) \<Rightarrow> (query_next, ('row, 'parser) query) handler" where
  "Execute ev mem QueryStart packet s = execute_start ev s"
| "Execute ev mem n None s = (s, Inl TypeError)"
| "Execute ev mem ResultsetHeaderS (Some p) s = execute_header ev mem p s"
| "Execute ev mem QueryReadField (Some p) s = execute_readField ev p s"
| "Execute ev mem QueryFieldsEOF (Some p) s = execute_fieldsEOF ev p s"
| "Execute ev mem Row (Some p) s = query_row ev p s"
| "Execute ev mem InfileOk (Some p) s = (s, Inr None)"

section \<open>Runs\<close>

text \<open>Packets handed to a command until it ends: the state, the outcome and the packets left.\<close>

fun feed ::
    "(packet option \<Rightarrow> 's \<Rightarrow> 's \<times> exec_outcome) \<Rightarrow> packet option list \<Rightarrow> 's \<Rightarrow>
     's \<times> exec_outcome \<times> packet option list" where
  "feed exec [] s = (s, Continues, [])"
| "feed exec (p # ps) s =
     (case exec p s of
        (s', Continues) \<Rightarrow> feed exec ps s'
      | (s', r) \<Rightarrow> (s', r, ps))"

definition query_exec ::
    "('row, 'parser) query_env \<Rightarrow> (nat \<Rightarrow> bytes) \<Rightarrow> packet option \<Rightarrow> ('row, 'parser) query \<Rightarrow>
     ('row, 'parser) query \<times> exec_outcome" where
  "query_exec ev mem = Command_execute (ev_codec ev) (ev_clientEncoding ev) QueryStart (Query ev mem)"

lemma feed_Cons: "exec p s = (s', Continues) \<Longrightarrow> feed exec (p # ps) s = feed exec ps s'"
  by simp

lemma feed_append:
  "feed exec ps s = (s', Continues, []) \<Longrightarrow> feed exec (ps @ qs) s = feed exec qs s'"
  by (induction ps arbitrary: s) (auto split: prod.splits exec_outcome.splits)

text \<open>Calls of the callback and protocol errors reported.\<close>

definition calls :: "'r cmd_effect list \<Rightarrow> (js_error option \<times> 'r option) list" where
  "calls l = List.map_filter (\<lambda>e. case e of CallOnResult err r \<Rightarrow> Some (err, r) | _ \<Rightarrow> None) l"

lemma calls_simps [simp]:
  "calls [] = []" "calls (k @ l) = calls k @ calls l"
  "calls (e # l) = (case e of CallOnResult err r \<Rightarrow> [(err, r)] | _ \<Rightarrow> []) @ calls l"
  by (auto simp: calls_def List.map_filter_def split: cmd_effect.split)

definition reports :: "'r cmd_effect list \<Rightarrow> bool" where
  "reports l \<longleftrightarrow> (\<exists>m. ReportProtocolError m \<in> set l)"

text \<open>
  What one step does to the callback, when there is one and no timeout is set: a step that goes on
  or raises makes no call and reports nothing, one that ends either makes exactly one call or
  reports a protocol error, never both.
\<close>

definition step_calls :: "('row, 'parser) query \<Rightarrow> ('row, 'parser) query \<times> query_next option result \<Rightarrow> bool" where
  "step_calls s r \<longleftrightarrow>
     cmd_onResult (fst r) = cmd_onResult s \<and> q_timeout (fst r) = q_timeout s \<and>
     cmd_timer (fst r) = cmd_timer s \<and>
     (case snd r of
        Inr None \<Rightarrow>
          length (calls (cmd_log (fst r))) = Suc (length (calls (cmd_log s))) \<and>
            reports (cmd_log (fst r)) = reports (cmd_log s) \<or>
          calls (cmd_log (fst r)) = calls (cmd_log s) \<and> reports (cmd_log (fst r))
      | _ \<Rightarrow> calls (cmd_log (fst r)) = calls (cmd_log s) \<and> reports (cmd_log (fst r)) = reports (cmd_log s))"

lemma reports_simps [simp]:
  "reports [] = False" "reports (k @ l) = (reports k \<or> reports l)"
  "reports (e # l) = ((\<exists>m. e = ReportProtocolError m) \<or> reports l)"
  by (auto simp: reports_def)

lemma cmd_say_simps [simp]:
  "cmd_log (cmd_say e s) = cmd_log s @ [e]" "cmd_onResult (cmd_say e s) = cmd_onResult s"
  "cmd_timer (cmd_say e s) = cmd_timer s" "cmd_next (cmd_say e s) = cmd_next s"
  by (simp_all add: cmd_say_def)

lemma q_say_simps [simp]:
  "q_timeout (cmd_say e s) = q_timeout s" "q_fieldCount (cmd_say e s) = q_fieldCount s"
  "q_rows (cmd_say e s) = q_rows s" "q_fields (cmd_say e s) = q_fields s"
  "q_receivedFieldsCount (cmd_say e s) = q_receivedFieldsCount s"
  "q_resultIndex (cmd_say e s) = q_resultIndex s" "q_rowParser (cmd_say e s) = q_rowParser s"
  "q_localStreamError (cmd_say e s) = q_localStreamError s" "q_streaming (cmd_say e s) = q_streaming s"
  by (simp_all add: cmd_say_def)

lemma current_fields_say [simp]: "current_fields (cmd_say e s) = current_fields s"
  by (simp add: current_fields_def)

lemma step_calls_same [simp]:
  "step_calls s (s, Inl e)" "step_calls s (s, Inr (Some n))"
  "step_calls (s\<lparr>q_fieldCount := k\<rparr>) r = step_calls s r"
  "step_calls (s\<lparr>q_localStreamError := err\<rparr>) r = step_calls s r"
  by (simp_all add: step_calls_def split: sum.split option.split)

lemma done_query_calls:
  assumes "cmd_onResult s" and "\<not> q_timeout s" and "\<not> cmd_timer s"
  shows "step_calls s (done_query s)"
  using assms by (simp add: done_query_def step_calls_def stop_timer_def call_back_def Let_def)

lemma doneInsert_calls:
  assumes "cmd_onResult s" and "\<not> q_timeout s" and "\<not> cmd_timer s"
  shows "step_calls s (doneInsert rs s)"
  using assms
  by (auto simp: doneInsert_def done_query_def step_calls_def stop_timer_def call_back_def Let_def
      split: option.split)

lemma resultsetHeader_calls:
  assumes "cmd_onResult s" and "\<not> q_timeout s" and "\<not> cmd_timer s"
  shows "step_calls s (resultsetHeader ev mem p s)"
proof (cases "read_header ev p")
  case (Inr rs)
  let ?s = "s\<lparr>q_fieldCount := rs_fieldCount rs\<rparr>"
  have "step_calls ?s (doneInsert (Some rs) ?s)"
    using assms by (intro doneInsert_calls) simp_all
  then show ?thesis
    using Inr assms by (auto simp: resultsetHeader_def Let_def)
      (auto simp: streamLocalInfile_def step_calls_def)
qed (simp add: resultsetHeader_def)

lemma query_row_calls:
  assumes "cmd_onResult s" and "\<not> q_timeout s" and "\<not> cmd_timer s"
  shows "step_calls s (query_row ev p s)"
proof -
  have "step_calls (s\<lparr>q_localStreamError := Some e\<rparr>) (doneInsert None (s\<lparr>q_localStreamError := Some e\<rparr>))" for e
    using assms by (intro doneInsert_calls) simp_all
  then show ?thesis
    using assms done_query_calls [OF assms]
    by (auto simp: query_row_def split: sum.split) (auto simp: step_calls_def)
qed

lemma query_readField_calls: "step_calls s (query_readField ev p s)"
  by (auto simp: query_readField_def query_fields_done_def add_field_def step_calls_def Let_def
      split: option.split sum.split)

lemma infileOk_calls:
  assumes "cmd_onResult s" and "\<not> q_timeout s" and "\<not> cmd_timer s"
  shows "step_calls s (infileOk ev p s)"
  using doneInsert_calls [OF assms] by (simp add: infileOk_def split: sum.split)

lemma Query_calls:
  assumes "cmd_onResult s" and "\<not> q_timeout s" and "\<not> cmd_timer s"
  shows "step_calls s (Query ev mem n packet s)"
proof -
  have started: "step_calls s (cmd_write r (Some ResultsetHeaderS) (setTimeout s))" for r
    using assms by (auto simp: cmd_write_def setTimeout_def step_calls_def split: sum.split)
  have eof: "step_calls s (query_fieldsEOF p s)" for p
    by (auto simp: query_fieldsEOF_def step_calls_def)
  show ?thesis
    using assms started eof
    by (cases n; cases packet) (simp_all add: resultsetHeader_calls query_row_calls query_readField_calls infileOk_calls)
qed

text \<open>The state between two packets of a command that goes on.\<close>

definition waiting :: "('row, 'parser) query \<Rightarrow> bool" where
  "waiting s \<longleftrightarrow> cmd_onResult s \<and> \<not> q_timeout s \<and> \<not> cmd_timer s \<and> calls (cmd_log s) = [] \<and>
     \<not> reports (cmd_log s)"

lemma query_exec_calls:
  assumes "waiting s" and "query_exec ev mem p s = (t, r)"
  shows "case r of
      Continues \<Rightarrow> waiting t
    | Finished \<Rightarrow> length (calls (cmd_log t)) = (if reports (cmd_log t) then 0 else 1)
    | Threw e \<Rightarrow> calls (cmd_log t) = [] \<and> \<not> reports (cmd_log t)"
proof -
  define s1 where "s1 = (if cmd_next s = None then cmd_say ResetSequence (s\<lparr>cmd_next := Some QueryStart\<rparr>) else s)"
  have s1: "waiting s1"
    using assms(1) by (auto simp: s1_def waiting_def cmd_say_def)
  show ?thesis
  proof (cases "\<exists>q\<in>set_option p. isError q")
    case True
    then show ?thesis
      using assms(2) s1
      by (auto simp: query_exec_def Command_execute_def s1_def [symmetric] cmd_failed_def stop_timer_def
          waiting_def split: sum.splits)
  next
    case False
    obtain u x where u: "Query ev mem (the (cmd_next s1)) p s1 = (u, x)"
      by (meson surj_pair)
    have "step_calls s1 (u, x)"
      using Query_calls [of s1 ev mem "the (cmd_next s1)" p] s1 u by (simp add: waiting_def)
    moreover have "(t, r) = (case (u, x) of (s2, Inl e) \<Rightarrow> (s2, Threw e)
         | (s2, Inr (Some n)) \<Rightarrow> (s2\<lparr>cmd_next := Some n\<rparr>, Continues)
         | (s2, Inr None) \<Rightarrow> (cmd_say EmitCmdEnd (s2\<lparr>cmd_next := None\<rparr>), Finished))"
      using assms(2) False u by (simp add: query_exec_def Command_execute_def s1_def [symmetric])
    ultimately show ?thesis
      using s1 by (auto simp: step_calls_def waiting_def split: sum.splits option.splits)
  qed
qed

text \<open>A step of a query that goes on.\<close>

lemma query_continues:
  assumes "cmd_next s = Some n" and "\<not> isError p" and "Query ev mem n (Some p) s = (t, Inr (Some m))"
  shows "query_exec ev mem (Some p) s = (t\<lparr>cmd_next := Some m\<rparr>, Continues)"
  using assms by (simp add: query_exec_def Command_execute_def)

lemma query_finishes:
  assumes "cmd_next s = Some n" and "\<not> isError p" and "Query ev mem n (Some p) s = (t, Inr None)"
  shows "query_exec ev mem (Some p) s = (cmd_say EmitCmdEnd (t\<lparr>cmd_next := None\<rparr>), Finished)"
  using assms by (simp add: query_exec_def Command_execute_def)

lemma query_starts:
  assumes "qe_cmdPacket ev = Inr req"
  shows "query_exec ev mem None (new_query True False) =
    ((new_query True False)\<lparr>cmd_next := Some ResultsetHeaderS, cmd_log := [ResetSequence, WriteCmd req]\<rparr>, Continues)"
  using assms
  by (simp add: query_exec_def Command_execute_def new_query_def cmd_say_def cmd_write_def setTimeout_def)

section \<open>A concrete connection\<close>

text \<open>A concrete environment and answer.\<close>

definition small_env :: "(nat, unit) query_env" where
  "small_env =
     \<lparr>ev_long = long_impl, ev_codec = latin1_codec, ev_clientEncoding = Some ''latin1'',
      ev_serverEncoding = Some ''latin1'', ev_extendedMetadata = False, ev_bigNumberStrings = False,
      ev_capabilities = 512, qe_cmdPacket = Inr (new_packet 0 [2, 0, 0, 0, 3, 65] 0 6),
      qe_streamFactory = False, qe_makeParser = \<lambda>_. Inr (), qe_runParser = \<lambda>_ p. Inr (packet_length p)\<rparr>"

lemma rbind_Inr: "m p = Inr (x, q) \<Longrightarrow> rbind m f p = f x q"
  by (simp add: rbind_def)

lemma read_slot_small:
  assumes "byte_at (buffer p) (offset p) = Some n" and "n < 251"
  shows "read_slot L p = Inr ((Suc (offset p), n), p\<lparr>offset := Suc (offset p) + n\<rparr>)"
  using assms
  by (simp add: read_slot_def readLength_def readLengthCodedNumber_def rbind_def rret_def readInt8_def)

lemma small_column_read:
  "\<exists>d. read_column small_env
     (new_packet 2 [18, 0, 0, 2, 0, 0, 0, 0, 0, 0, 12, 63, 0, 0, 0, 0, 0, 3, 0, 0, 0, 0] 0 22) = Inr d"
proof -
  have "CharsetToEncoding 63 = Some ''binary''" by code_simp
  then show ?thesis
  by (simp add: read_column_def ColumnDefinition_def small_env_def rbind_Inr read_slot_small rret_def
    readInt8_def new_packet_def byte_at_def rskip_def skip_def readInt16_def readInt32_def read_uint_def read_le_def
    slice_def decodeShort_def column_encoding_def latin1Slice_def shortAscii_def)
qed

lemma small_header_read:
  "\<exists>h. read_header small_env (new_packet 1 [1, 0, 0, 1, 1] 0 5) = Inr h \<and> rs_fieldCount h = IntNum (int 1)"
  by (simp add: read_header_def ResultSetHeader_def small_env_def rbind_Inr rret_def new_packet_def byte_at_def
    readLengthCodedNumber_def readInt8_def)

lemma small_insert:
  "\<exists>t. feed (query_exec small_env (\<lambda>n. replicate n 9))
      [None, Some (new_packet 1 [7, 0, 0, 1, 0, 0, 0, 2, 0, 0, 0] 0 11)] (new_query True False) = (t, Finished, [])"
proof -
  let ?p = "new_packet 1 [7, 0, 0, 1, 0, 0, 0, 2, 0, 0, 0] 0 11"
  have "\<exists>h. read_header small_env ?p = Inr h \<and>
      rs_fieldCount h = IntNum 0 \<and> rs_serverStatus h = Some 2"
    by (simp add: small_env_def new_packet_def byte_at_def read_header_def ResultSetHeader_def rbind_Inr rret_def
        readInt8_def readLengthCodedNumber_def readLengthCodedNumberSigned_def isSet_def code_of_def ClientConstants_def
        readInt16_def read_uint_def read_le_def slice_def readString_def decode_def)
  then obtain h where h: "read_header small_env ?p = Inr h" "rs_fieldCount h = IntNum 0" "rs_serverStatus h = Some 2"
    by blast
  let ?s = "(new_query True False)\<lparr>cmd_next := Some ResultsetHeaderS,
    cmd_log := [ResetSequence, WriteCmd (new_packet 0 [2, 0, 0, 0, 3, 65] 0 6)]\<rparr> :: (nat, unit) query"
  have "\<not> moreResults 2"
    by (simp add: moreResults_def code_of_def ServerStatus_def)
  then have "\<exists>u. Query small_env (\<lambda>n. replicate n 9) ResultsetHeaderS (Some ?p) ?s = (u, Inr None)"
    using h by (simp add: resultsetHeader_def doneInsert_def done_query_def new_query_def Let_def)
  then obtain u where u: "Query small_env (\<lambda>n. replicate n 9) ResultsetHeaderS (Some ?p) ?s = (u, Inr None)"
    by blast
  have "\<not> isError ?p"
    by (simp add: isError_def peekByte_def new_packet_def byte_at_def)
  moreover have "qe_cmdPacket small_env = Inr (new_packet 0 [2, 0, 0, 0, 3, 65] 0 6)"
    by (simp add: small_env_def)
  ultimately show ?thesis
    using query_finishes [OF _ _ u] by (simp add: query_starts)
qed

section \<open>Properties\<close>

text \<open>
  Claim C39. A query with a callback and no timeout calls it at most once, whatever packets arrive:
  exactly once when the command ends, or not at all if it ends with a protocol error it reported to
  the connection; not at all while it goes on or when it raises (the connection then tells it of the
  error), and in those cases nothing was reported.
\<close>

theorem query_calls_back_once:
  assumes "feed (query_exec ev mem) ps (new_query True False) = (t, r, rest)"
  shows "case r of
      Finished \<Rightarrow> length (calls (cmd_log t)) = (if reports (cmd_log t) then 0 else 1)
    | _ \<Rightarrow> calls (cmd_log t) = [] \<and> \<not> reports (cmd_log t)"
proof -
  have "case r of
      Finished \<Rightarrow> length (calls (cmd_log t)) = (if reports (cmd_log t) then 0 else 1)
    | _ \<Rightarrow> calls (cmd_log t) = [] \<and> \<not> reports (cmd_log t)"
    if "waiting s" "feed (query_exec ev mem) ps s = (t, r, rest)" for s :: "('a, 'b) query"
    using that
  proof (induction ps arbitrary: s)
    case Nil
    then show ?case by (auto simp: waiting_def)
  next
    case (Cons p ps)
    obtain u x where u: "query_exec ev mem p s = (u, x)"
      by (meson surj_pair)
    show ?case
      using query_exec_calls [OF Cons.prems(1) u] Cons.IH [of u] Cons.prems(2) u
      by (cases x) auto
  qed
  moreover have "waiting (new_query True False)"
    by (simp add: waiting_def new_query_def)
  ultimately show ?thesis using assms by blast
qed

theorem query_calls_back_once_witness:
  "\<exists>t. feed (query_exec small_env (\<lambda>n. replicate n 9))
      [None, Some (new_packet 1 [7, 0, 0, 1, 0, 0, 0, 2, 0, 0, 0] 0 11)] (new_query True False) = (t, Finished, []) \<and>
    length (calls (cmd_log t)) = (if reports (cmd_log t) then 0 else 1)"
proof -
  obtain t where t: "feed (query_exec small_env (\<lambda>n. replicate n 9))
      [None, Some (new_packet 1 [7, 0, 0, 1, 0, 0, 0, 2, 0, 0, 0] 0 11)] (new_query True False) = (t, Finished, [])"
    using small_insert by blast
  show ?thesis
    using t query_calls_back_once [OF t, unfolded exec_outcome.case] by blast
qed

text \<open>The column definitions of a result set, one packet each.\<close>

lemma query_reads_fields:
  assumes "list_all2 (\<lambda>p d. \<not> isError p \<and> read_column ev p = Inr d) ps ds" and "ps \<noteq> []"
    and "cmd_next s = Some QueryReadField" and "current_fields s = Some acc"
    and "q_receivedFieldsCount s = length acc"
    and "q_fieldCount s = IntNum (int (length acc + length ds))"
    and "qe_makeParser ev (acc @ ds) = Inr pr"
  shows "feed (query_exec ev mem) (map Some ps) s =
    (s\<lparr>cmd_next := Some QueryFieldsEOF, q_receivedFieldsCount := length acc + length ds,
       q_fields := (q_fields s)[q_resultIndex s := Some (acc @ ds)], q_rowParser := Some pr,
       cmd_log := cmd_log s @ [EmitCmd (FieldsEvent (Some (acc @ ds)))]\<rparr>, Continues, [])"
  using assms
proof (induction ps arbitrary: ds acc s)
  case (Cons p ps)
  then obtain d ds' where ds: "ds = d # ds'" "\<not> isError p" "read_column ev p = Inr d"
    "list_all2 (\<lambda>p d. \<not> isError p \<and> read_column ev p = Inr d) ps ds'"
    by (auto simp: list_all2_Cons1)
  have idx: "q_resultIndex s < length (q_fields s)"
    using Cons.prems(4) by (auto simp: current_fields_def split: if_splits)
  define s1 where "s1 = add_field d (s\<lparr>q_receivedFieldsCount := length acc + 1\<rparr>)"
  have cur: "current_fields s1 = Some (acc @ [d])" "cmd_next s1 = cmd_next s"
    "q_fieldCount s1 = q_fieldCount s" "q_receivedFieldsCount s1 = length acc + 1" "q_resultIndex s1 = q_resultIndex s"
    "q_fields s1 = (q_fields s)[q_resultIndex s := Some (acc @ [d])]" "cmd_log s1 = cmd_log s"
    using Cons.prems(4) idx by (simp_all add: s1_def add_field_def current_fields_def)
  have step: "Query ev mem QueryReadField (Some p) s = query_fields_done ev s1"
  proof -
    have "current_fields (s\<lparr>q_receivedFieldsCount := k\<rparr>) = Some acc" for k
      using Cons.prems(4) by (auto simp: current_fields_def split: if_splits)
    then show ?thesis
      using Cons.prems(5,6) ds by (simp add: query_readField_def s1_def Let_def)
  qed
  show ?case
  proof (cases "ps = []")
    case True
    then have "ds' = []" using ds(4) by simp
    then have last: "query_fields_done ev s1 = ((cmd_say (EmitCmd (FieldsEvent (Some (acc @ [d])))) s1)
        \<lparr>q_rowParser := Some pr\<rparr>, Inr (Some QueryFieldsEOF))"
      using cur Cons.prems(6,7) ds(1) by (simp add: query_fields_done_def Let_def)
    show ?thesis
      using query_continues [OF Cons.prems(3) ds(2) step [unfolded last]] True \<open>ds' = []\<close> ds(1) cur
        feed_Cons [of "query_exec ev mem"]
      by (simp add: cmd_say_def s1_def add_field_def)
  next
    case False
    then have more: "length ds' \<noteq> 0" using ds(4) by auto
    then have more_to_come: "query_fields_done ev s1 = (s1, Inr (Some QueryReadField))"
      using cur Cons.prems(6) ds(1) by (simp add: query_fields_done_def)
    have "query_exec ev mem (Some p) s = (s1, Continues)"
      using query_continues [OF Cons.prems(3) ds(2) step [unfolded more_to_come]] cur(2) Cons.prems(3) by simp
    moreover have "feed (query_exec ev mem) (map Some ps) s1 =
      (s1\<lparr>cmd_next := Some QueryFieldsEOF, q_receivedFieldsCount := length (acc @ [d]) + length ds',
         q_fields := (q_fields s1)[q_resultIndex s1 := Some ((acc @ [d]) @ ds')], q_rowParser := Some pr,
         cmd_log := cmd_log s1 @ [EmitCmd (FieldsEvent (Some ((acc @ [d]) @ ds')))]\<rparr>, Continues, [])"
      using Cons.IH [OF ds(4) False, of s1 "acc @ [d]"] cur Cons.prems(3,6,7) ds(1) by simp
    ultimately show ?thesis
      using ds(1) cur by (simp add: s1_def add_field_def)
  qed
qed simp

text \<open>The rows of a result set, collected for the callback.\<close>

lemma query_reads_rows:
  assumes "list_all2 (\<lambda>p r. \<not> isError p \<and> \<not> isEOF p \<and> qe_runParser ev pr p = Inr r) ps rs"
    and "cmd_next s = Some Row" and "cmd_onResult s" and "q_rowParser s = Some pr"
    and "q_rows s = before @ [RowsOf acc]"
  shows "feed (query_exec ev mem) (map Some ps) s =
    (s\<lparr>q_rows := before @ [RowsOf (acc @ rs)]\<rparr>, Continues, [])"
  using assms
proof (induction ps arbitrary: rs acc s)
  case Nil
  then show ?case by simp
next
  case (Cons p ps)
  then obtain r rs' where rs: "rs = r # rs'" "\<not> isError p" "\<not> isEOF p" "qe_runParser ev pr p = Inr r"
    "list_all2 (\<lambda>p r. \<not> isError p \<and> \<not> isEOF p \<and> qe_runParser ev pr p = Inr r) ps rs'"
    by (auto simp: list_all2_Cons1)
  have "Query ev mem Row (Some p) s = (s\<lparr>q_rows := before @ [RowsOf (acc @ [r])]\<rparr>, Inr (Some Row))"
    using Cons.prems rs by (simp add: query_row_def add_row_def)
  from query_continues [OF Cons.prems(2) rs(2) this]
  have "query_exec ev mem (Some p) s = (s\<lparr>q_rows := before @ [RowsOf (acc @ [r])]\<rparr>, Continues)"
    using Cons.prems(2) by simp
  then show ?case
    using Cons.IH [OF rs(5), of "s\<lparr>q_rows := before @ [RowsOf (acc @ [r])]\<rparr>" "acc @ [r]"] Cons.prems rs(1)
    by simp
qed

text \<open>The request and the header of the first result set.\<close>

definition opened :: "packet \<Rightarrow> js_int \<Rightarrow> ('row, 'parser) query" where
  "opened req n =
     (new_query True False)\<lparr>cmd_next := Some QueryReadField, cmd_log := [ResetSequence, WriteCmd req],
       q_fieldCount := n, q_rows := [RowsOf []], q_fields := [Some []]\<rparr>"

lemma query_opens:
  assumes "qe_cmdPacket ev = Inr req" and "\<not> isError h" and "read_header ev h = Inr rs"
    and "rs_fieldCount rs = IntNum (int n)" and "n \<noteq> 0"
  shows "feed (query_exec ev mem) [None, Some h] (new_query True False) = (opened req (IntNum (int n)), Continues, [])"
  using assms
  by (simp add: query_exec_def Command_execute_def new_query_def cmd_say_def cmd_write_def setTimeout_def
      resultsetHeader_def opened_def Let_def)

lemma EOF_no_error: "isEOF p \<Longrightarrow> \<not> isError p"
  by (simp add: isEOF_def isError_def)

lemma query_ends_columns:
  assumes "isEOF e" and "cmd_next s = Some QueryFieldsEOF"
  shows "feed (query_exec ev mem) [Some e] s = (s\<lparr>cmd_next := Some Row\<rparr>, Continues, [])"
  using query_continues [OF assms(2) EOF_no_error [OF assms(1)], of ev mem s Row] assms(1)
  by (simp add: query_fieldsEOF_def)

lemma query_ends_rows:
  assumes "isEOF e" and "eofStatusFlags e = Inr st" and "\<not> moreResults st" and "cmd_next s = Some Row"
    and "cmd_onResult s" and "\<not> q_timeout s" and "\<not> cmd_timer s" and "q_resultIndex s = 0"
    and "q_rows s = [rows]" and "q_fields s = [cds]"
  shows "\<exists>t. feed (query_exec ev mem) [Some e] s = (t, Finished, []) \<and>
    cmd_log t = cmd_log s @ [CallOnResult None (Some (OneResult (Some rows) cds)), EmitCmdEnd]"
proof -
  have "\<exists>u. Query ev mem Row (Some e) s = (u, Inr None) \<and>
    cmd_log u = cmd_log s @ [CallOnResult None (Some (OneResult (Some rows) cds))]"
    using assms by (simp add: query_row_def done_query_def stop_timer_def call_back_def query_result_def cmd_say_def Let_def)
  then obtain u where "Query ev mem Row (Some e) s = (u, Inr None)"
    and "cmd_log u = cmd_log s @ [CallOnResult None (Some (OneResult (Some rows) cds))]"
    by blast
  then show ?thesis
    using query_finishes [OF assms(4) EOF_no_error [OF assms(1)]] by (simp add: cmd_say_def)
qed

lemma feed_two:
  assumes "feed exec ps s = (s1, Continues, [])" and "feed exec qs s1 = (s2, Continues, [])"
  shows "feed exec (ps @ qs) s = (s2, Continues, [])"
  using assms feed_append [OF assms(1)] by simp

text \<open>
  Claim C40. A query whose answer is a header that announces its columns, a column definition packet
  for each, an EOF, row packets and an EOF without the more-results flag, sends its request once and
  calls its callback once, with all rows in the order they came and all columns, then ends.
\<close>

theorem query_collects_rows:
  assumes "qe_cmdPacket ev = Inr req" and "\<not> isError h" and "read_header ev h = Inr rh"
    and "rs_fieldCount rh = IntNum (int (length ds))" and "ds \<noteq> []"
    and columns: "list_all2 (\<lambda>p d. \<not> isError p \<and> read_column ev p = Inr d) cps ds"
    and "qe_makeParser ev ds = Inr pr" and "isEOF e1"
    and rows: "list_all2 (\<lambda>p r. \<not> isError p \<and> \<not> isEOF p \<and> qe_runParser ev pr p = Inr r) rps rs"
    and "isEOF e2" and "eofStatusFlags e2 = Inr st" and "\<not> moreResults st"
  shows "\<exists>t. feed (query_exec ev mem)
        ([None, Some h] @ map Some cps @ [Some e1] @ map Some rps @ [Some e2]) (new_query True False) =
        (t, Finished, []) \<and>
      cmd_log t = [ResetSequence, WriteCmd req, EmitCmd (FieldsEvent (Some ds)),
        CallOnResult None (Some (OneResult (Some (RowsOf rs)) (Some ds))), EmitCmdEnd]"
proof -
  let ?n = "length ds"
  let ?s1 = "opened req (IntNum (int ?n)) :: ('a, 'b) query"
  let ?s2 = "?s1\<lparr>cmd_next := Some QueryFieldsEOF, q_receivedFieldsCount := ?n, q_fields := [Some ds],
    q_rowParser := Some pr, cmd_log := [ResetSequence, WriteCmd req, EmitCmd (FieldsEvent (Some ds))]\<rparr>"
  let ?s4 = "?s2\<lparr>cmd_next := Some Row, q_rows := [RowsOf rs]\<rparr>"
  have header: "feed (query_exec ev mem) [None, Some h] (new_query True False) = (?s1, Continues, [])"
    using query_opens [OF assms(1-4)] assms(5) by simp
  have cols: "feed (query_exec ev mem) (map Some cps) ?s1 = (?s2, Continues, [])"
    using query_reads_fields [OF columns, of ?s1 "[]" pr mem] columns assms(5,7)
    by (cases cps) (simp_all add: opened_def new_query_def current_fields_def)
  have sep: "feed (query_exec ev mem) [Some e1] ?s2 = (?s2\<lparr>cmd_next := Some Row\<rparr>, Continues, [])"
    using query_ends_columns [OF assms(8), of ?s2] by simp
  have body: "feed (query_exec ev mem) (map Some rps) (?s2\<lparr>cmd_next := Some Row\<rparr>) = (?s4, Continues, [])"
    using query_reads_rows [OF rows, of "?s2\<lparr>cmd_next := Some Row\<rparr>" "[]" "[]" mem]
    by (simp add: opened_def new_query_def)
  have "\<exists>t. feed (query_exec ev mem) [Some e2] ?s4 = (t, Finished, []) \<and> cmd_log t = cmd_log ?s4 @
      [CallOnResult None (Some (OneResult (Some (RowsOf rs)) (Some ds))), EmitCmdEnd]"
    using assms(10-12) by (intro query_ends_rows) (simp_all add: opened_def new_query_def)
  moreover have "feed (query_exec ev mem) ([None, Some h] @ map Some cps @ [Some e1] @ map Some rps)
      (new_query True False) = (?s4, Continues, [])"
    by (intro feed_two [OF header] feed_two [OF cols] feed_two [OF sep] body)
  ultimately show ?thesis
    using feed_append [of "query_exec ev mem" "[None, Some h] @ map Some cps @ [Some e1] @ map Some rps"]
    by simp
qed

theorem query_collects_rows_witness:
  "\<exists>d t. feed (query_exec small_env (\<lambda>n. replicate n 9))
      ([None, Some (new_packet 1 [1, 0, 0, 1, 1] 0 5)] @
       map Some [new_packet 2 [18, 0, 0, 2, 0, 0, 0, 0, 0, 0, 12, 63, 0, 0, 0, 0, 0, 3, 0, 0, 0, 0] 0 22] @
       [Some (new_packet 3 [5, 0, 0, 3, 254, 0, 0, 2, 0] 0 9)] @
       map Some [new_packet 4 [2, 0, 0, 4, 1, 55] 0 6] @
       [Some (new_packet 5 [5, 0, 0, 5, 254, 0, 0, 2, 0] 0 9)]) (new_query True False) = (t, Finished, []) \<and>
    cmd_log t = [ResetSequence, WriteCmd (new_packet 0 [2, 0, 0, 0, 3, 65] 0 6), EmitCmd (FieldsEvent (Some [d])),
      CallOnResult None (Some (OneResult (Some (RowsOf [6])) (Some [d]))), EmitCmdEnd]"
proof -
  obtain d where d: "read_column small_env
     (new_packet 2 [18, 0, 0, 2, 0, 0, 0, 0, 0, 0, 12, 63, 0, 0, 0, 0, 0, 3, 0, 0, 0, 0] 0 22) = Inr d"
    using small_column_read by blast
  obtain h where h: "read_header small_env (new_packet 1 [1, 0, 0, 1, 1] 0 5) = Inr h"
    "rs_fieldCount h = IntNum (int (length [d]))"
    using small_header_read by auto
  have parts: "qe_cmdPacket small_env = Inr (new_packet 0 [2, 0, 0, 0, 3, 65] 0 6)"
    "qe_makeParser small_env [d] = Inr ()" "qe_runParser small_env () p = Inr (packet_length p)" for p
    by (simp_all add: small_env_def)
  have eof: "isEOF (new_packet n [5, 0, 0, n', 254, 0, 0, 2, 0] 0 9)"
      "eofStatusFlags (new_packet n [5, 0, 0, n', 254, 0, 0, 2, 0] 0 9) = Inr 2" for n n'
    by (simp_all add: isEOF_def peekByte_def packet_length_def new_packet_def byte_at_def eofStatusFlags_def
        read_le_def slice_def signed_of_def)
  have "\<not> moreResults 2"
    by (simp add: moreResults_def code_of_def ServerStatus_def)
  then show ?thesis
    by (intro exI [of _ d] query_collects_rows [OF parts(1) _ h _ _ parts(2) eof(1) _ eof(1) eof(2)])
      (simp_all add: d parts, simp_all add: isError_def isEOF_def peekByte_def packet_length_def new_packet_def byte_at_def)
qed

text \<open>
  A row the parser rejects ends the query at once, with one call of the callback, but its
  timer keeps running: when the timer fires the callback is called again, with the timeout error.
\<close>

theorem query_called_twice:
  assumes "cmd_next s = Some Row" and "cmd_onResult s" and "cmd_timer s" and "q_rowParser s = Some pr"
    and "\<not> isError p" and "\<not> isEOF p" and "qe_runParser ev pr p = Inl e"
  shows "\<exists>t. query_exec ev mem (Some p) s = (t, Finished) \<and>
    calls (cmd_log (query_timeout t)) =
      calls (cmd_log s) @ [(Some e, Some (HeaderEvent None)), (Some TimeoutError, None)]"
proof -
  let ?t = "cmd_say (CallOnResult (Some e) (Some (HeaderEvent None))) (s\<lparr>q_localStreamError := Some e\<rparr>)"
  have "Query ev mem Row (Some p) s = (?t, Inr None)"
    using assms by (simp add: query_row_def doneInsert_def)
  from query_finishes [OF assms(1,5) this] show ?thesis
    using assms(2,3) by (simp add: query_timeout_def stop_timer_def Let_def)
qed

theorem query_called_twice_witness:
  "\<exists>t. query_exec (small_env\<lparr>qe_runParser := \<lambda>_ _. Inl RangeError\<rparr>) (\<lambda>n. replicate n 9) (Some (new_packet 4 [1, 0, 0, 4, 9] 0 5))
      ((new_query True True)\<lparr>cmd_next := Some Row, cmd_timer := True, q_rowParser := Some ()\<rparr>) = (t, Finished) \<and>
    calls (cmd_log (query_timeout t)) = [(Some RangeError, Some (HeaderEvent None)), (Some TimeoutError, None)]"
  using query_called_twice [of "(new_query True True)\<lparr>cmd_next := Some Row, cmd_timer := True, q_rowParser := Some ()\<rparr>"
      "()" "new_packet 4 [1, 0, 0, 4, 9] 0 5" "small_env\<lparr>qe_runParser := \<lambda>_ _. Inl RangeError\<rparr>" RangeError "\<lambda>n. replicate n 9"]
  by (simp add: new_query_def isError_def isEOF_def peekByte_def new_packet_def byte_at_def)

end
