(* ===== verification/PoolCluster.thy ===== *)
theory PoolCluster
  imports Bytes "HOL-Library.AList"
begin

text \<open>
  \<open>src/lib/pool_cluster.js\<close>: a cluster of named pools. A node object has an identity (an address),
  since callbacks keep a node after it left the cluster; \<open>_nodes\<close> maps ids to addresses. The pools
  are outside: asking one for a connection is an effect, its answer a later step. Every reading of the
  clock and every random choice is an argument of the operation that makes it; regular expressions
  given by users are the parameter \<open>rx\<close>. Listeners do not call back into the cluster.
\<close>

section \<open>Patterns\<close>

text \<open>
  \<open>patternRegExp\<close> on a string: the characters that are special in a regular expression get a
  backslash, then every star becomes dot-star.
\<close>

definition special_char :: "16 word \<Rightarrow> bool" where
  "special_char ch \<longleftrightarrow> ch \<in> set (js ''.+?^=!:$'' @ js ''{}()|[]/'' @ [92])"

fun escape_pattern :: "jstring \<Rightarrow> jstring" where
  "escape_pattern [] = []"
| "escape_pattern (ch # cs) = (if special_char ch then [92, ch] else [ch]) @ escape_pattern cs"

fun expand_stars :: "jstring \<Rightarrow> jstring" where
  "expand_stars [] = []"
| "expand_stars (ch # cs) = (if ch = 42 then [46, 42] else [ch]) @ expand_stars cs"

definition pattern_source :: "jstring \<Rightarrow> jstring" where
  "pattern_source pattern = expand_stars (escape_pattern pattern)"

text \<open>
  The regular expressions that arise: escaped characters, dot-star and ordinary characters. A dot
  matches anything but a line terminator. \<open>None\<close> stands for an expression of any other form.
\<close>

datatype re_item = Lit "16 word" | AnyRun

fun parse_source :: "jstring \<Rightarrow> re_item list option" where
  "parse_source [] = Some []"
| "parse_source (ch # cs) =
     (if ch = 92 then (case cs of [] \<Rightarrow> None | d # ds \<Rightarrow> map_option (Cons (Lit d)) (parse_source ds))
      else if ch = 46 then
        (case cs of [] \<Rightarrow> None | d # ds \<Rightarrow> if d = 42 then map_option (Cons AnyRun) (parse_source ds) else None)
      else if special_char ch \<or> ch = 42 then None
      else map_option (Cons (Lit ch)) (parse_source cs))"

definition line_terminator :: "16 word \<Rightarrow> bool" where
  "line_terminator ch \<longleftrightarrow> ch = 10 \<or> ch = 13 \<or> ch = 0x2028 \<or> ch = 0x2029"

fun re_match :: "re_item list \<Rightarrow> jstring \<Rightarrow> bool" where
  "re_match [] s = (s = [])"
| "re_match (Lit c # rs) [] = False"
| "re_match (Lit c # rs) (x # xs) = (x = c \<and> re_match rs xs)"
| "re_match (AnyRun # rs) [] = re_match rs []"
| "re_match (AnyRun # rs) (x # xs) =
     (re_match rs (x # xs) \<or> \<not> line_terminator x \<and> re_match (AnyRun # rs) xs)"

definition patternRegExp :: "jstring \<Rightarrow> jstring \<Rightarrow> bool" where
  "patternRegExp pattern node_id =
     (case parse_source (pattern_source pattern) of None \<Rightarrow> False | Some rs \<Rightarrow> re_match rs node_id)"

text \<open>
  A pattern is a string or a \<open>RegExp\<close>, which \<open>patternRegExp\<close> hands back as it is. A
  \<open>RegExp\<close> is given by its text (\<open>/source/flags\<close>), under which it is also the key of
  the caches; \<open>rx\<close> says which ids the expression with a text matches (without the flag \<open>y\<close>,
  which makes a match depend on the one before).
\<close>

datatype cluster_pattern = Pat jstring | Rx jstring

type_synonym regexps = "jstring \<Rightarrow> jstring \<Rightarrow> bool"

fun pattern_key :: "cluster_pattern \<Rightarrow> jstring" where
  "pattern_key (Pat t) = t"
| "pattern_key (Rx t) = t"

fun pattern_matches :: "regexps \<Rightarrow> cluster_pattern \<Rightarrow> jstring \<Rightarrow> bool" where
  "pattern_matches rx (Pat t) = patternRegExp t"
| "pattern_matches rx (Rx t) = rx t"

text \<open>
  \<open>_nodes\<close>, \<open>_findCaches\<close> and \<open>_namespaces\<close> are plain objects: reading one at a name that
  \<open>Object.prototype\<close> has finds that member, whether or not anything was stored. Each name
  with the \<open>length\<close> of its function; \<open>__proto__\<close> is an object without one, and a loop up to
  \<open>undefined\<close> makes no turn.
\<close>

definition object_members :: "(jstring \<times> nat option) list" where
  "object_members =
     [(js ''constructor'', Some 1), (js ''hasOwnProperty'', Some 1), (js ''isPrototypeOf'', Some 1),
      (js ''propertyIsEnumerable'', Some 1), (js ''toLocaleString'', Some 0), (js ''toString'', Some 0), (js ''valueOf'', Some 0),
      (js ''__proto__'', None), (js ''__defineGetter__'', Some 2), (js ''__defineSetter__'', Some 2),
      (js ''__lookupGetter__'', Some 1), (js ''__lookupSetter__'', Some 1)]"

definition object_member :: "jstring \<Rightarrow> nat option option" where
  "object_member name = map_of object_members name"

section \<open>State\<close>

record node =
  nd_id :: jstring
  nd_errorCount :: int
  nd_offlineUntil :: int

datatype selector = RR | RANDOM | ORDER

record namespace =
  ns_pattern :: cluster_pattern
  ns_selector :: selector
  ns_index :: nat

text \<open>What the outside sees; a request and a connection are names.\<close>

datatype ('q, 'c) cluster_effect =
    AskPool 'q nat
  | AnswerConn 'q "js_error + 'c"
  | EmitWarn js_error
  | EmitOffline jstring
  | EmitOnline jstring
  | EmitRemove jstring
  | EndPool nat
  | EndCalled "js_error option"

record ('q, 'c) cluster =
  cl_canRetry :: bool
  cl_removeNodeErrorCount :: int
  cl_restoreNodeTimeout :: int
  cl_defaultSelector :: jstring
  cl_closed :: bool
  cl_lastId :: nat
  cl_objects :: "node list"                     \<comment> \<open>the node objects ever made, by address\<close>
  cl_nodes :: "(jstring \<times> nat) list"
  cl_serviceableNodeIds :: "jstring list"
  cl_namespaces :: "(jstring \<times> namespace) list"
  cl_findCaches :: "(jstring \<times> jstring list) list"
  cl_log :: "('q, 'c) cluster_effect list"

definition new_cluster :: "bool option \<Rightarrow> int \<Rightarrow> int \<Rightarrow> jstring option \<Rightarrow> ('q, 'c) cluster" where
  "new_cluster canRetry removeNodeErrorCount restoreNodeTimeout defaultSelector =
     \<lparr>cl_canRetry = (case canRetry of None \<Rightarrow> True | Some b \<Rightarrow> b),
      cl_removeNodeErrorCount = (if removeNodeErrorCount = 0 then 5 else removeNodeErrorCount),
      cl_restoreNodeTimeout = restoreNodeTimeout,
      cl_defaultSelector = (case defaultSelector of None \<Rightarrow> js ''RR'' | Some s \<Rightarrow> if s = [] then js ''RR'' else s),
      cl_closed = False, cl_lastId = 0, cl_objects = [], cl_nodes = [], cl_serviceableNodeIds = [],
      cl_namespaces = [], cl_findCaches = [], cl_log = []\<rparr>"

definition cl_say :: "('q, 'c) cluster_effect \<Rightarrow> ('q, 'c) cluster \<Rightarrow> ('q, 'c) cluster" where
  "cl_say e s = s\<lparr>cl_log := cl_log s @ [e]\<rparr>"

section \<open>Selectors and namespaces\<close>

definition upper_ascii :: "16 word \<Rightarrow> 16 word" where
  "upper_ascii ch = (if 97 \<le> ch \<and> ch \<le> 122 then ch - 32 else ch)"

text \<open>\<open>makeSelector\<close>; any other name is \<open>undefined\<close>, calling it raises.\<close>

definition makeSelector :: "jstring \<Rightarrow> selector option" where
  "makeSelector name =
     (if name = js ''RR'' then Some RR else if name = js ''RANDOM'' then Some RANDOM
      else if name = js ''ORDER'' then Some ORDER else None)"

text \<open>
  The selector functions on a non-empty list: the chosen id and the next index. The number \<open>rnd\<close>
  taken modulo the length stands for \<open>Math.floor(Math.random() * length)\<close>, any value below it.
\<close>

definition select :: "selector \<Rightarrow> nat \<Rightarrow> nat \<Rightarrow> jstring list \<Rightarrow> jstring \<times> nat" where
  "select sel index rnd ids =
     (case sel of
        RR \<Rightarrow> (ids ! (index mod length ids), index + 1)
      | RANDOM \<Rightarrow> (ids ! (rnd mod length ids), index)
      | ORDER \<Rightarrow> (ids ! 0, index))"

text \<open>
  \<open>of(pattern, selector)\<close>: the key of the namespace. The comparison of \<open>!makeSelector[selector]\<close>
  with a string is never true, so an unknown selector is not replaced. A key \<open>Object.prototype\<close>
  has is returned without a namespace behind it.
\<close>

definition normal_pattern :: "cluster_pattern option \<Rightarrow> cluster_pattern" where
  "normal_pattern pattern = (if pattern = None \<or> pattern = Some (Pat []) then Pat (js ''*'') else the pattern)"

definition cluster_of ::
    "cluster_pattern option \<Rightarrow> jstring option \<Rightarrow> ('q, 'c) cluster \<Rightarrow> (jstring \<times> ('q, 'c) cluster) result" where
  "cluster_of pattern selector s =
     (let pat = normal_pattern pattern;
          sel = map upper_ascii
            (case selector of None \<Rightarrow> cl_defaultSelector s | Some x \<Rightarrow> if x = [] then cl_defaultSelector s else x);
          key = pattern_key pat @ sel
      in case map_of (cl_namespaces s) key of
           Some _ \<Rightarrow> Inr (key, s)
         | None \<Rightarrow>
             if object_member key \<noteq> None then Inr (key, s)
             else (case makeSelector sel of
                None \<Rightarrow> Inl TypeError
              | Some f \<Rightarrow> Inr (key, s\<lparr>cl_namespaces := cl_namespaces s @
                  [(key, \<lparr>ns_pattern = pat, ns_selector = f, ns_index = 0\<rparr>)]\<rparr>)))"

section \<open>Nodes\<close>

definition clearFindCaches :: "('q, 'c) cluster \<Rightarrow> ('q, 'c) cluster" where
  "clearFindCaches s = s\<lparr>cl_findCaches := []\<rparr>"

text \<open>
  \<open>add\<close>; without an id the name is generated. An id is taken when \<open>_nodes\<close> has it or
  inherits it.
\<close>

definition own_node :: "jstring \<Rightarrow> ('q, 'c) cluster \<Rightarrow> nat option" where
  "own_node name s = map_of (cl_nodes s) name"

definition cluster_add :: "jstring option \<Rightarrow> ('q, 'c) cluster \<Rightarrow> ('q, 'c) cluster" where
  "cluster_add given s0 =
     (let s = (case given of None \<Rightarrow> s0\<lparr>cl_lastId := cl_lastId s0 + 1\<rparr> | Some _ \<Rightarrow> s0);
          name = (case given of None \<Rightarrow> js ''CLUSTER::'' @ int_to_string (int (cl_lastId s)) | Some i \<Rightarrow> i)
      in if own_node name s = None \<and> object_member name = None then
           clearFindCaches (s\<lparr>cl_objects := cl_objects s @ [\<lparr>nd_id = name, nd_errorCount = 0, nd_offlineUntil = 0\<rparr>],
             cl_nodes := cl_nodes s @ [(name, length (cl_objects s))],
             cl_serviceableNodeIds := cl_serviceableNodeIds s @ [name]\<rparr>)
         else s)"

text \<open>\<open>_getNode\<close>: \<open>null\<close>, the node object at an address, or a member of \<open>Object.prototype\<close>.\<close>

datatype found_node = NoNode | NodeAt nat | InheritedNode

definition getNode :: "jstring \<Rightarrow> ('q, 'c) cluster \<Rightarrow> found_node" where
  "getNode name s =
     (case own_node name s of
        Some a \<Rightarrow> NodeAt a
      | None \<Rightarrow> if object_member name \<noteq> None then InheritedNode else NoNode)"

definition serving :: "int \<Rightarrow> node \<Rightarrow> bool" where
  "serving now nd \<longleftrightarrow> nd_offlineUntil nd = 0 \<or> nd_offlineUntil nd \<le> now"

text \<open>
  The filter of \<open>_findNodeIds\<close>: a name without a node raises; an inherited member has no
  \<open>_offlineUntil\<close>.
\<close>

fun online_ids :: "int \<Rightarrow> ('q, 'c) cluster \<Rightarrow> jstring list \<Rightarrow> jstring list result" where
  "online_ids now s [] = Inr []"
| "online_ids now s (name # names) =
     (case getNode name s of
        NoNode \<Rightarrow> Inl TypeError
      | InheritedNode \<Rightarrow> map_sum (\<lambda>e. e) (Cons name) (online_ids now s names)
      | NodeAt a \<Rightarrow>
          (case online_ids now s names of
             Inl e \<Rightarrow> Inl e
           | Inr rest \<Rightarrow> Inr (if serving now (cl_objects s ! a) then name # rest else rest)))"

text \<open>
  \<open>_findNodeIds\<close>. At a pattern whose key \<open>_findCaches\<close> inherits the member is taken for the
  cached list (storing it again changes nothing): it is returned, or raises, having no \<open>filter\<close>.
\<close>

datatype found_ids = Ids "jstring list" | InheritedIds "nat option"

definition findNodeIds ::
    "regexps \<Rightarrow> int \<Rightarrow> cluster_pattern \<Rightarrow> bool \<Rightarrow> ('q, 'c) cluster \<Rightarrow> (found_ids \<times> ('q, 'c) cluster) result" where
  "findNodeIds rx now pattern includeOffline s =
     (case object_member (pattern_key pattern) of
        Some n \<Rightarrow> if includeOffline then Inr (InheritedIds n, s) else Inl TypeError
      | None \<Rightarrow>
          (let found = (case map_of (cl_findCaches s) (pattern_key pattern) of
                          Some ids \<Rightarrow> ids
                        | None \<Rightarrow> filter (pattern_matches rx pattern) (cl_serviceableNodeIds s));
               s1 = s\<lparr>cl_findCaches := AList.update (pattern_key pattern) found (cl_findCaches s)\<rparr>
           in if includeOffline then Inr (Ids found, s1)
              else (case online_ids now s1 found of Inl e \<Rightarrow> Inl e | Inr ids \<Rightarrow> Inr (Ids ids, s1))))"

definition removeNode :: "nat \<Rightarrow> ('q, 'c) cluster \<Rightarrow> ('q, 'c) cluster" where
  "removeNode a s =
     (let name = nd_id (cl_objects s ! a) in
      if name \<in> set (cl_serviceableNodeIds s) then
        cl_say (EndPool a) (clearFindCaches
          (s\<lparr>cl_serviceableNodeIds := remove1 name (cl_serviceableNodeIds s),
             cl_nodes := AList.delete name (cl_nodes s)\<rparr>))
      else s)"

text \<open>
  \<open>remove\<close>: an inherited member has no \<open>id\<close> to look for. The items of an inherited function
  are \<open>undefined\<close>, which names the node \<open>undefined\<close>.
\<close>

fun remove_all :: "jstring list \<Rightarrow> ('q, 'c) cluster \<Rightarrow> ('q, 'c) cluster" where
  "remove_all [] s = s"
| "remove_all (name # names) s =
     remove_all names (case getNode name s of NodeAt a \<Rightarrow> removeNode a s | _ \<Rightarrow> s)"

definition ids_read :: "found_ids \<Rightarrow> jstring list" where
  "ids_read found = (case found of Ids ids \<Rightarrow> ids | InheritedIds n \<Rightarrow>
     replicate (case n of None \<Rightarrow> 0 | Some k \<Rightarrow> k) (js ''undefined''))"

definition cluster_remove :: "regexps \<Rightarrow> int \<Rightarrow> cluster_pattern \<Rightarrow> ('q, 'c) cluster \<Rightarrow> ('q, 'c) cluster result" where
  "cluster_remove rx now pattern s =
     (case findNodeIds rx now pattern True s of
        Inl e \<Rightarrow> Inl e | Inr (found, s1) \<Rightarrow> Inr (remove_all (ids_read found) s1))"

definition increaseErrorCount :: "int \<Rightarrow> nat \<Rightarrow> ('q, 'c) cluster \<Rightarrow> ('q, 'c) cluster" where
  "increaseErrorCount now a s =
     (let nd = (cl_objects s ! a)\<lparr>nd_errorCount := nd_errorCount (cl_objects s ! a) + 1\<rparr>;
          s1 = s\<lparr>cl_objects := (cl_objects s)[a := nd]\<rparr>
      in if cl_removeNodeErrorCount s > nd_errorCount nd then s1
         else if cl_restoreNodeTimeout s > 0 then
           cl_say (EmitOffline (nd_id nd))
             (s1\<lparr>cl_objects := (cl_objects s)[a := nd\<lparr>nd_offlineUntil := now + cl_restoreNodeTimeout s\<rparr>]\<rparr>)
         else cl_say (EmitRemove (nd_id nd)) (removeNode a s1))"

definition decreased :: "int \<Rightarrow> int \<Rightarrow> int" where
  "decreased bound count = max 1 (min count bound) - 1"

definition decreaseErrorCount :: "nat \<Rightarrow> ('q, 'c) cluster \<Rightarrow> ('q, 'c) cluster" where
  "decreaseErrorCount a s =
     (let nd = cl_objects s ! a;
          nd1 = nd\<lparr>nd_errorCount := decreased (cl_removeNodeErrorCount s) (nd_errorCount nd)\<rparr>
      in if nd_offlineUntil nd \<noteq> 0 then
           cl_say (EmitOnline (nd_id nd)) (s\<lparr>cl_objects := (cl_objects s)[a := nd1\<lparr>nd_offlineUntil := 0\<rparr>]\<rparr>)
         else s\<lparr>cl_objects := (cl_objects s)[a := nd1]\<rparr>)"

section \<open>Requests\<close>

definition PoolNoExist :: js_error where
  "PoolNoExist = JsError ''POOL_NOEXIST'' ''Pool does Not exist.''"

definition PoolNoneOnline :: js_error where
  "PoolNoneOnline = JsError ''POOL_NONEONLINE'' ''Pool does Not have online node.''"

definition bump_index :: "jstring \<Rightarrow> nat \<Rightarrow> ('q, 'c) cluster \<Rightarrow> ('q, 'c) cluster" where
  "bump_index key i s =
     s\<lparr>cl_namespaces := map (\<lambda>(k, n). (k, if k = key then n\<lparr>ns_index := i\<rparr> else n)) (cl_namespaces s)\<rparr>"

text \<open>\<open>_getClusterNode\<close> of a namespace; \<open>rnd\<close> decides a random choice.\<close>

definition getClusterNode ::
    "regexps \<Rightarrow> int \<Rightarrow> nat \<Rightarrow> jstring \<Rightarrow> namespace \<Rightarrow> ('q, 'c) cluster \<Rightarrow> (found_node \<times> ('q, 'c) cluster) result" where
  "getClusterNode rx now rnd key ns s =
     (case findNodeIds rx now (ns_pattern ns) False s of
        Inl e \<Rightarrow> Inl e
      | Inr (found, s1) \<Rightarrow>
          (case ids_read found of
             [] \<Rightarrow> Inr (NoNode, s1)
           | [name] \<Rightarrow> Inr (getNode name s1, s1)
           | ids \<Rightarrow>
               let (name, i) = select (ns_selector ns) (ns_index ns) rnd ids
               in Inr (getNode name s1, bump_index key i s1)))"

text \<open>
  \<open>getConnection\<close> of the namespace \<open>key\<close> for the request \<open>q\<close>. An inherited member has no
  \<open>pool\<close>, and what \<open>of\<close> returned without a namespace no \<open>getConnection\<close>.
\<close>

definition ns_getConnection ::
    "regexps \<Rightarrow> int \<Rightarrow> nat \<Rightarrow> jstring \<Rightarrow> 'q \<Rightarrow> ('q, 'c) cluster \<Rightarrow> ('q, 'c) cluster result" where
  "ns_getConnection rx now rnd key q s =
     (case map_of (cl_namespaces s) key of
        None \<Rightarrow> Inl TypeError
      | Some ns \<Rightarrow>
          (case getClusterNode rx now rnd key ns s of
             Inl e \<Rightarrow> Inl e
           | Inr (InheritedNode, s1) \<Rightarrow> Inl TypeError
           | Inr (NodeAt a, s1) \<Rightarrow> Inr (cl_say (AskPool q a) s1)
           | Inr (NoNode, s1) \<Rightarrow>
               (case findNodeIds rx now (ns_pattern ns) True s1 of
                  Inl e \<Rightarrow> Inl e
                | Inr (found, s2) \<Rightarrow>
                    Inr (cl_say (AnswerConn q (Inl (if found \<noteq> Ids [] \<and> found \<noteq> InheritedIds (Some 0)
                      then PoolNoneOnline else PoolNoExist))) s2))))"

text \<open>
  The callback given to the pool of the node \<open>a\<close>, through \<open>_getConnection\<close>. A failure reads the
  clock up to three times: to put the node offline, to look for serving nodes, and in the next
  \<open>getConnection\<close>.
\<close>

definition pool_reply ::
    "regexps \<Rightarrow> (nat \<Rightarrow> int) \<Rightarrow> nat \<Rightarrow> jstring \<Rightarrow> 'q \<Rightarrow> nat \<Rightarrow> js_error + 'c \<Rightarrow> ('q, 'c) cluster \<Rightarrow>
     ('q, 'c) cluster result" where
  "pool_reply rx clock rnd key q a answer s =
     (case answer of
        Inr conn \<Rightarrow> Inr (cl_say (AnswerConn q (Inr conn)) (decreaseErrorCount a s))
      | Inl err \<Rightarrow>
          let s1 = increaseErrorCount (clock 0) a s in
          if cl_canRetry s1 then
            (case map_of (cl_namespaces s1) key of
               None \<Rightarrow> Inl TypeError
             | Some ns \<Rightarrow>
                 (case findNodeIds rx (clock 1) (ns_pattern ns) False s1 of
                    Inl e \<Rightarrow> Inl e
                  | Inr (found, s2) \<Rightarrow>
                      if found \<noteq> Ids [] \<and> found \<noteq> InheritedIds (Some 0)
                      then ns_getConnection rx (clock 2) rnd key q (cl_say (EmitWarn err) s2)
                      else Inr (cl_say (AnswerConn q (Inl err)) s2)))
          else Inr (cl_say (AnswerConn q (Inl err)) s1))"

definition cluster_getConnection ::
    "regexps \<Rightarrow> int \<Rightarrow> nat \<Rightarrow> cluster_pattern option \<Rightarrow> jstring option \<Rightarrow> 'q \<Rightarrow> ('q, 'c) cluster \<Rightarrow>
     ('q, 'c) cluster result" where
  "cluster_getConnection rx now rnd pattern selector q s =
     (case cluster_of pattern selector s of Inl e \<Rightarrow> Inl e | Inr (key, s1) \<Rightarrow> ns_getConnection rx now rnd key q s1)"

section \<open>Closing\<close>

text \<open>
  \<open>end(callback)\<close>. The pool of a node without connections calls \<open>onEnd\<close> at once, the others later.
  \<open>onEnd\<close> works on \<open>calledBack\<close> and \<open>waitingClose\<close>.
\<close>

definition onEnd ::
    "js_error option \<Rightarrow> bool \<times> int \<times> ('q, 'c) cluster \<Rightarrow> bool \<times> int \<times> ('q, 'c) cluster" where
  "onEnd err st =
     (let (calledBack, waitingClose, s) = st in
      if calledBack then st
      else if err \<noteq> None then (True, waitingClose, cl_say (EndCalled err) s)
      else if waitingClose - 1 \<le> 0 then (True, waitingClose - 1, cl_say (EndCalled err) s)
      else (False, waitingClose - 1, s))"

fun end_pools ::
    "(nat \<Rightarrow> bool) \<Rightarrow> nat list \<Rightarrow> bool \<times> int \<times> ('q, 'c) cluster \<Rightarrow> bool \<times> int \<times> ('q, 'c) cluster" where
  "end_pools no_conns [] st = st"
| "end_pools no_conns (a # as) (calledBack, waitingClose, s) =
     (let st = (calledBack, waitingClose + 1, cl_say (EndPool a) s) in
      end_pools no_conns as (if no_conns a then onEnd None st else st))"

text \<open>
  The state after \<open>end\<close>, with the variables \<open>onEnd\<close> keeps; \<open>None\<close> for them when the cluster was
  closed already and the callback is only scheduled, as it is when there is no node.
\<close>

definition cluster_end ::
    "(nat \<Rightarrow> bool) \<Rightarrow> ('q, 'c) cluster \<Rightarrow> (bool \<times> int) option \<times> ('q, 'c) cluster" where
  "cluster_end no_conns s0 =
     (if cl_closed s0 then (None, cl_say (EndCalled None) s0)
      else
        let (calledBack, waitingClose, s) =
          end_pools no_conns (map snd (cl_nodes s0)) (False, 0, s0\<lparr>cl_closed := True\<rparr>)
        in if waitingClose = 0 then
             (let (calledBack', waitingClose', s') = onEnd None (calledBack, waitingClose, s)
              in (Some (calledBack', waitingClose'), s'))
           else (Some (calledBack, waitingClose), s))"

section \<open>Patterns match as they read\<close>

definition pattern_item :: "16 word \<Rightarrow> re_item" where
  "pattern_item ch = (if ch = 42 then AnyRun else Lit ch)"

lemma special_chars: "special_char 92" "special_char 46" "\<not> special_char 42"
  by (simp_all add: special_char_def js_def)

lemma expand_stars_append: "expand_stars (xs @ ys) = expand_stars xs @ expand_stars ys"
  by (induction xs) auto

lemma parse_pattern_source: "parse_source (pattern_source pattern) = Some (map pattern_item pattern)"
proof (induction pattern)
  case (Cons ch cs)
  consider "special_char ch" "ch \<noteq> 42" | "ch = 42" | "\<not> special_char ch" "ch \<noteq> 42" "ch \<noteq> 92" "ch \<noteq> 46"
    using special_chars by metis
  then show ?case
  proof cases
    case 1
    then have "pattern_source (ch # cs) = 92 # ch # pattern_source cs"
      by (simp add: pattern_source_def)
    then show ?thesis using Cons 1 by (simp add: pattern_item_def)
  next
    case 2
    then have "pattern_source (ch # cs) = 46 # 42 # pattern_source cs"
      using special_chars by (simp add: pattern_source_def)
    then show ?thesis using Cons 2 by (simp add: pattern_item_def)
  next
    case 3
    then have "pattern_source (ch # cs) = ch # pattern_source cs"
      by (simp add: pattern_source_def)
    then show ?thesis using Cons 3 by (simp add: pattern_item_def)
  qed
qed (simp add: pattern_source_def)

lemma match_run:
  "re_match (AnyRun # rs) s \<longleftrightarrow> (\<exists>u v. s = u @ v \<and> (\<forall>c\<in>set u. \<not> line_terminator c) \<and> re_match rs v)"
proof (induction s)
  case (Cons x xs)
  have "(\<exists>u v. x # xs = u @ v \<and> P u \<and> Q v) \<longleftrightarrow> P [] \<and> Q (x # xs) \<or> (\<exists>u v. xs = u @ v \<and> P (x # u) \<and> Q v)"
    for P Q :: "jstring \<Rightarrow> bool"
    by (auto simp: Cons_eq_append_conv)
  then show ?case using Cons by auto
qed auto

text \<open>A piece of text for each character of the pattern.\<close>

definition piece :: "16 word \<Rightarrow> jstring \<Rightarrow> bool" where
  "piece ch w \<longleftrightarrow> (if ch = 42 then \<forall>c\<in>set w. \<not> line_terminator c else w = [ch])"

lemma match_pieces:
  "re_match (map pattern_item pattern) s \<longleftrightarrow> (\<exists>ws. list_all2 piece pattern ws \<and> concat ws = s)"
proof (induction pattern arbitrary: s)
  case (Cons ch cs)
  have "(\<exists>ws. list_all2 piece (ch # cs) ws \<and> concat ws = s) \<longleftrightarrow>
      (\<exists>u v. s = u @ v \<and> piece ch u \<and> (\<exists>ws. list_all2 piece cs ws \<and> concat ws = v))"
  proof (intro iffI; elim exE conjE)
    fix u v ws
    assume "s = u @ v" "piece ch u" "list_all2 piece cs ws" "concat ws = v"
    then show "\<exists>ws. list_all2 piece (ch # cs) ws \<and> concat ws = s"
      by (intro exI [of _ "u # ws"]) simp
  next
    fix ws
    assume "list_all2 piece (ch # cs) ws" "concat ws = s"
    then show "\<exists>u v. s = u @ v \<and> piece ch u \<and> (\<exists>ws. list_all2 piece cs ws \<and> concat ws = v)"
      by (cases ws) auto
  qed
  moreover have "re_match (pattern_item ch # map pattern_item cs) s \<longleftrightarrow>
      (\<exists>u v. s = u @ v \<and> piece ch u \<and> re_match (map pattern_item cs) v)"
  proof (cases "ch = 42")
    case True
    then show ?thesis by (simp add: pattern_item_def piece_def match_run)
  next
    case False
    then show ?thesis by (cases s) (auto simp: pattern_item_def piece_def)
  qed
  ultimately show ?case using Cons by simp
qed auto

text \<open>
  Claim C20. A string pattern matches a node id exactly when the id is a text for each character of
  the pattern, one after the other: any text without line breaks for a star, the character itself
  for every other, whatever meaning it has in regular expressions.
\<close>

theorem patternRegExp_is_glob:
  "patternRegExp pattern name \<longleftrightarrow>
     (\<exists>ws. list_all2 (\<lambda>ch w. if ch = 42 then \<forall>c\<in>set w. c \<notin> {10, 13, 0x2028, 0x2029} else w = [ch]) pattern ws \<and>
       concat ws = name)"
proof -
  have "piece = (\<lambda>ch w. if ch = 42 then \<forall>c\<in>set w. c \<notin> {10, 13, 0x2028, 0x2029} else w = [ch])"
    by (intro ext) (auto simp: piece_def line_terminator_def)
  then show ?thesis
    by (simp add: patternRegExp_def parse_pattern_source match_pieces)
qed

theorem patternRegExp_is_glob_witness: "patternRegExp (js ''S.*'') (js ''S.77'')"
  unfolding patternRegExp_is_glob
  by (rule exI [of _ "[js ''S'', js ''.'', js ''77'']"]) (simp add: js_def)

section \<open>The invariant\<close>

text \<open>
  \<open>ok\<close> holds of the patterns a program uses, those of inherited members apart. Their texts tell
  them apart: no string is also the text of a \<open>RegExp\<close> in use, so that the cache of a pattern is
  its own.
\<close>

definition apart :: "(cluster_pattern \<Rightarrow> bool) \<Rightarrow> bool" where
  "apart ok \<longleftrightarrow> (\<forall>t. \<not> (ok (Pat t) \<and> ok (Rx t)))"

definition used :: "(cluster_pattern \<Rightarrow> bool) \<Rightarrow> cluster_pattern \<Rightarrow> bool" where
  "used ok p \<longleftrightarrow> ok p \<or> object_member (pattern_key p) \<noteq> None"

lemma apartD: "apart ok \<Longrightarrow> ok p \<Longrightarrow> ok q \<Longrightarrow> pattern_key p = pattern_key q \<Longrightarrow> p = q"
  by (cases p; cases q) (auto simp: apart_def)

definition node_of :: "('q, 'c) cluster \<Rightarrow> jstring \<Rightarrow> node" where
  "node_of s name = cl_objects s ! the (own_node name s)"

definition cached_ok :: "regexps \<Rightarrow> (cluster_pattern \<Rightarrow> bool) \<Rightarrow> ('q, 'c) cluster \<Rightarrow> bool" where
  "cached_ok rx ok s \<longleftrightarrow>
     (\<forall>k ids. map_of (cl_findCaches s) k = Some ids \<longrightarrow>
        (\<exists>p. ok p \<and> pattern_key p = k \<and> ids = filter (pattern_matches rx p) (cl_serviceableNodeIds s)))"

definition cluster_inv :: "regexps \<Rightarrow> (cluster_pattern \<Rightarrow> bool) \<Rightarrow> ('q, 'c) cluster \<Rightarrow> bool" where
  "cluster_inv rx ok s \<longleftrightarrow>
     distinct (cl_serviceableNodeIds s) \<and> map fst (cl_nodes s) = cl_serviceableNodeIds s \<and>
     (\<forall>(name, a)\<in>set (cl_nodes s). a < length (cl_objects s) \<and> nd_id (cl_objects s ! a) = name) \<and>
     (\<forall>(key, ns)\<in>set (cl_namespaces s). used ok (ns_pattern ns)) \<and> cached_ok rx ok s"

lemma cluster_inv_new: "cluster_inv rx ok (new_cluster r n t d)"
  by (simp add: cluster_inv_def cached_ok_def new_cluster_def)

lemma cluster_inv_simps [simp]:
  "cluster_inv rx ok (cl_say e s) = cluster_inv rx ok s"
  "cluster_inv rx ok (s\<lparr>cl_lastId := k\<rparr>) = cluster_inv rx ok s"
  "cluster_inv rx ok (s\<lparr>cl_closed := b\<rparr>) = cluster_inv rx ok s"
  by (simp_all add: cluster_inv_def cached_ok_def cl_say_def)

lemma cluster_inv_bump: "cluster_inv rx ok s \<Longrightarrow> cluster_inv rx ok (bump_index key i s)"
  by (auto simp: cluster_inv_def cached_ok_def bump_index_def)

lemma cluster_inv_clear: "cluster_inv rx ok s \<Longrightarrow> cluster_inv rx ok (clearFindCaches s)"
  by (simp add: cluster_inv_def cached_ok_def clearFindCaches_def)

lemma own_node_None:
  assumes "cluster_inv rx ok s"
  shows "own_node name s = None \<longleftrightarrow> name \<notin> set (cl_serviceableNodeIds s)"
proof -
  have "set (cl_serviceableNodeIds s) = fst ` set (cl_nodes s)"
    using assms unfolding cluster_inv_def by (metis list.set_map)
  then show ?thesis by (simp add: own_node_def map_of_eq_None_iff)
qed

lemma getNode_own: "own_node name s = Some a \<Longrightarrow> getNode name s = NodeAt a"
  by (simp add: getNode_def)

lemma cluster_inv_add:
  assumes "cluster_inv rx ok s"
  shows "cluster_inv rx ok (cluster_add given s)"
proof -
  have add: "cluster_inv rx ok (clearFindCaches (u\<lparr>cl_objects := cl_objects u @ [nd], cl_nodes := cl_nodes u @ [(nd_id nd, length (cl_objects u))],
      cl_serviceableNodeIds := cl_serviceableNodeIds u @ [nd_id nd]\<rparr>))"
    if "cluster_inv rx ok u" "own_node (nd_id nd) u = None" for u :: "('a, 'b) cluster" and nd
  proof -
    have "nd_id nd \<notin> set (cl_serviceableNodeIds u)"
      using that own_node_None [of rx ok u "nd_id nd"] by simp
    then show ?thesis
      using that by (auto simp: cluster_inv_def cached_ok_def clearFindCaches_def nth_append)
  qed
  show ?thesis
    using assms add [of s "\<lparr>nd_id = the given, nd_errorCount = 0, nd_offlineUntil = 0\<rparr>"]
      add [of "s\<lparr>cl_lastId := Suc (cl_lastId s)\<rparr>" "\<lparr>nd_id = js ''CLUSTER::'' @
        int_to_string (1 + int (cl_lastId s)), nd_errorCount = 0, nd_offlineUntil = 0\<rparr>"]
    by (cases given) (auto simp: cluster_add_def Let_def)
qed

lemma cluster_inv_object:
  assumes "cluster_inv rx ok s" and "nd_id nd = nd_id (cl_objects s ! a)"
  shows "cluster_inv rx ok (s\<lparr>cl_objects := (cl_objects s)[a := nd]\<rparr>)"
proof (cases "a < length (cl_objects s)")
  case True
  have "nd_id ((cl_objects s)[a := nd] ! b) = nd_id (cl_objects s ! b)" for b
    using assms(2) True by (simp add: nth_list_update)
  then show ?thesis
    using assms(1) by (simp add: cluster_inv_def cached_ok_def)
next
  case False
  then show ?thesis
    using assms(1) by (simp add: list_update_beyond)
qed

lemma delete_facts:
  fixes xs :: "(jstring \<times> nat) list"
  shows "map fst (AList.delete name xs) = removeAll name (map fst xs)"
    and "x \<in> set (AList.delete name xs) \<Longrightarrow> x \<in> set xs"
  by (induction xs) (auto split: if_splits)

lemma cluster_inv_remove:
  assumes "cluster_inv rx ok s"
  shows "cluster_inv rx ok (removeNode a s)"
proof -
  have inv: "distinct (cl_serviceableNodeIds s)" "map fst (cl_nodes s) = cl_serviceableNodeIds s"
    "\<forall>(name, a)\<in>set (cl_nodes s). a < length (cl_objects s) \<and> nd_id (cl_objects s ! a) = name"
    "\<forall>(key, ns)\<in>set (cl_namespaces s). used ok (ns_pattern ns)"
    using assms unfolding cluster_inv_def by blast+
  have "cluster_inv rx ok (s\<lparr>cl_serviceableNodeIds := remove1 name (cl_serviceableNodeIds s),
      cl_nodes := AList.delete name (cl_nodes s), cl_findCaches := []\<rparr>)" for name
    unfolding cluster_inv_def using inv(1,3,4)
    by (auto simp: cached_ok_def delete_facts(1) inv(2) distinct_remove1_removeAll distinct_removeAll dest!: delete_facts(2))
  then show ?thesis
    using assms by (simp add: removeNode_def clearFindCaches_def Let_def)
qed

lemma cluster_inv_counts:
  assumes "cluster_inv rx ok s"
  shows "cluster_inv rx ok (increaseErrorCount now a s)" and "cluster_inv rx ok (decreaseErrorCount a s)"
  using assms
  by (auto simp: increaseErrorCount_def decreaseErrorCount_def Let_def
      intro!: cluster_inv_object cluster_inv_remove)

lemma online_exact:
  assumes "cluster_inv rx ok s" and "set names \<subseteq> set (cl_serviceableNodeIds s)"
  shows "online_ids now s names = Inr (filter (\<lambda>n. serving now (node_of s n)) names)"
  using assms(2)
proof (induction names)
  case (Cons name names)
  then obtain a where "own_node name s = Some a"
    using own_node_None [OF assms(1), of name] by auto
  then show ?case
    using Cons by (simp add: node_of_def getNode_own)
qed simp

text \<open>The ids \<open>_findNodeIds\<close> should return.\<close>

definition matching :: "regexps \<Rightarrow> int \<Rightarrow> cluster_pattern \<Rightarrow> bool \<Rightarrow> ('q, 'c) cluster \<Rightarrow> jstring list" where
  "matching rx now pattern includeOffline s =
     filter (\<lambda>n. pattern_matches rx pattern n \<and> (includeOffline \<or> serving now (node_of s n))) (cl_serviceableNodeIds s)"

lemma find_exact:
  assumes "cluster_inv rx ok s" and "apart ok" and "ok pattern" and "object_member (pattern_key pattern) = None"
  shows "\<exists>fc. findNodeIds rx now pattern includeOffline s =
      Inr (Ids (matching rx now pattern includeOffline s), s\<lparr>cl_findCaches := fc\<rparr>) \<and>
      cluster_inv rx ok (s\<lparr>cl_findCaches := fc\<rparr>)"
proof -
  let ?found = "filter (pattern_matches rx pattern) (cl_serviceableNodeIds s)"
  let ?fc = "AList.update (pattern_key pattern) ?found (cl_findCaches s)"
  have found: "(case map_of (cl_findCaches s) (pattern_key pattern) of Some ids \<Rightarrow> ids | None \<Rightarrow> ?found) = ?found"
    using assms(1,3) apartD [OF assms(2)] by (force simp: cluster_inv_def cached_ok_def split: option.split)
  have inv: "cluster_inv rx ok (s\<lparr>cl_findCaches := ?fc\<rparr>)"
    using assms(1,3) by (auto simp: cluster_inv_def cached_ok_def update_conv' split: if_splits)
  have "online_ids now (s\<lparr>cl_findCaches := ?fc\<rparr>) ?found =
      Inr (filter (\<lambda>n. serving now (node_of (s\<lparr>cl_findCaches := ?fc\<rparr>) n)) ?found)"
    by (rule online_exact [OF inv]) auto
  then show ?thesis
    using inv found assms(4)
    by (intro exI [of _ ?fc]) (auto simp: findNodeIds_def matching_def node_of_def own_node_def Let_def)
qed

section \<open>Requests\<close>

text \<open>
  What looking for nodes leaves unchanged: all but the caches and the indices of the namespaces.
\<close>

definition pattern_of :: "('q, 'c) cluster \<Rightarrow> jstring \<Rightarrow> cluster_pattern option" where
  "pattern_of s = (\<lambda>key. map_option ns_pattern (map_of (cl_namespaces s) key))"

definition searched ::
    "regexps \<Rightarrow> (cluster_pattern \<Rightarrow> bool) \<Rightarrow> ('q, 'c) cluster \<Rightarrow> ('q, 'c) cluster \<Rightarrow> bool" where
  "searched rx ok s t \<longleftrightarrow> cluster_inv rx ok t \<and> pattern_of t = pattern_of s \<and>
     cl_objects t = cl_objects s \<and> cl_nodes t = cl_nodes s \<and>
     cl_serviceableNodeIds t = cl_serviceableNodeIds s \<and> cl_log t = cl_log s \<and>
     cl_canRetry t = cl_canRetry s \<and> cl_removeNodeErrorCount t = cl_removeNodeErrorCount s \<and>
     cl_restoreNodeTimeout t = cl_restoreNodeTimeout s"

lemma searchedD:
  assumes "searched rx ok s t"
  shows "cluster_inv rx ok t" "pattern_of t = pattern_of s" "cl_objects t = cl_objects s"
    "cl_nodes t = cl_nodes s" "cl_serviceableNodeIds t = cl_serviceableNodeIds s" "cl_log t = cl_log s"
    "cl_canRetry t = cl_canRetry s" "cl_removeNodeErrorCount t = cl_removeNodeErrorCount s"
    "cl_restoreNodeTimeout t = cl_restoreNodeTimeout s" "own_node name t = own_node name s" "node_of t name = node_of s name"
  using assms by (auto simp: searched_def own_node_def node_of_def)

lemma searched_trans: "searched rx ok s t \<Longrightarrow> searched rx ok t u \<Longrightarrow> searched rx ok s u"
  by (simp add: searched_def)

text \<open>A pattern in use that is not the name of an inherited member.\<close>

definition searchable :: "(cluster_pattern \<Rightarrow> bool) \<Rightarrow> cluster_pattern \<Rightarrow> bool" where
  "searchable ok p \<longleftrightarrow> apart ok \<and> ok p \<and> object_member (pattern_key p) = None"

lemma find_searched:
  assumes "cluster_inv rx ok s" and "searchable ok pattern"
  obtains t where "findNodeIds rx now pattern off s = Inr (Ids (matching rx now pattern off s), t)"
    "searched rx ok s t" "cl_namespaces t = cl_namespaces s"
proof -
  from find_exact [OF assms(1), of pattern now off] assms(2) obtain fc where
    fc: "findNodeIds rx now pattern off s = Inr (Ids (matching rx now pattern off s), s\<lparr>cl_findCaches := fc\<rparr>)"
      "cluster_inv rx ok (s\<lparr>cl_findCaches := fc\<rparr>)" by (auto simp: searchable_def)
  then have "searched rx ok s (s\<lparr>cl_findCaches := fc\<rparr>)"
    by (simp add: searched_def pattern_of_def fun_eq_iff)
  then show ?thesis
    using that fc(1) by simp
qed

lemma select_in: "ids \<noteq> [] \<Longrightarrow> select sel i rnd ids = (name, j) \<Longrightarrow> name \<in> set ids"
  by (cases sel) (auto simp: select_def)

lemma map_of_keyed: "map_of (map (\<lambda>(k, n). (k, f k n)) xs) key = map_option (f key) (map_of xs key)"
  by (induction xs) auto

lemma searched_bump: "searched rx ok s t \<Longrightarrow> searched rx ok s (bump_index key i t)"
proof -
  assume t: "searched rx ok s t"
  have "pattern_of (bump_index key i t) = pattern_of t"
    by (auto simp: pattern_of_def bump_index_def map_of_keyed fun_eq_iff option.map_comp
        intro!: option.map_cong)
  then show ?thesis
    using t cluster_inv_bump by (auto simp: searched_def bump_index_def)
qed

lemma ids_read_Ids [simp]: "ids_read (Ids ids) = ids"
  by (simp add: ids_read_def)

lemma getClusterNode_shape:
  assumes "cluster_inv rx ok s" and "searchable ok (ns_pattern ns)"
  obtains r t where "getClusterNode rx now rnd key ns s = Inr (r, t)" "searched rx ok s t"
    "r = NoNode \<and> matching rx now (ns_pattern ns) False s = [] \<or>
     (\<exists>a. r = NodeAt a \<and> (\<exists>name\<in>set (matching rx now (ns_pattern ns) False s). own_node name s = Some a))"
proof -
  let ?ids = "matching rx now (ns_pattern ns) False s"
  obtain t where t: "findNodeIds rx now (ns_pattern ns) False s = Inr (Ids ?ids, t)" "searched rx ok s t"
    by (rule find_searched [OF assms])
  have known: "\<exists>a. own_node name s = Some a" if "name \<in> set ?ids" for name
    using that own_node_None [OF assms(1), of name] by (auto simp: matching_def)
  have get: "getNode name t = NodeAt a" if "own_node name s = Some a" for name a
    using that searchedD(10) [OF t(2)] getNode_own by metis
  obtain name j where sel: "select (ns_selector ns) (ns_index ns) rnd ?ids = (name, j)"
    by (meson surj_pair)
  consider "?ids = []" | x where "?ids = [x]" | x y zs where "?ids = x # y # zs"
    by (cases ?ids rule: remdups_adj.cases) auto
  then show ?thesis
  proof cases
    case 1
    then show ?thesis using t by (intro that [of NoNode t]) (simp_all add: getClusterNode_def)
  next
    case (2 x)
    obtain a where "own_node x s = Some a" using known [of x] 2 by auto
    then show ?thesis
      using t 2 get by (intro that [of "NodeAt a" t]) (simp_all add: getClusterNode_def)
  next
    case (3 x y zs)
    then have name: "name \<in> set ?ids" using select_in [OF _ sel] by simp
    then obtain a where "own_node name s = Some a" using known by blast
    then show ?thesis
      using t 3 sel name get searched_bump [OF t(2)]
      by (intro that [of "NodeAt a" "bump_index key j t"]) (auto simp: getClusterNode_def)
  qed
qed

text \<open>A live address: the node is in the cluster and serving.\<close>

definition live :: "int \<Rightarrow> nat \<Rightarrow> ('q, 'c) cluster \<Rightarrow> bool" where
  "live now a s \<longleftrightarrow> (\<exists>name\<in>set (cl_serviceableNodeIds s). own_node name s = Some a \<and> serving now (cl_objects s ! a))"

lemma ns_get_shape:
  assumes "cluster_inv rx ok s" and "pattern_of s key = Some pattern" and "searchable ok pattern"
  obtains t e where "ns_getConnection rx now rnd key q s = Inr (cl_say e t)" "searched rx ok s t"
    "(\<exists>a. e = AskPool q a \<and> live now a t) \<or> (\<exists>err. e = AnswerConn q (Inl err))"
proof -
  obtain ns where ns: "map_of (cl_namespaces s) key = Some ns" "ns_pattern ns = pattern"
    using assms(2) by (auto simp: pattern_of_def)
  obtain r t where r: "getClusterNode rx now rnd key ns s = Inr (r, t)" "searched rx ok s t"
    "r = NoNode \<and> matching rx now (ns_pattern ns) False s = [] \<or>
     (\<exists>a. r = NodeAt a \<and> (\<exists>name\<in>set (matching rx now (ns_pattern ns) False s). own_node name s = Some a))"
    by (rule getClusterNode_shape [OF assms(1)]) (use ns(2) assms(3) in auto)
  from r(3) show ?thesis
  proof (elim disjE conjE exE)
    assume none: "r = NoNode"
    obtain u where u: "findNodeIds rx now (ns_pattern ns) True t = Inr (Ids (matching rx now (ns_pattern ns) True t), u)"
      "searched rx ok t u"
      by (rule find_searched [OF searchedD(1) [OF r(2)]]) (use ns(2) assms(3) in auto)
    show ?thesis
      using ns r(1) none u(1) searched_trans [OF r(2) u(2)]
      by (intro that [of _ u]) (auto simp: ns_getConnection_def)
  next
    fix a
    assume a: "r = NodeAt a" "\<exists>name\<in>set (matching rx now (ns_pattern ns) False s). own_node name s = Some a"
    then have "live now a t"
      by (auto simp: live_def matching_def node_of_def searchedD [OF r(2)])
    then show ?thesis
      using ns r(1,2) a(1) by (intro that [of _ t]) (auto simp: ns_getConnection_def)
  qed
qed

section \<open>Retries end\<close>

text \<open>
  How many failures the cluster can still see up to the time \<open>now\<close>: of every node that is serving
  or will be by then, those that are left until its removal, at least one.
\<close>

definition weight :: "int \<Rightarrow> ('q, 'c) cluster \<Rightarrow> jstring \<Rightarrow> nat" where
  "weight now s name =
     (if serving now (node_of s name)
      then nat (max 1 (cl_removeNodeErrorCount s - nd_errorCount (node_of s name))) else 0)"

definition budget :: "int \<Rightarrow> ('q, 'c) cluster \<Rightarrow> nat" where
  "budget now s = sum (weight now s) (set (cl_serviceableNodeIds s))"

lemma budget_searched:
  assumes "searched rx ok s t"
  shows "budget now t = budget now s"
proof -
  have "weight now t = weight now s"
    by (intro ext) (simp add: weight_def searchedD [OF assms])
  then show ?thesis by (simp add: budget_def searchedD [OF assms])
qed

lemma own_node_inj:
  assumes "cluster_inv rx ok s" and "own_node n s = Some a" and "own_node m s = Some a"
  shows "n = m"
proof -
  have "nd_id (cl_objects s ! a) = k" if "own_node k s = Some a" for k
    using assms(1) map_of_SomeD [OF that [unfolded own_node_def]] by (auto simp: cluster_inv_def)
  then show ?thesis using assms(2,3) by metis
qed

lemma budget_object:
  fixes s t :: "('q, 'c) cluster"
  assumes inv: "cluster_inv rx ok s" and name: "name \<in> set (cl_serviceableNodeIds s)" "own_node name s = Some a"
    and "cl_removeNodeErrorCount t = cl_removeNodeErrorCount s"
    and "cl_nodes t = cl_nodes s" "cl_serviceableNodeIds t = cl_serviceableNodeIds s"
    and "cl_objects t = (cl_objects s)[a := nd]"
  shows "weight now t name < weight now s name \<Longrightarrow> budget now t < budget now s"
    and "weight now t name \<le> weight now s name \<Longrightarrow> budget now t \<le> budget now s"
proof -
  let ?S = "set (cl_serviceableNodeIds s)"
  have "weight now t n = weight now s n" if n: "n \<in> ?S" "n \<noteq> name" for n
  proof -
    obtain b where b: "own_node n s = Some b"
      using n(1) own_node_None [OF inv, of n] by (cases "own_node n s") auto
    then have "b \<noteq> a"
      using own_node_inj [OF inv _ name(2), of n] n(2) by auto
    then show ?thesis
      using b assms(4-7) by (simp add: weight_def node_of_def own_node_def)
  qed
  then have "sum (weight now t) (?S - {name}) = sum (weight now s) (?S - {name})"
    by (intro sum.cong) auto
  moreover have total: "budget now u = weight now u name + sum (weight now u) (?S - {name})"
    if "cl_serviceableNodeIds u = cl_serviceableNodeIds s" for u :: "('q, 'c) cluster"
    unfolding budget_def that using name(1) by (intro sum.remove) auto
  ultimately show "weight now t name < weight now s name \<Longrightarrow> budget now t < budget now s"
    and "weight now t name \<le> weight now s name \<Longrightarrow> budget now t \<le> budget now s"
    using total [OF assms(6)] total [OF refl] by simp_all
qed

lemma budget_say [simp]: "budget now (cl_say e s) = budget now s"
proof -
  have "weight now (cl_say e s) = weight now s"
    by (intro ext) (simp add: weight_def node_of_def own_node_def cl_say_def)
  then show ?thesis by (simp add: budget_def cl_say_def)
qed

lemma budget_remove:
  assumes "cluster_inv rx ok s" and name: "name \<in> set (cl_serviceableNodeIds s)" "own_node name s = Some a"
    and "nd_id (cl_objects s ! a) = name" and "serving now (cl_objects s ! a)"
  shows "budget now (removeNode a s) < budget now s"
proof -
  let ?t = "removeNode a s" and ?S = "set (cl_serviceableNodeIds s)"
  have t: "cl_serviceableNodeIds ?t = remove1 name (cl_serviceableNodeIds s)" "cl_objects ?t = cl_objects s"
      "cl_nodes ?t = AList.delete name (cl_nodes s)" "cl_removeNodeErrorCount ?t = cl_removeNodeErrorCount s"
    using name(1) assms(4) by (simp_all add: removeNode_def cl_say_def clearFindCaches_def Let_def)
  have "weight now ?t n = weight now s n" if "n \<noteq> name" for n
    using that t by (simp add: weight_def node_of_def own_node_def map_of_delete)
  then have "budget now ?t = sum (weight now s) (?S - {name})"
    unfolding budget_def t(1) using assms(1) by (intro sum.cong) (auto simp: cluster_inv_def)
  moreover have "budget now s = weight now s name + sum (weight now s) (?S - {name})"
    unfolding budget_def using name(1) by (intro sum.remove) auto
  moreover have "0 < weight now s name"
    using name(2) assms(5) by (simp add: weight_def node_of_def)
  ultimately show ?thesis by linarith
qed

lemma serving_mono: "serving now nd \<Longrightarrow> now \<le> later \<Longrightarrow> serving later nd"
  by (auto simp: serving_def)

lemma budget_failure:
  assumes inv: "cluster_inv rx ok s" and "live now a s" and now: "0 \<le> now" "now \<le> horizon"
    and late: "cl_restoreNodeTimeout s \<le> 0 \<or> horizon < now + cl_restoreNodeTimeout s"
  shows "budget horizon (increaseErrorCount now a s) < budget horizon s"
proof -
  obtain name where name: "name \<in> set (cl_serviceableNodeIds s)" "own_node name s = Some a"
    and serves: "serving horizon (cl_objects s ! a)"
    using assms(2) serving_mono [OF _ now(2)] by (auto simp: live_def)
  have a: "a < length (cl_objects s)" "nd_id (cl_objects s ! a) = name"
    using inv map_of_SomeD [OF name(2) [unfolded own_node_def]] by (auto simp: cluster_inv_def)
  define nd where "nd = (cl_objects s ! a)\<lparr>nd_errorCount := nd_errorCount (cl_objects s ! a) + 1\<rparr>"
  define s1 where "s1 = s\<lparr>cl_objects := (cl_objects s)[a := nd]\<rparr>"
  have same: "own_node n s1 = own_node n s" "cl_serviceableNodeIds s1 = cl_serviceableNodeIds s" for n
    by (simp_all add: s1_def own_node_def)
  consider "cl_removeNodeErrorCount s > nd_errorCount nd"
    | "\<not> cl_removeNodeErrorCount s > nd_errorCount nd" "cl_restoreNodeTimeout s > 0"
    | "\<not> cl_removeNodeErrorCount s > nd_errorCount nd" "\<not> cl_restoreNodeTimeout s > 0" by blast
  then show ?thesis
  proof cases
    case 1
    then have "increaseErrorCount now a s = s1"
      by (simp add: increaseErrorCount_def nd_def s1_def Let_def)
    moreover have "weight horizon s1 name < weight horizon s name"
      using 1 name(2) same serves a by (simp add: weight_def node_of_def s1_def nd_def serving_def)
    ultimately show ?thesis
      using budget_object(1) [OF inv name, of s1 nd horizon] by (simp add: s1_def)
  next
    case 2
    let ?t = "increaseErrorCount now a s"
    have t: "cl_objects ?t = (cl_objects s)[a := nd\<lparr>nd_offlineUntil := now + cl_restoreNodeTimeout s\<rparr>]"
        "cl_nodes ?t = cl_nodes s" "cl_serviceableNodeIds ?t = cl_serviceableNodeIds s"
        "cl_removeNodeErrorCount ?t = cl_removeNodeErrorCount s"
      using 2 by (simp_all add: increaseErrorCount_def nd_def cl_say_def Let_def)
    have "weight horizon ?t name < weight horizon s name"
      using 2 now late name(2) serves a t by (simp add: weight_def node_of_def own_node_def serving_def)
    then show ?thesis
      using budget_object(1) [OF inv name t(4,2,3,1)] by blast
  next
    case 3
    then have "increaseErrorCount now a s = cl_say (EmitRemove name) (removeNode a s1)"
      using a by (simp add: increaseErrorCount_def nd_def s1_def Let_def)
    moreover have "budget horizon (removeNode a s1) < budget horizon s1"
      using name same a serves inv cluster_inv_object [OF inv, of nd a]
      by (intro budget_remove) (simp_all add: s1_def nd_def serving_def)
    moreover have "budget horizon s1 \<le> budget horizon s"
    proof (rule budget_object(2) [OF inv name, of s1 nd])
      show "weight horizon s1 name \<le> weight horizon s name"
        using 3 name(2) same a serves by (simp add: weight_def node_of_def s1_def nd_def serving_def)
    qed (simp_all add: s1_def)
    ultimately show ?thesis
      by simp
  qed
qed

text \<open>
  A request all of whose attempts fail: each turn hands the failure of the pool last asked to the
  callback, until the log ends with the answer. \<open>clock\<close> gives the readings of the clock, three to
  a turn, \<open>rnd\<close> and \<open>err\<close> the random choice and the error of each turn. \<open>None\<close> stands for
  more turns than \<open>fuel\<close>.
\<close>

fun failing ::
    "regexps \<Rightarrow> nat \<Rightarrow> nat \<Rightarrow> (nat \<Rightarrow> int) \<Rightarrow> (nat \<Rightarrow> nat) \<Rightarrow> (nat \<Rightarrow> js_error) \<Rightarrow> jstring \<Rightarrow> 'q \<Rightarrow>
     ('q, 'c) cluster \<Rightarrow> ('q, 'c) cluster result option" where
  "failing rx 0 turn clock rnd err key q s = None"
| "failing rx (Suc fuel) turn clock rnd err key q s =
     (case last (cl_log s) of
        AskPool _ a \<Rightarrow>
          (case pool_reply rx (\<lambda>k. clock (3 * turn + k)) (rnd turn) key q a (Inl (err turn)) s of
             Inl e \<Rightarrow> Some (Inl e)
           | Inr t \<Rightarrow> failing rx fuel (Suc turn) clock rnd err key q t)
      | _ \<Rightarrow> Some (Inr s))"

lemma increase_same:
  "pattern_of (increaseErrorCount now a s) = pattern_of s"
  "cl_restoreNodeTimeout (increaseErrorCount now a s) = cl_restoreNodeTimeout s"
  by (simp_all add: pattern_of_def increaseErrorCount_def removeNode_def clearFindCaches_def cl_say_def Let_def)

lemma say_same [simp]:
  "pattern_of (cl_say e s) = pattern_of s" "cl_restoreNodeTimeout (cl_say e s) = cl_restoreNodeTimeout s"
  by (simp_all add: pattern_of_def cl_say_def)

lemma live_say [simp]: "live now a (cl_say e s) = live now a s"
  by (simp add: live_def cl_say_def own_node_def)

lemma live_mono: "live now a s \<Longrightarrow> now \<le> later \<Longrightarrow> live later a s"
  using serving_mono by (auto simp: live_def)

text \<open>The clock during a request: readings in order, and none when a node put offline is back.\<close>

definition clock_ok :: "int \<Rightarrow> int \<Rightarrow> (nat \<Rightarrow> int) \<Rightarrow> int \<Rightarrow> bool" where
  "clock_ok start horizon clock timeout \<longleftrightarrow>
     0 \<le> start \<and> mono clock \<and> (\<forall>i. start \<le> clock i \<and> clock i \<le> horizon) \<and>
     (timeout \<le> 0 \<or> horizon < start + timeout)"

lemma pool_reply_failure:
  assumes inv: "cluster_inv rx ok s" and "live (clock 0) a s"
    and pattern: "pattern_of s key = Some pattern" "searchable ok pattern"
    and clock: "0 \<le> clock 0" "clock 0 \<le> horizon"
      "cl_restoreNodeTimeout s \<le> 0 \<or> horizon < clock 0 + cl_restoreNodeTimeout s"
  obtains t e where "pool_reply rx clock rnd key q a (Inl err) s = Inr (cl_say e t)" "cluster_inv rx ok t"
    "pattern_of t = pattern_of s" "cl_restoreNodeTimeout t = cl_restoreNodeTimeout s"
    "budget horizon t < budget horizon s"
    "(\<exists>b. e = AskPool q b \<and> live (clock 2) b t) \<or> (\<exists>er. e = AnswerConn q (Inl er))"
proof -
  let ?u = "increaseErrorCount (clock 0) a s"
  have u: "cluster_inv rx ok ?u" "pattern_of ?u key = Some pattern" "budget horizon ?u < budget horizon s"
    using cluster_inv_counts(1) [OF inv] pattern(1) budget_failure [OF inv assms(2) clock]
    by (simp_all add: increase_same)
  obtain ns where ns: "map_of (cl_namespaces ?u) key = Some ns" "ns_pattern ns = pattern"
    using u(2) by (auto simp: pattern_of_def)
  obtain v where v: "findNodeIds rx (clock 1) pattern False ?u = Inr (Ids (matching rx (clock 1) pattern False ?u), v)"
      "searched rx ok ?u v" "cl_namespaces v = cl_namespaces ?u"
    by (rule find_searched [OF u(1) pattern(2)])
  have warned: "cluster_inv rx ok (cl_say (EmitWarn err) v)" "pattern_of (cl_say (EmitWarn err) v) key = Some pattern"
    using searchedD(1,2) [OF v(2)] u(2) by simp_all
  obtain t e where t: "ns_getConnection rx (clock 2) rnd key q (cl_say (EmitWarn err) v) = Inr (cl_say e t)"
      "searched rx ok (cl_say (EmitWarn err) v) t"
      "(\<exists>b. e = AskPool q b \<and> live (clock 2) b t) \<or> (\<exists>er. e = AnswerConn q (Inl er))"
    by (rule ns_get_shape [OF warned pattern(2)])
  note kept = searchedD(1,2,9) [OF t(2)] searchedD(1,2,9) [OF v(2)] increase_same
    budget_searched [OF t(2)] budget_searched [OF v(2)]
  consider (retry) "cl_canRetry ?u" "matching rx (clock 1) pattern False ?u \<noteq> []"
    | (none) "cl_canRetry ?u" "matching rx (clock 1) pattern False ?u = []" | (no) "\<not> cl_canRetry ?u" by blast
  then show ?thesis
  proof cases
    case retry
    then show ?thesis
      using ns v(1) t(1,3) kept u(3) by (intro that [of e t]) (simp_all add: pool_reply_def)
  next
    case none
    then show ?thesis
      using ns v(1) kept u(3)
      by (intro that [of "AnswerConn q (Inl err)" v]) (simp_all add: pool_reply_def)
  next
    case no
    then show ?thesis
      using u kept(7,8) by (intro that [of "AnswerConn q (Inl err)" ?u]) (simp_all add: pool_reply_def)
  qed
qed

lemma failing_answers:
  assumes "cluster_inv rx ok s" and "pattern_of s key = Some pattern" and "searchable ok pattern"
    and "clock_ok start horizon clock (cl_restoreNodeTimeout s)" and "budget horizon s < fuel"
    and "(\<exists>a. e = AskPool q a \<and> live (clock (3 * turn)) a s) \<or> (\<exists>er. e = AnswerConn q (Inl er))"
  shows "\<exists>t er. failing rx fuel turn clock rnd err key q (cl_say e s) = Some (Inr t) \<and>
    last (cl_log t) = AnswerConn q (Inl er)"
  using assms
proof (induction fuel arbitrary: s e turn)
  case (Suc fuel)
  show ?case
  proof (cases "\<exists>er. e = AnswerConn q (Inl er)")
    case True
    then show ?thesis by (auto simp: cl_say_def)
  next
    case False
    then obtain a where a: "e = AskPool q a" "live (clock (3 * turn)) a s" using Suc.prems(6) by blast
    let ?clock = "\<lambda>k. clock (3 * turn + k)"
    have "mono clock" and start: "0 \<le> start" "start \<le> clock (3 * turn)" "clock (3 * turn) \<le> horizon"
      "cl_restoreNodeTimeout s \<le> 0 \<or> horizon < start + cl_restoreNodeTimeout s"
      using Suc.prems(4) by (simp_all add: clock_ok_def)
    then have clock: "0 \<le> ?clock 0" "?clock 0 \<le> horizon" "clock (3 * turn + 2) \<le> clock (3 * Suc turn)"
      "cl_restoreNodeTimeout s \<le> 0 \<or> horizon < ?clock 0 + cl_restoreNodeTimeout s"
      by (auto intro: monoD)
    obtain t e' where t: "pool_reply rx ?clock (rnd turn) key q a (Inl (err turn)) (cl_say e s) = Inr (cl_say e' t)"
        "cluster_inv rx ok t" "pattern_of t = pattern_of (cl_say e s)"
        "cl_restoreNodeTimeout t = cl_restoreNodeTimeout (cl_say e s)"
        "budget horizon t < budget horizon (cl_say e s)"
        "(\<exists>b. e' = AskPool q b \<and> live (?clock 2) b t) \<or> (\<exists>er. e' = AnswerConn q (Inl er))"
      by (rule pool_reply_failure [of rx ok "cl_say e s" ?clock a key pattern horizon "rnd turn" q "err turn"])
        (use Suc.prems(1-3) a(2) clock in simp_all)
    have "failing rx (Suc fuel) turn clock rnd err key q (cl_say e s) =
        failing rx fuel (Suc turn) clock rnd err key q (cl_say e' t)"
      using a(1) t(1) by (simp add: cl_say_def)
    moreover have "(\<exists>b. e' = AskPool q b \<and> live (clock (3 * Suc turn)) b t) \<or> (\<exists>er. e' = AnswerConn q (Inl er))"
      using t(6) live_mono [OF _ clock(3)] by auto
    ultimately show ?thesis
      using Suc.IH [OF t(2), of e' "Suc turn"] Suc.prems(2-5) t(3-5) by simp
  qed
qed simp

section \<open>Runs\<close>

inductive cluster_step ::
    "regexps \<Rightarrow> (cluster_pattern \<Rightarrow> bool) \<Rightarrow> ('q, 'c) cluster \<Rightarrow> ('q, 'c) cluster \<Rightarrow> bool"
  for rx :: regexps and ok :: "cluster_pattern \<Rightarrow> bool" where
  step_of: "used ok (normal_pattern pattern) \<Longrightarrow> cluster_of pattern sel s = Inr (key, t) \<Longrightarrow> cluster_step rx ok s t"
| step_add: "cluster_step rx ok s (cluster_add given s)"
| step_remove: "used ok pattern \<Longrightarrow> cluster_remove rx now pattern s = Inr t \<Longrightarrow> cluster_step rx ok s t"
| step_get: "used ok (normal_pattern pattern) \<Longrightarrow> cluster_getConnection rx now rnd pattern sel q s = Inr t \<Longrightarrow>
    cluster_step rx ok s t"
| step_reply: "AskPool q a \<in> set (cl_log s) \<Longrightarrow> pool_reply rx clock rnd key q a answer s = Inr t \<Longrightarrow>
    cluster_step rx ok s t"
| step_end: "cluster_step rx ok s (snd (cluster_end no_conns s))"

lemma cluster_of_inv:
  "cluster_of pattern sel s = Inr (key, t) \<Longrightarrow> used ok (normal_pattern pattern) \<Longrightarrow> cluster_inv rx ok s \<Longrightarrow>
   cluster_inv rx ok t"
  by (auto simp: cluster_of_def cluster_inv_def cached_ok_def Let_def split: option.splits if_splits)

lemma find_inv:
  assumes "findNodeIds rx now pattern off s = Inr (found, t)" and "used ok pattern" and "cluster_inv rx ok s"
  shows "cluster_inv rx ok t" and "cl_namespaces t = cl_namespaces s"
proof -
  let ?ids = "case map_of (cl_findCaches s) (pattern_key pattern) of Some ids \<Rightarrow> ids
    | None \<Rightarrow> filter (pattern_matches rx pattern) (cl_serviceableNodeIds s)"
  have "cluster_inv rx ok (s\<lparr>cl_findCaches := AList.update (pattern_key pattern) ?ids (cl_findCaches s)\<rparr>)"
    if "object_member (pattern_key pattern) = None"
    using that assms(2,3)
    by (auto simp: cluster_inv_def cached_ok_def used_def update_conv' split: if_splits option.splits)
  then show "cluster_inv rx ok t" and "cl_namespaces t = cl_namespaces s"
    using assms(1,3) by (auto simp: findNodeIds_def Let_def split: option.splits if_splits sum.splits)
qed

lemma pattern_used: "cluster_inv rx ok s \<Longrightarrow> map_of (cl_namespaces s) key = Some ns \<Longrightarrow> used ok (ns_pattern ns)"
  by (auto simp: cluster_inv_def dest!: map_of_SomeD)

lemma getClusterNode_inv:
  assumes "getClusterNode rx now rnd key ns s = Inr (r, t)" and "used ok (ns_pattern ns)" and "cluster_inv rx ok s"
  shows "cluster_inv rx ok t"
proof -
  obtain found u where f: "findNodeIds rx now (ns_pattern ns) False s = Inr (found, u)"
    using assms(1) by (auto simp: getClusterNode_def split: sum.splits)
  have "cluster_inv rx ok u"
    by (rule find_inv(1) [OF f assms(2,3)])
  then show ?thesis
    using assms(1) f cluster_inv_bump [of rx ok u]
    by (cases "ids_read found" rule: remdups_adj.cases)
       (auto simp: getClusterNode_def split: prod.splits)
qed

lemma get_inv:
  assumes "ns_getConnection rx now rnd key q s = Inr t" and "cluster_inv rx ok s"
  shows "cluster_inv rx ok t"
proof -
  obtain ns where ns: "map_of (cl_namespaces s) key = Some ns"
    using assms(1) by (auto simp: ns_getConnection_def split: option.splits)
  obtain r u where r: "getClusterNode rx now rnd key ns s = Inr (r, u)"
    using assms(1) ns by (auto simp: ns_getConnection_def split: sum.splits)
  have u: "cluster_inv rx ok u"
    by (rule getClusterNode_inv [OF r pattern_used [OF assms(2) ns] assms(2)])
  then show ?thesis
    using assms(1) ns r find_inv(1) [OF _ pattern_used [OF assms(2) ns] u]
    by (auto simp: ns_getConnection_def split: sum.splits found_node.splits)
qed

lemma remove_all_inv: "cluster_inv rx ok s \<Longrightarrow> cluster_inv rx ok (remove_all names s)"
  by (induction names arbitrary: s) (auto simp: cluster_inv_remove split: found_node.split)

lemma reply_inv:
  assumes "pool_reply rx clock rnd key q a answer s = Inr t" and "cluster_inv rx ok s"
  shows "cluster_inv rx ok t"
proof (cases answer)
  case (Inr conn)
  then show ?thesis
    using assms cluster_inv_counts(2) [of rx ok s a] by (auto simp: pool_reply_def)
next
  case (Inl err)
  let ?u = "increaseErrorCount (clock 0) a s"
  have u: "cluster_inv rx ok ?u"
    by (rule cluster_inv_counts(1) [OF assms(2)])
  show ?thesis
    using assms(1) Inl u get_inv [of rx "clock 2" rnd key q _ t ok] find_inv(1) [OF _ pattern_used [OF u] u]
    by (fastforce simp: pool_reply_def Let_def split: sum.splits if_splits option.splits)
qed

lemma end_pools_inv:
  "end_pools no_conns as (b, w, s) = (b', w', t) \<Longrightarrow> cluster_inv rx ok s \<Longrightarrow> cluster_inv rx ok t"
proof (induction as arbitrary: b w s)
  case (Cons a as)
  obtain b1 w1 s1 where st: "(if no_conns a then onEnd None (b, w + 1, cl_say (EndPool a) s)
      else (b, w + 1, cl_say (EndPool a) s)) = (b1, w1, s1)"
    by (metis prod_cases3)
  then have "cluster_inv rx ok s1"
    using Cons.prems(2) by (auto simp: onEnd_def split: if_splits)
  then show ?case
    using Cons st by (simp add: Let_def)
qed simp

lemma end_inv: "cluster_inv rx ok s \<Longrightarrow> cluster_inv rx ok (snd (cluster_end no_conns s))"
proof -
  assume inv: "cluster_inv rx ok s"
  obtain b w t where e: "end_pools no_conns (map snd (cl_nodes s)) (False, 0, s\<lparr>cl_closed := True\<rparr>) = (b, w, t)"
    by (metis prod_cases3)
  then have "cluster_inv rx ok t" using end_pools_inv inv by fastforce
  then show ?thesis
    using inv e by (auto simp: cluster_end_def onEnd_def split: prod.split)
qed

lemma step_inv: "cluster_step rx ok s t \<Longrightarrow> cluster_inv rx ok s \<Longrightarrow> cluster_inv rx ok t"
  by (induction rule: cluster_step.induct)
    (auto simp: cluster_remove_def cluster_getConnection_def cluster_inv_add end_inv remove_all_inv
      dest: cluster_of_inv get_inv reply_inv find_inv(1) split: sum.splits)

lemma cluster_run_inv: "(cluster_step rx ok)\<^sup>*\<^sup>* s t \<Longrightarrow> cluster_inv rx ok s \<Longrightarrow> cluster_inv rx ok t"
  by (induction rule: rtranclp_induct) (auto dest: step_inv)

section \<open>Properties\<close>

text \<open>
  Claim C19. In every run of a new cluster the search for nodes is exact, cache and all: for every
  pattern, string or \<open>RegExp\<close>, that is not the name of a member every object inherits
  (\<open>object_members\<close>) it raises nothing and returns, in the order they were added, the ids of the
  nodes in the cluster that match the pattern and, unless offline nodes are asked for too, are
  serving. The patterns used in the run are told apart by their texts: no string reads like a
  \<open>RegExp\<close> in use (\<open>/source/flags\<close>), with which it would share the cache.
\<close>

theorem cluster_finds_nodes:
  assumes "(cluster_step rx ok)\<^sup>*\<^sup>* (new_cluster canRetry removeCount restore defaultSel) s"
    and "apart ok" and "ok pattern" and "object_member (pattern_key pattern) = None"
  shows "\<exists>fc. findNodeIds rx now pattern off s =
    Inr (Ids (filter (\<lambda>name. pattern_matches rx pattern name \<and>
                (off \<or> serving now (cl_objects s ! the (own_node name s)))) (map fst (cl_nodes s))),
         s\<lparr>cl_findCaches := fc\<rparr>)"
proof -
  have inv: "cluster_inv rx ok s"
    by (rule cluster_run_inv [OF assms(1) cluster_inv_new])
  then have "map fst (cl_nodes s) = cl_serviceableNodeIds s"
    by (simp add: cluster_inv_def)
  then show ?thesis
    using find_exact [OF inv assms(2-4), of now off] by (auto simp: matching_def node_of_def)
qed

lemma members_A: "object_member (js ''A'') = None" "object_member (js ''B'') = None"
  "object_member (js ''*'') = None" "object_member (js ''*RR'') = None"
  by (simp_all add: object_member_def object_members_def js_def)

theorem cluster_finds_nodes_witness:
  "\<exists>fc. findNodeIds (\<lambda>_ _. False) 7 (Pat (js ''*'')) False
      (cluster_add (Some (js ''A'')) (new_cluster None 0 0 None :: (nat, nat) cluster)) =
    Inr (Ids [js ''A''], (cluster_add (Some (js ''A'')) (new_cluster None 0 0 None))\<lparr>cl_findCaches := fc\<rparr>)"
proof -
  let ?s = "cluster_add (Some (js ''A'')) (new_cluster None 0 0 None) :: (nat, nat) cluster"
  let ?ok = "\<lambda>p. p = Pat (js ''*'')"
  have run: "(cluster_step (\<lambda>_ _. False) ?ok)\<^sup>*\<^sup>* (new_cluster None 0 0 None) ?s"
    by (intro r_into_rtranclp step_add)
  have "map fst (cl_nodes ?s) = [js ''A'']" "serving 7 (cl_objects ?s ! the (own_node (js ''A'') ?s))"
    by (simp_all add: cluster_add_def new_cluster_def clearFindCaches_def own_node_def serving_def members_A Let_def)
  moreover have "patternRegExp (js ''*'') (js ''A'')"
    by (simp add: patternRegExp_def parse_pattern_source pattern_item_def js_def line_terminator_def)
  ultimately show ?thesis
    using cluster_finds_nodes [OF run, of "Pat (js ''*'')" 7 False] by (simp add: apart_def members_A)
qed

text \<open>
  A pattern or an id that every object inherits is not like the others: the search raises, and a
  node is not added.
\<close>

lemma inherited_pattern_raises:
  assumes "object_member (pattern_key pattern) \<noteq> None"
  shows "findNodeIds rx now pattern False s = Inl TypeError" and "cluster_add (Some (pattern_key pattern)) s = s"
  using assms by (auto simp: findNodeIds_def cluster_add_def Let_def)

text \<open>
  Claim C18. A request that every pool fails is answered, after no more attempts than the failures
  the nodes can still stand, whatever random choices are made: each failure moves a node nearer to
  its removal, or takes it out of the cluster or offline. The clock is read at every attempt; the
  bound counts every node serving at some reading up to \<open>horizon\<close>, and holds as long as no node
  put offline meanwhile is back by then: \<open>restoreNodeTimeout\<close> is 0, or longer than all the
  attempts take. Between the attempts the cluster does nothing else, and its patterns are as in
  \<open>cluster_finds_nodes\<close>.
\<close>

theorem cluster_retries_end:
  assumes "(cluster_step rx ok)\<^sup>*\<^sup>* (new_cluster canRetry removeCount restore defaultSel) s"
    and "map_of (cl_namespaces s) key = Some ns"
    and "apart ok" and "ok (ns_pattern ns)" and "object_member (pattern_key (ns_pattern ns)) = None"
    and "0 \<le> start" and "start \<le> clock 0" and "mono clock" and "\<And>i. clock i \<le> horizon"
    and "cl_restoreNodeTimeout s \<le> 0 \<or> horizon < start + cl_restoreNodeTimeout s"
  shows "\<exists>u t er. ns_getConnection rx start r0 key q s = Inr u \<and>
    failing rx (Suc (budget horizon s)) 0 clock rnd err key q u = Some (Inr t) \<and>
    last (cl_log t) = AnswerConn q (Inl er)"
proof -
  have inv: "cluster_inv rx ok s"
    by (rule cluster_run_inv [OF assms(1) cluster_inv_new])
  have pattern: "pattern_of s key = Some (ns_pattern ns)" "searchable ok (ns_pattern ns)"
    using assms(2-5) by (simp_all add: pattern_of_def searchable_def)
  obtain t e where t: "ns_getConnection rx start r0 key q s = Inr (cl_say e t)" "searched rx ok s t"
    "(\<exists>a. e = AskPool q a \<and> live start a t) \<or> (\<exists>err. e = AnswerConn q (Inl err))"
    by (rule ns_get_shape [OF inv pattern])
  have "start \<le> clock i" for i
    using assms(7) monoD [OF assms(8), of 0 i] by simp
  then have "clock_ok start horizon clock (cl_restoreNodeTimeout t)"
    using assms(6,8-10) searchedD(9) [OF t(2)] by (simp add: clock_ok_def)
  moreover have "(\<exists>a. e = AskPool q a \<and> live (clock (3 * 0)) a t) \<or> (\<exists>err. e = AnswerConn q (Inl err))"
    using t(3) live_mono [OF _ assms(7)] by auto
  ultimately show ?thesis
    using failing_answers [OF searchedD(1) [OF t(2)] _ pattern(2), of key start horizon clock
        "Suc (budget horizon s)" e q 0 rnd err] pattern(1) searchedD(2) [OF t(2)]
      budget_searched [OF t(2), of horizon] t(1) by fastforce
qed

theorem cluster_retries_end_witness:
  "\<exists>s key u t er. cluster_of None None (cluster_add (Some (js ''A'')) (new_cluster None 2 50 None)) = Inr (key, s) \<and>
    budget 40 s = 2 \<and> ns_getConnection (\<lambda>_ _. False) 7 0 key (9 :: nat) (s :: (nat, nat) cluster) = Inr u \<and>
    failing (\<lambda>_ _. False) 3 0 (\<lambda>i. min 40 (8 + int i)) (\<lambda>_. 0) (\<lambda>_. RangeError) key 9 u = Some (Inr t) \<and>
    last (cl_log t) = AnswerConn 9 (Inl er)"
proof -
  let ?a = "cluster_add (Some (js ''A'')) (new_cluster None 2 50 None) :: (nat, nat) cluster"
  let ?ns = "\<lparr>ns_pattern = Pat (js ''*''), ns_selector = RR, ns_index = 0\<rparr>"
  let ?s = "?a\<lparr>cl_namespaces := [(js ''*RR'', ?ns)]\<rparr>"
  let ?ok = "\<lambda>p. p = Pat (js ''*'')"
  have of: "cluster_of None None ?a = Inr (js ''*RR'', ?s)"
    by (simp add: cluster_of_def cluster_add_def new_cluster_def clearFindCaches_def js_def upper_ascii_def
        makeSelector_def own_node_def normal_pattern_def object_member_def object_members_def Let_def)
  have ok: "used ?ok (normal_pattern None)" by (simp add: used_def normal_pattern_def)
  have run: "(cluster_step (\<lambda>_ _. False) ?ok)\<^sup>*\<^sup>* (new_cluster None 2 50 None) ?s"
    by (rule rtranclp.rtrancl_into_rtrancl [where b = ?a])
      (rule r_into_rtranclp, rule step_add, rule step_of, rule ok, rule of)
  have two: "budget 40 ?s = 2"
    by (simp add: budget_def weight_def node_of_def own_node_def serving_def cluster_add_def new_cluster_def
        clearFindCaches_def members_A Let_def)
  then have "Suc (budget 40 ?s) = 3" by simp
  moreover have "cl_restoreNodeTimeout ?s = 50" "map_of (cl_namespaces ?s) (js ''*RR'') = Some ?ns"
    by (simp_all add: cluster_add_def new_cluster_def clearFindCaches_def members_A own_node_def Let_def)
  ultimately obtain u t er where "ns_getConnection (\<lambda>_ _. False) 7 0 (js ''*RR'') (9 :: nat) ?s = Inr u"
    "failing (\<lambda>_ _. False) 3 0 (\<lambda>i. min 40 (8 + int i)) (\<lambda>_. 0) (\<lambda>_. RangeError) (js ''*RR'') 9 u = Some (Inr t)"
    "last (cl_log t) = AnswerConn 9 (Inl er)"
    using cluster_retries_end [OF run, of "js ''*RR''" ?ns 7 "\<lambda>i. min 40 (8 + int i)" 40 0 9 "\<lambda>_. 0" "\<lambda>_. RangeError"]
    by (fastforce simp: apart_def members_A mono_def)
  then show ?thesis
    using of two by blast
qed

text \<open>
  Requests made one after the other while the answers are still to come, each with its reading of the
  clock and its random choice.
\<close>

fun ask_all :: "regexps \<Rightarrow> jstring \<Rightarrow> (int \<times> nat \<times> 'q) list \<Rightarrow> ('q, 'c) cluster \<Rightarrow> ('q, 'c) cluster result" where
  "ask_all rx key [] s = Inr s"
| "ask_all rx key ((now, rnd, q) # qs) s =
     (case ns_getConnection rx now rnd key q s of Inl e \<Rightarrow> Inl e | Inr t \<Rightarrow> ask_all rx key qs t)"

lemma ns_get_round_robin:
  assumes inv: "cluster_inv rx ok s" and ns: "map_of (cl_namespaces s) key = Some ns" "ns_selector ns = RR"
    and pattern: "searchable ok (ns_pattern ns)"
    and ids: "matching rx now (ns_pattern ns) False s = ids" "2 \<le> length ids"
  obtains t where "ns_getConnection rx now rnd key q s =
      Inr (cl_say (AskPool q (the (own_node (ids ! (ns_index ns mod length ids)) s))) t)"
    "searched rx ok s t" "map_of (cl_namespaces t) key = Some (ns\<lparr>ns_index := ns_index ns + 1\<rparr>)"
proof -
  obtain u where u: "findNodeIds rx now (ns_pattern ns) False s = Inr (Ids ids, u)" "searched rx ok s u"
      "cl_namespaces u = cl_namespaces s"
    using find_searched [OF inv pattern, of now False] ids(1) by metis
  have "0 < length ids"
    using ids(2) by linarith
  then have "ids ! (ns_index ns mod length ids) \<in> set ids"
    by (intro nth_mem mod_less_divisor)
  then obtain a where a: "own_node (ids ! (ns_index ns mod length ids)) s = Some a"
    using ids(1) own_node_None [OF inv, of "ids ! (ns_index ns mod length ids)"]
    by (cases "own_node (ids ! (ns_index ns mod length ids)) s") (auto simp: matching_def)
  obtain x y zs where xs: "ids = x # y # zs"
    using ids(2) by (cases ids rule: remdups_adj.cases) auto
  have "getClusterNode rx now rnd key ns s = Inr (NodeAt a, bump_index key (ns_index ns + 1) u)"
    using u(1) a ns(2) getNode_own [of _ u]
    by (simp add: getClusterNode_def xs select_def searchedD(10) [OF u(2)])
  moreover have "map_of (cl_namespaces (bump_index key (ns_index ns + 1) u)) key = Some (ns\<lparr>ns_index := ns_index ns + 1\<rparr>)"
    using ns(1) u(3) by (simp add: bump_index_def map_of_keyed)
  ultimately show ?thesis
    using ns(1) a searched_bump [OF u(2)] by (intro that) (auto simp: ns_getConnection_def)
qed

lemma matching_searched: "searched rx ok s t \<Longrightarrow> matching rx now pattern off t = matching rx now pattern off s"
  by (simp add: matching_def searchedD)

lemma matching_say [simp]: "matching rx now pattern off (cl_say e s) = matching rx now pattern off s"
  by (simp add: matching_def node_of_def own_node_def cl_say_def)

lemma asked_in_turn:
  assumes "cluster_inv rx ok s" and "map_of (cl_namespaces s) key = Some ns" and "ns_selector ns = RR"
    and "searchable ok (ns_pattern ns)" and "\<forall>(now, rnd, q) \<in> set qs. matching rx now (ns_pattern ns) False s = ids"
    and "2 \<le> length ids"
  shows "\<exists>t. ask_all rx key qs s = Inr t \<and> cl_log t = cl_log s @
    map (\<lambda>i. AskPool (snd (snd (qs ! i))) (the (own_node (ids ! ((ns_index ns + i) mod length ids)) s))) [0..<length qs]"
  using assms
proof (induction qs arbitrary: s ns)
  case (Cons x qs)
  obtain now rnd q where x: "x = (now, rnd, q)" by (cases x)
  then have here: "matching rx now (ns_pattern ns) False s = ids" using Cons.prems(5) by simp
  obtain t where t: "ns_getConnection rx now rnd key q s =
      Inr (cl_say (AskPool q (the (own_node (ids ! (ns_index ns mod length ids)) s))) t)"
    "searched rx ok s t" "map_of (cl_namespaces t) key = Some (ns\<lparr>ns_index := ns_index ns + 1\<rparr>)"
    by (rule ns_get_round_robin [OF Cons.prems(1-4) here Cons.prems(6)])
  let ?t = "cl_say (AskPool q (the (own_node (ids ! (ns_index ns mod length ids)) s))) t"
  have same: "own_node n ?t = own_node n s" for n
    using searchedD(10) [OF t(2)] by (simp add: own_node_def cl_say_def)
  have inv: "cluster_inv rx ok ?t" using searchedD(1) [OF t(2)] by simp
  have moved: "map_of (cl_namespaces ?t) key = Some (ns\<lparr>ns_index := ns_index ns + 1\<rparr>)"
    using t(3) by (simp add: cl_say_def)
  let ?ns = "ns\<lparr>ns_index := ns_index ns + 1\<rparr>"
  have rest: "ns_selector ?ns = RR" "searchable ok (ns_pattern ?ns)"
    "\<forall>(now, rnd, q) \<in> set qs. matching rx now (ns_pattern ?ns) False ?t = ids"
    using Cons.prems(3,4,5) matching_searched [OF t(2), of _ "ns_pattern ns" False] by auto
  have "\<exists>v. ask_all rx key qs ?t = Inr v \<and> cl_log v = cl_log ?t @
      map (\<lambda>i. AskPool (snd (snd (qs ! i))) (the (own_node (ids ! ((ns_index ns + 1 + i) mod length ids)) ?t))) [0..<length qs]"
    using Cons.IH [OF inv moved rest Cons.prems(6)] by simp
  moreover have "[0..<length (x # qs)] = 0 # map Suc [0..<length qs]"
    by (simp add: upt_conv_Cons map_Suc_upt del: upt_Suc)
  ultimately show ?case
    using t(1) same searchedD(6) [OF t(2)] by (auto simp: x cl_say_def o_def simp del: upt_Suc)
qed simp

text \<open>
  Claim C37. Round robin is fair: in every run of a new cluster, as long as the same two or more nodes
  serve a namespace with the RR selector, consecutive requests ask them in turn, starting where the
  namespace stopped, whatever the clock and the random choices, so as many requests as there are nodes
  ask each node once. The pattern is not the name of an inherited member and the patterns used in the
  run are told apart by their texts.
\<close>

theorem round_robin_in_turn:
  assumes "(cluster_step rx ok)\<^sup>*\<^sup>* (new_cluster canRetry removeCount restore defaultSel) s" and "apart ok"
    and "map_of (cl_namespaces s) key = Some ns" and "ns_selector ns = RR"
    and "object_member (pattern_key (ns_pattern ns)) = None"
    and "\<forall>(now, rnd, q) \<in> set qs. matching rx now (ns_pattern ns) False s = ids" and "2 \<le> length ids"
  shows "\<exists>t. ask_all rx key qs s = Inr t \<and> cl_log t = cl_log s @
    map (\<lambda>i. AskPool (snd (snd (qs ! i))) (the (own_node (ids ! ((ns_index ns + i) mod length ids)) s))) [0..<length qs]"
proof -
  have inv: "cluster_inv rx ok s"
    by (rule cluster_run_inv [OF assms(1) cluster_inv_new])
  show ?thesis
    using pattern_used [OF inv assms(3)] assms(2,5)
    by (intro asked_in_turn [OF inv assms(3,4) _ assms(6,7)]) (simp add: searchable_def used_def)
qed

theorem round_robin_in_turn_witness:
  "\<exists>s t. cluster_of None None (cluster_add (Some (js ''A'')) (cluster_add (Some (js ''B'')) (new_cluster None 2 0 None))) =
      Inr (js ''*RR'', s) \<and>
    ask_all (\<lambda>_ _. False) (js ''*RR'') [(7, 0, 11), (8, 3, 12), (9, 0, 13 :: nat)] (s :: (nat, nat) cluster) = Inr t \<and>
    cl_log t = [AskPool 11 0, AskPool 12 1, AskPool 13 0]"
proof -
  let ?a = "cluster_add (Some (js ''A'')) (cluster_add (Some (js ''B'')) (new_cluster None 2 0 None)) :: (nat, nat) cluster"
  let ?qs = "[(7, 0, 11), (8, 3, 12), (9, 0, 13)] :: (int \<times> nat \<times> nat) list"
  let ?ok = "\<lambda>p. p = Pat (js ''*'')"
  let ?ns = "\<lparr>ns_pattern = Pat (js ''*''), ns_selector = RR, ns_index = 0\<rparr>"
  let ?s = "?a\<lparr>cl_namespaces := [(js ''*RR'', ?ns)]\<rparr>"
  have a: "?a = (new_cluster None 2 0 None)\<lparr>cl_objects := [\<lparr>nd_id = js ''B'', nd_errorCount = 0, nd_offlineUntil = 0\<rparr>,
        \<lparr>nd_id = js ''A'', nd_errorCount = 0, nd_offlineUntil = 0\<rparr>],
      cl_nodes := [(js ''B'', 0), (js ''A'', 1)], cl_serviceableNodeIds := [js ''B'', js ''A'']\<rparr>"
    by (simp add: cluster_add_def new_cluster_def clearFindCaches_def Let_def js_def own_node_def
        object_member_def object_members_def)
  have of: "cluster_of None None ?a = Inr (js ''*RR'', ?s)"
    unfolding a by (simp add: cluster_of_def new_cluster_def js_def upper_ascii_def makeSelector_def Let_def
        normal_pattern_def object_member_def object_members_def)
  have "cluster_step (\<lambda>_ _. False) ?ok ?a ?s"
    by (rule step_of [OF _ of]) (simp add: used_def normal_pattern_def js_def)
  then have run: "(cluster_step (\<lambda>_ _. False) ?ok)\<^sup>*\<^sup>* (new_cluster None 2 0 None) ?s"
    by (meson rtranclp.rtrancl_into_rtrancl r_into_rtranclp step_add)
  have pattern: "apart ?ok" "object_member (pattern_key (ns_pattern ?ns)) = None"
    by (simp_all add: apart_def members_A)
  have "patternRegExp (js ''*'') (js ''A'')" "patternRegExp (js ''*'') (js ''B'')"
    by (simp_all add: patternRegExp_def parse_pattern_source pattern_item_def js_def line_terminator_def)
  then have ids: "matching (\<lambda>_ _. False) now (Pat (js ''*'')) False ?s = [js ''B'', js ''A'']" if "0 \<le> now" for now
    using that unfolding a by (simp add: matching_def node_of_def own_node_def serving_def js_def)
  have "map_of (cl_namespaces ?s) (js ''*RR'') = Some ?ns" by simp
  then have "\<exists>t. ask_all (\<lambda>_ _. False) (js ''*RR'') ?qs ?s = Inr t \<and> cl_log t = cl_log ?s @
      map (\<lambda>i. AskPool (snd (snd (?qs ! i)))
        (the (own_node ([js ''B'', js ''A''] ! ((ns_index ?ns + i) mod length [js ''B'', js ''A''])) ?s)))
      [0..<length ?qs]"
    using ids pattern by (intro round_robin_in_turn [OF run]) auto
  moreover have "cl_log ?s = []" "own_node (js ''B'') ?s = Some 0" "own_node (js ''A'') ?s = Some 1"
    unfolding a by (simp_all add: own_node_def js_def) (simp add: new_cluster_def)
  ultimately have "\<exists>t. ask_all (\<lambda>_ _. False) (js ''*RR'') ?qs ?s = Inr t \<and>
      cl_log t = [AskPool 11 0, AskPool 12 1, AskPool 13 0]"
    by (simp add: upt_rec del: ask_all.simps)
  then show ?thesis
    using of by blast
qed

text \<open>
  A failure that arrives for a node already out of the cluster removes the node that took
  over its id: the callback keeps the old node object, but \<open>_removeNode\<close> looks the id up. The new
  node leaves the cluster, and the pool that is ended (again) is the old one, so the new pool is
  neither used nor closed.
\<close>

theorem stale_failure_removes_new_node:
  assumes "own_node name s = Some b" and "name \<in> set (cl_serviceableNodeIds s)"
    and "a \<noteq> b" and "a < length (cl_objects s)" and "nd_id (cl_objects s ! a) = name"
    and "cl_removeNodeErrorCount s \<le> nd_errorCount (cl_objects s ! a) + 1" and "cl_restoreNodeTimeout s \<le> 0"
  shows "own_node name (increaseErrorCount now a s) = None \<and>
    cl_log (increaseErrorCount now a s) = cl_log s @ [EndPool a, EmitRemove name]"
  using assms
  by (simp add: increaseErrorCount_def removeNode_def own_node_def clearFindCaches_def cl_say_def Let_def delete_conv')

theorem stale_failure_removes_new_node_witness:
  "let s = cluster_add (Some (js ''A'')) (increaseErrorCount 7 0
       (cluster_add (Some (js ''A'')) (new_cluster None 1 0 None :: (nat, nat) cluster)))
   in own_node (js ''A'') s = Some 1 \<and> own_node (js ''A'') (increaseErrorCount 7 0 s) = None \<and>
     cl_log (increaseErrorCount 7 0 s) = [EndPool 0, EmitRemove (js ''A''), EndPool 0, EmitRemove (js ''A'')]"
proof -
  let ?s = "cluster_add (Some (js ''A'')) (increaseErrorCount 7 0
       (cluster_add (Some (js ''A'')) (new_cluster None 1 0 None :: (nat, nat) cluster)))"
  have s: "own_node (js ''A'') ?s = Some 1" "js ''A'' \<in> set (cl_serviceableNodeIds ?s)" "0 < length (cl_objects ?s)"
    "nd_id (cl_objects ?s ! 0) = js ''A''" "cl_removeNodeErrorCount ?s \<le> nd_errorCount (cl_objects ?s ! 0) + 1"
    "cl_restoreNodeTimeout ?s \<le> 0" "cl_log ?s = [EndPool 0, EmitRemove (js ''A'')]"
    by (simp_all add: cluster_add_def increaseErrorCount_def removeNode_def own_node_def clearFindCaches_def
        cl_say_def new_cluster_def members_A Let_def)
  show ?thesis
    using stale_failure_removes_new_node [OF s(1,2) _ s(3-6), of 7] s(1,7) by (simp add: Let_def)
qed

lemma end_pools_called:
  assumes "\<forall>e. EndCalled e \<notin> set l"
  shows "\<exists>w k. end_pools no_conns as (True, w0, s\<lparr>cl_log := l0 @ l\<rparr>) = (True, w, s\<lparr>cl_log := l0 @ l @ k\<rparr>) \<and>
    (\<forall>e. EndCalled e \<notin> set k)"
  using assms
proof (induction as arbitrary: w0 l)
  case Nil
  show ?case by (intro exI [of _ w0] exI [of _ "[]"]) simp
next
  case (Cons a as)
  have "\<forall>e. EndCalled e \<notin> set (l @ [EndPool a])" using Cons.prems by simp
  from Cons.IH [OF this, of "w0 + 1"] obtain w k where k:
    "end_pools no_conns as (True, w0 + 1, s\<lparr>cl_log := l0 @ l @ [EndPool a]\<rparr>) = (True, w, s\<lparr>cl_log := l0 @ (l @ [EndPool a]) @ k\<rparr>)"
    "\<forall>e. EndCalled e \<notin> set k" by auto
  then show ?case
    by (intro exI [of _ w] exI [of _ "EndPool a # k"]) (simp add: onEnd_def cl_say_def Let_def)
qed

text \<open>
  The callback of \<open>end\<close> is called too early when the pool of the first node has no
  connections: that pool answers at once, before the second node is counted, so the callback runs
  before the other pools are even told to end, and is not called again.
\<close>

theorem cluster_end_called_early:
  assumes "cl_nodes s = (n1, a) # (n2, b) # rest" and "no_conns a" and "\<not> cl_closed s"
  shows "\<exists>l. cl_log (snd (cluster_end no_conns s)) = cl_log s @ [EndPool a, EndCalled None, EndPool b] @ l \<and>
    (\<forall>e. EndCalled e \<notin> set l)"
proof -
  let ?u = "s\<lparr>cl_closed := True\<rparr>"
  let ?l = "cl_log s @ [EndPool a, EndCalled None, EndPool b]"
  obtain w k where k: "end_pools no_conns (map snd rest) (True, 1, ?u\<lparr>cl_log := ?l @ []\<rparr>) =
      (True, w, ?u\<lparr>cl_log := ?l @ [] @ k\<rparr>)" "\<forall>e. EndCalled e \<notin> set k"
    using end_pools_called [of "[]"] by fastforce
  have "end_pools no_conns (map snd (cl_nodes s)) (False, 0, ?u) = (True, w, ?u\<lparr>cl_log := ?l @ k\<rparr>)"
    using k(1) assms(1,2) by (simp add: onEnd_def cl_say_def Let_def)
  then have "cl_log (snd (cluster_end no_conns s)) = ?l @ k"
    using assms(3) by (simp add: cluster_end_def onEnd_def)
  then show ?thesis using k(2) by auto
qed

theorem cluster_end_called_early_witness:
  "\<exists>l. cl_log (snd (cluster_end (\<lambda>a. a = 0) (cluster_add (Some (js ''B'')) (cluster_add (Some (js ''A''))
      (new_cluster None 0 0 None :: (nat, nat) cluster))))) = [EndPool 0, EndCalled None, EndPool 1] @ l"
proof -
  let ?s = "cluster_add (Some (js ''B'')) (cluster_add (Some (js ''A''))
      (new_cluster None 0 0 None :: (nat, nat) cluster))"
  have s: "cl_nodes ?s = [(js ''A'', 0), (js ''B'', 1)]" "\<not> cl_closed ?s" "cl_log ?s = []"
    by (simp_all add: cluster_add_def new_cluster_def clearFindCaches_def Let_def js_def own_node_def
        object_member_def object_members_def)
  show ?thesis
    using cluster_end_called_early [OF s(1) _ s(2), of "\<lambda>a. a = 0"] s(3) by auto
qed

text \<open>
  An unknown selector raises: the guard of \<open>of\<close> compares a boolean with a string, so the default
  selector never takes its place.
\<close>

lemma unknown_selector_raises:
  assumes "makeSelector (map upper_ascii sel) = None" and "sel \<noteq> []" and "t \<noteq> []"
    and "map_of (cl_namespaces s) (t @ map upper_ascii sel) = None" and "object_member (t @ map upper_ascii sel) = None"
  shows "cluster_of (Some (Pat t)) (Some sel) s = Inl TypeError"
  using assms by (simp add: cluster_of_def normal_pattern_def Let_def)

end
