(* ===== verification/Auth.thy ===== *)
theory Auth
  imports Handshake Commands
begin

text \<open>
  Authentication: the plugins of \<open>src/lib/auth_plugins\<close>, \<open>src/lib/commands/auth_switch.js\<close>,
  \<open>client_handshake.js\<close> and \<open>change_user.js\<close>. A plugin instance is a value; the promise around the
  answer of a built-in plugin is already settled, so its continuation, which runs before any other
  event, is modelled as a direct call. Debug output is left out.
\<close>

section \<open>The plugins\<close>

record plugin_options =
  po_password :: "jstring option"
  po_passwordSha1 :: "bytes option"
  po_overrideIsSecure :: "bool option"
  po_serverPublicKey :: "bytes option"
  po_onServerPublicKey :: bool

definition no_options :: plugin_options where
  "no_options = \<lparr>po_password = None, po_passwordSha1 = None, po_overrideIsSecure = None,
     po_serverPublicKey = None, po_onServerPublicKey = False\<rparr>"

text \<open>The template \<open>`${password}\0`\<close>: a missing password is the text \<open>undefined\<close>.\<close>

definition password_text :: "jstring option \<Rightarrow> jstring" where
  "password_text p = (case p of None \<Rightarrow> js ''undefined'' | Some s \<Rightarrow> s) @ [0]"

definition calculateSha2Token :: "crypto_lib \<Rightarrow> codec \<Rightarrow> jstring option \<Rightarrow> bytes \<Rightarrow> bytes" where
  "calculateSha2Token h c password scramble =
     (if \<not> js_truthy password then []
      else let stage1 = hash_sha256 h (utf8Bytes c (the password));
               stage2 = hash_sha256 h stage1;
               stage3 = hash_sha256 h (stage2 @ scramble)
           in xor_bytes stage1 stage3)"

definition encrypt_password ::
    "crypto_lib \<Rightarrow> codec \<Rightarrow> jstring option \<Rightarrow> bytes \<Rightarrow> bytes \<Rightarrow> bytes result" where
  "encrypt_password h c password scramble key =
     publicEncrypt h key (xorRotating (utf8Bytes c (password_text password)) scramble)"

datatype sha2_state = Sha2Initial | TokenSent | WaitServerKey | Sha2Final

text \<open>\<open>sp_keys\<close> records the calls of \<open>onServerPublicKey\<close>.\<close>

record sha2_plugin =
  sp_state :: sha2_state
  sp_scramble :: bytes
  sp_password :: "jstring option"
  sp_keys :: "bytes list"

definition new_sha2 :: "jstring option \<Rightarrow> sha2_plugin" where
  "new_sha2 password = \<lparr>sp_state = Sha2Initial, sp_scramble = [], sp_password = password, sp_keys = []\<rparr>"

definition authWithKey ::
    "crypto_lib \<Rightarrow> codec \<Rightarrow> bytes \<Rightarrow> sha2_plugin \<Rightarrow> sha2_plugin \<times> bytes option result" where
  "authWithKey h c key s =
     (case encrypt_password h c (sp_password s) (sp_scramble s) key of
        Inl e \<Rightarrow> (s, Inl e)
      | Inr b \<Rightarrow> (s\<lparr>sp_state := Sha2Final\<rparr>, Inr (Some b)))"

definition receive_key :: "plugin_options \<Rightarrow> bytes \<Rightarrow> sha2_plugin \<Rightarrow> sha2_plugin" where
  "receive_key opts data s =
     (if po_onServerPublicKey opts then s\<lparr>sp_keys := sp_keys s @ [data]\<rparr> else s)"

definition InvalidMoreData :: js_error where
  "InvalidMoreData = JsError [] ''Invalid AuthMoreData packet received by caching_sha2_password plugin in STATE_TOKEN_SENT state.''"

definition UnexpectedData :: js_error where
  "UnexpectedData = JsError [] ''Unexpected data in AuthMoreData packet''"

text \<open>\<open>secure\<close> is \<open>config.ssl || config.socketPath\<close>.\<close>

definition caching_sha2_password ::
    "crypto_lib \<Rightarrow> codec \<Rightarrow> plugin_options \<Rightarrow> bool \<Rightarrow> bytes \<Rightarrow> sha2_plugin \<Rightarrow>
     sha2_plugin \<times> bytes option result" where
  "caching_sha2_password h c opts secure data s =
     (case sp_state s of
        Sha2Initial \<Rightarrow>
          (let scramble = slice 0 20 data in
           (s\<lparr>sp_scramble := scramble, sp_state := TokenSent\<rparr>,
            Inr (Some (calculateSha2Token h c (sp_password s) scramble))))
      | TokenSent \<Rightarrow>
          (if data = [3] then (s\<lparr>sp_state := Sha2Final\<rparr>, Inr None)
           else if data = [4] then
             (if (case po_overrideIsSecure opts of None \<Rightarrow> secure | Some b \<Rightarrow> b)
              then (s\<lparr>sp_state := Sha2Final\<rparr>, Inr (Some (utf8Bytes c (password_text (sp_password s)))))
              else (case po_serverPublicKey opts of
                      Some key \<Rightarrow> authWithKey h c key s
                    | None \<Rightarrow> (s\<lparr>sp_state := WaitServerKey\<rparr>, Inr (Some [2]))))
           else (s, Inl InvalidMoreData))
      | WaitServerKey \<Rightarrow> authWithKey h c data (receive_key opts data s)
      | Sha2Final \<Rightarrow> (s, Inl UnexpectedData))"

text \<open>\<open>tls\<close>: the stream is a \<open>TLSSocket\<close> and encrypted. This plugin has no state \<open>TOKEN_SENT\<close>.\<close>

definition sha256_password ::
    "crypto_lib \<Rightarrow> codec \<Rightarrow> plugin_options \<Rightarrow> bool \<Rightarrow> bytes \<Rightarrow> sha2_plugin \<Rightarrow>
     sha2_plugin \<times> bytes option result" where
  "sha256_password h c opts tls data s =
     (case sp_state s of
        Sha2Initial \<Rightarrow>
          (if tls then (s, Inr (Some (utf8Bytes c (password_text (sp_password s)))))
           else let s1 = s\<lparr>sp_scramble := slice 0 20 data\<rparr> in
             (case po_serverPublicKey opts of
                Some key \<Rightarrow> authWithKey h c key s1
              | None \<Rightarrow> (s1\<lparr>sp_state := WaitServerKey\<rparr>, Inr (Some [1]))))
      | WaitServerKey \<Rightarrow> authWithKey h c data (receive_key opts data s)
      | _ \<Rightarrow> (s, Inl UnexpectedData))"

section \<open>The state of a login\<close>

datatype plugin_kind = CachingSha2 | Sha256 | NativePassword | ClearPassword

text \<open>A plugin of the configuration is a factory of a built-in one with options, or the user's own.\<close>

datatype 'x factory = Factory plugin_kind plugin_options | External 'x

datatype 'x auth_plugin =
    CachingSha2Plugin plugin_options sha2_plugin
  | Sha256Plugin plugin_options sha2_plugin
  | NativePlugin "jstring option" "bytes option"
  | ClearPlugin "jstring option"
  | ExternalPlugin 'x

text \<open>What calling a plugin gives: a value, an exception, or a promise that settles later.\<close>

datatype plugin_outcome = Answered "bytes option" | Raised js_error | Pending

type_synonym 'x external = "'x \<Rightarrow> bytes \<Rightarrow> 'x \<times> plugin_outcome"

datatype auth_effect = StartTLS | EnableCompression | CallLegacy "jstring option" bytes

datatype auth_next = HandshakeStart | HandshakeInit | HandshakeResult | ChangeUserStart

text \<open>
  The fields of the command (\<open>au_\<close>), of the configuration (\<open>cf_\<close>) and of the connection (\<open>lc_\<close>).
  \<open>cf_compress\<close> is 0 when falsy. \<open>au_listens\<close>: the error listener of \<open>handshakeInit\<close> is registered.
\<close>

record 'x auth = "(auth_next, auth_effect) command" +
  au_handshake :: "handshake option"
  au_clientFlags :: int
  au_extendedFlags :: int
  au_factor :: nat
  au_user :: "jstring option"
  au_password :: "jstring option"
  au_password1 :: "jstring option"
  au_password2 :: "jstring option"
  au_password3 :: "jstring option"
  au_passwordSha1 :: "bytes option"
  au_database :: "jstring option"
  au_charsetNumber :: nat
  au_listens :: bool
  cf_user :: "jstring option"
  cf_password :: "jstring option"
  cf_password2 :: "jstring option"
  cf_password3 :: "jstring option"
  cf_passwordSha1 :: "bytes option"
  cf_database :: "jstring option"
  cf_charsetNumber :: nat
  cf_clientFlags :: int
  cf_ssl :: bool
  cf_socketPath :: bool
  cf_compress :: nat
  cf_connectAttributes :: "(jstring \<times> jstring) list"
  cf_enableCleartextPlugin :: bool
  cf_authSwitchHandler :: bool
  cf_authPlugins :: "(jstring \<times> 'x factory) list"
  lc_authPlugin :: "'x auth_plugin option"
  lc_tls :: bool
  lc_serverFlags :: nat
  lc_serverEncoding :: "string option"
  lc_clientEncoding :: "string option"
  lc_connectionId :: nat
  lc_isMariaDB :: bool
  lc_extendedMetadata :: bool
  lc_authorized :: bool
  lc_fatalError :: "js_error option"

text \<open>What the definitions below take from the platform: hashes, encodings, memory, user plugins.\<close>

record 'x auth_env =
  ae_crypto :: crypto_lib
  ae_codec :: codec
  ae_mem :: "nat \<Rightarrow> bytes"
  ae_external :: "'x external"

definition js_or :: "jstring option \<Rightarrow> jstring option \<Rightarrow> jstring option" where
  "js_or a b = (if js_truthy a then a else b)"

definition option_or :: "'a option \<Rightarrow> 'a option \<Rightarrow> 'a option" where
  "option_or a b = (case a of None \<Rightarrow> b | Some _ \<Rightarrow> a)"

definition make_plugin :: "'x factory \<Rightarrow> 'x auth \<Rightarrow> 'x auth_plugin" where
  "make_plugin f s =
     (case f of
        External x \<Rightarrow> ExternalPlugin x
      | Factory k opts \<Rightarrow>
          (case k of
             CachingSha2 \<Rightarrow> CachingSha2Plugin opts (new_sha2 (cf_password s))
           | Sha256 \<Rightarrow> Sha256Plugin opts (new_sha2 (cf_password s))
           | NativePassword \<Rightarrow>
               NativePlugin (js_or (au_password s) (js_or (po_password opts) (cf_password s)))
                 (option_or (au_passwordSha1 s) (option_or (po_passwordSha1 opts) (cf_passwordSha1 s)))
           | ClearPassword \<Rightarrow> ClearPlugin (js_or (au_password s) (js_or (po_password opts) (cf_password s)))))"

definition outcome_of :: "bytes option result \<Rightarrow> plugin_outcome" where
  "outcome_of r = (case r of Inl e \<Rightarrow> Raised e | Inr d \<Rightarrow> Answered d)"

definition call_plugin ::
    "'x auth_env \<Rightarrow> 'x auth \<Rightarrow> bytes \<Rightarrow> 'x auth_plugin \<Rightarrow> 'x auth_plugin \<times> plugin_outcome" where
  "call_plugin ev s data pl =
     (let h = ae_crypto ev; c = ae_codec ev in
      case pl of
        CachingSha2Plugin opts p \<Rightarrow>
          (case caching_sha2_password h c opts (cf_ssl s \<or> cf_socketPath s) data p of
             (p', r) \<Rightarrow> (CachingSha2Plugin opts p', outcome_of r))
      | Sha256Plugin opts p \<Rightarrow>
          (case sha256_password h c opts (lc_tls s) data p of
             (p', r) \<Rightarrow> (Sha256Plugin opts p', outcome_of r))
      | NativePlugin pw sha \<Rightarrow>
          (pl, Answered (Some (native_token h c pw sha (slice 0 8 data) (slice 8 20 data))))
      | ClearPlugin pw \<Rightarrow> (pl, Answered (Some (utf8Bytes c (password_text pw))))
      | ExternalPlugin x \<Rightarrow> (case ae_external ev x data of (x', out) \<Rightarrow> (ExternalPlugin x', out)))"

section \<open>auth\_switch.js\<close>

definition standardAuthPlugins :: "jstring \<Rightarrow> plugin_kind option" where
  "standardAuthPlugins = map_of
     [(js ''sha256_password'', Sha256), (js ''caching_sha2_password'', CachingSha2),
      (js ''mysql_native_password'', NativePassword), (js ''mysql_clear_password'', ClearPassword)]"

definition getAuthPlugin :: "jstring \<Rightarrow> 'x auth \<Rightarrow> 'x factory option" where
  "getAuthPlugin name s =
     (case map_of (cf_authPlugins s) name of
        Some f \<Rightarrow> Some f
      | None \<Rightarrow> map_option (\<lambda>k. Factory k no_options) (standardAuthPlugins name))"

text \<open>An error given another code; the listener of the handshake marks the connection as failed.\<close>

definition with_code :: "string \<Rightarrow> js_error \<Rightarrow> js_error" where
  "with_code code e = JsError code (case e of JsError _ m \<Rightarrow> m | _ \<Rightarrow> [])"

definition auth_emit :: "js_error \<Rightarrow> 'x auth \<Rightarrow> 'x auth" where
  "auth_emit e s =
     (let s1 = cmd_say (EmitCmdError e) s in
      if au_listens s1 then s1\<lparr>lc_fatalError := Some e\<rparr> else s1)"

definition authSwitchPluginError :: "js_error \<Rightarrow> 'x auth \<Rightarrow> 'x auth" where
  "authSwitchPluginError e s = auth_emit (with_code ''AUTH_SWITCH_PLUGIN_ERROR'' e) s"

text \<open>The continuation of the plugin's promise, and of the legacy handler, which always has data.\<close>

definition plugin_reply :: "'x auth_env \<Rightarrow> bytes option result \<Rightarrow> 'x auth \<Rightarrow> 'x auth" where
  "plugin_reply ev r s =
     (case r of
        Inl e \<Rightarrow> authSwitchPluginError e s
      | Inr None \<Rightarrow> s
      | Inr (Some d) \<Rightarrow>
          (case AuthSwitchResponse_toPacket (ae_mem ev) d of
             Inl e \<Rightarrow> authSwitchPluginError e s
           | Inr p \<Rightarrow> cmd_say (WriteCmd p) s))"

definition run_plugin :: "'x auth_env \<Rightarrow> bytes \<Rightarrow> 'x auth_plugin \<Rightarrow> 'x auth \<Rightarrow> 'x auth \<times> unit result" where
  "run_plugin ev data pl s =
     (case call_plugin ev s data pl of
        (pl', out) \<Rightarrow>
          let s1 = s\<lparr>lc_authPlugin := Some pl'\<rparr> in
          (case out of
             Raised e \<Rightarrow> (s1, Inl e)
           | Answered d \<Rightarrow> (plugin_reply ev (Inr d) s1, Inr ())
           | Pending \<Rightarrow> (s1, Inr ())))"

definition ClearPasswordNotEnabled :: js_error where
  "ClearPasswordNotEnabled = JsError ''MYSQL_CLEAR_PASSWORD_NOT_ENABLED''
     ''Server requested authentication using mysql_clear_password''"

definition UnknownPlugin :: js_error where
  "UnknownPlugin = JsError [] ''Server requests authentication using unknown plugin''"

definition authSwitchRequest :: "'x auth_env \<Rightarrow> packet \<Rightarrow> 'x auth \<Rightarrow> 'x auth \<times> unit result" where
  "authSwitchRequest ev p s =
     (case AuthSwitchRequest_fromPacket (ae_codec ev) p of
        Inl e \<Rightarrow> (s, Inl e)
      | Inr (a, _) \<Rightarrow>
          let name = pluginName a; data = pluginData a in
          if cf_authSwitchHandler s \<and> name \<noteq> js ''mysql_native_password''
          then (cmd_say (EmitCmd (CallLegacy (Some name) data)) s, Inr ())
          else if name = js ''mysql_clear_password'' \<and> map_of (cf_authPlugins s) name = None \<and>
                  \<not> cf_enableCleartextPlugin s
          then (s, Inl ClearPasswordNotEnabled)
          else
            (case getAuthPlugin name s of
               None \<Rightarrow> (s, Inl UnknownPlugin)
             | Some f \<Rightarrow> run_plugin ev data (make_plugin f s) s))"

definition NoPluginInstance :: js_error where
  "NoPluginInstance = JsError [] ''AuthPluginMoreData received but no auth plugin instance found''"

definition authSwitchRequestMoreData :: "'x auth_env \<Rightarrow> packet \<Rightarrow> 'x auth \<Rightarrow> 'x auth \<times> unit result" where
  "authSwitchRequestMoreData ev p s =
     (case AuthSwitchRequestMoreData_fromPacket p of
        Inl e \<Rightarrow> (s, Inl e)
      | Inr (data, _) \<Rightarrow>
          if cf_authSwitchHandler s then (cmd_say (EmitCmd (CallLegacy None data)) s, Inr ())
          else
            (case lc_authPlugin s of
               None \<Rightarrow> (s, Inl NoPluginInstance)
             | Some pl \<Rightarrow> run_plugin ev data pl s))"

section \<open>client\_handshake.js\<close>

definition auth_write :: "packet result \<Rightarrow> 'x auth \<Rightarrow> 'x auth \<times> unit result" where
  "auth_write r s = (case r of Inl e \<Rightarrow> (s, Inl e) | Inr p \<Rightarrow> (cmd_say (WriteCmd p) s, Inr ()))"

definition sendSSLRequest :: "'x auth \<Rightarrow> 'x auth \<times> unit result" where
  "sendSSLRequest s =
     auth_write (SSLRequest_toPacket (au_clientFlags s) (cf_charsetNumber s) (au_extendedFlags s)) s"

text \<open>The method names: \<open>None\<close> when the server names no plugin.\<close>

definition canUseAuthMethodDirectly :: "jstring option \<Rightarrow> bool \<Rightarrow> bool" where
  "canUseAuthMethodDirectly authMethod secure =
     (if authMethod \<in> {Some (js ''mysql_native_password''), Some (js ''caching_sha2_password'')} then True
      else if authMethod \<in> {Some (js ''sha256_password''), Some (js ''mysql_clear_password'')} then secure
      else False)"

definition calculateNativePasswordAuthToken :: "'x auth_env \<Rightarrow> bytes \<Rightarrow> 'x auth \<Rightarrow> bytes" where
  "calculateNativePasswordAuthToken ev data s =
     native_token (ae_crypto ev) (ae_codec ev) (au_password s) (au_passwordSha1 s) (slice 0 8 data) (slice 8 20 data)"

definition calculateAuthToken :: "'x auth_env \<Rightarrow> jstring \<Rightarrow> bytes \<Rightarrow> 'x auth \<Rightarrow> bytes" where
  "calculateAuthToken ev authMethod data s =
     (if authMethod = js ''mysql_native_password'' then calculateNativePasswordAuthToken ev data s
      else if authMethod = js ''caching_sha2_password''
      then calculateSha2Token (ae_crypto ev) (ae_codec ev) (au_password s) data
      else if authMethod = js ''sha256_password'' \<or> authMethod = js ''mysql_clear_password''
      then (if js_truthy (au_password s) then utf8Bytes (ae_codec ev) (password_text (au_password s)) else [])
      else calculateNativePasswordAuthToken ev data s)"

text \<open>The instance is kept and called once with the scramble; its answer, or its error, is dropped.\<close>

definition initializeAuthPlugin :: "'x auth_env \<Rightarrow> jstring \<Rightarrow> bytes \<Rightarrow> 'x auth \<Rightarrow> 'x auth" where
  "initializeAuthPlugin ev authMethod data s =
     (case getAuthPlugin authMethod s of
        None \<Rightarrow> s
      | Some f \<Rightarrow> s\<lparr>lc_authPlugin := Some (fst (call_plugin ev s data (make_plugin f s)))\<rparr>)"

definition scramble_of :: "handshake \<Rightarrow> bytes" where
  "scramble_of hs =
     (case authPluginData2 hs of
        Some d2 \<Rightarrow> slice 0 20 (authPluginData1 hs @ d2)
      | None \<Rightarrow> replicate 20 0)"

definition take_credentials :: "'x auth \<Rightarrow> 'x auth" where
  "take_credentials s =
     s\<lparr>au_user := cf_user s, au_password := cf_password s, au_password1 := cf_password s,
       au_password2 := cf_password2 s, au_password3 := cf_password3 s,
       au_passwordSha1 := cf_passwordSha1 s, au_database := cf_database s\<rparr>"

definition clientAuthMethod :: "handshake \<Rightarrow> 'x auth \<Rightarrow> jstring" where
  "clientAuthMethod hs s =
     (let serverAuthMethod = authPluginName hs;
          custom = (\<exists>name\<in>set_option serverAuthMethod. map_of (cf_authPlugins s) name \<noteq> None) in
      if \<not> custom \<and> \<not> cf_authSwitchHandler s \<and>
         canUseAuthMethodDirectly serverAuthMethod (cf_ssl s \<or> cf_socketPath s) \<and>
         (serverAuthMethod \<noteq> Some (js ''mysql_clear_password'') \<or> cf_enableCleartextPlugin s)
      then the serverAuthMethod else js ''mysql_native_password'')"

definition sendCredentials :: "'x auth_env \<Rightarrow> 'x auth \<Rightarrow> 'x auth \<times> unit result" where
  "sendCredentials ev s0 =
     (case au_handshake s0 of
        None \<Rightarrow> (take_credentials s0, Inl TypeError)
      | Some hs \<Rightarrow>
          let s = take_credentials s0; data = scramble_of hs; authMethod = clientAuthMethod hs s;
              authToken = calculateAuthToken ev authMethod data s;
              response = new_handshake_response (ae_crypto ev) (ae_codec ev) (au_clientFlags s)
                (au_extendedFlags s) (au_user s) (au_database s) (au_password s) (au_passwordSha1 s)
                (cf_charsetNumber s) (authPluginData1 hs) (case authPluginData2 hs of None \<Rightarrow> [] | Some d \<Rightarrow> d)
                (cf_connectAttributes s) (Some (authToken, authMethod)) in
          (case auth_write (HandshakeResponse_toPacket (ae_codec ev) response) s of
             (s1, Inl e) \<Rightarrow> (s1, Inl e)
           | (s1, Inr _) \<Rightarrow>
               ((if authMethod \<noteq> js ''mysql_native_password'' then initializeAuthPlugin ev authMethod data s1 else s1),
                Inr ())))"

text \<open>\<open>/mariadb/i.test\<close>.\<close>

fun contains :: "jstring \<Rightarrow> jstring \<Rightarrow> bool" where
  "contains w [] = (w = [])"
| "contains w (x # xs) = (take (length w) (x # xs) = w \<or> contains w xs)"

definition is_mariadb :: "jstring \<Rightarrow> bool" where
  "is_mariadb version = contains (js ''mariadb'') (map lower_ascii version)"

text \<open>What \<open>handshakeInit\<close> takes from the greeting before any packet is written.\<close>

definition negotiate :: "handshake \<Rightarrow> 'x auth \<Rightarrow> 'x auth" where
  "negotiate hs s =
     (let ext = mariadbExtendedCapabilityFlags hs AND code_of MariaDBClient ''MARIADB_CLIENT_EXTENDED_METADATA'' \<noteq> 0;
          flags = (if ext then to_int32 (au_clientFlags s) AND NOT (int (code_of ClientConstants ''LONG_PASSWORD''))
                   else au_clientFlags s);
          extFlags = (if ext then to_int32 (au_extendedFlags s) OR
                                 int (code_of MariaDBClient ''MARIADB_CLIENT_EXTENDED_METADATA'')
                      else au_extendedFlags s);
          mfa = capabilityFlags hs AND code_of ClientConstants ''MULTI_FACTOR_AUTHENTICATION'';
          compress = (if cf_compress s = 0 then 0 else capabilityFlags hs AND code_of ClientConstants ''COMPRESS'')
      in s\<lparr>au_listens := True, au_handshake := Some hs,
           lc_serverFlags := capabilityFlags hs,
           lc_serverEncoding := (case characterSet hs of None \<Rightarrow> None | Some n \<Rightarrow> CharsetToEncoding n),
           lc_connectionId := connectionId hs, lc_isMariaDB := is_mariadb (serverVersion hs),
           au_extendedFlags := extFlags,
           lc_extendedMetadata := to_int32 extFlags AND int (code_of MariaDBClient ''MARIADB_CLIENT_EXTENDED_METADATA'') \<noteq> 0,
           cf_compress := compress,
           au_clientFlags := (to_int32 flags OR int mfa) OR int compress\<rparr>)"

definition NoSslSupport :: js_error where
  "NoSslSupport = JsError ''HANDSHAKE_NO_SSL_SUPPORT'' ''Server does not support secure connection''"

definition handshakeInit ::
    "'x auth_env \<Rightarrow> packet \<Rightarrow> 'x auth \<Rightarrow> 'x auth \<times> auth_next option result" where
  "handshakeInit ev p s0 =
     (case Handshake_fromPacket (ae_codec ev) p of
        Inl e \<Rightarrow> (s0\<lparr>au_listens := True\<rparr>, Inl e)
      | Inr (hs, _) \<Rightarrow>
          let s = negotiate hs s0;
              finish = (\<lambda>s. s\<lparr>au_factor :=
                 (if isSet ClientConstants (capabilityFlags hs) ''MULTI_FACTOR_AUTHENTICATION'' then 1 else au_factor s)\<rparr>)
          in
          if cf_ssl s then
            (if \<not> isSet ClientConstants (capabilityFlags hs) ''SSL''
             then (auth_emit NoSslSupport s, Inr None)
             else (case sendSSLRequest (s\<lparr>au_clientFlags :=
                          to_int32 (au_clientFlags s) OR int (code_of ClientConstants ''SSL'')\<rparr>) of
                     (s1, Inl e) \<Rightarrow> (s1, Inl e)
                   | (s1, Inr _) \<Rightarrow> (finish (cmd_say (EmitCmd StartTLS) (s1\<lparr>lc_tls := True\<rparr>)), Inr (Some HandshakeResult))))
          else (case sendCredentials ev s of
                  (s1, Inl e) \<Rightarrow> (s1, Inl e)
                | (s1, Inr _) \<Rightarrow> (finish s1, Inr (Some HandshakeResult))))"

text \<open>The callback of \<open>startTLS\<close>; an exception here leaves the event loop's callback.\<close>

definition tls_ready :: "'x auth_env \<Rightarrow> js_error option \<Rightarrow> 'x auth \<Rightarrow> 'x auth \<times> unit result" where
  "tls_ready ev err s =
     (case err of
        Some e \<Rightarrow> (auth_emit (with_code ''HANDSHAKE_SSL_ERROR'' e) s, Inr ())
      | None \<Rightarrow> sendCredentials ev s)"

definition factor_password :: "nat \<Rightarrow> 'x auth \<Rightarrow> jstring option" where
  "factor_password n s =
     (if n = 1 then au_password1 s else if n = 2 then au_password2 s
      else if n = 3 then au_password3 s else None)"

definition next_factor :: "'x auth \<Rightarrow> 'x auth" where
  "next_factor s =
     (if au_factor s \<noteq> 0
      then s\<lparr>cf_password := factor_password (au_factor s) s, au_factor := au_factor s + 1\<rparr> else s)"

text \<open>The end of a login that failed: the callback, or the error event.\<close>

definition auth_failed :: "js_error \<Rightarrow> 'x auth \<Rightarrow> 'x auth" where
  "auth_failed e s = (if cmd_onResult s then cmd_say (CallOnResult (Some e) None) s else auth_emit e s)"

definition fatal_auth_error :: "js_error \<Rightarrow> js_error" where
  "fatal_auth_error e =
     (case e of
        JsError code m \<Rightarrow> (if code = [] then JsError ''AUTH_SWITCH_PLUGIN_ERROR'' m else e)
      | TypeError \<Rightarrow> JsError ''AUTH_SWITCH_PLUGIN_ERROR'' []
      | _ \<Rightarrow> e)"

definition UnexpectedHandshakePacket :: js_error where
  "UnexpectedHandshakePacket = JsError ''HANDSHAKE_UNKNOWN_ERROR'' ''Unexpected packet during handshake phase''"

definition handshakeResult ::
    "'x auth_env \<Rightarrow> packet \<Rightarrow> 'x auth \<Rightarrow> 'x auth \<times> auth_next option result" where
  "handshakeResult ev p s =
     (let marker = peekByte p in
      if marker \<in> {Some 254, Some 1, Some 2} then
        (case (if marker = Some 1 then authSwitchRequestMoreData ev p s else authSwitchRequest ev p (next_factor s)) of
           (s1, Inr _) \<Rightarrow> (s1, Inr (Some HandshakeResult))
         | (s1, Inl e) \<Rightarrow> (auth_failed (fatal_auth_error e) s1, Inr None))
      else if marker \<noteq> Some 0 then (auth_failed UnexpectedHandshakePacket s, Inr None)
      else
        (let s1 = (if lc_authorized s then s
                   else let t = s\<lparr>lc_authorized := True\<rparr> in
                     if cf_compress t \<noteq> 0 then cmd_say (EmitCmd EnableCompression) t else t)
         in (call_back None s1, Inr None)))"

section \<open>change\_user.js\<close>

text \<open>The constructor sets the fields of the command; \<open>start\<close> copies them to the configuration.\<close>

definition new_change_user_command ::
    "bool \<Rightarrow> jstring option \<Rightarrow> jstring option \<Rightarrow> jstring option \<Rightarrow> jstring option \<Rightarrow> jstring option \<Rightarrow>
     bytes option \<Rightarrow> nat \<Rightarrow> 'x auth \<Rightarrow> 'x auth" where
  "new_change_user_command onResult user password password2 password3 database passwordSha1 charset conn =
     conn\<lparr>cmd_next := None, cmd_onResult := onResult, cmd_timer := False, au_user := user,
       au_password := password, au_password1 := password, au_password2 := password2,
       au_password3 := password3, au_database := database, au_passwordSha1 := passwordSha1,
       au_charsetNumber := charset, au_factor := 0, au_listens := False\<rparr>"

definition change_user_start :: "'x auth_env \<Rightarrow> 'x auth \<Rightarrow> 'x auth \<times> auth_next option result" where
  "change_user_start ev s =
     (case au_handshake s of
        None \<Rightarrow> (s, Inl TypeError)
      | Some hs \<Rightarrow>
          if authPluginData2 hs = None \<and> (au_passwordSha1 s \<noteq> None \<or> js_truthy (au_password s)) then (s, Inl TypeError)
          else
            let p = new_change_user (ae_crypto ev) (ae_codec ev) (cf_clientFlags s) (au_user s) (au_database s)
                      (au_password s) (au_passwordSha1 s) (authPluginData1 hs)
                      (case authPluginData2 hs of None \<Rightarrow> [] | Some d \<Rightarrow> d) (au_charsetNumber s) [];
                s1 = cmd_say ClearStatements (s\<lparr>cf_user := au_user s, cf_password := au_password s,
                       cf_database := au_database s, cf_charsetNumber := au_charsetNumber s,
                       lc_clientEncoding := CharsetToEncoding (au_charsetNumber s)\<rparr>) in
            (case auth_write (ChangeUser_toPacket (ae_codec ev) (ae_mem ev) p) s1 of
               (s2, Inl e) \<Rightarrow> (s2, Inl e)
             | (s2, Inr _) \<Rightarrow>
                 (s2\<lparr>au_factor := (if isSet ClientConstants (lc_serverFlags s2) ''MULTI_FACTOR_AUTHENTICATION''
                                  then 1 else au_factor s2)\<rparr>, Inr (Some HandshakeResult))))"

text \<open>Both commands: \<open>ChangeUser\<close> starts with a packet of its own and shares \<open>handshakeResult\<close>.\<close>

fun Login :: "'x auth_env \<Rightarrow> (auth_next, 'x auth) handler" where
  "Login ev HandshakeStart packet s = (s, Inr (Some HandshakeInit))"
| "Login ev ChangeUserStart packet s = change_user_start ev s"
| "Login ev n None s = (s, Inl TypeError)"
| "Login ev HandshakeInit (Some p) s = handshakeInit ev p s"
| "Login ev HandshakeResult (Some p) s = handshakeResult ev p s"

text \<open>
  What drives a login: packets of the server, the end of the TLS negotiation, the reply of the
  legacy handler (which throws away a reply it cannot pack), a promise of the user's plugin.
\<close>

datatype auth_event =
    Deliver "packet option"
  | TlsReady "js_error option"
  | LegacyReply "bytes result"
  | PluginSettled "bytes option result"

definition auth_step :: "'x auth_env \<Rightarrow> auth_next \<Rightarrow> auth_event \<Rightarrow> 'x auth \<Rightarrow> 'x auth" where
  "auth_step ev first e s =
     (case e of
        Deliver p \<Rightarrow> fst (Command_execute (ae_codec ev) (lc_clientEncoding s) first (Login ev) p s)
      | TlsReady err \<Rightarrow> fst (tls_ready ev err s)
      | LegacyReply (Inl err) \<Rightarrow> authSwitchPluginError err s
      | LegacyReply (Inr d) \<Rightarrow> fst (auth_write (AuthSwitchResponse_toPacket (ae_mem ev) d) s)
      | PluginSettled r \<Rightarrow> plugin_reply ev r s)"

definition auth_run :: "'x auth_env \<Rightarrow> auth_next \<Rightarrow> auth_event list \<Rightarrow> 'x auth \<Rightarrow> 'x auth" where
  "auth_run ev first es s = fold (auth_step ev first) es s"

section \<open>What the packets tell about the password\<close>

text \<open>
  Two passwords look alike to an observer who sees their digests and what the public key makes of
  them, and nothing else.
\<close>

definition alike :: "crypto_lib \<Rightarrow> codec \<Rightarrow> jstring option \<Rightarrow> jstring option \<Rightarrow> bool" where
  "alike h c a b \<longleftrightarrow>
     js_truthy a = js_truthy b \<and>
     (js_truthy a \<longrightarrow>
        hash_sha1 h (utf8Bytes c (the a)) = hash_sha1 h (utf8Bytes c (the b)) \<and>
        hash_sha256 h (utf8Bytes c (the a)) = hash_sha256 h (utf8Bytes c (the b))) \<and>
     (\<forall>key scramble. encrypt_password h c a scramble key = encrypt_password h c b scramble key)"

definition swap_plugin :: "(jstring option \<Rightarrow> jstring option) \<Rightarrow> 'x auth_plugin \<Rightarrow> 'x auth_plugin" where
  "swap_plugin f pl =
     (case pl of
        CachingSha2Plugin opts p \<Rightarrow> CachingSha2Plugin opts (p\<lparr>sp_password := f (sp_password p)\<rparr>)
      | Sha256Plugin opts p \<Rightarrow> Sha256Plugin opts (p\<lparr>sp_password := f (sp_password p)\<rparr>)
      | NativePlugin pw sha \<Rightarrow> NativePlugin (f pw) sha
      | ClearPlugin pw \<Rightarrow> ClearPlugin (f pw)
      | ExternalPlugin x \<Rightarrow> ExternalPlugin x)"

text \<open>The same login with every password replaced.\<close>

definition swap_passwords :: "(jstring option \<Rightarrow> jstring option) \<Rightarrow> 'x auth \<Rightarrow> 'x auth" where
  "swap_passwords f s =
     s\<lparr>au_password := f (au_password s), au_password1 := f (au_password1 s), au_password2 := f (au_password2 s),
       au_password3 := f (au_password3 s), cf_password := f (cf_password s), cf_password2 := f (cf_password2 s),
       cf_password3 := f (cf_password3 s), lc_authPlugin := map_option (swap_plugin f) (lc_authPlugin s)\<rparr>"

text \<open>
  No channel that carries a password in clear is open: no TLS, no socket file, no cleartext plugin
  and no plugin or handler of the user's.
\<close>

definition hidden_plugin :: "'x auth_plugin \<Rightarrow> bool" where
  "hidden_plugin pl =
     (case pl of
        CachingSha2Plugin opts p \<Rightarrow> opts = no_options
      | Sha256Plugin opts p \<Rightarrow> opts = no_options
      | NativePlugin pw sha \<Rightarrow> True
      | ClearPlugin pw \<Rightarrow> False
      | ExternalPlugin x \<Rightarrow> False)"

definition hidden :: "'x auth \<Rightarrow> bool" where
  "hidden s \<longleftrightarrow> \<not> cf_ssl s \<and> \<not> cf_socketPath s \<and> \<not> lc_tls s \<and> \<not> cf_enableCleartextPlugin s \<and>
     cf_authPlugins s = [] \<and> (\<forall>pl. lc_authPlugin s = Some pl \<longrightarrow> hidden_plugin pl)"

lemma swap_simps [simp]:
  "cmd_say e (swap_passwords f s) = swap_passwords f (cmd_say e s)"
  "cmd_log (swap_passwords f s) = cmd_log s" "cmd_onResult (swap_passwords f s) = cmd_onResult s"
  "cmd_next (swap_passwords f s) = cmd_next s" "cmd_timer (swap_passwords f s) = cmd_timer s"
  "cf_ssl (swap_passwords f s) = cf_ssl s" "cf_socketPath (swap_passwords f s) = cf_socketPath s"
  "lc_tls (swap_passwords f s) = lc_tls s" "cf_authPlugins (swap_passwords f s) = cf_authPlugins s"
  "cf_enableCleartextPlugin (swap_passwords f s) = cf_enableCleartextPlugin s"
  "cf_authSwitchHandler (swap_passwords f s) = cf_authSwitchHandler s"
  "au_listens (swap_passwords f s) = au_listens s" "au_factor (swap_passwords f s) = au_factor s"
  "au_handshake (swap_passwords f s) = au_handshake s" "lc_clientEncoding (swap_passwords f s) = lc_clientEncoding s"
  "lc_authorized (swap_passwords f s) = lc_authorized s" "cf_compress (swap_passwords f s) = cf_compress s"
  "(swap_passwords f s)\<lparr>lc_fatalError := e'\<rparr> = swap_passwords f (s\<lparr>lc_fatalError := e'\<rparr>)"
  "(swap_passwords f s)\<lparr>cmd_next := n\<rparr> = swap_passwords f (s\<lparr>cmd_next := n\<rparr>)"
  "(swap_passwords f s)\<lparr>au_listens := b\<rparr> = swap_passwords f (s\<lparr>au_listens := b\<rparr>)"
  "(swap_passwords f s)\<lparr>lc_authorized := b\<rparr> = swap_passwords f (s\<lparr>lc_authorized := b\<rparr>)"
  "(swap_passwords f s)\<lparr>au_factor := k\<rparr> = swap_passwords f (s\<lparr>au_factor := k\<rparr>)"
  "(swap_passwords f s)\<lparr>au_clientFlags := i\<rparr> = swap_passwords f (s\<lparr>au_clientFlags := i\<rparr>)"
  "au_clientFlags (swap_passwords f s) = au_clientFlags s"
  by (simp_all add: swap_passwords_def cmd_say_def)

lemma hidden_plugin_swap [simp]: "hidden_plugin (swap_plugin f pl) = hidden_plugin pl"
  by (cases pl) (simp_all add: hidden_plugin_def swap_plugin_def)

lemma hidden_simps [simp]:
  "hidden (cmd_say e s) = hidden s" "hidden (s\<lparr>lc_fatalError := e'\<rparr>) = hidden s"
  "hidden (s\<lparr>cmd_next := n\<rparr>) = hidden s" "hidden (s\<lparr>au_listens := b\<rparr>) = hidden s"
  "hidden (s\<lparr>lc_authorized := b\<rparr>) = hidden s" "hidden (s\<lparr>au_factor := k\<rparr>) = hidden s"
  "hidden (s\<lparr>au_clientFlags := i\<rparr>) = hidden s"
  by (simp_all add: hidden_def cmd_say_def)

lemma hidden_swap [simp]: "hidden (swap_passwords f s) = hidden s"
  by (cases "lc_authPlugin s") (simp_all add: hidden_def swap_passwords_def)

lemma hidden_put: "hidden s \<Longrightarrow> hidden_plugin pl \<Longrightarrow> hidden (s\<lparr>lc_authPlugin := Some pl\<rparr>)"
  by (simp add: hidden_def)

lemma swap_put: "(swap_passwords f s)\<lparr>lc_authPlugin := Some (swap_plugin f pl)\<rparr> = swap_passwords f (s\<lparr>lc_authPlugin := Some pl\<rparr>)"
  by (simp add: swap_passwords_def)

definition look_alike :: "crypto_lib \<Rightarrow> codec \<Rightarrow> (jstring option \<Rightarrow> jstring option) \<Rightarrow> bool" where
  "look_alike h c f \<longleftrightarrow> (\<forall>p. alike h c p (f p))"

lemma look_alike_tokens:
  assumes "look_alike h c f"
  shows "js_truthy (f p) = js_truthy p" "js_or (f p) (f q) = f (js_or p q)"
    "native_token h c (f p) sha a b = native_token h c p sha a b"
    "calculateSha2Token h c (f p) data = calculateSha2Token h c p data"
    "encrypt_password h c (f p) scramble key = encrypt_password h c p scramble key"
proof -
  have a: "alike h c p (f p)"
    using assms by (simp add: look_alike_def)
  then show truthy: "js_truthy (f p) = js_truthy p"
    by (simp add: alike_def)
  then show "js_or (f p) (f q) = f (js_or p q)"
    by (simp add: js_or_def)
  show "native_token h c (f p) sha x y = native_token h c p sha x y" for x y
    using a truthy by (cases sha) (simp_all add: native_token_def calculateToken_def alike_def)
  show "calculateSha2Token h c (f p) data = calculateSha2Token h c p data"
    using a truthy by (simp add: calculateSha2Token_def alike_def Let_def)
  show "encrypt_password h c (f p) scramble key = encrypt_password h c p scramble key"
    using a by (simp add: alike_def)
qed

lemma swap_authWithKey:
  assumes "look_alike h c f"
  shows "authWithKey h c key (p\<lparr>sp_password := f (sp_password p)\<rparr>) =
      map_prod (\<lambda>q. q\<lparr>sp_password := f (sp_password q)\<rparr>) (\<lambda>r. r) (authWithKey h c key p)"
  by (simp add: authWithKey_def look_alike_tokens(5) [OF assms] split: sum.split)

lemma swap_sha2:
  assumes "look_alike h c f"
  shows "caching_sha2_password h c no_options False data (p\<lparr>sp_password := f (sp_password p)\<rparr>) =
      map_prod (\<lambda>q. q\<lparr>sp_password := f (sp_password q)\<rparr>) (\<lambda>r. r) (caching_sha2_password h c no_options False data p)"
    "sha256_password h c no_options False data (p\<lparr>sp_password := f (sp_password p)\<rparr>) =
      map_prod (\<lambda>q. q\<lparr>sp_password := f (sp_password q)\<rparr>) (\<lambda>r. r) (sha256_password h c no_options False data p)"
proof -
  have sel: "po_overrideIsSecure no_options = None" "po_serverPublicKey no_options = None"
    "\<not> po_onServerPublicKey no_options"
    by (simp_all add: no_options_def)
  show "caching_sha2_password h c no_options False data (p\<lparr>sp_password := f (sp_password p)\<rparr>) =
      map_prod (\<lambda>q. q\<lparr>sp_password := f (sp_password q)\<rparr>) (\<lambda>r. r) (caching_sha2_password h c no_options False data p)"
    by (cases "sp_state p") (simp_all add: caching_sha2_password_def receive_key_def sel Let_def
        swap_authWithKey [OF assms] look_alike_tokens(4) [OF assms])
  show "sha256_password h c no_options False data (p\<lparr>sp_password := f (sp_password p)\<rparr>) =
      map_prod (\<lambda>q. q\<lparr>sp_password := f (sp_password q)\<rparr>) (\<lambda>r. r) (sha256_password h c no_options False data p)"
    by (cases "sp_state p") (simp_all add: sha256_password_def receive_key_def sel Let_def
        swap_authWithKey [OF assms])
qed

lemma swap_call_plugin:
  assumes "look_alike (ae_crypto ev) (ae_codec ev) f" and "hidden s" and "hidden_plugin pl"
  shows "call_plugin ev (swap_passwords f s) data (swap_plugin f pl) =
      map_prod (swap_plugin f) (\<lambda>r. r) (call_plugin ev s data pl) \<and>
    hidden_plugin (fst (call_plugin ev s data pl))"
  using assms(2,3)
  by (cases pl) (auto simp: call_plugin_def swap_plugin_def hidden_plugin_def hidden_def swap_sha2 [OF assms(1)]
      look_alike_tokens [OF assms(1)] Let_def split: prod.split)

lemma js_or_None [simp]: "js_or None b = b"
  by (simp add: js_or_def js_truthy_def)

lemma swap_make_plugin:
  assumes "look_alike h c f"
  shows "make_plugin (Factory k no_options) (swap_passwords f s) = swap_plugin f (make_plugin (Factory k no_options) s)"
  by (cases k) (simp_all add: make_plugin_def swap_plugin_def swap_passwords_def new_sha2_def no_options_def
      look_alike_tokens(2) [OF assms])

lemma hidden_make_plugin: "k \<noteq> ClearPassword \<Longrightarrow> hidden_plugin (make_plugin (Factory k no_options) s)"
  by (cases k) (simp_all add: make_plugin_def hidden_plugin_def)

lemma hidden_getAuthPlugin:
  assumes "hidden s" and "getAuthPlugin name s = Some fac" and "name \<noteq> js ''mysql_clear_password''"
  obtains k where "fac = Factory k no_options" "k \<noteq> ClearPassword"
  using assms by (auto simp: getAuthPlugin_def hidden_def standardAuthPlugins_def split: if_splits)

lemma swap_getAuthPlugin [simp]: "getAuthPlugin name (swap_passwords f s) = getAuthPlugin name s"
  by (simp add: getAuthPlugin_def)

text \<open>The two runs of an operation agree, and the second state still hides the password.\<close>

definition agrees ::
    "(jstring option \<Rightarrow> jstring option) \<Rightarrow> 'x auth \<times> 'r \<Rightarrow> 'x auth \<times> 'r \<Rightarrow> bool" where
  "agrees f r' r \<longleftrightarrow> r' = map_prod (swap_passwords f) (\<lambda>x. x) r \<and> hidden (fst r)"

lemma agreesI: "hidden s \<Longrightarrow> agrees f (swap_passwords f s, x) (s, x)"
  by (simp add: agrees_def)

lemma agreesE:
  assumes "agrees f r' r"
  obtains s x where "r = (s, x)" "r' = (swap_passwords f s, x)" "hidden s"
  using assms by (cases r) (auto simp: agrees_def)

lemma swap_emit [simp]: "auth_emit e (swap_passwords f s) = swap_passwords f (auth_emit e s)"
  "hidden (auth_emit e s) = hidden s"
  by (simp_all add: auth_emit_def Let_def)

lemma swap_plugin_error [simp]:
  "authSwitchPluginError e (swap_passwords f s) = swap_passwords f (authSwitchPluginError e s)"
  "hidden (authSwitchPluginError e s) = hidden s"
  by (simp_all add: authSwitchPluginError_def)

lemma swap_reply [simp]:
  "plugin_reply ev r (swap_passwords f s) = swap_passwords f (plugin_reply ev r s)"
  "hidden (plugin_reply ev r s) = hidden s"
  by (simp_all add: plugin_reply_def split: sum.split option.split)

lemma swap_run_plugin:
  assumes "look_alike (ae_crypto ev) (ae_codec ev) f" and "hidden s" and "hidden_plugin pl"
  shows "agrees f (run_plugin ev data (swap_plugin f pl) (swap_passwords f s)) (run_plugin ev data pl s)"
proof -
  obtain pl' out where call: "call_plugin ev s data pl = (pl', out)"
    by fastforce
  then have "call_plugin ev (swap_passwords f s) data (swap_plugin f pl) = (swap_plugin f pl', out)"
    "hidden_plugin pl'"
    using swap_call_plugin [OF assms, of data] by simp_all
  then show ?thesis
    using call hidden_put [OF assms(2)] by (cases out) (simp_all add: run_plugin_def Let_def swap_put agreesI)
qed

lemma swap_authSwitchRequest:
  assumes ok: "look_alike (ae_crypto ev) (ae_codec ev) f" and s: "hidden s"
  shows "agrees f (authSwitchRequest ev p (swap_passwords f s)) (authSwitchRequest ev p s)"
proof (cases "AuthSwitchRequest_fromPacket (ae_codec ev) p")
  case (Inl e)
  then show ?thesis
    using s by (simp add: authSwitchRequest_def agreesI)
next
  case (Inr r)
  obtain a q where r: "r = (a, q)"
    by fastforce
  have closed: "cf_authPlugins s = []" "\<not> cf_enableCleartextPlugin s"
    using s by (auto simp: hidden_def)
  note request = authSwitchRequest_def Inr r Let_def closed agreesI [OF s] sum.case prod.case
  consider (legacy) "cf_authSwitchHandler s \<and> pluginName a \<noteq> js ''mysql_native_password''"
    | (clear) "\<not> (cf_authSwitchHandler s \<and> pluginName a \<noteq> js ''mysql_native_password'')"
      "pluginName a = js ''mysql_clear_password''"
    | (other) "\<not> (cf_authSwitchHandler s \<and> pluginName a \<noteq> js ''mysql_native_password'')"
      "pluginName a \<noteq> js ''mysql_clear_password''"
    by blast
  then show ?thesis
  proof cases
    case legacy
    then show ?thesis
      using s by (simp add: request agreesI)
  next
    case clear
    have "authSwitchRequest ev p (swap_passwords f s) = (swap_passwords f s, Inl ClearPasswordNotEnabled)"
      "authSwitchRequest ev p s = (s, Inl ClearPasswordNotEnabled)"
      unfolding authSwitchRequest_def Inr r sum.case prod.case Let_def swap_simps closed if_not_P [OF clear(1)]
      using clear(2) closed(2) by simp_all
    then show ?thesis
      by (simp add: agreesI s)
  next
    case other
    have unfolded: "authSwitchRequest ev p t = (case getAuthPlugin (pluginName a) t of None \<Rightarrow> (t, Inl UnknownPlugin)
        | Some fac \<Rightarrow> run_plugin ev (pluginData a) (make_plugin fac t) t)"
      if "t = s \<or> t = swap_passwords f s" for t
      using that
      unfolding authSwitchRequest_def Inr r sum.case prod.case Let_def
      by (elim disjE) (simp_all only: swap_simps if_not_P [OF other(1)] other(2) simp_thms if_False)
    show ?thesis
    proof (cases "getAuthPlugin (pluginName a) s")
      case None
      then show ?thesis
        by (simp add: unfolded agreesI s)
    next
      case (Some fac)
      obtain k where k: "fac = Factory k no_options" "k \<noteq> ClearPassword"
        by (rule hidden_getAuthPlugin [OF s Some other(2)])
      have "agrees f (run_plugin ev (pluginData a) (make_plugin fac (swap_passwords f s)) (swap_passwords f s))
          (run_plugin ev (pluginData a) (make_plugin fac s) s)"
        unfolding k(1) swap_make_plugin [OF ok] by (rule swap_run_plugin [OF ok s hidden_make_plugin [OF k(2)]])
      then show ?thesis
        using Some by (simp add: unfolded)
    qed
  qed
qed

lemma swap_plugin_field: "lc_authPlugin (swap_passwords f s) = map_option (swap_plugin f) (lc_authPlugin s)"
  by (simp add: swap_passwords_def)

lemma swap_authSwitchRequestMoreData:
  assumes ok: "look_alike (ae_crypto ev) (ae_codec ev) f" and s: "hidden s"
  shows "agrees f (authSwitchRequestMoreData ev p (swap_passwords f s)) (authSwitchRequestMoreData ev p s)"
proof (cases "lc_authPlugin s")
  case None
  then show ?thesis
    using s by (auto simp: authSwitchRequestMoreData_def swap_plugin_field agreesI split: sum.split)
next
  case (Some pl)
  then have "hidden_plugin pl"
    using s by (simp add: hidden_def)
  then show ?thesis
    using Some s swap_run_plugin [OF ok s]
    by (auto simp: authSwitchRequestMoreData_def swap_plugin_field agreesI split: sum.split)
qed

lemma swap_next_factor:
  "next_factor (swap_passwords f s) = swap_passwords f (next_factor s)" if "f None = None"
  using that by (simp add: next_factor_def factor_password_def swap_passwords_def)

lemma hidden_next_factor [simp]: "hidden (next_factor s) = hidden s"
  by (simp add: next_factor_def hidden_def)

lemma swap_failed [simp]:
  "auth_failed e (swap_passwords f s) = swap_passwords f (auth_failed e s)" "hidden (auth_failed e s) = hidden s"
  by (simp_all add: auth_failed_def)

lemma swap_call_back [simp]:
  "call_back r (swap_passwords f s) = swap_passwords f (call_back r s)" "hidden (call_back r s) = hidden s"
  by (simp_all add: call_back_def)

lemma swap_handshakeResult:
  assumes ok: "look_alike (ae_crypto ev) (ae_codec ev) f" "f None = None" and s: "hidden s"
  shows "agrees f (handshakeResult ev p (swap_passwords f s)) (handshakeResult ev p s)"
proof -
  have "agrees f (authSwitchRequest ev p (swap_passwords f (next_factor s))) (authSwitchRequest ev p (next_factor s))"
    by (rule swap_authSwitchRequest [OF ok(1)]) (simp add: s)
  moreover have "agrees f (authSwitchRequestMoreData ev p (swap_passwords f s)) (authSwitchRequestMoreData ev p s)"
    by (rule swap_authSwitchRequestMoreData [OF ok(1) s])
  ultimately show ?thesis
    using s by (auto simp: handshakeResult_def Let_def swap_next_factor ok(2) agreesI elim!: agreesE split: sum.split)
qed

lemma swap_auth_write:
  "auth_write r (swap_passwords f s) = map_prod (swap_passwords f) (\<lambda>x. x) (auth_write r s)"
  "hidden (fst (auth_write r s)) = hidden s"
  by (cases r; simp add: auth_write_def)+

lemma swap_take [simp]:
  "take_credentials (swap_passwords f s) = swap_passwords f (take_credentials s)"
  "hidden (take_credentials s) = hidden s"
  by (simp_all add: take_credentials_def swap_passwords_def hidden_def)

lemma swap_negotiate [simp]:
  "negotiate hs (swap_passwords f s) = swap_passwords f (negotiate hs s)" "hidden (negotiate hs s) = hidden s"
  by (simp_all add: negotiate_def swap_passwords_def hidden_def Let_def)

lemma swap_method [simp]: "clientAuthMethod hs (swap_passwords f s) = clientAuthMethod hs s"
  by (simp add: clientAuthMethod_def)

lemma hidden_method:
  assumes "hidden s"
  shows "clientAuthMethod hs s = js ''mysql_native_password'' \<or> clientAuthMethod hs s = js ''caching_sha2_password''"
  using assms by (auto simp: clientAuthMethod_def hidden_def canUseAuthMethodDirectly_def Let_def split: if_splits)

lemma swap_token:
  assumes "look_alike (ae_crypto ev) (ae_codec ev) f"
    and "m = js ''mysql_native_password'' \<or> m = js ''caching_sha2_password''"
  shows "calculateAuthToken ev m data (swap_passwords f s) = calculateAuthToken ev m data s"
proof -
  have "au_password (swap_passwords f s) = f (au_password s)" "au_passwordSha1 (swap_passwords f s) = au_passwordSha1 s"
    by (simp_all add: swap_passwords_def)
  then show ?thesis
    using assms(2) by (elim disjE)
      (simp_all add: calculateAuthToken_def calculateNativePasswordAuthToken_def look_alike_tokens [OF assms(1)])
qed

lemma swap_initialize:
  assumes ok: "look_alike (ae_crypto ev) (ae_codec ev) f" and s: "hidden s"
    and m: "m = js ''caching_sha2_password''"
  shows "initializeAuthPlugin ev m data (swap_passwords f s) = swap_passwords f (initializeAuthPlugin ev m data s) \<and>
    hidden (initializeAuthPlugin ev m data s)"
proof (cases "getAuthPlugin m s")
  case None
  then show ?thesis
    using s by (simp add: initializeAuthPlugin_def)
next
  case (Some fac)
  have "m \<noteq> js ''mysql_clear_password''"
    by (simp add: m js_def)
  from hidden_getAuthPlugin [OF s Some this] obtain k where k: "fac = Factory k no_options" "k \<noteq> ClearPassword"
    by blast
  let ?pl = "make_plugin fac s"
  have pl: "hidden_plugin ?pl"
    unfolding k(1) by (rule hidden_make_plugin [OF k(2)])
  have "make_plugin fac (swap_passwords f s) = swap_plugin f ?pl"
    unfolding k(1) by (rule swap_make_plugin [OF ok])
  then show ?thesis
    using swap_call_plugin [OF ok s pl, of data] hidden_put [OF s, of "fst (call_plugin ev s data ?pl)"]
    by (simp add: initializeAuthPlugin_def Some swap_put)
qed

lemma swap_credential_fields [simp]:
  "au_user (swap_passwords f s) = au_user s" "au_database (swap_passwords f s) = au_database s"
  "au_extendedFlags (swap_passwords f s) = au_extendedFlags s" "au_passwordSha1 (swap_passwords f s) = au_passwordSha1 s"
  "cf_charsetNumber (swap_passwords f s) = cf_charsetNumber s"
  "cf_connectAttributes (swap_passwords f s) = cf_connectAttributes s" "lc_serverFlags (swap_passwords f s) = lc_serverFlags s" "lc_clientEncoding (swap_passwords f s) = lc_clientEncoding s"
  "au_charsetNumber (swap_passwords f s) = au_charsetNumber s" "cf_clientFlags (swap_passwords f s) = cf_clientFlags s"
  by (simp_all add: swap_passwords_def)

lemma swap_sendCredentials:
  assumes ok: "look_alike (ae_crypto ev) (ae_codec ev) f" and s: "hidden s"
  shows "agrees f (sendCredentials ev (swap_passwords f s)) (sendCredentials ev s)"
proof (cases "au_handshake s")
  case None
  then show ?thesis
    using s by (simp add: sendCredentials_def agreesI)
next
  case (Some hs)
  define t where "t = take_credentials s"
  have t: "hidden t" "take_credentials s = t"
    using s by (simp_all add: t_def)
  let ?m = "clientAuthMethod hs t" and ?data = "scramble_of hs"
  note m = hidden_method [OF t(1), of hs]
  let ?response = "\<lambda>t. HandshakeResponse_toPacket (ae_codec ev)
    (new_handshake_response (ae_crypto ev) (ae_codec ev) (au_clientFlags t) (au_extendedFlags t) (au_user t)
       (au_database t) (au_password t) (au_passwordSha1 t) (cf_charsetNumber t) (authPluginData1 hs)
       (case authPluginData2 hs of None \<Rightarrow> [] | Some d \<Rightarrow> d) (cf_connectAttributes t)
       (Some (calculateAuthToken ev ?m ?data t, ?m)))"
  have same: "?response (swap_passwords f t) = ?response t"
    by (simp add: swap_token [OF ok m] new_handshake_response_def)
  obtain t1 r where w: "auth_write (?response t) t = (t1, r)"
    by fastforce
  then have w': "auth_write (?response t) (swap_passwords f t) = (swap_passwords f t1, r)" and t1: "hidden t1"
    using swap_auth_write(1) [of "?response t" f t] swap_auth_write(2) [of "?response t" t] t(1) by simp_all
  have unfolded: "sendCredentials ev u =
      (case auth_write (?response (take_credentials u)) (take_credentials u) of
         (s1, Inl e) \<Rightarrow> (s1, Inl e)
       | (s1, Inr _) \<Rightarrow> ((if ?m \<noteq> js ''mysql_native_password'' then initializeAuthPlugin ev ?m ?data s1 else s1), Inr ()))"
    if "take_credentials u = t \<or> take_credentials u = swap_passwords f t" "au_handshake u = Some hs" for u
    using that by (elim disjE) (simp_all only: sendCredentials_def Let_def option.case swap_method)
  have take: "take_credentials (swap_passwords f s) = swap_passwords f t" "au_handshake (swap_passwords f s) = Some hs"
    using t(2) Some by simp_all
  let ?done = "\<lambda>s1. (if ?m \<noteq> js ''mysql_native_password'' then initializeAuthPlugin ev ?m ?data s1 else s1)"
  have run: "sendCredentials ev s = (case (t1, r) of (s1, Inl e) \<Rightarrow> (s1, Inl e) | (s1, Inr _) \<Rightarrow> (?done s1, Inr ()))"
    using unfolded [OF disjI1 [OF t(2)] Some] unfolding t(2) w .
  have run': "sendCredentials ev (swap_passwords f s) =
      (case (swap_passwords f t1, r) of (s1, Inl e) \<Rightarrow> (s1, Inl e) | (s1, Inr _) \<Rightarrow> (?done s1, Inr ()))"
    using unfolded [OF disjI2 [OF take(1)] take(2)] unfolding take(1) same w' .
  have "?done (swap_passwords f t1) = swap_passwords f (?done t1)" "hidden (?done t1)"
    using m swap_initialize [OF ok t1] t1 by auto
  then show ?thesis
    unfolding run run' using t1 by (cases r) (simp_all only: prod.case sum.case agreesI)
qed

lemma swap_handshakeInit:
  assumes ok: "look_alike (ae_crypto ev) (ae_codec ev) f" and s: "hidden s"
  shows "agrees f (handshakeInit ev p (swap_passwords f s)) (handshakeInit ev p s)"
proof (cases "Handshake_fromPacket (ae_codec ev) p")
  case (Inl e)
  then show ?thesis
    using s by (simp add: handshakeInit_def agreesI)
next
  case (Inr r)
  obtain hs q where r: "r = (hs, q)"
    by fastforce
  let ?t = "negotiate hs s"
  have t: "hidden ?t" "\<not> cf_ssl ?t"
    using s by (auto simp: hidden_def negotiate_def Let_def)
  have "agrees f (sendCredentials ev (swap_passwords f ?t)) (sendCredentials ev ?t)"
    by (rule swap_sendCredentials [OF ok t(1)])
  then obtain t1 x where "sendCredentials ev ?t = (t1, x)"
    "sendCredentials ev (swap_passwords f ?t) = (swap_passwords f t1, x)" "hidden t1"
    by (rule agreesE)
  then show ?thesis
    using t by (cases x) (auto simp: handshakeInit_def Inr r Let_def agreesI)
qed

lemma swap_tls_ready:
  assumes "look_alike (ae_crypto ev) (ae_codec ev) f" and "hidden s"
  shows "agrees f (tls_ready ev err (swap_passwords f s)) (tls_ready ev err s)"
  using swap_sendCredentials [OF assms] assms(2) by (auto simp: tls_ready_def agreesI split: option.split)

lemma swap_change_user:
  assumes ok: "look_alike (ae_crypto ev) (ae_codec ev) f" and s: "hidden s"
  shows "agrees f (change_user_start ev (swap_passwords f s)) (change_user_start ev s)"
proof (cases "au_handshake s")
  case None
  then show ?thesis
    using s by (simp add: change_user_start_def agreesI)
next
  case (Some hs)
  have pw: "au_password (swap_passwords f s) = f (au_password s)"
    by (simp add: swap_passwords_def)
  let ?copy = "\<lambda>s :: 'a auth. cmd_say ClearStatements (s\<lparr>cf_user := au_user s, cf_password := au_password s,
      cf_database := au_database s, cf_charsetNumber := au_charsetNumber s,
      lc_clientEncoding := CharsetToEncoding (au_charsetNumber s)\<rparr>)"
  have copy: "?copy (swap_passwords f s) = swap_passwords f (?copy s)" "hidden (?copy s)"
    using s by (simp_all add: swap_passwords_def cmd_say_def hidden_def)
  let ?packet = "\<lambda>s :: 'a auth. ChangeUser_toPacket (ae_codec ev) (ae_mem ev)
    (new_change_user (ae_crypto ev) (ae_codec ev) (cf_clientFlags s) (au_user s) (au_database s) (au_password s)
       (au_passwordSha1 s) (authPluginData1 hs) (case authPluginData2 hs of None \<Rightarrow> [] | Some d \<Rightarrow> d)
       (au_charsetNumber s) [])"
  have packet: "?packet (swap_passwords f s) = ?packet s"
    by (simp add: pw new_change_user_def look_alike_tokens [OF ok])
  obtain t r where w: "auth_write (?packet s) (?copy s) = (t, r)"
    by fastforce
  then have w': "auth_write (?packet s) (swap_passwords f (?copy s)) = (swap_passwords f t, r)" and t: "hidden t"
    using swap_auth_write(1) [of "?packet s" f "?copy s"] swap_auth_write(2) [of "?packet s" "?copy s"] copy(2)
    by simp_all
  have unfolded: "change_user_start ev u =
      (if authPluginData2 hs = None \<and> (au_passwordSha1 u \<noteq> None \<or> js_truthy (au_password u)) then (u, Inl TypeError)
       else case auth_write (?packet u) (?copy u) of
         (s2, Inl e) \<Rightarrow> (s2, Inl e)
       | (s2, Inr _) \<Rightarrow>
           (s2\<lparr>au_factor := (if isSet ClientConstants (lc_serverFlags s2) ''MULTI_FACTOR_AUTHENTICATION''
                  then 1 else au_factor s2)\<rparr>, Inr (Some HandshakeResult)))"
    if "au_handshake u = Some hs" for u
    using that by (simp add: change_user_start_def Let_def)
  have guard: "js_truthy (au_password (swap_passwords f s)) = js_truthy (au_password s)"
    by (simp add: pw look_alike_tokens [OF ok])
  have hs: "au_handshake (swap_passwords f s) = Some hs"
    by (simp add: Some)
  show ?thesis
    unfolding unfolded [OF Some] unfolded [OF hs] guard packet copy(1) w w'
    using s t by (cases r) (auto simp: agreesI)
qed

lemma swap_Login:
  assumes ok: "look_alike (ae_crypto ev) (ae_codec ev) f" "f None = None" and s: "hidden s"
  shows "agrees f (Login ev n p (swap_passwords f s)) (Login ev n p s)"
  using assms swap_change_user [OF ok(1) s] swap_handshakeInit [OF ok(1) s] swap_handshakeResult [OF ok s]
  by (cases n; cases p) (simp_all add: agreesI)

lemma swap_cmd_failed [simp]:
  "cmd_failed e (swap_passwords f s) = swap_passwords f (cmd_failed e s)" "hidden (cmd_failed e s) = hidden s"
  by (simp_all add: cmd_failed_def stop_timer_def Let_def cmd_say_def swap_passwords_def hidden_def)

lemma swap_step:
  assumes ok: "look_alike (ae_crypto ev) (ae_codec ev) f" "f None = None" and s: "hidden s"
  shows "auth_step ev first e (swap_passwords f s) = swap_passwords f (auth_step ev first e s) \<and>
    hidden (auth_step ev first e s)"
proof (cases e)
  case (Deliver p)
  define t where "t = (if cmd_next s = None then cmd_say ResetSequence (s\<lparr>cmd_next := Some first\<rparr>) else s)"
  have t: "hidden t" "(if cmd_next (swap_passwords f s) = None
      then cmd_say ResetSequence ((swap_passwords f s)\<lparr>cmd_next := Some first\<rparr>) else swap_passwords f s) = swap_passwords f t"
    using s by (simp_all add: t_def)
  obtain t1 x where run: "Login ev (the (cmd_next t)) p t = (t1, x)"
    "Login ev (the (cmd_next t)) p (swap_passwords f t) = (swap_passwords f t1, x)" "hidden t1"
    by (rule agreesE [OF swap_Login [OF ok t(1)]])
  have next': "the (cmd_next (swap_passwords f t)) = the (cmd_next t)"
    by simp
  note unfolded = auth_step_def Deliver auth_event.case Command_execute_def t(2) t_def [symmetric] Let_def next' run(1,2)
    prod.case swap_credential_fields
  show ?thesis
  proof (cases "\<exists>q\<in>set_option p. isError q")
    case True
    show ?thesis
      unfolding unfolded if_P [OF True]
      using t(1) by (cases "asError (ae_codec ev) (lc_clientEncoding s) (the p)") simp_all
  next
    case False
    show ?thesis
    proof (cases x)
      case (Inl err)
      then show ?thesis
        unfolding unfolded if_not_P [OF False] using run(3) by simp
    next
      case (Inr n)
      then show ?thesis
        unfolding unfolded if_not_P [OF False] using run(3) by (cases n) simp_all
    qed
  qed
next
  case (TlsReady err)
  show ?thesis
    by (rule agreesE [OF swap_tls_ready [OF ok(1) s, of err]]) (simp add: auth_step_def TlsReady)
next
  case (LegacyReply r)
  then show ?thesis
    using s by (cases r) (auto simp: auth_step_def swap_auth_write)
next
  case (PluginSettled r)
  then show ?thesis
    using s by (simp add: auth_step_def)
qed

lemma swap_run:
  assumes "look_alike (ae_crypto ev) (ae_codec ev) f" "f None = None"
  shows "hidden s \<Longrightarrow> auth_run ev first es (swap_passwords f s) = swap_passwords f (auth_run ev first es s)"
proof (induction es arbitrary: s)
  case Nil
  then show ?case
    by (simp add: auth_run_def)
next
  case (Cons e es)
  then show ?case
    using swap_step [OF assms Cons.prems, of first e] by (simp add: auth_run_def)
qed

text \<open>
  Claim C21. A password stays behind its digests. On a connection without TLS and socket file, with
  the cleartext plugin disabled and no plugin of the user's, everything a login or a change of user
  does in answer to any sequence of server packets and events is the same for two sets of passwords
  that agree on the SHA-1 and SHA-256 digests and on what the server's public key makes of them:
  every byte written, every event and every callback.
\<close>

theorem password_hidden:
  assumes "\<And>p. alike (ae_crypto ev) (ae_codec ev) p (f p)" and "f None = None"
    and "\<not> cf_ssl s" "\<not> cf_socketPath s" "\<not> lc_tls s" "\<not> cf_enableCleartextPlugin s"
    and "cf_authPlugins s = []" "lc_authPlugin s = None"
  shows "cmd_log (auth_run ev first es (swap_passwords f s)) = cmd_log (auth_run ev first es s)"
proof -
  have "hidden s"
    using assms(3-8) by (simp add: hidden_def)
  moreover have "look_alike (ae_crypto ev) (ae_codec ev) f"
    using assms(1) by (simp add: look_alike_def)
  ultimately show ?thesis
    using assms(2) by (simp add: swap_run)
qed

text \<open>A platform whose digests are constant, and a login about to start.\<close>

definition demo_env :: "unit auth_env" where
  "demo_env = \<lparr>ae_crypto = \<lparr>hash_sha1 = \<lambda>x. replicate 20 1, hash_sha256 = \<lambda>x. replicate 32 2,
       publicEncrypt = \<lambda>key m. Inr [9]\<rparr>,
     ae_codec = latin1_codec, ae_mem = \<lambda>n. replicate n 0, ae_external = \<lambda>x data. (x, Pending)\<rparr>"

definition new_client_handshake :: "int \<Rightarrow> 'x auth \<Rightarrow> 'x auth" where
  "new_client_handshake flags conn =
     conn\<lparr>cmd_next := None, cmd_onResult := False, cmd_timer := False, au_handshake := None,
       au_clientFlags := flags, au_extendedFlags := 0, au_factor := 0, au_listens := False\<rparr>"

definition demo_login :: "unit auth" where
  "demo_login = new_client_handshake 557056
     \<lparr>cmd_next = None, cmd_onResult = False, cmd_timer = False, cmd_log = [], au_handshake = None,
      au_clientFlags = 0, au_extendedFlags = 0, au_factor = 0, au_user = None, au_password = None,
      au_password1 = None, au_password2 = None, au_password3 = None, au_passwordSha1 = None,
      au_database = None, au_charsetNumber = 0, au_listens = False, cf_user = Some (js ''root''),
      cf_password = Some (js ''pw''), cf_password2 = Some (js ''two''), cf_password3 = None, cf_passwordSha1 = None,
      cf_database = None, cf_charsetNumber = 8, cf_clientFlags = 557056, cf_ssl = False,
      cf_socketPath = False, cf_compress = 0, cf_connectAttributes = [], cf_enableCleartextPlugin = False,
      cf_authSwitchHandler = False, cf_authPlugins = [], lc_authPlugin = None, lc_tls = False,
      lc_serverFlags = 0, lc_serverEncoding = None, lc_clientEncoding = Some ''utf8'', lc_connectionId = 0,
      lc_isMariaDB = False, lc_extendedMetadata = False, lc_authorized = False, lc_fatalError = None\<rparr>"

definition demo_other :: "jstring option \<Rightarrow> jstring option" where
  "demo_other = map_option (\<lambda>p. if p = [] then [] else js ''other'')"

definition packet_holding :: "bytes \<Rightarrow> packet" where
  "packet_holding bs = new_packet 1 (replicate 4 0 @ bs) 0 (4 + length bs)"

lemma demo_other_alike: "alike (ae_crypto demo_env) (ae_codec demo_env) p (demo_other p)"
  by (cases p) (simp_all add: alike_def demo_other_def demo_env_def js_truthy_def encrypt_password_def js_def)

theorem password_hidden_witness:
  "let es = [Deliver None, Deliver (Some (packet_holding (greeting_bytes demo_greeting (map of_char ''8.0'') demo_name))),
       Deliver (Some (packet_holding ([254] @ map of_char ''caching_sha2_password'' @ [0] @ replicate 20 7))),
       Deliver (Some (packet_holding [1, 4])), Deliver (Some (packet_holding [1, 5, 5, 5]))]
   in cmd_log (auth_run demo_env HandshakeStart es (swap_passwords demo_other demo_login)) =
      cmd_log (auth_run demo_env HandshakeStart es demo_login)"
  unfolding Let_def
  by (rule password_hidden [OF demo_other_alike])
    (simp_all add: demo_other_def demo_login_def new_client_handshake_def)

section \<open>The conversation of a plugin\<close>

text \<open>What a plugin answers to a sequence of data packets.\<close>

fun conversation :: "(bytes \<Rightarrow> 's \<Rightarrow> 's \<times> 'r) \<Rightarrow> bytes list \<Rightarrow> 's \<Rightarrow> 'r list" where
  "conversation call [] s = []"
| "conversation call (d # ds) s = (case call d s of (s', r) \<Rightarrow> r # conversation call ds s')"

lemma final_conversation:
  assumes "sp_state s = Sha2Final"
  shows "conversation (caching_sha2_password h c opts secure) ds s = replicate (length ds) (Inl UnexpectedData)"
proof (induction ds)
  case (Cons d ds)
  have "caching_sha2_password h c opts secure d s = (s, Inl UnexpectedData)"
    using assms by (simp add: caching_sha2_password_def)
  then show ?case
    using Cons.IH by simp
qed simp

definition channel_secure :: "plugin_options \<Rightarrow> bool \<Rightarrow> bool" where
  "channel_secure opts secure =
     (case po_overrideIsSecure opts of None \<Rightarrow> secure | Some b \<Rightarrow> b)"


definition picky_env :: "unit auth_env" where
  "picky_env = demo_env\<lparr>ae_crypto := (ae_crypto demo_env)
     \<lparr>publicEncrypt := \<lambda>key b. if key = [] then Inl InvalidMoreData else Inr [9]\<rparr>\<rparr>"


text \<open>
  \<open>sha256_password\<close> over TLS never leaves its first state: it answers every packet with the
  password, so the server may ask for it again and again.
\<close>

lemma sha256_over_tls:
  "conversation (sha256_password h c opts True) ds (new_sha2 pw) =
    replicate (length ds) (Inr (Some (utf8Bytes c (password_text pw))))"
proof (induction ds)
  case (Cons d ds)
  have "sha256_password h c opts True d (new_sha2 pw) = (new_sha2 pw, Inr (Some (utf8Bytes c (password_text pw))))"
    by (simp add: sha256_password_def new_sha2_def)
  then show ?case
    using Cons.IH by simp
qed simp

section \<open>The token of the first response\<close>

text \<open>
  Claim C24. The token the client puts into its response to a greeting with the native plugin is the
  one a server that stores the double hash of the password accepts, with or without the NUL behind
  the scramble.
\<close>

theorem login_token_accepted:
  assumes "crypto_ok (ae_crypto ev)" and "au_password s = Some password" "password \<noteq> []"
    and "au_passwordSha1 s = None"
    and "length (authPluginData1 hs) = 8" and "authPluginData2 hs = Some (seed2 @ rest)" "length seed2 = 12"
  shows "verifyToken (ae_crypto ev) (authPluginData1 hs) seed2
      (calculateAuthToken ev (js ''mysql_native_password'') (scramble_of hs) s)
      (doubleSha1 (ae_crypto ev) (ae_codec ev) password)"
proof -
  have "slice 0 8 (scramble_of hs) = authPluginData1 hs" "slice 8 20 (scramble_of hs) = seed2"
    using assms(5-7) by (simp_all add: scramble_of_def slice_def)
  then have "calculateAuthToken ev (js ''mysql_native_password'') (scramble_of hs) s =
      calculateToken (ae_crypto ev) (ae_codec ev) (Some password) (authPluginData1 hs) (seed2 @ [])"
    using assms(2,4) by (simp add: calculateAuthToken_def calculateNativePasswordAuthToken_def native_token_def)
  then show ?thesis
    using native_token_ok [OF assms(1,3,5,7), of "ae_codec ev" "[]"] by simp
qed

theorem login_token_accepted_witness:
  "verifyToken (ae_crypto demo_env) (replicate 8 5) (replicate 12 6)
      (calculateAuthToken demo_env (js ''mysql_native_password'')
        (scramble_of (as_read demo_greeting)) (take_credentials demo_login))
      (doubleSha1 (ae_crypto demo_env) (ae_codec demo_env) (js ''pw''))"
  using login_token_accepted [of demo_env "take_credentials demo_login" "js ''pw''" "as_read demo_greeting"
      "replicate 12 6" "[0]"]
  by (simp add: crypto_ok_def demo_env_def take_credentials_def demo_login_def new_client_handshake_def as_read_def
      demo_greeting_def js_def)

section \<open>More than one factor\<close>

text \<open>
  When the server accepts the first factor from the response to its greeting, without an
  auth switch, the request for the next factor is answered with the first password, and the second
  one is never used for it: the counter of factors only moves with the switch that did not come.
\<close>

theorem second_factor_gets_first_password:
  assumes "handshakeInit ev hello s0 = (s, Inr (Some HandshakeResult))" and "\<not> cf_ssl s0"
    and "Handshake_fromPacket (ae_codec ev) hello = Inr (hs, q)"
    and "isSet ClientConstants (capabilityFlags hs) ''MULTI_FACTOR_AUTHENTICATION''"
    and "peekByte p = Some 2" and "AuthSwitchRequest_fromPacket (ae_codec ev) p = Inr (a, q')"
    and "pluginName a = js ''caching_sha2_password''" "cf_authPlugins s0 = []" "\<not> cf_authSwitchHandler s0"
  shows "\<exists>s' scramble. handshakeResult ev p s = (s', Inr (Some HandshakeResult)) \<and>
    cf_password s' = cf_password s0 \<and>
    lc_authPlugin s' = Some (CachingSha2Plugin no_options
      \<lparr>sp_state = TokenSent, sp_scramble = scramble, sp_password = cf_password s0, sp_keys = []\<rparr>)"
proof -
  have fields: "cf_password (negotiate hs s0) = cf_password s0" "cf_authPlugins (negotiate hs s0) = cf_authPlugins s0"
    "cf_authSwitchHandler (negotiate hs s0) = cf_authSwitchHandler s0" "cf_ssl (negotiate hs s0) = cf_ssl s0"
    by (simp_all add: negotiate_def Let_def)
  obtain s1 where sent: "sendCredentials ev (negotiate hs s0) = (s1, Inr ())" "s = s1\<lparr>au_factor := 1\<rparr>"
    using assms(1-4) by (auto simp: handshakeInit_def Let_def fields split: prod.splits sum.splits)
  have kept: "au_password1 s1 = cf_password s0" "cf_authPlugins s1 = []" "\<not> cf_authSwitchHandler s1"
    using sent(1) assms(8,9)
    by (auto simp: sendCredentials_def Let_def auth_write_def cmd_say_def take_credentials_def fields initializeAuthPlugin_def
        split: option.splits sum.splits if_splits)
  define t where "t = s\<lparr>cf_password := cf_password s0, au_factor := 2\<rparr>"
  have t: "next_factor s = t" "cf_password t = cf_password s0" "cf_authPlugins t = []" "\<not> cf_authSwitchHandler t"
    using sent(2) kept by (simp_all add: next_factor_def factor_password_def t_def)
  let ?started = "CachingSha2Plugin no_options \<lparr>sp_state = TokenSent, sp_scramble = slice 0 20 (pluginData a),
      sp_password = cf_password s0, sp_keys = []\<rparr>"
  let ?token = "calculateSha2Token (ae_crypto ev) (ae_codec ev) (cf_password s0) (slice 0 20 (pluginData a))"
  let ?final = "plugin_reply ev (Inr (Some ?token)) (t\<lparr>lc_authPlugin := Some ?started\<rparr>)"
  have "getAuthPlugin (js ''caching_sha2_password'') t = Some (Factory CachingSha2 no_options)"
    by (simp add: getAuthPlugin_def t standardAuthPlugins_def js_def)
  moreover have "js ''caching_sha2_password'' \<noteq> js ''mysql_clear_password''"
    by (simp add: js_def)
  ultimately have "authSwitchRequest ev p t = run_plugin ev (pluginData a) (make_plugin (Factory CachingSha2 no_options) t) t"
    using t assms(6,7) by (simp add: authSwitchRequest_def Let_def)
  also have "\<dots> = (?final, Inr ())"
    by (simp add: run_plugin_def call_plugin_def make_plugin_def caching_sha2_password_def new_sha2_def t outcome_of_def
        Let_def)
  finally have "handshakeResult ev p s = (?final, Inr (Some HandshakeResult))"
    using assms(5) by (simp add: handshakeResult_def t Let_def)
  moreover have "cf_password ?final = cf_password s0 \<and> lc_authPlugin ?final = Some ?started"
    using t by (simp add: plugin_reply_def authSwitchPluginError_def auth_emit_def cmd_say_def Let_def split: sum.split)
  ultimately show ?thesis
    by blast
qed

definition demo_mfa_greeting :: handshake where
  "demo_mfa_greeting = demo_greeting\<lparr>capabilityFlags := 268992512\<rparr>"

definition demo_hello :: packet where
  "demo_hello = packet_holding (greeting_bytes demo_mfa_greeting (map of_char ''8.0'') demo_name)"

definition demo_next_factor :: packet where
  "demo_next_factor = packet_holding (2 # map of_char ''caching_sha2_password'' @ 0 # replicate 20 7)"

lemma payload_holds: "holds (packet_holding bs) bs"
  by (simp add: holds_def packet_holding_def new_packet_def slice_def)

lemma payload_peek: "peekByte (packet_holding (b # bs)) = Some (unat b)"
  by (simp add: packet_holding_def peekByte_def new_packet_def byte_at_def nth_append)

lemma demo_hello_read:
  obtains q where "Handshake_fromPacket latin1_codec demo_hello = Inr (as_read demo_mfa_greeting, q)"
proof -
  have ok: "greeting_ok latin1_codec demo_mfa_greeting (map of_char ''8.0'') demo_name"
    using demo_greeting_ok by (simp add: greeting_ok_def demo_mfa_greeting_def)
  have "isSet ClientConstants (capabilityFlags demo_mfa_greeting) ''PLUGIN_AUTH''"
    "isSet ClientConstants (capabilityFlags demo_mfa_greeting) ''SECURE_CONNECTION''"
    by (simp_all add: demo_mfa_greeting_def isSet_def code_of_def ClientConstants_def)
  from handshake_reads [OF ok this] payload_holds show ?thesis
    using that by (auto simp: reads_all_def demo_hello_def)
qed

definition demo_first_response :: handshake_response where
  "demo_first_response = \<lparr>hr_clientFlags = 268992512, hr_mariadbExtendedClientFlags = 0, hr_user = js ''root'',
     hr_database = [], hr_authToken = calculateAuthToken demo_env (js ''mysql_native_password'')
       (scramble_of (as_read demo_mfa_greeting)) (take_credentials (negotiate (as_read demo_mfa_greeting) demo_login)),
     hr_authPluginName = js ''mysql_native_password'', hr_charsetNumber = 8, hr_connectAttributes = []\<rparr>"

lemma demo_first_token: "length (hr_authToken demo_first_response) = 20"
  by (simp add: demo_first_response_def calculateAuthToken_def calculateNativePasswordAuthToken_def native_token_def
      take_credentials_def negotiate_def demo_login_def new_client_handshake_def calculateToken_def js_truthy_def
      js_def calculateTokenFromPasswordSha_def demo_env_def Let_def)

lemma demo_first_response_ok:
  "response_ok latin1_codec demo_first_response
     \<lparr>rp_flags = 268992512, rp_ext = 0, rp_user = map of_char ''root'', rp_database = [], rp_plugin = demo_name, rp_attrs = [],
      rp_tokenText = []\<rparr>"
  using demo_first_token
  by (simp add: response_ok_def token_ok_def demo_first_response_def demo_name_def charset_8 text_ok_def encode_def decode_def
      latin1_codec_def js_def slice_def latin1Slice_def Let_def attrs_ok_def isSet_def code_of_def ClientConstants_def)

lemma demo_negotiated:
  "au_clientFlags (negotiate (as_read demo_mfa_greeting) demo_login) = 268992512"
  "au_extendedFlags (negotiate (as_read demo_mfa_greeting) demo_login) = 0"
  by (simp_all add: negotiate_def as_read_def demo_mfa_greeting_def demo_greeting_def demo_login_def
      new_client_handshake_def Let_def code_of_def ClientConstants_def MariaDBClient_def)

lemma demo_sends:
  obtains s where "sendCredentials demo_env (negotiate (as_read demo_mfa_greeting) demo_login) = (s, Inr ())"
proof -
  let ?s = "negotiate (as_read demo_mfa_greeting) demo_login"
  have fields: "au_handshake ?s = Some (as_read demo_mfa_greeting)" "cf_authPlugins ?s = []" "\<not> cf_authSwitchHandler ?s"
    "cf_user ?s = Some (js ''root'')" "cf_database ?s = None" "cf_charsetNumber ?s = 8" "cf_connectAttributes ?s = []"
    by (simp_all add: negotiate_def demo_login_def new_client_handshake_def Let_def)
  have kept: "cf_authPlugins (take_credentials t) = cf_authPlugins t" "cf_authSwitchHandler (take_credentials t) = cf_authSwitchHandler t"
    "au_user (take_credentials t) = cf_user t" "au_database (take_credentials t) = cf_database t"
    "cf_charsetNumber (take_credentials t) = cf_charsetNumber t" "au_clientFlags (take_credentials t) = au_clientFlags t"
    "au_extendedFlags (take_credentials t) = au_extendedFlags t"
    "cf_connectAttributes (take_credentials t) = cf_connectAttributes t" for t :: "unit auth"
    by (simp_all add: take_credentials_def)
  have native: "authPluginName (as_read demo_mfa_greeting) = Some (js ''mysql_native_password'')"
    by (simp add: as_read_def)
  have m: "clientAuthMethod (as_read demo_mfa_greeting) (take_credentials ?s) = js ''mysql_native_password''"
    by (simp add: clientAuthMethod_def kept fields canUseAuthMethodDirectly_def native Let_def)
  have "\<exists>p. HandshakeResponse_toPacket latin1_codec demo_first_response = Inr p"
    using HandshakeResponse_packs [OF demo_first_response_ok] by (auto simp: packs_def)
  then show ?thesis
    using that
    by (auto simp: sendCredentials_def fields m kept demo_negotiated new_handshake_response_def auth_write_def
        demo_first_response_def demo_env_def Let_def)
qed

lemma demo_hello_accepted:
  obtains s where "handshakeInit demo_env demo_hello demo_login = (s, Inr (Some HandshakeResult))"
proof -
  obtain q where "Handshake_fromPacket latin1_codec demo_hello = Inr (as_read demo_mfa_greeting, q)"
    by (rule demo_hello_read)
  moreover obtain s where "sendCredentials demo_env (negotiate (as_read demo_mfa_greeting) demo_login) = (s, Inr ())"
    by (rule demo_sends)
  moreover have "\<not> cf_ssl (negotiate (as_read demo_mfa_greeting) demo_login)" "ae_codec demo_env = latin1_codec"
    by (simp_all add: negotiate_def demo_login_def new_client_handshake_def Let_def demo_env_def)
  ultimately show ?thesis
    using that by (simp add: handshakeInit_def Let_def)
qed

lemma demo_next_factor_read:
  obtains q where "AuthSwitchRequest_fromPacket latin1_codec demo_next_factor =
    Inr (\<lparr>pluginName = js ''caching_sha2_password'', pluginData = replicate 20 7\<rparr>, q)"
proof -
  have "reads_all (AuthSwitchRequest_fromPacket latin1_codec)
      (2 # map of_char ''caching_sha2_password'' @ 0 # replicate 20 7)
      \<lparr>pluginName = js ''caching_sha2_password'', pluginData = replicate 20 7\<rparr>"
    unfolding AuthSwitchRequest_fromPacket_def
    by (rule reads_all_nul_then_rest) (simp_all add: text_ok_def encode_def decode_def latin1_codec_def js_def slice_def
        latin1Slice_def Let_def)
  then show ?thesis
    using payload_holds that by (auto simp: reads_all_def demo_next_factor_def)
qed

theorem second_factor_gets_first_password_witness:
  "\<exists>s s' scramble. handshakeInit demo_env demo_hello demo_login = (s, Inr (Some HandshakeResult)) \<and>
    handshakeResult demo_env demo_next_factor s = (s', Inr (Some HandshakeResult)) \<and>
    lc_authPlugin s' = Some (CachingSha2Plugin no_options
      \<lparr>sp_state = TokenSent, sp_scramble = scramble, sp_password = Some (js ''pw''), sp_keys = []\<rparr>)"
proof -
  obtain s where s: "handshakeInit demo_env demo_hello demo_login = (s, Inr (Some HandshakeResult))"
    by (rule demo_hello_accepted)
  obtain q where q: "Handshake_fromPacket latin1_codec demo_hello = Inr (as_read demo_mfa_greeting, q)"
    by (rule demo_hello_read)
  obtain q' where q': "AuthSwitchRequest_fromPacket latin1_codec demo_next_factor =
      Inr (\<lparr>pluginName = js ''caching_sha2_password'', pluginData = replicate 20 7\<rparr>, q')"
    by (rule demo_next_factor_read)
  have "isSet ClientConstants (capabilityFlags (as_read demo_mfa_greeting)) ''MULTI_FACTOR_AUTHENTICATION''"
    by (simp add: as_read_def demo_mfa_greeting_def demo_greeting_def isSet_def code_of_def ClientConstants_def)
  moreover have "peekByte demo_next_factor = Some 2"
    by (simp add: demo_next_factor_def payload_peek)
  moreover have "\<not> cf_ssl demo_login" "cf_authPlugins demo_login = []" "\<not> cf_authSwitchHandler demo_login"
    "cf_password demo_login = Some (js ''pw'')" "ae_codec demo_env = latin1_codec"
    by (simp_all add: demo_login_def new_client_handshake_def demo_env_def)
  ultimately have "\<exists>s' scramble. handshakeResult demo_env demo_next_factor s = (s', Inr (Some HandshakeResult)) \<and>
      cf_password s' = cf_password demo_login \<and>
      lc_authPlugin s' = Some (CachingSha2Plugin no_options
        \<lparr>sp_state = TokenSent, sp_scramble = scramble, sp_password = cf_password demo_login, sp_keys = []\<rparr>)"
    by (intro second_factor_gets_first_password [OF s _ _ _ _ _ auth_switch.select_convs(1)]) (simp_all add: q q')
  then show ?thesis
    using s \<open>cf_password demo_login = Some (js ''pw'')\<close> by auto
qed

end
