(* ===== verification/Dates.thy ===== *)
theory Dates
  imports Packet
begin

text \<open>
  Dates: the time values of ECMAScript as the source uses them, and \<open>src/lib/parsers/local_date.js\<close>,
  which computes \<open>new Date(y, m, ...)\<close> with a cache of the offsets of the local time zone. The zone
  itself is a parameter: it maps the wall-clock time, in milliseconds as if it were UTC, to the time
  value. A time value is \<open>None\<close> for an invalid date.
\<close>

section \<open>Days and times of ECMAScript\<close>

definition leap :: "int \<Rightarrow> bool" where
  "leap y \<longleftrightarrow> y mod 4 = 0 \<and> (y mod 100 \<noteq> 0 \<or> y mod 400 = 0)"

definition DayFromYear :: "int \<Rightarrow> int" where
  "DayFromYear y = 365 * (y - 1970) + (y - 1969) div 4 - (y - 1901) div 100 + (y - 1601) div 400"

text \<open>The day of the year a month starts with; months count from 0.\<close>

definition month_start :: "bool \<Rightarrow> int \<Rightarrow> int" where
  "month_start l m =
     [0, 31, 59, 90, 120, 151, 181, 212, 243, 273, 304, 334] ! nat m + (if l \<and> 2 \<le> m then 1 else 0)"

definition MakeDay :: "int \<Rightarrow> int \<Rightarrow> int \<Rightarrow> int" where
  "MakeDay y m d =
     (let ym = y + m div 12 in DayFromYear ym + month_start (leap ym) (m mod 12) + d - 1)"

definition MS_PER_HOUR :: int where
  "MS_PER_HOUR = 3600000"

definition MS_PER_DAY :: int where
  "MS_PER_DAY = 86400000"

definition MakeTime :: "int \<Rightarrow> int \<Rightarrow> int \<Rightarrow> int \<Rightarrow> int" where
  "MakeTime h mi s ms = h * MS_PER_HOUR + mi * 60000 + s * 1000 + ms"

definition MakeDate :: "int \<Rightarrow> int \<Rightarrow> int" where
  "MakeDate day time = day * MS_PER_DAY + time"

definition TimeClip :: "int \<Rightarrow> int option" where
  "TimeClip t = (if \<bar>t\<bar> \<le> 8640000000000000 then Some t else None)"

text \<open>\<open>Date.UTC\<close> and the constructor take the years 0 to 99 for 1900 to 1999.\<close>

definition full_year :: "int \<Rightarrow> int" where
  "full_year y = (if 0 \<le> y \<and> y \<le> 99 then 1900 + y else y)"

definition wall_time :: "int \<Rightarrow> int \<Rightarrow> int \<Rightarrow> int \<Rightarrow> int \<Rightarrow> int \<Rightarrow> int \<Rightarrow> int" where
  "wall_time y m d h mi s ms = MakeDate (MakeDay (full_year y) m d) (MakeTime h mi s ms)"

definition DateUTC :: "int \<Rightarrow> int \<Rightarrow> int \<Rightarrow> int \<Rightarrow> int \<Rightarrow> int \<Rightarrow> int \<Rightarrow> int option" where
  "DateUTC y m d h mi s ms = TimeClip (wall_time y m d h mi s ms)"

type_synonym zone = "int \<Rightarrow> int option"

definition DateLocal :: "zone \<Rightarrow> int \<Rightarrow> int \<Rightarrow> int \<Rightarrow> int \<Rightarrow> int \<Rightarrow> int \<Rightarrow> int \<Rightarrow> int option" where
  "DateLocal zone y m d h mi s ms = zone (wall_time y m d h mi s ms)"

section \<open>local\_date.js\<close>

definition daysFromCivil :: "int \<Rightarrow> int \<Rightarrow> int \<Rightarrow> int" where
  "daysFromCivil year month day =
     (let y = (if month \<le> 2 then year - 1 else year);
          era = y div 400;
          yearOfEra = y - era * 400;
          dayOfYear = (153 * ((month + 9) mod 12) + 2) div 5 + day - 1;
          dayOfEra = yearOfEra * 365 + yearOfEra div 4 - yearOfEra div 100 + dayOfYear
      in era * 146097 + dayOfEra - 719468)"

text \<open>The year of a day: an estimate, then one step down or up.\<close>

definition year_of_day :: "int \<Rightarrow> int" where
  "year_of_day d =
     (let y = 1970 + d * 400 div 146097 in
      if d < DayFromYear y then y - 1 else if DayFromYear (y + 1) \<le> d then y + 1 else y)"

text \<open>
  \<open>localTime\<close>: the constructor applied to the UTC fields of a wall-clock time. In the years 0 to 99
  the fields are taken for another century; the 29th of February of the year 0 has no counterpart,
  so the days after it move by one.
\<close>

definition legacy_shift :: "int \<Rightarrow> int" where
  "legacy_shift d =
     (let y = year_of_day d in
      if 0 \<le> y \<and> y \<le> 99
      then DayFromYear (1900 + y) - DayFromYear y -
        (if leap y \<and> \<not> leap (1900 + y) \<and> 60 \<le> d - DayFromYear y then 1 else 0)
      else 0)"

definition localTime :: "zone \<Rightarrow> int \<Rightarrow> int option" where
  "localTime zone wallTime =
     (case TimeClip wallTime of
        None \<Rightarrow> None
      | Some t \<Rightarrow> zone (t + legacy_shift (t div MS_PER_DAY) * MS_PER_DAY))"

definition proveHourOffset :: "zone \<Rightarrow> int \<Rightarrow> int option" where
  "proveHourOffset zone hour =
     (let st = hour * MS_PER_HOUR; mid = st + MS_PER_HOUR div 2; last = st + MS_PER_HOUR - 1 in
      case (localTime zone st, localTime zone mid, localTime zone last) of
        (Some a, Some b, Some c) \<Rightarrow> (if st - a \<noteq> mid - b \<or> st - a \<noteq> last - c then None else Some (st - a))
      | _ \<Rightarrow> None)"

definition MAX_CACHED_HOURS :: nat where
  "MAX_CACHED_HOURS = 4096"

text \<open>\<open>hourOffsets\<close> as an association list without duplicate keys, and \<open>lastTimezone\<close>.\<close>

record date_state =
  hourOffsets :: "(int \<times> int option) list"
  lastTimezone :: "jstring option"

definition checkTimezone :: "jstring option \<Rightarrow> date_state \<Rightarrow> date_state" where
  "checkTimezone timezone s =
     (if timezone \<noteq> lastTimezone s then s\<lparr>lastTimezone := timezone, hourOffsets := []\<rparr> else s)"

definition hour_offset :: "zone \<Rightarrow> int \<Rightarrow> date_state \<Rightarrow> int option \<times> date_state" where
  "hour_offset zone hour s =
     (case map_of (hourOffsets s) hour of
        Some off \<Rightarrow> (off, s)
      | None \<Rightarrow>
          let hs = (if MAX_CACHED_HOURS \<le> length (hourOffsets s) then [] else hourOffsets s);
              off = proveHourOffset zone hour
          in (off, s\<lparr>hourOffsets := (hour, off) # hs\<rparr>))"

definition localDate ::
    "zone \<Rightarrow> int \<Rightarrow> int \<Rightarrow> int \<Rightarrow> int \<Rightarrow> int \<Rightarrow> int \<Rightarrow> int \<Rightarrow> date_state \<Rightarrow> int option \<times> date_state" where
  "localDate zone year month day h mi sec ms s =
     (if year < 100 \<or> month < 1 \<or> month > 12
      then (DateLocal zone year (month - 1) day h mi sec ms, s)
      else
        let wallTime = daysFromCivil year month day * MS_PER_DAY + h * MS_PER_HOUR + mi * 60000 +
              sec * 1000 + ms
        in case hour_offset zone (wallTime div MS_PER_HOUR) s of
             (None, s') \<Rightarrow> (DateLocal zone year (month - 1) day h mi sec ms, s')
           | (Some off, s') \<Rightarrow> (TimeClip (wallTime - off), s'))"

section \<open>The civil calendar\<close>

definition leaps :: "int \<Rightarrow> int" where
  "leaps y = y div 4 - y div 100 + y div 400"

lemma div_pred:
  fixes y n :: int
  assumes "0 < n"
  shows "y div n = (y - 1) div n + (if y mod n = 0 then 1 else 0)"
proof (cases "y mod n = 0")
  case True
  have "y - 1 = n * (y div n - 1) + (n - 1)"
    using mult_div_mod_eq [of n y] True by (simp add: algebra_simps)
  then have "(y - 1) div n = y div n - 1"
    by (rule int_div_pos_eq) (use assms in auto)
  with True show ?thesis
    by simp
next
  case False
  then have "0 < y mod n" "y mod n < n"
    using assms pos_mod_sign [of n y] pos_mod_bound [of n y] by linarith+
  have "y - 1 = n * (y div n) + (y mod n - 1)"
    using mult_div_mod_eq [of n y] by simp
  then have "(y - 1) div n = y div n"
    by (rule int_div_pos_eq) (use \<open>0 < y mod n\<close> \<open>y mod n < n\<close> in auto)
  with False show ?thesis
    by simp
qed

lemma leaps_step: "leaps y = leaps (y - 1) + (if leap y then 1 else 0)"
proof -
  have "y mod 400 = 0 \<Longrightarrow> y mod 100 = 0" "y mod 100 = 0 \<Longrightarrow> y mod 4 = 0"
    using mod_mod_cancel [of 100 400 y] mod_mod_cancel [of 4 100 y] by auto
  moreover have "y div 4 = (y - 1) div 4 + (if y mod 4 = 0 then 1 else 0)"
    "y div 100 = (y - 1) div 100 + (if y mod 100 = 0 then 1 else 0)"
    "y div 400 = (y - 1) div 400 + (if y mod 400 = 0 then 1 else 0)"
    by (rule div_pred; simp)+
  ultimately show ?thesis
    unfolding leaps_def leap_def
    by (cases "y mod 4 = 0"; cases "y mod 100 = 0"; cases "y mod 400 = 0") (simp_all only: simp_thms if_True if_False; linarith)+
qed

lemma div_shift: "n \<noteq> 0 \<Longrightarrow> (y + k * n) div n = y div n + k" for y n k :: int
  by simp

lemma DayFromYear_leaps: "DayFromYear y = 365 * y + leaps (y - 1) - 719527"
  using div_shift [of 4 "y - 1" "- 492"] div_shift [of 100 "y - 1" "- 19"] div_shift [of 400 "y - 1" "- 4"]
  by (simp add: DayFromYear_def leaps_def)

lemma era_leaps:
  "(y div 400) * 146097 + ((y - y div 400 * 400) * 365 + (y - y div 400 * 400) div 4 - (y - y div 400 * 400) div 100) =
   365 * y + leaps y"
proof -
  define e where "e = y div 400"
  have "(y - e * 400) div 4 = y div 4 - 100 * e" "(y - e * 400) div 100 = y div 100 - 4 * e"
    using div_shift [of 4 y "- 100 * e"] div_shift [of 100 y "- 4 * e"] by (simp_all add: algebra_simps)
  then show ?thesis
    by (simp add: leaps_def flip: e_def)
qed

lemma daysFromCivil_leaps:
  "daysFromCivil y m d =
     (let Y = (if m \<le> 2 then y - 1 else y)
      in 365 * Y + leaps Y + (153 * ((m + 9) mod 12) + 2) div 5 + d - 1 - 719468)"
  using era_leaps [of "if m \<le> 2 then y - 1 else y"] by (simp add: daysFromCivil_def Let_def)

lemma civil_day:
  assumes "1 \<le> m" and "m \<le> 12"
  shows "daysFromCivil y m d = MakeDay y (m - 1) d"
proof -
  have "m \<in> {1, 2, 3, 4, 5, 6, 7, 8, 9, 10, 11, 12}"
    using assms by (simp only: insert_iff empty_iff) presburger
  then show ?thesis
    using leaps_step [of y]
    by (elim insertE) (simp_all add: daysFromCivil_leaps MakeDay_def DayFromYear_leaps month_start_def Let_def)
qed

text \<open>
  \<open>daysFromCivil\<close> counts days as ECMAScript's \<open>MakeDay\<close> does: for every year, positive or
  negative, every month and every day number.
\<close>

theorem daysFromCivil_MakeDay:
  assumes "1 \<le> m" and "m \<le> 12"
  shows "daysFromCivil y m d = MakeDay y (m - 1) d"
  by (rule civil_day [OF assms])

theorem daysFromCivil_MakeDay_witness: "daysFromCivil 2024 2 29 = MakeDay 2024 1 29 \<and> MakeDay 2024 1 29 = 19782"
proof
  show "daysFromCivil 2024 2 29 = MakeDay 2024 1 29"
    using daysFromCivil_MakeDay [of 2 2024 29] by simp
qed (simp add: MakeDay_def DayFromYear_def month_start_def leap_def)

section \<open>The cache of offsets\<close>

lemma DayFromYear_mono: "x \<le> y \<Longrightarrow> DayFromYear x \<le> DayFromYear y"
proof (induction y rule: int_ge_induct)
  case (step i)
  then show ?case
    using leaps_step [of i] by (simp add: DayFromYear_leaps split: if_splits)
qed simp

lemma year_of_day_from_100:
  assumes "DayFromYear 100 \<le> d"
  shows "100 \<le> year_of_day d"
proof -
  define y where "y = 1970 + d * 400 div 146097"
  have day: "DayFromYear 100 = - 683003"
    by (simp add: DayFromYear_def)
  have "- 1870 \<le> d * 400 div 146097"
    using assms by (simp add: day zdiv_mono1 [of "- 273201200" "d * 400" 146097, simplified])
  then have "100 \<le> y"
    by (simp add: y_def)
  moreover have "100 \<le> y - 1" if "d < DayFromYear y"
    using assms that DayFromYear_mono [of y 100] \<open>100 \<le> y\<close> by (cases "y = 100") auto
  ultimately show ?thesis
    by (auto simp: year_of_day_def Let_def simp flip: y_def)
qed

lemma legacy_shift_0: "DayFromYear 100 \<le> d \<Longrightarrow> legacy_shift d = 0"
  using year_of_day_from_100 [of d] by (simp add: legacy_shift_def Let_def)

text \<open>
  What is assumed of the time zone: time values are valid ones, and where the offset is the same at
  the first, the middle and the last millisecond of an hour it is the same in between.
\<close>

definition zone_ok :: "zone \<Rightarrow> bool" where
  "zone_ok zone \<longleftrightarrow>
     (\<forall>t v. zone t = Some v \<longrightarrow> \<bar>v\<bar> \<le> 8640000000000000) \<and>
     (\<forall>hour off. zone (hour * MS_PER_HOUR) = Some (hour * MS_PER_HOUR - off) \<longrightarrow>
        zone (hour * MS_PER_HOUR + 1800000) = Some (hour * MS_PER_HOUR + 1800000 - off) \<longrightarrow>
        zone (hour * MS_PER_HOUR + 3599999) = Some (hour * MS_PER_HOUR + 3599999 - off) \<longrightarrow>
        (\<forall>t. t div MS_PER_HOUR = hour \<longrightarrow> zone t = Some (t - off)))"

definition cache_ok :: "zone \<Rightarrow> date_state \<Rightarrow> bool" where
  "cache_ok zone s \<longleftrightarrow> (\<forall>hour off. map_of (hourOffsets s) hour = Some off \<longrightarrow> off = proveHourOffset zone hour)"

lemma hour_offset_ok:
  assumes "cache_ok zone s"
  obtains s' where "hour_offset zone hour s = (proveHourOffset zone hour, s')" "cache_ok zone s'"
    "lastTimezone s' = lastTimezone s"
proof (cases "map_of (hourOffsets s) hour")
  case None
  define s' where "s' = s\<lparr>hourOffsets := (hour, proveHourOffset zone hour) #
    (if MAX_CACHED_HOURS \<le> length (hourOffsets s) then [] else hourOffsets s)\<rparr>"
  have "hour_offset zone hour s = (proveHourOffset zone hour, s')"
    by (simp add: hour_offset_def None Let_def s'_def)
  moreover have "cache_ok zone s'"
    using assms by (auto simp: cache_ok_def s'_def)
  ultimately show ?thesis
    by (rule that) (simp add: s'_def)
next
  case (Some off)
  then show ?thesis
    using assms by (intro that [of s]) (auto simp: hour_offset_def cache_ok_def)
qed

lemma hour_of_day: "MS_PER_HOUR * (24 * d) = d * MS_PER_DAY"
  by (simp add: MS_PER_HOUR_def MS_PER_DAY_def)

lemma localTime_later:
  assumes "localTime zone t = Some v" and "DayFromYear 100 * MS_PER_DAY \<le> t"
  shows "zone t = Some v"
proof -
  have "DayFromYear 100 \<le> t div MS_PER_DAY"
    using assms(2) zdiv_mono1 [of "DayFromYear 100 * MS_PER_DAY" t MS_PER_DAY] by (simp add: MS_PER_DAY_def)
  then show ?thesis
    using assms(1) by (auto simp: localTime_def TimeClip_def legacy_shift_0 split: if_splits)
qed

text \<open>An offset proved for an hour holds for every time of the hour.\<close>

lemma proved_offset:
  assumes zone: "zone_ok zone" and proved: "proveHourOffset zone (t div MS_PER_HOUR) = Some off"
    and late: "DayFromYear 100 * MS_PER_DAY \<le> t"
  shows "zone t = Some (t - off)"
proof -
  let ?st = "t div MS_PER_HOUR * MS_PER_HOUR"
  have half: "MS_PER_HOUR div 2 = 1800000" "?st + MS_PER_HOUR - 1 = ?st + 3599999"
    by (simp_all add: MS_PER_HOUR_def)
  note unfolded = proved [unfolded proveHourOffset_def Let_def half]
  from unfolded obtain a b c where abc: "localTime zone ?st = Some a" "localTime zone (?st + 1800000) = Some b"
    "localTime zone (?st + 3599999) = Some c"
    by (auto split: option.splits)
  from unfolded have offs: "off = ?st - a" "off = ?st + 1800000 - b" "off = ?st + 3599999 - c"
    by (simp_all add: abc split: if_splits)
  have st: "DayFromYear 100 * MS_PER_DAY \<le> ?st"
  proof -
    have "24 * DayFromYear 100 \<le> t div MS_PER_HOUR"
      using late zdiv_mono1 [of "DayFromYear 100 * MS_PER_DAY" t MS_PER_HOUR]
      by (simp add: MS_PER_HOUR_def MS_PER_DAY_def)
    then show ?thesis
      by (simp add: MS_PER_HOUR_def MS_PER_DAY_def)
  qed
  then have "zone ?st = Some (?st - off)" "zone (?st + 1800000) = Some (?st + 1800000 - off)"
    "zone (?st + 3599999) = Some (?st + 3599999 - off)"
    using localTime_later [OF abc(1)] localTime_later [OF abc(2)] localTime_later [OF abc(3)] offs
    by simp_all
  then show ?thesis
    using zone unfolding zone_ok_def by blast
qed

text \<open>The arguments a column value gives; the 0th of January of the year 100 is left out.\<close>

type_synonym civil = "int \<times> int \<times> int \<times> int \<times> int \<times> int \<times> int"

fun civil_ok :: "civil \<Rightarrow> bool" where
  "civil_ok (y, m, d, h, mi, s, ms) \<longleftrightarrow> 0 \<le> d \<and> (y = 100 \<longrightarrow> 1 \<le> d) \<and> 0 \<le> h \<and> 0 \<le> mi \<and> 0 \<le> s \<and> 0 \<le> ms"

fun construct :: "zone \<Rightarrow> civil \<Rightarrow> int option" where
  "construct zone (y, m, d, h, mi, s, ms) = DateLocal zone y (m - 1) d h mi s ms"

fun local_dates :: "zone \<Rightarrow> civil list \<Rightarrow> date_state \<Rightarrow> int option list \<times> date_state" where
  "local_dates zone [] st = ([], st)"
| "local_dates zone ((y, m, d, h, mi, s, ms) # rest) st =
     (case localDate zone y m d h mi s ms st of
        (v, st1) \<Rightarrow> case local_dates zone rest st1 of (vs, st2) \<Rightarrow> (v # vs, st2))"

lemma MakeDay_late:
  assumes "100 \<le> y" "1 \<le> m" "m \<le> 12" "0 \<le> d" "y = 100 \<longrightarrow> 1 \<le> d"
  shows "DayFromYear 100 \<le> MakeDay y (m - 1) d"
proof -
  have ms: "0 \<le> month_start l (m - 1)" for l
  proof -
    have "m \<in> {1, 2, 3, 4, 5, 6, 7, 8, 9, 10, 11, 12}"
      using assms(2,3) by (simp only: insert_iff empty_iff) presburger
    then show ?thesis
      by (elim insertE) (simp_all add: month_start_def)
  qed
  have day: "MakeDay y (m - 1) d = DayFromYear y + month_start (leap y) (m - 1) + d - 1"
    using assms(2,3) by (simp add: MakeDay_def Let_def)
  show ?thesis
  proof (cases "y = 100")
    case True
    then show ?thesis
      using ms [of "leap y"] assms(5) day by simp
  next
    case False
    then have "DayFromYear 101 \<le> DayFromYear y"
      using assms(1) by (intro DayFromYear_mono) simp
    then show ?thesis
      using ms [of "leap y"] assms(4) day by (simp add: DayFromYear_def)
  qed
qed

lemma localDate_ok:
  assumes zone: "zone_ok zone" and cache: "cache_ok zone st" and civil: "civil_ok (y, m, d, h, mi, s, ms)"
  obtains st' where "localDate zone y m d h mi s ms st = (construct zone (y, m, d, h, mi, s, ms), st')"
    "cache_ok zone st'" "lastTimezone st' = lastTimezone st"
proof (cases "y < 100 \<or> m < 1 \<or> m > 12")
  case True
  then show ?thesis
    using cache by (intro that [of st]) (auto simp: localDate_def)
next
  case False
  then have m: "1 \<le> m" "m \<le> 12" "100 \<le> y"
    by auto
  let ?t = "daysFromCivil y m d * MS_PER_DAY + h * MS_PER_HOUR + mi * 60000 + s * 1000 + ms"
  have wall: "?t = wall_time y (m - 1) d h mi s ms"
    using m by (simp add: wall_time_def MakeDate_def MakeTime_def full_year_def civil_day [OF m(1,2)])
  have "DayFromYear 100 * MS_PER_DAY \<le> MakeDay y (m - 1) d * MS_PER_DAY"
    using MakeDay_late [OF m(3,1,2)] civil by (simp add: MS_PER_DAY_def)
  then have late: "DayFromYear 100 * MS_PER_DAY \<le> ?t"
    using civil by (simp add: civil_day [OF m(1,2)] MS_PER_HOUR_def)
  obtain st' where st': "hour_offset zone (?t div MS_PER_HOUR) st = (proveHourOffset zone (?t div MS_PER_HOUR), st')"
    "cache_ok zone st'" "lastTimezone st' = lastTimezone st"
    by (rule hour_offset_ok [OF cache])
  have "localDate zone y m d h mi s ms st = (construct zone (y, m, d, h, mi, s, ms), st')"
  proof (cases "proveHourOffset zone (?t div MS_PER_HOUR)")
    case None
    then show ?thesis
      using False st'(1) by (simp add: localDate_def Let_def)
  next
    case (Some off)
    have "zone ?t = Some (?t - off)"
      by (rule proved_offset [OF zone Some late])
    moreover have "\<bar>?t - off\<bar> \<le> 8640000000000000"
      using zone \<open>zone ?t = Some (?t - off)\<close> unfolding zone_ok_def by blast
    then have "TimeClip (?t - off) = Some (?t - off)"
      by (simp only: TimeClip_def if_True)
    ultimately show ?thesis
      using False st'(1) Some by (simp add: localDate_def Let_def DateLocal_def flip: wall)
  qed
  then show ?thesis
    using that st' by blast
qed

lemma local_dates_ok:
  assumes "zone_ok zone"
  shows "cache_ok zone st \<Longrightarrow> \<forall>d\<in>set ds. civil_ok d \<Longrightarrow>
    \<exists>st'. local_dates zone ds st = (map (construct zone) ds, st') \<and> cache_ok zone st' \<and> lastTimezone st' = lastTimezone st"
proof (induction ds arbitrary: st)
  case (Cons dd ds)
  obtain y m d h mi s ms where dd: "dd = (y, m, d, h, mi, s, ms)"
    by (cases dd) auto
  have "civil_ok (y, m, d, h, mi, s, ms)"
    using Cons.prems(2) by (simp add: dd)
  then obtain st1 where st1: "localDate zone y m d h mi s ms st = (construct zone (y, m, d, h, mi, s, ms), st1)"
    "cache_ok zone st1" "lastTimezone st1 = lastTimezone st"
    by (rule localDate_ok [OF assms Cons.prems(1)])
  obtain st2 where "local_dates zone ds st1 = (map (construct zone) ds, st2)" "cache_ok zone st2"
    "lastTimezone st2 = lastTimezone st1"
    using Cons.IH [OF st1(2)] Cons.prems(2) by auto
  then show ?case
    using st1 by (simp add: dd)
qed simp

text \<open>
  The environment assigns the time zone now and then; a result set checks it once and builds its
  dates. \<open>zones\<close> is what Node makes of each value of the variable.
\<close>

datatype date_event = AssignTZ "jstring option" | DateRows "civil list"

fun date_run :: "(jstring option \<Rightarrow> zone) \<Rightarrow> date_event list \<Rightarrow> jstring option \<Rightarrow> date_state \<Rightarrow> int option list" where
  "date_run zones [] tz st = []"
| "date_run zones (AssignTZ tz' # es) tz st = date_run zones es tz' st"
| "date_run zones (DateRows ds # es) tz st =
     (case local_dates (zones tz) ds (checkTimezone tz st) of (vs, st') \<Rightarrow> vs @ date_run zones es tz st')"

fun date_spec :: "(jstring option \<Rightarrow> zone) \<Rightarrow> date_event list \<Rightarrow> jstring option \<Rightarrow> int option list" where
  "date_spec zones [] tz = []"
| "date_spec zones (AssignTZ tz' # es) tz = date_spec zones es tz'"
| "date_spec zones (DateRows ds # es) tz = map (construct (zones tz)) ds @ date_spec zones es tz"

lemma cache_ok_check:
  assumes "cache_ok (zones (lastTimezone st)) st"
  shows "cache_ok (zones tz) (checkTimezone tz st)" "lastTimezone (checkTimezone tz st) = tz"
  using assms by (auto simp: checkTimezone_def cache_ok_def)

lemma date_run_ok:
  assumes "\<And>tz. zone_ok (zones tz)"
  shows "cache_ok (zones (lastTimezone st)) st \<Longrightarrow> \<forall>ds. DateRows ds \<in> set es \<longrightarrow> (\<forall>d\<in>set ds. civil_ok d) \<Longrightarrow>
    date_run zones es tz st = date_spec zones es tz"
proof (induction es arbitrary: tz st)
  case (Cons e es)
  show ?case
  proof (cases e)
    case (AssignTZ tz')
    then show ?thesis
      using Cons.IH [OF Cons.prems(1), of tz'] Cons.prems(2) by simp
  next
    case (DateRows ds)
    note check = cache_ok_check [where zones = zones, OF Cons.prems(1), of tz]
    obtain st' where st': "local_dates (zones tz) ds (checkTimezone tz st) = (map (construct (zones tz)) ds, st')"
      "cache_ok (zones tz) st'" "lastTimezone st' = tz"
      using local_dates_ok [OF assms check(1)] check(2) Cons.prems(2) by (auto simp: DateRows)
    have "cache_ok (zones (lastTimezone st')) st'"
      using st' by simp
    from Cons.IH [OF this] show ?thesis
      using st'(1) Cons.prems(2) by (simp add: DateRows)
  qed
qed simp

definition fresh_dates :: "jstring option \<Rightarrow> date_state" where
  "fresh_dates tz = \<lparr>hourOffsets = [], lastTimezone = tz\<rparr>"

text \<open>
  Claim C30. Dates built through the cache of hour offsets are the dates the constructor builds, for
  every sequence of result sets, however often the time zone of the process changes between them.
  A zone may change its offset at any time, only not twice within an hour so that the first, middle
  and last millisecond agree.
\<close>

theorem localDate_equals_constructor:
  assumes "\<And>tz. zone_ok (zones tz)" and "\<And>ds d. DateRows ds \<in> set es \<Longrightarrow> d \<in> set ds \<Longrightarrow> civil_ok d"
  shows "date_run zones es tz (fresh_dates tz) = date_spec zones es tz"
  by (rule date_run_ok [OF assms(1)]) (use assms(2) in \<open>auto simp: cache_ok_def fresh_dates_def\<close>)

text \<open>A zone of a fixed offset, cut off at the ends of the range of dates.\<close>

definition fixed_zone :: "int \<Rightarrow> zone" where
  "fixed_zone off t = TimeClip (t - off)"

lemma fixed_zone_ok: "zone_ok (fixed_zone off)"
  unfolding zone_ok_def
proof (intro conjI allI impI)
  fix t v
  assume "fixed_zone off t = Some v"
  then show "\<bar>v\<bar> \<le> 8640000000000000"
    by (auto simp: fixed_zone_def TimeClip_def split: if_splits)
next
  fix hour o' t
  assume first: "fixed_zone off (hour * MS_PER_HOUR) = Some (hour * MS_PER_HOUR - o')"
    and last: "fixed_zone off (hour * MS_PER_HOUR + 3599999) = Some (hour * MS_PER_HOUR + 3599999 - o')"
    and t: "t div MS_PER_HOUR = hour"
  have "hour * MS_PER_HOUR \<le> t" "t \<le> hour * MS_PER_HOUR + 3599999"
    using t by (auto simp: MS_PER_HOUR_def)
  then show "fixed_zone off t = Some (t - o')"
    using first last by (auto simp: fixed_zone_def TimeClip_def split: if_splits)
qed

theorem localDate_equals_constructor_witness:
  "date_run (\<lambda>tz. fixed_zone (if tz = None then 0 else 3600000))
      [DateRows [(2024, 2, 29, 1, 2, 3, 4), (2024, 2, 29, 1, 59, 0, 0)], AssignTZ (Some (js ''X'')),
       DateRows [(2024, 2, 29, 1, 2, 3, 4), (50, 1, 1, 0, 0, 0, 0)]] None (fresh_dates None) =
    [Some 1709168523004, Some 1709171940000, Some 1709164923004, Some (- 631155600000)]"
proof -
  let ?es = "[DateRows [(2024, 2, 29, 1, 2, 3, 4), (2024, 2, 29, 1, 59, 0, 0)], AssignTZ (Some (js ''X'')),
       DateRows [(2024, 2, 29, 1, 2, 3, 4), (50, 1, 1, 0, 0, 0, 0)]]"
  have "date_run (\<lambda>tz. fixed_zone (if tz = None then 0 else 3600000)) ?es None (fresh_dates None) =
      date_spec (\<lambda>tz. fixed_zone (if tz = None then 0 else 3600000)) ?es None"
    by (rule localDate_equals_constructor) (auto simp: fixed_zone_ok)
  then show ?thesis
    by (simp add: DateLocal_def fixed_zone_def TimeClip_def wall_time_def full_year_def MakeDate_def MakeDay_def
        MakeTime_def DayFromYear_def month_start_def leap_def MS_PER_DAY_def MS_PER_HOUR_def)
qed

end
