(* ===== verification/Values.thy ===== *)
theory Values
  imports WireFormat Packets ResultSet Dates
begin

text \<open>
  The value readers of \<open>src/lib/packets/packet.js\<close>: integers, floating point numbers, dates, times,
  geometries, vectors and JSON, as text or in binary form, and \<open>writeDate\<close>. Integers are exact,
  rounded to doubles where the code computes; other numbers are opaque, with the operations of the
  runtime collected in \<open>num_lib\<close>. A negative zero is taken for zero.
\<close>

section \<open>Values\<close>

datatype 'f js_num = Num int | Float 'f | NaN

datatype 'f geometry =
    Point "'f js_num" "'f js_num"
  | Points "('f js_num \<times> 'f js_num) list"
  | Rings "('f js_num \<times> 'f js_num) list list"
  | Shapes "'f geometry option list"

datatype ('f, 'j) js_value =
    JNull
  | JUndefined
  | JNum "'f js_num"
  | JText jstring
  | JBuffer bytes
  | JDate "int option"
  | JGeometry "'f geometry"
  | JVector "'f js_num list"
  | JJson 'j

text \<open>
  \<open>Number(s)\<close>, \<open>Number.parseFloat(s)\<close>, the division of two numbers, and the doubles in four and
  eight bytes, low byte first.
\<close>

record 'f num_lib =
  nl_Number :: "jstring \<Rightarrow> 'f js_num"
  nl_parseFloat :: "jstring \<Rightarrow> 'f js_num"
  nl_div :: "int \<Rightarrow> int \<Rightarrow> 'f js_num"
  nl_float :: "bytes \<Rightarrow> 'f js_num"
  nl_double :: "bytes \<Rightarrow> 'f js_num"

definition number_ok :: "'f num_lib \<Rightarrow> bool" where
  "number_ok N \<longleftrightarrow> (\<forall>v. nl_Number N (int_to_string v) = Num (js_round v))"

text \<open>
  Dates: the local time zone, the constructor applied to a text, and the local fields of a time
  value.
\<close>

record date_lib =
  dl_zone :: zone
  dl_parse :: "jstring \<Rightarrow> int option"
  dl_fields :: "int \<Rightarrow> civil"

text \<open>JSON: \<open>JSON.parse\<close>, the same with a reviver for numbers, and whether revivers see the source.\<close>

record ('f, 'j) json_lib =
  jl_parse :: "jstring \<Rightarrow> 'j result"
  jl_revive :: "('f js_num \<Rightarrow> jstring option \<Rightarrow> 'f js_num + jstring) \<Rightarrow> jstring \<Rightarrow> 'j result"
  jl_sources :: bool

section \<open>Integers as text\<close>

definition minus_char :: nat where "minus_char = 45"
definition plus_char :: nat where "plus_char = 43"
definition dot_char :: nat where "dot_char = 46"
definition colon_char :: nat where "colon_char = 58"

text \<open>The loop over the digits; a byte outside the buffer makes the number NaN.\<close>

fun parse_digits :: "bytes \<Rightarrow> nat \<Rightarrow> nat \<Rightarrow> int option \<Rightarrow> int option" where
  "parse_digits buf i 0 r = r"
| "parse_digits buf i (Suc n) r =
     parse_digits buf (i + 1) n
       (case (r, byte_at buf i) of
          (Some v, Some b) \<Rightarrow> Some (js_round (js_round (v * 10) + (int b - 48)))
        | _ \<Rightarrow> None)"

definition int_num :: "int option \<Rightarrow> 'f js_num" where
  "int_num v = (case v of None \<Rightarrow> NaN | Some n \<Rightarrow> Num n)"

text \<open>The sign in front of the digits: the factor and the offset behind it, which may be past the end.\<close>

definition skip_minus :: "packet \<Rightarrow> int \<times> nat" where
  "skip_minus p = (if byte_at (buffer p) (offset p) = Some minus_char then (- 1, offset p + 1) else (1, offset p))"

definition skip_plus :: "bytes \<Rightarrow> nat \<Rightarrow> nat" where
  "skip_plus buf i = (if byte_at buf i = Some plus_char then i + 1 else i)"

definition parseIntNoBigCheck :: "nat option \<Rightarrow> ('f, 'j) js_value rd" where
  "parseIntNoBigCheck len0 p =
     (case len0 of
        None \<Rightarrow> Inr (JNull, p)
      | Some len \<Rightarrow>
          if len = 0 then Inr (JNum (Num 0), p)
          else
            let en = offset p + len; (sign, o1) = skip_minus p; o2 = skip_plus (buffer p) o1 in
            Inr (JNum (int_num (map_option (\<lambda>r. r * sign) (parse_digits (buffer p) o2 (en - o2) (Some 0)))),
                 p\<lparr>offset := max o2 en\<rparr>))"

text \<open>The global \<open>parseInt\<close> with radix 10.\<close>

definition js_parseInt :: "jstring \<Rightarrow> int option" where
  "js_parseInt s =
     (let t = dropWhile js_space s;
          neg = (take 1 t = js ''-'');
          u = (if take 1 t = js ''-'' \<or> take 1 t = js ''+'' then drop 1 t else t);
          ds = takeWhile js_digit u
      in if ds = [] then None
         else Some ((if neg then - 1 else 1) * js_round (int (digits_value (map (\<lambda>d. unat d - 48) ds)))))"

text \<open>
  \<open>parseInt(len, supportBigNumbers)\<close>. With big numbers a text of 15 digits or more always leaves
  through the first branch, so the second one (more than 16 digits) is never reached.
\<close>

definition parseIntBig ::
    "codec \<Rightarrow> 'f num_lib \<Rightarrow> nat option \<Rightarrow> bool \<Rightarrow> ('f, 'j) js_value rd" where
  "parseIntBig c N len0 big p =
     (case len0 of
        None \<Rightarrow> Inr (JNull, p)
      | Some len \<Rightarrow>
          if 14 \<le> len \<and> \<not> big then
            Inr (JNum (nl_Number N (asciiSlice (slice (offset p) (offset p + len) (buffer p)))),
                 p\<lparr>offset := offset p + len\<rparr>)
          else if len = 0 then Inr (JNum (Num 0), p)
          else
            let st = offset p; en = offset p + len; (sign, o1) = skip_minus p in
            if big \<and> 15 \<le> en - o1 then
              (case readString c (Some (en - o1)) (Some ''binary'') (p\<lparr>offset := o1\<rparr>) of
                 Inl e \<Rightarrow> Inl e
               | Inr (str, q) \<Rightarrow>
                   (case js_parseInt str of
                      Some r \<Rightarrow>
                        if isSafeInteger (sign * r) then Inr (JNum (Num (sign * r)), q)
                        else Inr (JText ((if sign = - 1 then js ''-'' else []) @ str), q)
                    | None \<Rightarrow> Inr (JText ((if sign = - 1 then js ''-'' else []) @ str), q)))
            else
              let o2 = skip_plus (buffer p) o1;
                  num = map_option (\<lambda>r. r * sign) (parse_digits (buffer p) o2 (en - o2) (Some 0));
                  q = p\<lparr>offset := max o2 en\<rparr>
              in if \<not> big then Inr (JNum (int_num num), q)
                 else (case num of
                         Some v \<Rightarrow> if isSafeInteger v then Inr (JNum (Num v), q)
                                   else Inr (JText (asciiSlice (slice st en (buffer p))), q)
                       | None \<Rightarrow> Inr (JText (asciiSlice (slice st en (buffer p))), q)))"

definition parseLengthCodedIntNoBigCheck :: "long_lib \<Rightarrow> ('f, 'j) js_value rd" where
  "parseLengthCodedIntNoBigCheck L = rbind (readLength L) parseIntNoBigCheck"

definition parseLengthCodedInt :: "long_lib \<Rightarrow> codec \<Rightarrow> 'f num_lib \<Rightarrow> bool \<Rightarrow> ('f, 'j) js_value rd" where
  "parseLengthCodedInt L c N big = rbind (readLength L) (\<lambda>len. parseIntBig c N len big)"

definition text_or_null :: "jstring option \<Rightarrow> ('f, 'j) js_value" where
  "text_or_null s = (case s of None \<Rightarrow> JNull | Some t \<Rightarrow> JText t)"

definition readText :: "long_lib \<Rightarrow> codec \<Rightarrow> string option \<Rightarrow> ('f, 'j) js_value rd" where
  "readText L c enc = rbind (readLengthCodedString L c enc) (\<lambda>s. rret (text_or_null s))"

definition parseLengthCodedIntString :: "long_lib \<Rightarrow> codec \<Rightarrow> ('f, 'j) js_value rd" where
  "parseLengthCodedIntString L c = readText L c (Some ''binary'')"

section \<open>Floating point numbers\<close>

text \<open>
  The loop of \<open>parseFloat\<close>: result, factor and whether the dot was seen; \<open>None\<close> when an exponent
  sends the whole text to \<open>Number.parseFloat\<close>. The inner option is NaN.
\<close>

fun float_loop :: "bytes \<Rightarrow> nat \<Rightarrow> nat \<Rightarrow> int option \<Rightarrow> int \<Rightarrow> bool \<Rightarrow> (int option \<times> int) option" where
  "float_loop buf i 0 r factor dot = Some (r, factor)"
| "float_loop buf i (Suc n) r factor dot =
     (let b = byte_at buf i in
      if b = Some dot_char then float_loop buf (i + 1) n r factor True
      else if b = Some 101 \<or> b = Some 69 then None
      else float_loop buf (i + 1) n
             (case (r, b) of
                (Some v, Some d) \<Rightarrow> Some (js_round (js_round (v * 10) + (int d - 48)))
              | _ \<Rightarrow> None)
             (if dot then js_round (factor * 10) else factor) dot)"

definition parseFloat :: "codec \<Rightarrow> 'f num_lib \<Rightarrow> nat option \<Rightarrow> ('f, 'j) js_value rd" where
  "parseFloat c N len0 p =
     (case len0 of
        None \<Rightarrow> Inr (JNull, p)
      | Some len \<Rightarrow>
          if len = 0 then Inr (JNum (Num 0), p)
          else
            let en = offset p + len; whole = utf8Slice c (slice (offset p) en (buffer p)) in
            if 17 < len then Inr (JNum (nl_parseFloat N whole), p\<lparr>offset := en\<rparr>)
            else
              let (sign, o1) = skip_minus p; o2 = skip_plus (buffer p) o1 in
              (case float_loop (buffer p) o2 (en - o2) (Some 0) sign False of
                 None \<Rightarrow> Inr (JNum (nl_parseFloat N whole), p\<lparr>offset := en\<rparr>)
               | Some (Some r, factor) \<Rightarrow> Inr (JNum (nl_div N r factor), p\<lparr>offset := max o2 en\<rparr>)
               | Some (None, factor) \<Rightarrow> Inr (JNum NaN, p\<lparr>offset := max o2 en\<rparr>)))"

definition parseLengthCodedFloat :: "long_lib \<Rightarrow> codec \<Rightarrow> 'f num_lib \<Rightarrow> ('f, 'j) js_value rd" where
  "parseLengthCodedFloat L c N = rbind (readLength L) (parseFloat c N)"

text \<open>\<open>readFloatLE\<close> and \<open>readDoubleLE\<close> raise when the buffer has too few bytes.\<close>

definition read_bytes :: "nat \<Rightarrow> bytes rd" where
  "read_bytes n p =
     (if offset p + n \<le> length (buffer p)
      then Inr (slice (offset p) (offset p + n) (buffer p), p\<lparr>offset := offset p + n\<rparr>)
      else Inl RangeError)"

definition readFloat :: "'f num_lib \<Rightarrow> 'f js_num rd" where
  "readFloat N = rbind (read_bytes 4) (\<lambda>b. rret (nl_float N b))"

definition readDouble :: "'f num_lib \<Rightarrow> 'f js_num rd" where
  "readDouble N = rbind (read_bytes 8) (\<lambda>b. rret (nl_double N b))"

text \<open>The loop of \<open>parseVector\<close>; every round takes four bytes, so the length is enough fuel.\<close>

fun vector_loop :: "'f num_lib \<Rightarrow> nat \<Rightarrow> nat \<Rightarrow> 'f js_num list rd" where
  "vector_loop N 0 stop p = Inr ([], p)"
| "vector_loop N (Suc fuel) stop p =
     (if offset p < stop \<and> offset p < end_pos p
      then rbind (readFloat N) (\<lambda>x. rbind (vector_loop N fuel stop) (\<lambda>xs. rret (x # xs))) p
      else Inr ([], p))"

definition parseVector :: "long_lib \<Rightarrow> 'f num_lib \<Rightarrow> ('f, 'j) js_value rd" where
  "parseVector L N =
     rbind (readLength L) (\<lambda>len p.
       let n = (case len of None \<Rightarrow> 0 | Some k \<Rightarrow> k) in
       rbind (vector_loop N n (offset p + n)) (\<lambda>xs. rret (JVector xs)) p)"

section \<open>Dates and times\<close>

definition leftPad :: "nat \<Rightarrow> jstring \<Rightarrow> jstring" where
  "leftPad num s =
     (if num \<le> length s then s
      else let t = js ''000000000000'' @ s in drop (length t - num) t)"

text \<open>A number as text; \<open>toString\<close> of \<open>undefined\<close> raises.\<close>

definition num_text :: "int option \<Rightarrow> jstring" where
  "num_text v = (case v of None \<Rightarrow> js ''NaN'' | Some n \<Rightarrow> int_to_string n)"

definition pad_byte :: "nat \<Rightarrow> nat option \<Rightarrow> jstring result" where
  "pad_byte num b = (case b of None \<Rightarrow> Inl TypeError | Some v \<Rightarrow> Inr (leftPad num (int_to_string (int v))))"

definition ZERO_DATE :: jstring where
  "ZERO_DATE = js ''0000-00-00''"

definition local_zone :: "jstring option \<Rightarrow> bool" where
  "local_zone tz \<longleftrightarrow> tz = None \<or> tz = Some [] \<or> tz = Some (js ''local'')"

definition zone_text :: "jstring option \<Rightarrow> jstring" where
  "zone_text tz = (case tz of None \<Rightarrow> js ''undefined'' | Some t \<Rightarrow> t)"

text \<open>
  \<open>localDate(y, m, d, ...)\<close>, which is \<open>new Date(y, m - 1, d, ...)\<close>, and \<open>Date.UTC\<close>; a NaN among
  the arguments makes the date invalid.
\<close>

definition local_date :: "date_lib \<Rightarrow> civil option \<Rightarrow> int option" where
  "local_date D f = (case f of None \<Rightarrow> None | Some c \<Rightarrow> construct (dl_zone D) c)"

fun utc_date :: "civil option \<Rightarrow> int option" where
  "utc_date None = None"
| "utc_date (Some (y, m, d, h, mi, s, ms)) = DateUTC y (m - 1) d h mi s ms"

text \<open>Three bytes that are present or missing.\<close>

definition read3 :: "(nat option \<times> nat option \<times> nat option) rd" where
  "read3 = rbind readInt8 (\<lambda>a. rbind readInt8 (\<lambda>b. rbind readInt8 (\<lambda>c. rret (a, b, c))))"

definition readDate :: "(nat \<times> nat option \<times> nat option) rd" where
  "readDate = rbind readInt16 (\<lambda>y. rbind readInt8 (\<lambda>m. rbind readInt8 (\<lambda>d. rret (y, m, d))))"

definition when_longer :: "nat option \<Rightarrow> nat \<Rightarrow> 'a \<Rightarrow> 'a rd \<Rightarrow> 'a rd" where
  "when_longer len n x r = (if (case len of None \<Rightarrow> False | Some l \<Rightarrow> n < l) then r else rret x)"

definition readDateTimeString :: "nat option \<Rightarrow> jstring option \<Rightarrow> nat option \<Rightarrow> jstring rd" where
  "readDateTimeString decimals timeSep columnType =
     rbind readInt8 (\<lambda>len.
     rbind (when_longer len 3 (Inr ZERO_DATE) (rbind readDate (\<lambda>(y, m, d). rret
        (case (pad_byte 2 m, pad_byte 2 d) of
           (Inr m2, Inr d2) \<Rightarrow> Inr (leftPad 4 (int_to_string (int y)) @ js ''-'' @ m2 @ js ''-'' @ d2)
         | _ \<Rightarrow> Inl TypeError)))) (\<lambda>r1.
     case r1 of Inl e \<Rightarrow> (\<lambda>_. Inl e) | Inr s1 \<Rightarrow>
     rbind (if (case len of None \<Rightarrow> False | Some l \<Rightarrow> 6 < l) then rbind read3 (\<lambda>(h, mi, s). rret
          (case (pad_byte 2 h, pad_byte 2 mi, pad_byte 2 s) of
             (Inr h2, Inr mi2, Inr s2) \<Rightarrow>
               Inr (s1 @ (case timeSep of None \<Rightarrow> js '' '' | Some [] \<Rightarrow> js '' '' | Some t \<Rightarrow> t) @
                 h2 @ js '':'' @ mi2 @ js '':'' @ s2)
           | _ \<Rightarrow> Inl TypeError))
        else if columnType = Some (code_of Types ''DATETIME'') \<or> columnType = Some (code_of Types ''TIMESTAMP'')
        then rret (Inr (s1 @ js '' 00:00:00''))
        else rret (Inr s1)) (\<lambda>r2.
     case r2 of Inl e \<Rightarrow> (\<lambda>_. Inl e) | Inr s2 \<Rightarrow>
     when_longer len 10 s2 (rbind readInt32 (\<lambda>us. rret
        (s2 @ js ''.'' @
         (case decimals of
            None \<Rightarrow> int_to_string (int us)
          | Some k \<Rightarrow>
              if k = 0 then int_to_string (int us)
              else let t = leftPad 6 (int_to_string (int us)) in if k < length t then take k t else t)))))))"

text \<open>
  \<open>readDateTime(timezone)\<close>. The milliseconds are a fraction of which dates keep the whole part; the
  test for an all-zero date sees the fraction as well.
\<close>

definition date_fields ::
    "nat \<times> nat option \<times> nat option \<Rightarrow> nat option \<times> nat option \<times> nat option \<Rightarrow> nat \<Rightarrow> civil option" where
  "date_fields = (\<lambda>(y, m, d) (h, mi, s) us.
     case (m, d, h, mi, s) of
       (Some m', Some d', Some h', Some mi', Some s') \<Rightarrow>
         Some (int y, int m', int d', int h', int mi', int s', int (us div 1000))
     | _ \<Rightarrow> None)"

definition readDateTime :: "date_lib \<Rightarrow> jstring option \<Rightarrow> ('f, 'j) js_value rd" where
  "readDateTime D tz =
     (if local_zone tz \<or> tz = Some (js ''Z'') then
        rbind readInt8 (\<lambda>len.
        if len = Some 251 then rret JNull
        else
          rbind (when_longer len 3 (0, Some 0, Some 0) readDate) (\<lambda>date.
          rbind (when_longer len 6 (Some 0, Some 0, Some 0) read3) (\<lambda>time.
          rbind (when_longer len 10 0 readInt32) (\<lambda>us.
            let f = date_fields date time us in
            if f = Some (0, 0, 0, 0, 0, 0, 0) \<and> us = 0 then rret (JDate None)
            else if tz = Some (js ''Z'') then rret (JDate (utc_date f))
            else rret (JDate (local_date D f))))))
      else
        rbind (readDateTimeString (Some 6) (Some (js ''T'')) None) (\<lambda>str. rret
          (if take 10 str = ZERO_DATE then JDate None
           else JDate (dl_parse D ((if length str = 10 then str @ js ''T00:00:00'' else str) @ zone_text tz)))))"

text \<open>\<open>replace(/0+$/, '')\<close>\<close>

definition strip_zeros :: "jstring \<Rightarrow> jstring" where
  "strip_zeros s = rev (dropWhile (\<lambda>ch. ch = of_char (CHR ''0'')) (rev s))"

definition readTimeString :: "bool \<Rightarrow> ('f, 'j) js_value rd" where
  "readTimeString convertTtoMs =
     rbind readInt8 (\<lambda>len.
     if len = Some 0 then rret (JText (js ''00:00:00''))
     else
       rbind readInt8 (\<lambda>sb.
       let sign = (case sb of None \<Rightarrow> 1 | Some b \<Rightarrow> if b = 0 then 1 else - (1 :: int)) in
       rbind (when_longer len 6 (0, Some 0, Some 0, Some 0)
         (rbind readInt32 (\<lambda>d. rbind read3 (\<lambda>t. rret (d, t))))) (\<lambda>(d, h, mi, s).
       rbind (when_longer len 10 0 readInt32) (\<lambda>us.
       case (h, mi, s) of
         (Some h', Some mi', Some s') \<Rightarrow>
           if convertTtoMs then
             let hh = int h' + int d * 24; mm = int mi' + hh * 60; ss = int s' + mm * 60 in
             rret (JNum (Num ((int us + ss * 1000) * sign)))
           else
             rret (JText ((if sign = - 1 then js ''-'' else []) @
               leftPad 2 (int_to_string (int d * 24 + int h')) @ js '':'' @
               leftPad 2 (int_to_string (int mi')) @ js '':'' @ leftPad 2 (int_to_string (int s')) @
               (if us = 0 then [] else strip_zeros (js ''.'' @ leftPad 6 (int_to_string (int us))))))
       | _ \<Rightarrow> if convertTtoMs then rret (JNum NaN) else (\<lambda>_. Inl TypeError)))))"

text \<open>
  \<open>timezoneOffsetMinutes\<close>: minutes of a \<open>+HH:MM\<close>, \<open>None\<close> for anything else, and the last value asked
  for with its result.
\<close>

definition two_digits :: "16 word \<Rightarrow> 16 word \<Rightarrow> int" where
  "two_digits a b = int (unat a - 48) * 10 + int (unat b - 48)"

definition zone_minutes :: "jstring \<Rightarrow> int option" where
  "zone_minutes tz =
     (case tz of
        [sg, a, b, col, c, d] \<Rightarrow>
          if (sg = of_char (CHR ''+'') \<or> sg = of_char (CHR ''-'')) \<and> js_digit a \<and> js_digit b \<and>
             col = of_char (CHR '':'') \<and> js_digit c \<and> js_digit d
          then Some ((if sg = of_char (CHR ''-'') then - 1 else 1) * (two_digits a b * 60 + two_digits c d))
          else None
      | _ \<Rightarrow> None)"

record zone_memo =
  memo_timezone :: "jstring option"
  memo_offset :: "int option"

definition timezoneOffsetMinutes :: "jstring \<Rightarrow> zone_memo \<Rightarrow> int option \<times> zone_memo" where
  "timezoneOffsetMinutes tz s =
     (if Some tz = memo_timezone s then (memo_offset s, s)
      else (zone_minutes tz, s\<lparr>memo_timezone := Some tz, memo_offset := zone_minutes tz\<rparr>))"

definition memo_ok :: "zone_memo \<Rightarrow> bool" where
  "memo_ok s \<longleftrightarrow> (\<forall>tz. memo_timezone s = Some tz \<longrightarrow> memo_offset s = zone_minutes tz)"

lemma timezoneOffsetMinutes_memo:
  "memo_ok s \<Longrightarrow> fst (timezoneOffsetMinutes tz s) = zone_minutes tz \<and> memo_ok (snd (timezoneOffsetMinutes tz s))"
  by (auto simp: timezoneOffsetMinutes_def memo_ok_def)

definition num_value :: "('f, 'j) js_value \<Rightarrow> int option" where
  "num_value v = (case v of JNum (Num n) \<Rightarrow> Some n | _ \<Rightarrow> None)"

definition parseDate ::
    "long_lib \<Rightarrow> codec \<Rightarrow> 'f num_lib \<Rightarrow> date_lib \<Rightarrow> jstring option \<Rightarrow> ('f, 'j) js_value rd" where
  "parseDate L c N D tz =
     rbind (readLength L) (\<lambda>strLen.
     if strLen = None then rret JNull
     else if strLen \<noteq> Some 10 then rret (JDate None)
     else
       rbind (parseIntBig c N (Some 4) False) (\<lambda>y :: ('f, 'j) js_value. rbind (rskip 1) (\<lambda>_.
       rbind (parseIntBig c N (Some 2) False) (\<lambda>m :: ('f, 'j) js_value. rbind (rskip 1) (\<lambda>_.
       rbind (parseIntBig c N (Some 2) False) (\<lambda>d :: ('f, 'j) js_value. rret
         (let f = (case (num_value y, num_value m, num_value d) of
                (Some y', Some m', Some d') \<Rightarrow> Some (y', m', d', 0, 0, 0, 0)
              | _ \<Rightarrow> None)
          in if local_zone tz then JDate (local_date D f)
             else if tz = Some (js ''Z'') then JDate (utc_date f)
             else JDate (dl_parse D (leftPad 4 (num_text (num_value y)) @ js ''-'' @
               leftPad 2 (num_text (num_value m)) @ js ''-'' @ leftPad 2 (num_text (num_value d)) @
               js ''T00:00:00'' @ zone_text tz)))))))))"

text \<open>
  The fast path of \<open>parseDateTime\<close>: the digits of a date and time, \<open>None\<close> where the buffer ends. The
  fraction takes the first three digits.
\<close>

definition digit_at :: "bytes \<Rightarrow> nat \<Rightarrow> int option" where
  "digit_at b i = map_option (\<lambda>v. int v - 48) (byte_at b i)"

fun number_at :: "bytes \<Rightarrow> nat \<Rightarrow> nat \<Rightarrow> int option" where
  "number_at b i 0 = Some 0"
| "number_at b i (Suc n) =
     (case (number_at b i n, digit_at b (i + n)) of
        (Some v, Some d) \<Rightarrow> Some (v * 10 + d)
      | _ \<Rightarrow> None)"

fun fraction_loop :: "bytes \<Rightarrow> nat \<Rightarrow> nat \<Rightarrow> int list \<Rightarrow> int option \<Rightarrow> int option" where
  "fraction_loop b i stop [] ms = ms"
| "fraction_loop b i stop (scale # rest) ms =
     (if i < stop
      then fraction_loop b (i + 1) stop rest
        (case (ms, digit_at b i) of (Some v, Some d) \<Rightarrow> Some (v + d * scale) | _ \<Rightarrow> None)
      else ms)"

definition datetime_form :: "bytes \<Rightarrow> nat \<Rightarrow> nat \<Rightarrow> bool" where
  "datetime_form b s len \<longleftrightarrow>
     19 \<le> len \<and> byte_at b (s + 4) = Some minus_char \<and> byte_at b (s + 7) = Some minus_char \<and>
     byte_at b (s + 13) = Some colon_char \<and> byte_at b (s + 16) = Some colon_char"

definition datetime_text ::
    "codec \<Rightarrow> date_lib \<Rightarrow> jstring option \<Rightarrow> nat \<Rightarrow> ('f, 'j) js_value rd" where
  "datetime_text c D tz len p =
     (case decode c (buffer p) (Some ''binary'') (offset p) (offset p + len) of
        Inl e \<Rightarrow> Inl e
      | Inr str \<Rightarrow> Inr (JDate (dl_parse D (if local_zone tz then str else str @ zone_text tz)),
                     p\<lparr>offset := offset p + len\<rparr>))"

definition parseDateTime :: "long_lib \<Rightarrow> codec \<Rightarrow> date_lib \<Rightarrow> jstring option \<Rightarrow> ('f, 'j) js_value rd" where
  "parseDateTime L c D tz =
     rbind (readLength L) (\<lambda>len0 p.
     case len0 of
       None \<Rightarrow> Inr (JNull, p)
     | Some len \<Rightarrow>
         let b = buffer p; s = offset p; p' = p\<lparr>offset := s + len\<rparr> in
         if \<not> datetime_form b s len then datetime_text c D tz len p
         else
           let y = number_at b s 4; mo = number_at b (s + 5) 2; d = number_at b (s + 8) 2 in
           if mo = Some 0 \<or> d = Some 0 \<or> (\<exists>v \<in> set_option mo. 12 < v) \<or> (\<exists>v \<in> set_option d. 31 < v)
           then Inr (JDate None, p')
           else if (\<exists>v \<in> set_option y. v < 100) then datetime_text c D tz len p
           else
             let h = number_at b (s + 11) 2; mi = number_at b (s + 14) 2; se = number_at b (s + 17) 2;
                 ms = (if 20 < len then fraction_loop b (s + 20) (s + len) [100, 10, 1] (Some 0) else Some 0);
                 f = (case (y, mo, d, h, mi, se, ms) of
                        (Some y', Some mo', Some d', Some h', Some mi', Some se', Some ms') \<Rightarrow>
                          Some (y', mo', d', h', mi', se', ms')
                      | _ \<Rightarrow> None)
             in if local_zone tz then Inr (JDate (local_date D f), p')
                else if tz = Some (js ''Z'') then Inr (JDate (utc_date f), p')
                else case zone_minutes (zone_text tz) of
                       Some off \<Rightarrow>
                         Inr (JDate (Option.bind (utc_date f) (\<lambda>utc. TimeClip (utc - off * 60000))), p')
                     | None \<Rightarrow> datetime_text c D tz len p)"

section \<open>JSON\<close>

definition big_numeral :: "jstring \<Rightarrow> bool" where
  "big_numeral s \<longleftrightarrow> (\<exists>i < length s. i + 16 \<le> length s \<and> (\<forall>ch \<in> set (take 16 (drop i s)). js_digit ch))"

definition integer_source :: "jstring \<Rightarrow> bool" where
  "integer_source s =
     (let ds = (if take 1 s = js ''-'' then drop 1 s else s) in ds \<noteq> [] \<and> (\<forall>ch \<in> set ds. js_digit ch))"

definition safe_number :: "'f js_num \<Rightarrow> bool" where
  "safe_number v = (case v of Num n \<Rightarrow> isSafeInteger n | _ \<Rightarrow> False)"

text \<open>\<open>jsonBigNumberReviver\<close> on a number and the source the context has for it.\<close>

definition jsonBigNumberReviver :: "'f js_num \<Rightarrow> jstring option \<Rightarrow> 'f js_num + jstring" where
  "jsonBigNumberReviver v source =
     (case source of
        Some t \<Rightarrow> if \<not> safe_number v \<and> integer_source t then Inr t else Inl v
      | None \<Rightarrow> Inl v)"

text \<open>\<open>JSON.parse(null)\<close> parses the text \<open>null\<close>.\<close>

definition parseJson ::
    "long_lib \<Rightarrow> codec \<Rightarrow> ('f, 'j) json_lib \<Rightarrow> string option \<Rightarrow> bool \<Rightarrow> ('f, 'j) js_value rd" where
  "parseJson L c J enc big =
     rbind (readLengthCodedString L c enc) (\<lambda>str p.
       case (case str of
               None \<Rightarrow> jl_parse J (js ''null'')
             | Some s \<Rightarrow>
                 if big \<and> jl_sources J \<and> big_numeral s then jl_revive J jsonBigNumberReviver s
                 else jl_parse J s) of
         Inl e \<Rightarrow> Inl e
       | Inr v \<Rightarrow> Inr (JJson v, p))"

section \<open>Geometries\<close>

text \<open>
  \<open>parseGeometryValue\<close>: the first four bytes (the SRID) are skipped, the rest is read at an offset of
  its own. Every read is guarded by the length of the buffer, so none raises.
\<close>

definition wkb_int :: "bool \<Rightarrow> bytes \<Rightarrow> nat \<Rightarrow> nat" where
  "wkb_int le buf off = (let b = slice off (off + 4) buf in le_val (if le then b else rev b))"

definition wkb_double :: "'f num_lib \<Rightarrow> bool \<Rightarrow> bytes \<Rightarrow> nat \<Rightarrow> 'f js_num" where
  "wkb_double N le buf off = (let b = slice off (off + 8) buf in nl_double N (if le then b else rev b))"

fun wkb_points :: "'f num_lib \<Rightarrow> bool \<Rightarrow> bytes \<Rightarrow> nat \<Rightarrow> nat \<Rightarrow> ('f js_num \<times> 'f js_num) list \<times> nat" where
  "wkb_points N le buf 0 off = ([], off)"
| "wkb_points N le buf (Suc n) off =
     (if length buf < off + 16 then ([], off)
      else let (ps, off') = wkb_points N le buf n (off + 16) in
        ((wkb_double N le buf off, wkb_double N le buf (off + 8)) # ps, off'))"

fun wkb_rings :: "'f num_lib \<Rightarrow> bool \<Rightarrow> bytes \<Rightarrow> nat \<Rightarrow> nat \<Rightarrow> ('f js_num \<times> 'f js_num) list list \<times> nat" where
  "wkb_rings N le buf 0 off = ([], off)"
| "wkb_rings N le buf (Suc n) off =
     (if length buf < off + 4 then ([], off)
      else let (ps, off1) = wkb_points N le buf (wkb_int le buf off) (off + 4);
               (rs, off2) = wkb_rings N le buf n off1
           in (ps # rs, off2))"

primrec read_times :: "nat \<Rightarrow> (nat \<Rightarrow> 'a \<times> nat) \<Rightarrow> nat \<Rightarrow> 'a list \<times> nat" where
  "read_times 0 r off = ([], off)"
| "read_times (Suc n) r off =
     (let (x, off1) = r off; (xs, off2) = read_times n r off1 in (x # xs, off2))"

text \<open>
  The recursion of \<open>parseGeometry\<close>: a nested geometry starts at least nine bytes behind its parent, so
  the length of the buffer is enough fuel.
\<close>

primrec parseGeometry :: "nat \<Rightarrow> 'f num_lib \<Rightarrow> bytes \<Rightarrow> nat \<Rightarrow> 'f geometry option \<times> nat" where
  "parseGeometry 0 N buf off = (None, off)"
| "parseGeometry (Suc fuel) N buf off =
     (if length buf < off + 5 then (None, off)
      else
        let le = byte_at buf off \<noteq> Some 0; wkbType = wkb_int le buf (off + 1); off1 = off + 5;
            num = wkb_int le buf off1; left = int (length buf) - int (off1 + 4) in
        if wkbType = 1 then
          (if length buf < off1 + 16 then (None, off1)
           else (Some (Point (wkb_double N le buf off1) (wkb_double N le buf (off1 + 8))), off1 + 16))
        else if wkbType \<in> {2, 3, 4, 5, 6, 7} then
          (if length buf < off1 + 4 then (None, off1)
           else if wkbType = 2 then
             (if left < int num * 16 then (None, off1 + 4)
              else let (ps, off2) = wkb_points N le buf num (off1 + 4) in (Some (Points ps), off2))
           else if wkbType = 3 then
             (if left < int num * 4 then (None, off1 + 4)
              else let (rs, off2) = wkb_rings N le buf num (off1 + 4) in (Some (Rings rs), off2))
           else if left < int num * 9 then (None, off1 + 4)
           else let (gs, off2) = read_times num (parseGeometry fuel N buf) (off1 + 4) in
             (Some (Shapes gs), off2))
        else (None, off1))"

declare parseGeometry.simps(2) [simp del]

definition parseGeometryValue :: "long_lib \<Rightarrow> 'f num_lib \<Rightarrow> ('f, 'j) js_value rd" where
  "parseGeometryValue L N =
     rbind (readLengthCodedBuffer L) (\<lambda>b. rret
       (case b of
          None \<Rightarrow> JNull
        | Some buf \<Rightarrow>
            if buf = [] then JNull
            else case fst (parseGeometry (length buf) N buf 4) of
                   None \<Rightarrow> JNull
                 | Some g \<Rightarrow> JGeometry g))"

section \<open>Writing dates\<close>

text \<open>The UTC fields of a time value; the month is the last one that starts on or before the day.\<close>

definition month_of :: "bool \<Rightarrow> int \<Rightarrow> int" where
  "month_of l n = int (length (filter (\<lambda>m. month_start l m \<le> n) [1, 2, 3, 4, 5, 6, 7, 8, 9, 10, 11]))"

definition utc_fields :: "int \<Rightarrow> civil" where
  "utc_fields t =
     (let day = t div MS_PER_DAY; ms = t mod MS_PER_DAY; y = year_of_day day;
          n = day - DayFromYear y;
          m = month_of (leap y) n
      in (y, m + 1, n - month_start (leap y) m + 1, ms div MS_PER_HOUR, ms div 60000 mod 60,
          ms div 1000 mod 60, ms mod 1000))"

text \<open>The offset of the time zone text: \<open>parseInt\<close> of its parts, \<open>None\<close> for NaN.\<close>

definition write_offset :: "jstring \<Rightarrow> int option" where
  "write_offset tz =
     (case (js_parseInt (take 2 (drop 1 tz)), js_parseInt (drop 4 tz)) of
        (Some h, Some m) \<Rightarrow> Some ((if take 1 tz = js ''-'' then - 1 else 1) * (h * 60 + m))
      | _ \<Rightarrow> None)"

text \<open>\<open>writeDate\<close>; a NaN is written as 0.\<close>

definition date_writes :: "civil option \<Rightarrow> wr list" where
  "date_writes f =
     (case f of
        None \<Rightarrow> [writeInt8 11, writeInt16 0, writeInt8 0, writeInt8 0, writeInt8 0, writeInt8 0, writeInt8 0, writeInt32 0]
      | Some (y, m, d, h, mi, s, ms) \<Rightarrow>
          [writeInt8 11, writeInt16 y, writeInt8 m, writeInt8 d, writeInt8 h, writeInt8 mi, writeInt8 s,
           writeInt32 (ms * 1000)])"

definition writeDate :: "date_lib \<Rightarrow> int option \<Rightarrow> jstring option \<Rightarrow> wr" where
  "writeDate D d tz =
     writes (date_writes
       (if local_zone tz then map_option (dl_fields D) d
        else if tz = Some (js ''Z'') then map_option utc_fields d
        else map_option utc_fields
          (case write_offset (zone_text tz) of
             None \<Rightarrow> None
           | Some off \<Rightarrow> if off = 0 then d else Option.bind d (\<lambda>t. TimeClip (t + 60000 * off)))))"

section \<open>Integer columns are exact\<close>

text \<open>The text MySQL sends for an integer.\<close>

definition digit_bytes :: "nat list \<Rightarrow> bytes" where
  "digit_bytes ds = map (\<lambda>d. word_of_nat (48 + d)) ds"

definition decimal :: "int \<Rightarrow> bytes" where
  "decimal v = (if v < 0 then [45] else []) @ digit_bytes (digits_of (nat \<bar>v\<bar>))"

lemma foldl_digits_ge: "a \<le> foldl (\<lambda>acc d. 10 * acc + d) a ds" for a :: nat
proof (induction ds arbitrary: a)
  case (Cons d ds)
  have "a \<le> 10 * a + d" by simp
  also have "\<dots> \<le> foldl (\<lambda>acc d. 10 * acc + d) (10 * a + d) ds" by (rule Cons.IH)
  finally show ?case by simp
qed simp

lemma parse_digits_ok:
  "(\<forall>k < length ds. byte_at buf (i + k) = Some (48 + ds ! k)) \<Longrightarrow> foldl (\<lambda>acc d. 10 * acc + d) a ds < 2 ^ 53 \<Longrightarrow>
   parse_digits buf i (length ds) (Some (int a)) = Some (int (foldl (\<lambda>acc d. 10 * acc + d) a ds))"
proof (induction ds arbitrary: i a)
  case (Cons d ds)
  have here: "byte_at buf i = Some (48 + d)"
    using Cons.prems(1) by (auto dest: spec [of _ 0])
  have rest: "\<forall>k < length ds. byte_at buf (i + 1 + k) = Some (48 + ds ! k)"
    using Cons.prems(1) by (auto dest: spec [of _ "Suc _"])
  have small: "10 * a + d < 2 ^ 53"
    using Cons.prems(2) foldl_digits_ge [of "10 * a + d" ds] by simp
  then have "js_round (js_round (int a * 10) + (int (48 + d) - 48)) = int (10 * a + d)"
    by (simp add: js_round_id)
  then show ?case
    using Cons.IH [OF rest, of "10 * a + d"] Cons.prems(2) here by simp
qed simp

lemma digit_cases:
  fixes d :: nat
  assumes "d < 10"
  shows "d = 0 \<or> d = 1 \<or> d = 2 \<or> d = 3 \<or> d = 4 \<or> d = 5 \<or> d = 6 \<or> d = 7 \<or> d = 8 \<or> d = 9"
  using assms by presburger

lemma digit_byte: "d < 10 \<Longrightarrow> unat (word_of_nat (48 + d) :: byte) = 48 + d"
  by (drule digit_cases) (elim disjE; simp)

lemma digit_units:
  assumes "d < 10"
  shows "unat (word_of_nat (48 + d) :: 16 word) = 48 + d"
    "(word_of_nat (unat (word_of_nat (48 + d) :: byte) mod 128) :: 16 word) = word_of_nat (48 + d)"
    "(word_of_nat (unat (word_of_nat (48 + d) :: byte)) :: 16 word) = word_of_nat (48 + d)"
    "js_digit (word_of_nat (48 + d))" "\<not> js_space (word_of_nat (48 + d))"
    "(word_of_nat (48 + d) :: 16 word) \<noteq> of_char CHR ''-''" "(word_of_nat (48 + d) :: 16 word) \<noteq> of_char CHR ''+''"
  using digit_cases [OF assms] by (elim disjE; simp add: js_digit_def js_space_def)+

lemma byte_at_digits:
  assumes "buf = pre @ digit_bytes ds @ post" "\<forall>d\<in>set ds. d < 10" "k < length ds"
  shows "byte_at buf (length pre + k) = Some (48 + ds ! k)"
  using assms digit_byte [of "ds ! k"] by (simp add: byte_at_def digit_bytes_def nth_append)

lemma digits_below: "\<forall>d\<in>set (digits_of n). d < 10"
  using digits_of_less by blast

lemma parse_digits_of:
  assumes "buf = pre @ digit_bytes (digits_of n) @ post" and "n < 2 ^ 53"
  shows "parse_digits buf (length pre) (length (digits_of n)) (Some 0) = Some (int n)"
  using parse_digits_ok [of "digits_of n" buf "length pre" 0] byte_at_digits [OF assms(1) digits_below] assms(2)
    digits_value_digits_of [of n]
  by (simp add: digits_value_def)

lemma first_digit: "byte_at (pre @ digit_bytes (digits_of n) @ post) (length pre) = Some (48 + digits_of n ! 0)"
  "digits_of n ! 0 < 10"
proof -
  show "digits_of n ! 0 < 10"
    using digits_below [of n] digits_of_nonempty [of n] by (simp add: nth_mem)
  show "byte_at (pre @ digit_bytes (digits_of n) @ post) (length pre) = Some (48 + digits_of n ! 0)"
    using byte_at_digits [OF refl digits_below, of 0 n pre post] digits_of_nonempty [of n] by simp
qed

lemma length_digit_bytes [simp]: "length (digit_bytes ds) = length ds"
  by (simp add: digit_bytes_def)

lemma slice_decimal: "asciiSlice (decimal v) = int_to_string v" "latin1Slice (digit_bytes (digits_of n)) = int_to_string (int n)"
proof -
  have ascii: "asciiSlice (digit_bytes ds) = map (\<lambda>d. word_of_nat (48 + d)) ds" if "\<forall>d\<in>set ds. d < 10" for ds
    using that unfolding asciiSlice_def digit_bytes_def map_map o_def
    by (intro map_cong refl digit_units(2)) blast
  have latin1: "latin1Slice (digit_bytes ds) = map (\<lambda>d. word_of_nat (48 + d)) ds" if "\<forall>d\<in>set ds. d < 10" for ds
    using that unfolding latin1Slice_def digit_bytes_def map_map o_def
    by (intro map_cong refl digit_units(3)) blast
  show "latin1Slice (digit_bytes (digits_of n)) = int_to_string (int n)"
    unfolding latin1 [OF digits_below] by (simp add: int_to_string_def)
  have "asciiSlice (decimal v) = asciiSlice (if v < 0 then [45] else []) @ asciiSlice (digit_bytes (digits_of (nat \<bar>v\<bar>)))"
    by (simp add: decimal_def asciiSlice_def)
  then show "asciiSlice (decimal v) = int_to_string v"
    unfolding ascii [OF digits_below] by (simp add: int_to_string_def asciiSlice_def js_def)
qed

lemma js_parseInt_digits: "js_parseInt (int_to_string (int n)) = Some (js_round (int n))"
proof -
  let ?ds = "digits_of n"
  let ?s = "map (\<lambda>d. word_of_nat (48 + d) :: 16 word) ?ds"
  obtain d ds where ds: "?ds = d # ds"
    using digits_of_nonempty by (cases ?ds) auto
  have "d < 10"
    using digits_below [of n] ds by simp
  note first = digit_units [OF this]
  have "dropWhile js_space ?s = ?s"
    unfolding ds list.map dropWhile.simps using first(5) by (simp only: if_False)
  moreover have "take 1 ?s \<noteq> js ''-''" "take 1 ?s \<noteq> js ''+''"
    using first(6,7) unfolding ds list.map js_def by (simp_all del: of_nat_add)
  moreover have "takeWhile js_digit ?s = ?s"
    using digits_below digit_units(4) by (auto simp: takeWhile_eq_all_conv simp del: of_nat_add)
  moreover have "map (\<lambda>d. unat d - 48) ?s = ?ds"
    unfolding map_map o_def
    by (rule map_idI) (use digits_below [of n] digit_units(1) in \<open>auto simp del: of_nat_add\<close>)
  moreover have "?s \<noteq> []"
    by (simp add: digits_of_nonempty)
  moreover have "int_to_string (int n) = ?s"
    by (simp add: int_to_string_def)
  ultimately show ?thesis
    by (simp only: js_parseInt_def Let_def if_False simp_thms digits_value_digits_of mult_1)
qed

lemma reads_latin1: "reads (readString c (Some (length bs)) (Some ''binary'')) bs (latin1Slice bs)"
proof (rule reads_window)
  fix pre post
  have "decode c bs (Some ''binary'') 0 (length bs) = Inr (latin1Slice bs)"
    by (cases bs) (simp_all add: decode_def latin1Slice_def Let_def slice_def)
  then show "decode c (pre @ bs @ post) (Some ''binary'') (length pre) (length pre + length bs) =
      Inr (latin1Slice bs)"
    by (simp add: decode_window)
qed

lemma digits_bound: "n < 10 ^ length (digits_of n)"
proof (induction n rule: digits_of.induct)
  case (1 n)
  show ?case
  proof (cases "n < 10")
    case False
    then have "n div 10 < 10 ^ length (digits_of (n div 10))" by (rule 1)
    then have "n < 10 ^ length (digits_of (n div 10)) * 10" by (simp add: div_less_iff_less_mult)
    with False show ?thesis by (simp add: digits_of.simps [of n] mult.commute)
  qed (simp add: digits_of.simps)
qed

text \<open>What the sign and the first digit look like to the reader.\<close>

lemma decimal_layout:
  fixes v :: int
  defines "ds \<equiv> digits_of (nat \<bar>v\<bar>)" and "k \<equiv> (if v < 0 then 1 else 0 :: nat)"
  assumes p: "buffer p = pre @ decimal v @ post" "offset p = length pre"
  shows "skip_minus p = (if v < 0 then - 1 else 1, length pre + k)"
    and "skip_plus (buffer p) (length pre + k) = length pre + k"
    and "parse_digits (buffer p) (length pre + k) (length ds) (Some 0) =
         (if \<bar>v\<bar> < 2 ^ 53 then Some \<bar>v\<bar> else parse_digits (buffer p) (length pre + k) (length ds) (Some 0))"
    and "length (decimal v) = k + length ds"
proof -
  have buf: "buffer p = (pre @ (if v < 0 then [45] else [])) @ digit_bytes ds @ post"
    using p(1) by (simp add: decimal_def ds_def)
  have k: "length (pre @ (if v < 0 then [45] else [])) = length pre + k"
    by (simp add: k_def)
  have d0: "byte_at (buffer p) (length pre + k) = Some (48 + ds ! 0)" "ds ! 0 < 10"
    using first_digit(1) [of "pre @ (if v < 0 then [45] else [])" "nat \<bar>v\<bar>" post]
      first_digit(2) [of "nat \<bar>v\<bar>"]
    by (simp_all only: buf k ds_def append_assoc)
  show "skip_minus p = (if v < 0 then - 1 else 1, length pre + k)"
  proof (cases "v < 0")
    case True
    then have "byte_at (buffer p) (length pre) = Some 45"
      by (simp add: buf byte_at_def nth_append)
    with True p(2) show ?thesis by (simp add: skip_minus_def minus_char_def k_def)
  next
    case False
    with d0 p(2) show ?thesis by (simp add: skip_minus_def minus_char_def k_def)
  qed
  show "skip_plus (buffer p) (length pre + k) = length pre + k"
    using d0 by (simp add: skip_plus_def plus_char_def)
  show "parse_digits (buffer p) (length pre + k) (length ds) (Some 0) =
      (if \<bar>v\<bar> < 2 ^ 53 then Some \<bar>v\<bar> else parse_digits (buffer p) (length pre + k) (length ds) (Some 0))"
    using parse_digits_of [OF buf [unfolded ds_def]] by (auto simp: k_def ds_def nat_less_iff)
  show "length (decimal v) = k + length ds"
    by (simp add: decimal_def k_def ds_def)
qed

lemma int_text_reads:
  fixes v :: int
  assumes N: "number_ok N"
  shows "reads (parseIntBig c N (Some (length (decimal v))) big) (decimal v)
           (if big \<and> 2 ^ 53 \<le> \<bar>v\<bar> then JText (int_to_string v) else JNum (Num (js_round v)))"
  unfolding reads_def
proof (intro allI impI)
  fix p :: packet and pre post
  let ?ds = "digits_of (nat \<bar>v\<bar>)" and ?k = "if v < 0 then 1 else 0 :: nat"
  let ?sgn = "if v < 0 then - 1 else 1 :: int"
  let ?res = "if big \<and> 2 ^ 53 \<le> \<bar>v\<bar> then JText (int_to_string v) else JNum (Num (js_round v))"
  assume p: "buffer p = pre @ decimal v @ post" "offset p = length pre"
    "length pre + length (decimal v) \<le> end_pos p"
  note lay = decimal_layout [OF p(1,2)]
  have slice: "slice (length pre) (length pre + length (decimal v)) (buffer p) = decimal v"
    unfolding p(1) slice_def by simp
  have ne: "0 < length ?ds" using digits_of_nonempty by simp
  consider "14 \<le> length (decimal v)" "\<not> big" | "big" "15 \<le> length ?ds"
    | "length ?ds < 15" "\<not> (14 \<le> length (decimal v) \<and> \<not> big)" "\<not> (big \<and> 15 \<le> length ?ds)"
    by (cases big; cases "15 \<le> length ?ds"; cases "14 \<le> length (decimal v)")
      (use lay(4) in \<open>auto split: if_splits\<close>)
  then show "parseIntBig c N (Some (length (decimal v))) big p =
      Inr (?res, p\<lparr>offset := length pre + length (decimal v)\<rparr>)"
  proof cases
    case 1
    then show ?thesis
      using N by (simp add: parseIntBig_def p(2) slice slice_decimal number_ok_def)
  next
    case 2
    let ?q = "p\<lparr>offset := length pre + length (decimal v)\<rparr>"
    have rs: "readString c (Some (length ?ds)) (Some ''binary'') (p\<lparr>offset := length pre + ?k\<rparr>) =
        Inr (int_to_string \<bar>v\<bar>, ?q)"
      using readsD [OF reads_latin1 [of c "digit_bytes ?ds"], of "p\<lparr>offset := length pre + ?k\<rparr>"
          "pre @ (if v < 0 then [45] else [])" post] p
      by (cases "v < 0") (simp_all add: lay(4) slice_decimal(2) decimal_def)
    have strv: "(if ?sgn = - 1 then js ''-'' else []) @ int_to_string \<bar>v\<bar> = int_to_string v"
      by (simp add: int_to_string_def)
    have val: "?sgn * js_round \<bar>v\<bar> = js_round v"
      by (simp add: js_round_def sgn_if)
    have "js_parseInt (int_to_string \<bar>v\<bar>) = Some (js_round \<bar>v\<bar>)"
      using js_parseInt_digits [of "nat \<bar>v\<bar>"] by simp
    then show ?thesis
      using 2 ne rs strv val
      by (simp add: parseIntBig_def lay p(2) isSafeInteger_round not_less Let_def del: One_nat_def)
  next
    case 3
    have "nat \<bar>v\<bar> < 10 ^ length ?ds" by (rule digits_bound)
    also have "(10::nat) ^ length ?ds \<le> 10 ^ 15" using 3 by (intro power_increasing) auto
    finally have small: "\<bar>v\<bar> < 2 ^ 53" by (simp add: nat_less_iff)
    have "parse_digits (buffer p) (length pre + ?k) (length ?ds) (Some 0) = Some \<bar>v\<bar>"
      using lay(3) small by simp
    then have num: "map_option (\<lambda>r. r * ?sgn) (parse_digits (buffer p) (length pre + ?k) (length ?ds) (Some 0)) = Some v"
      by simp
    have rest: "length pre + length (decimal v) - (length pre + ?k) = length ?ds"
      "max (length pre + ?k) (length pre + length (decimal v)) = length pre + length (decimal v)"
      "length (decimal v) \<noteq> 0"
      using lay(4) ne by simp_all
    have res: "?res = JNum (Num v)" and safe: "isSafeInteger v"
      using small by (simp_all add: js_round_id isSafeInteger_def)
    show ?thesis
      unfolding parseIntBig_def option.case if_not_P [OF 3(2)] if_not_P [OF rest(3)] Let_def p(2) lay(1,2)
        prod.case rest(1,2) if_not_P [OF 3(3)] num res
      by (simp add: safe int_num_def)
  qed
qed

lemma js_parseInt_int: "js_parseInt (int_to_string v) = Some (js_round v)"
proof (cases "v < 0")
  case True
  define u where "u = int_to_string (- v)"
  have s: "int_to_string v = of_char CHR ''-'' # u"
    using True by (simp add: int_to_string_def js_def u_def)
  have u: "js_parseInt u = Some (js_round (- v))"
    using js_parseInt_digits [of "nat (- v)"] True by (simp add: u_def)
  have eq: "takeWhile js_digit u = u" and all: "u \<noteq> []" "\<forall>ch\<in>set u. js_digit ch"
    using digits_below digit_units(4) True digits_of_nonempty
    by (auto simp: u_def int_to_string_def takeWhile_eq_all_conv simp del: of_nat_add)
  then obtain ch rest where hd: "u = ch # rest" "js_digit ch" by (cases u) auto
  then have "\<not> js_space ch" "ch \<noteq> of_char CHR ''-''" "ch \<noteq> of_char CHR ''+''"
    by (auto simp: js_digit_def js_space_def word_le_nat_alt)
  then have "dropWhile js_space u = u" "take 1 u \<noteq> js ''-''" "take 1 u \<noteq> js ''+''"
    unfolding hd(1) by (simp_all add: js_def)
  then have "js_round (int (digits_value (map (\<lambda>d. unat d - 48) u))) = js_round (- v)"
    using u unfolding js_parseInt_def Let_def by (simp only: eq all if_False simp_thms mult_1 option.inject)
  moreover have "js_round (- v) = - js_round v" by (simp add: js_round_def)
  moreover have "\<not> js_space (of_char CHR ''-'')" by (simp add: js_space_def)
  ultimately show ?thesis
    using all(1) unfolding s by (simp add: js_parseInt_def js_def eq)
next
  case False
  then show ?thesis using js_parseInt_digits [of "nat v"] by simp
qed

text \<open>
  Claim C29. BIGINT columns of the text protocol: for every integer the server sends in decimal, with
  \<open>supportBigNumbers\<close> the value is that integer when it is a safe one and its exact text otherwise;
  without the option it is the nearest double.
\<close>

theorem int_text_exact:
  fixes v :: int
  assumes "number_ok N" "long_ok L" "length (decimal v) < 2 ^ 53"
  shows "reads (parseLengthCodedInt L c N big) (lcn_bytes (length (decimal v)) @ decimal v)
    (if big \<and> 2 ^ 53 \<le> \<bar>v\<bar> then JText (int_to_string v) else JNum (Num (js_round v)) :: ('f, 'j) js_value)"
  unfolding parseLengthCodedInt_def
  by (rule reads_bind [OF reads_readLength [OF assms(2,3)]], rule int_text_reads [OF assms(1)])

definition num_impl :: "unit num_lib" where
  "num_impl = \<lparr>nl_Number = \<lambda>s. int_num (js_parseInt s), nl_parseFloat = \<lambda>_. NaN, nl_div = \<lambda>_ _. NaN,
     nl_float = \<lambda>_. NaN, nl_double = \<lambda>b. Num (int (le_val b))\<rparr>"

theorem int_text_exact_witness:
  "reads (parseLengthCodedInt long_impl latin1_codec num_impl True) 
     (lcn_bytes (length (decimal (- 9007199254740993000))) @ decimal (- 9007199254740993000))
     (JText (int_to_string (- 9007199254740993000)) :: (unit, unit) js_value)"
proof -
  have "number_ok num_impl"
    by (simp add: number_ok_def num_impl_def js_parseInt_int int_num_def)
  moreover have "length (decimal (- 9007199254740993000)) < 2 ^ 53"
    using length_digits_of [of 9007199254740993000 19] by (simp add: decimal_def)
  ultimately show ?thesis
    using int_text_exact [of num_impl long_impl "- 9007199254740993000" latin1_codec True] by (simp add: long_impl_ok)
qed

section \<open>Well-known binary geometries are read back\<close>

text \<open>
  A geometry as the server sends it, with its coordinates as the eight bytes of a double (low byte
  first), its encoding in either byte order, and the value it stands for.
\<close>

datatype wkb =
    WPoint "bytes \<times> bytes"
  | WLine "(bytes \<times> bytes) list"
  | WPolygon "(bytes \<times> bytes) list list"
  | WMulti nat "wkb list"

definition wkb_ints :: "bool \<Rightarrow> nat \<Rightarrow> bytes" where
  "wkb_ints le n = (if le then le_bytes 4 n else rev (le_bytes 4 n))"

definition wkb_pair :: "bool \<Rightarrow> bytes \<times> bytes \<Rightarrow> bytes" where
  "wkb_pair le xy = (if le then fst xy @ snd xy else rev (fst xy) @ rev (snd xy))"

definition wkb_head :: "bool \<Rightarrow> nat \<Rightarrow> bytes" where
  "wkb_head le ty = (if le then 1 else 0) # wkb_ints le ty"

definition wkb_line :: "bool \<Rightarrow> (bytes \<times> bytes) list \<Rightarrow> bytes" where
  "wkb_line le ps = wkb_ints le (length ps) @ concat (map (wkb_pair le) ps)"

primrec wkb_bytes :: "bool \<Rightarrow> wkb \<Rightarrow> bytes" where
  "wkb_bytes le (WPoint p) = wkb_head le 1 @ wkb_pair le p"
| "wkb_bytes le (WLine ps) = wkb_head le 2 @ wkb_line le ps"
| "wkb_bytes le (WPolygon rs) = wkb_head le 3 @ wkb_ints le (length rs) @ concat (map (wkb_line le) rs)"
| "wkb_bytes le (WMulti ty gs) = wkb_head le ty @ wkb_ints le (length gs) @ concat (map (wkb_bytes le) gs)"

definition double_pair :: "bytes \<times> bytes \<Rightarrow> bool" where
  "double_pair xy \<longleftrightarrow> length (fst xy) = 8 \<and> length (snd xy) = 8"

definition count_ok :: "'a list \<Rightarrow> bool" where
  "count_ok xs \<longleftrightarrow> length xs < 2 ^ 32"

primrec wkb_ok :: "wkb \<Rightarrow> bool" where
  "wkb_ok (WPoint p) \<longleftrightarrow> double_pair p"
| "wkb_ok (WLine ps) \<longleftrightarrow> count_ok ps \<and> list_all double_pair ps"
| "wkb_ok (WPolygon rs) \<longleftrightarrow> count_ok rs \<and> list_all (\<lambda>ps. count_ok ps \<and> list_all double_pair ps) rs"
| "wkb_ok (WMulti ty gs) \<longleftrightarrow> 4 \<le> ty \<and> ty \<le> 7 \<and> count_ok gs \<and> list_all (\<lambda>g. g) (map wkb_ok gs)"

definition point_value :: "'f num_lib \<Rightarrow> bytes \<times> bytes \<Rightarrow> 'f js_num \<times> 'f js_num" where
  "point_value N xy = (nl_double N (fst xy), nl_double N (snd xy))"

primrec geometry_value :: "'f num_lib \<Rightarrow> wkb \<Rightarrow> 'f geometry" where
  "geometry_value N (WPoint p) = Point (nl_double N (fst p)) (nl_double N (snd p))"
| "geometry_value N (WLine ps) = Points (map (point_value N) ps)"
| "geometry_value N (WPolygon rs) = Rings (map (map (point_value N)) rs)"
| "geometry_value N (WMulti ty gs) = Shapes (map (\<lambda>g. Some (geometry_value N g)) gs)"

lemma length_wkb_ints [simp]: "length (wkb_ints le n) = 4"
  by (simp add: wkb_ints_def)

lemma length_wkb_head [simp]: "length (wkb_head le n) = 5"
  by (simp add: wkb_head_def)

lemma length_wkb_pair: "double_pair xy \<Longrightarrow> length (wkb_pair le xy) = 16"
  by (simp add: wkb_pair_def double_pair_def)

lemma slice_at: "slice (length pre) (length pre + length b) (pre @ b @ post) = b"
  by (simp add: slice_def)

lemma wkb_int_at:
  assumes "n < 2 ^ 32"
  shows "wkb_int le (pre @ wkb_ints le n @ post) (length pre) = n"
proof -
  have "slice (length pre) (length pre + 4) (pre @ wkb_ints le n @ post) = wkb_ints le n"
    using slice_at [of pre "wkb_ints le n" post] by simp
  then have "wkb_int le (pre @ wkb_ints le n @ post) (length pre) =
      le_val (if le then wkb_ints le n else rev (wkb_ints le n))"
    by (simp only: wkb_int_def Let_def)
  then show ?thesis
    using assms by (simp add: wkb_ints_def le_val_le_bytes)
qed

lemma wkb_double_at:
  assumes "double_pair xy"
  shows "(wkb_double N le (pre @ wkb_pair le xy @ post) (length pre),
          wkb_double N le (pre @ wkb_pair le xy @ post) (length pre + 8)) = point_value N xy"
proof -
  define x y where "x = (if le then fst xy else rev (fst xy))" and "y = (if le then snd xy else rev (snd xy))"
  have len: "length x = 8" "length y = 8"
    using assms by (simp_all add: x_def y_def double_pair_def)
  have buf: "pre @ wkb_pair le xy @ post = pre @ x @ y @ post"
    by (simp add: wkb_pair_def x_def y_def)
  have "slice (length pre) (length pre + 8) (pre @ x @ y @ post) = x"
    using slice_at [of pre x "y @ post"] by (simp add: len)
  moreover have "slice (length pre + 8) (length pre + 16) (pre @ x @ y @ post) = y"
    using slice_at [of "pre @ x" y post] by (simp add: len ac_simps)
  moreover have "length pre + 8 + 8 = length pre + 16" by simp
  ultimately have "wkb_double N le (pre @ wkb_pair le xy @ post) (length pre) = nl_double N (if le then x else rev x)"
    "wkb_double N le (pre @ wkb_pair le xy @ post) (length pre + 8) = nl_double N (if le then y else rev y)"
    unfolding buf by (simp_all only: wkb_double_def Let_def)
  then show ?thesis
    by (simp add: point_value_def x_def y_def)
qed

lemma wkb_points_at:
  "list_all double_pair ps \<Longrightarrow>
   wkb_points N le (pre @ concat (map (wkb_pair le) ps) @ post) (length ps) (length pre) =
     (map (point_value N) ps, length pre + length (concat (map (wkb_pair le) ps)))"
proof (induction ps arbitrary: pre)
  case (Cons xy ps)
  have "double_pair xy" using Cons.prems by simp
  note len = length_wkb_pair [OF this, of le]
    and here = wkb_double_at [OF this, of N le pre "concat (map (wkb_pair le) ps) @ post"]
  show ?case
    using Cons.IH [of "pre @ wkb_pair le xy"] Cons.prems len here by (simp add: Let_def)
qed simp

lemma length_wkb_line: "list_all double_pair ps \<Longrightarrow> length (concat (map (wkb_pair le) ps)) = 16 * length ps"
  by (induction ps) (simp_all add: length_wkb_pair)

lemma wkb_rings_at:
  "list_all (\<lambda>ps. count_ok ps \<and> list_all double_pair ps) rs \<Longrightarrow>
   wkb_rings N le (pre @ concat (map (wkb_line le) rs) @ post) (length rs) (length pre) =
     (map (map (point_value N)) rs, length pre + length (concat (map (wkb_line le) rs)))"
proof (induction rs arbitrary: pre)
  case (Cons ps rs)
  have ok: "count_ok ps" "list_all double_pair ps" using Cons.prems by simp_all
  let ?buf = "pre @ concat (map (wkb_line le) (ps # rs)) @ post"
  let ?rest = "concat (map (wkb_line le) rs) @ post"
  have buf: "?buf = pre @ wkb_ints le (length ps) @ concat (map (wkb_pair le) ps) @ ?rest"
    "?buf = (pre @ wkb_ints le (length ps)) @ concat (map (wkb_pair le) ps) @ ?rest"
    "?buf = (pre @ wkb_line le ps) @ ?rest"
    by (simp_all add: wkb_line_def)
  have num: "wkb_int le ?buf (length pre) = length ps"
    unfolding buf(1) using ok(1) by (intro wkb_int_at) (simp add: count_ok_def)
  have pts: "wkb_points N le ?buf (length ps) (length pre + 4) =
      (map (point_value N) ps, length (pre @ wkb_line le ps))"
    using wkb_points_at [OF ok(2), of N le "pre @ wkb_ints le (length ps)" ?rest]
    unfolding buf(2) by (simp add: wkb_line_def)
  have rest: "wkb_rings N le ?buf (length rs) (length (pre @ wkb_line le ps)) =
      (map (map (point_value N)) rs, length (pre @ wkb_line le ps) + length (concat (map (wkb_line le) rs)))"
    unfolding buf(3) using Cons.prems by (intro Cons.IH) simp
  have room: "\<not> length ?buf < length pre + 4"
    by (simp add: wkb_line_def)
  show ?case
    unfolding list.size(4) add_0_right add_Suc_right One_nat_def wkb_rings.simps if_not_P [OF room] num pts prod.case Let_def rest
    by simp
qed simp

lemma wkb_min: "wkb_ok g \<Longrightarrow> 9 \<le> length (wkb_bytes le g)"
  by (cases g) (simp_all add: length_wkb_pair wkb_line_def)

lemma concat_min: "(\<And>x. x \<in> set xs \<Longrightarrow> k \<le> length (f x)) \<Longrightarrow> k * length xs \<le> length (concat (map f xs))"
  by (induction xs) fastforce+

text \<open>The head of a geometry: its byte order and type, read where it starts.\<close>

lemma wkb_head_at:
  assumes "ty < 2 ^ 32"
  shows "(byte_at (pre @ wkb_head le ty @ post) (length pre) \<noteq> Some 0) = le"
    and "wkb_int le (pre @ wkb_head le ty @ post) (length pre + 1) = ty"
proof -
  show "(byte_at (pre @ wkb_head le ty @ post) (length pre) \<noteq> Some 0) = le"
    by (simp add: byte_at_def wkb_head_def nth_append)
  show "wkb_int le (pre @ wkb_head le ty @ post) (length pre + 1) = ty"
    using wkb_int_at [OF assms, of le "pre @ [if le then 1 else 0]" post] by (simp add: wkb_head_def)
qed

lemma read_times_at:
  assumes "\<And>g p q. g \<in> set gs \<Longrightarrow> r (p @ f g @ q) (length p) = (v g, length p + length (f g))"
  shows "read_times (length gs) (r (pre @ concat (map f gs) @ post)) (length pre) =
    (map v gs, length pre + length (concat (map f gs)))"
  using assms
proof (induction gs arbitrary: pre)
  case (Cons g gs)
  have "r (pre @ concat (map f (g # gs)) @ post) (length pre) = (v g, length (pre @ f g))"
    using Cons.prems [of g pre "concat (map f gs) @ post"] by simp
  moreover have "read_times (length gs) (r (pre @ concat (map f (g # gs)) @ post)) (length (pre @ f g)) =
      (map v gs, length (pre @ f g) + length (concat (map f gs)))"
    using Cons.IH [of "pre @ f g"] Cons.prems by simp
  ultimately show ?case
    by (simp add: Let_def del: length_append) simp
qed simp

text \<open>The types with a count: what is read behind it.\<close>

lemma parseGeometry_count:
  assumes buf: "buf = pre @ wkb_head le ty @ wkb_ints le n @ rest"
    and ty: "ty \<in> {2, 3, 4, 5, 6, 7}" and n: "n < 2 ^ 32"
  shows "parseGeometry (Suc f) N buf (length pre) =
    (let off = length pre + 9 in
     if ty = 2 then
       (if length rest < n * 16 then (None, off)
        else let (ps, off2) = wkb_points N le buf n off in (Some (Points ps), off2))
     else if ty = 3 then
       (if length rest < n * 4 then (None, off)
        else let (rs, off2) = wkb_rings N le buf n off in (Some (Rings rs), off2))
     else if length rest < n * 9 then (None, off)
     else let (gs, off2) = read_times n (parseGeometry f N buf) off in (Some (Shapes gs), off2))"
proof -
  have small: "ty < 2 ^ 32" using ty by auto
  have head: "(byte_at buf (length pre) \<noteq> Some 0) = le" "wkb_int le buf (length pre + 1) = ty"
    unfolding buf by (rule wkb_head_at [OF small])+
  have num: "wkb_int le buf (length pre + 5) = n"
    using wkb_int_at [OF n, of le "pre @ wkb_head le ty" rest] by (simp add: buf)
  have room: "\<not> length buf < length pre + 5" "\<not> length buf < length pre + 9"
    by (simp_all add: buf)
  have nine: "length pre + 5 + 4 = length pre + 9" by simp
  have left: "int (length buf) - int (length pre + 9) = int (length rest)"
    by (simp add: buf)
  have cmp: "int (length rest) < int n * k \<longleftrightarrow> length rest < n * nat k" if "0 \<le> k" for k
    using that by (metis nat_int nat_mult_distrib of_nat_0_le_iff of_nat_less_iff of_nat_mult int_nat_eq)
  have not1: "ty \<noteq> 1" using ty by auto
  show ?thesis
    unfolding parseGeometry.simps if_not_P [OF room(1)] Let_def head num if_not_P [OF not1] if_P [OF ty]
      nine if_not_P [OF room(2)] left
    by (simp add: cmp)
qed

lemma parseGeometry_at:
  "wkb_ok g \<Longrightarrow> length (wkb_bytes le g) \<le> fuel \<Longrightarrow>
   parseGeometry fuel N (pre @ wkb_bytes le g @ post) (length pre) =
     (Some (geometry_value N g), length pre + length (wkb_bytes le g))"
proof (induction g arbitrary: fuel pre post)
  case (WPoint xy)
  then obtain f where f: "fuel = Suc f" by (cases fuel) auto
  have len: "length (wkb_pair le xy) = 16" using WPoint by (simp add: length_wkb_pair)
  let ?buf = "pre @ wkb_bytes le (WPoint xy) @ post"
  have buf: "?buf = pre @ wkb_head le 1 @ wkb_pair le xy @ post" "?buf = (pre @ wkb_head le 1) @ wkb_pair le xy @ post"
    by simp_all
  have head: "(byte_at ?buf (length pre) \<noteq> Some 0) = le" "wkb_int le ?buf (length pre + 1) = 1"
    unfolding buf(1) by (rule wkb_head_at; simp)+
  have "(wkb_double N le ?buf (length pre + 5), wkb_double N le ?buf (length pre + 5 + 8)) = point_value N xy"
    unfolding buf(2) using wkb_double_at [of xy N le "pre @ wkb_head le 1" post] WPoint by simp
  moreover have "\<not> length ?buf < length pre + 5" "\<not> length ?buf < length pre + 5 + 16"
    by (simp_all add: len)
  ultimately show ?case
    using head unfolding f parseGeometry.simps Let_def by (simp add: point_value_def len)
next
  case (WLine ps)
  then obtain f where f: "fuel = Suc f" by (cases fuel) (auto simp: wkb_line_def)
  have ok: "length ps < 2 ^ 32" "list_all double_pair ps" using WLine by (simp_all add: count_ok_def)
  have ty: "2 \<in> {2, 3, 4, 5, 6, 7 :: nat}" by simp
  let ?pairs = "concat (map (wkb_pair le) ps)"
  have buf: "pre @ wkb_bytes le (WLine ps) @ post = pre @ wkb_head le 2 @ wkb_ints le (length ps) @ ?pairs @ post"
    by (simp add: wkb_line_def)
  have "length (?pairs @ post) \<ge> length ps * 16"
    using length_wkb_line [OF ok(2), of le] by simp
  moreover have "wkb_points N le (pre @ wkb_head le 2 @ wkb_ints le (length ps) @ ?pairs @ post) (length ps) (length pre + 9) =
      (map (point_value N) ps, length pre + 9 + length ?pairs)"
    using wkb_points_at [OF ok(2), of N le "pre @ wkb_head le 2 @ wkb_ints le (length ps)" post] by (simp add: ac_simps)
  ultimately show ?case
    unfolding f buf parseGeometry_count [OF refl ty ok(1)] by (simp add: Let_def wkb_line_def)
next
  case (WPolygon rs)
  then obtain f where f: "fuel = Suc f" by (cases fuel) auto
  have ok: "length rs < 2 ^ 32" "list_all (\<lambda>ps. count_ok ps \<and> list_all double_pair ps) rs"
    using WPolygon by (simp_all add: count_ok_def)
  have ty: "3 \<in> {2, 3, 4, 5, 6, 7 :: nat}" by simp
  let ?rings = "concat (map (wkb_line le) rs)"
  have buf: "pre @ wkb_bytes le (WPolygon rs) @ post = pre @ wkb_head le 3 @ wkb_ints le (length rs) @ ?rings @ post"
    by simp
  have "4 * length rs \<le> length ?rings"
    by (rule concat_min) (simp add: wkb_line_def)
  then have "length (?rings @ post) \<ge> length rs * 4" by simp
  moreover have "wkb_rings N le (pre @ wkb_head le 3 @ wkb_ints le (length rs) @ ?rings @ post) (length rs) (length pre + 9) =
      (map (map (point_value N)) rs, length pre + 9 + length ?rings)"
    using wkb_rings_at [OF ok(2), of N le "pre @ wkb_head le 3 @ wkb_ints le (length rs)" post] by (simp add: ac_simps)
  ultimately show ?case
    unfolding f buf parseGeometry_count [OF refl ty ok(1)] by (simp add: Let_def)
next
  case (WMulti ty gs)
  then obtain f where f: "fuel = Suc f" by (cases fuel) auto
  have ok: "length gs < 2 ^ 32" "ty \<in> {2, 3, 4, 5, 6, 7}" "ty \<noteq> 2" "ty \<noteq> 3" "list_all wkb_ok gs"
    using WMulti.prems(1) by (auto simp: count_ok_def list_all_iff)
  let ?parts = "concat (map (wkb_bytes le) gs)"
  have buf: "pre @ wkb_bytes le (WMulti ty gs) @ post = pre @ wkb_head le ty @ wkb_ints le (length gs) @ ?parts @ post"
    by simp
  have "9 * length gs \<le> length ?parts"
    by (rule concat_min) (use ok(5) in \<open>auto simp: list_all_iff intro: wkb_min\<close>)
  then have "length (?parts @ post) \<ge> length gs * 9" by simp
  moreover have "parseGeometry f N (p @ wkb_bytes le g @ q) (length p) =
      (Some (geometry_value N g), length p + length (wkb_bytes le g))" if g: "g \<in> set gs" for g p q
  proof (rule WMulti.IH [OF g])
    have "length (wkb_bytes le g) \<le> length ?parts"
      using g by (induction gs) auto
    then show "length (wkb_bytes le g) \<le> f"
      using WMulti.prems(2) by (simp add: f)
    show "wkb_ok g" using ok(5) g by (simp add: list_all_iff)
  qed
  then have "read_times (length gs) (parseGeometry f N ((pre @ wkb_head le ty @ wkb_ints le (length gs)) @ ?parts @ post))
      (length (pre @ wkb_head le ty @ wkb_ints le (length gs))) =
      (map (\<lambda>g. Some (geometry_value N g)) gs,
       length (pre @ wkb_head le ty @ wkb_ints le (length gs)) + length ?parts)"
    by (rule read_times_at)
  ultimately show ?case
    unfolding f buf parseGeometry_count [OF refl ok(2) ok(1)] using ok(3,4) by (simp add: Let_def ac_simps)
qed

text \<open>
  Claim C28. \<open>parseGeometryValue\<close> reads every well-known binary geometry back: points, lines, polygons
  and (nested) collections, with any coordinates and in either byte order, become the value with the
  same structure.
\<close>

theorem geometry_roundtrip:
  fixes L :: long_lib
  assumes "long_ok L" "wkb_ok g" "length srid = 4" "length (srid @ wkb_bytes le g) < 2 ^ 53"
  shows "reads (parseGeometryValue L N)
    (lcn_bytes (length (srid @ wkb_bytes le g)) @ srid @ wkb_bytes le g)
    (JGeometry (geometry_value N g) :: ('f, 'j) js_value)"
proof -
  have "parseGeometry (length (srid @ wkb_bytes le g)) N (srid @ wkb_bytes le g @ []) (length srid) =
      (Some (geometry_value N g), length srid + length (wkb_bytes le g))"
    using assms(2) by (rule parseGeometry_at) simp
  moreover have "srid @ wkb_bytes le g \<noteq> []" using assms(3) by auto
  ultimately show ?thesis
    unfolding parseGeometryValue_def using assms(3)
    by (intro reads_bind_ret [OF reads_lenenc_buffer [OF assms(1,4)]]) auto
qed

theorem geometry_roundtrip_witness:
  "reads (parseGeometryValue long_impl num_impl)
     (lcn_bytes 34 @ [0, 0, 0, 0, 1, 7, 0, 0, 0, 1, 0, 0, 0, 1, 1, 0, 0, 0,
        5, 0, 0, 0, 0, 0, 0, 0, 6, 0, 0, 0, 0, 0, 0, 0])
     (JGeometry (Shapes [Some (Point (Num 5) (Num 6))]) :: (unit, unit) js_value)"
proof -
  let ?g = "WMulti 7 [WPoint ([5, 0, 0, 0, 0, 0, 0, 0], [6, 0, 0, 0, 0, 0, 0, 0])]"
  have bytes: "wkb_bytes True ?g = [1, 7, 0, 0, 0, 1, 0, 0, 0, 1, 1, 0, 0, 0, 5, 0, 0, 0, 0, 0, 0, 0, 6, 0, 0, 0, 0, 0, 0, 0]"
    by code_simp
  have "wkb_ok ?g" "length [0, 0, 0, 0 :: byte] = 4"
    by (simp_all add: count_ok_def double_pair_def)
  note inst = geometry_roundtrip [OF long_impl_ok this, of True num_impl]
  have len: "length ([0, 0, 0, 0] @ [1, 7, 0, 0, 0, 1, 0, 0, 0, 1, 1, 0, 0, 0, 5, 0, 0, 0, 0, 0, 0, 0,
      6, 0, 0, 0, 0, 0, 0, 0 :: byte]) = 34"
    by simp
  have val: "geometry_value num_impl ?g = Shapes [Some (Point (Num 5) (Num 6))]"
    by (simp add: num_impl_def)
  show ?thesis
    using inst unfolding bytes val len by (simp only: append.simps) simp
qed

section \<open>Dates are read back\<close>

lemma DayFromYear_bounds:
  "146097 * q - 506 \<le> 400 * DayFromYear (1970 + q)" "400 * DayFromYear (1970 + q) \<le> 146097 * q + 589"
proof -
  define a b c where "a = (q + 1) div 4" and "b = (q + 69) div 100" and "c = (q + 369) div 400"
  have "4 * a \<le> q + 1" "q + 1 < 4 * a + 4" "100 * b \<le> q + 69" "q + 69 < 100 * b + 100"
    "400 * c \<le> q + 369" "q + 369 < 400 * c + 400"
    unfolding a_def b_def c_def by (simp_all add: pos_mod_bound flip: minus_mod_eq_mult_div) 
  moreover have "DayFromYear (1970 + q) = 365 * q + a - b + c"
    by (simp add: DayFromYear_def a_def b_def c_def add.commute)
  ultimately show "146097 * q - 506 \<le> 400 * DayFromYear (1970 + q)"
    "400 * DayFromYear (1970 + q) \<le> 146097 * q + 589"
    by linarith+
qed

lemma year_of_day_bounds: "DayFromYear (year_of_day d) \<le> d \<and> d < DayFromYear (year_of_day d + 1)"
proof -
  define q where "q = d * 400 div 146097"
  have q: "146097 * q \<le> 400 * d" "400 * d < 146097 * q + 146097"
    unfolding q_def by (simp_all add: pos_mod_bound mult.commute flip: minus_mod_eq_mult_div)
  have "DayFromYear (1970 + q - 1) \<le> d"
    using DayFromYear_bounds(2) [of "q - 1"] q by (simp add: algebra_simps)
  moreover have "d < DayFromYear (1970 + q + 2)"
    using DayFromYear_bounds(1) [of "q + 2"] q by (simp add: algebra_simps)
  ultimately show ?thesis
    by (auto simp: year_of_day_def Let_def simp flip: q_def)
qed

lemma year_length: "DayFromYear (y + 1) = DayFromYear y + 365 + (if leap y then 1 else 0)"
  using leaps_step [of y] by (simp add: DayFromYear_leaps)

lemma month_of_bounds:
  assumes "0 \<le> n" "n < 365 + (if l then 1 else 0)"
  shows "0 \<le> month_of l n \<and> month_of l n \<le> 11 \<and> month_start l (month_of l n) \<le> n \<and>
    n < month_start l (month_of l n) + 31"
proof -
  define k where "k = (if l then 1 else 0 :: int)"
  consider "n < 31" | "31 \<le> n" "n < 59 + k" | "59 + k \<le> n" "n < 90 + k" | "90 + k \<le> n" "n < 120 + k"
    | "120 + k \<le> n" "n < 151 + k" | "151 + k \<le> n" "n < 181 + k" | "181 + k \<le> n" "n < 212 + k"
    | "212 + k \<le> n" "n < 243 + k" | "243 + k \<le> n" "n < 273 + k" | "273 + k \<le> n" "n < 304 + k"
    | "304 + k \<le> n" "n < 334 + k" | "334 + k \<le> n" "n < 365 + k"
    using assms by (fold k_def) linarith
  then show ?thesis
    using assms(1) by cases (cases l; simp add: k_def month_of_def month_start_def)+
qed

lemma utc_fields_inverse:
  assumes f: "utc_fields t = (y, m, d, h, mi, s, ms)" and y: "100 \<le> y"
  shows "wall_time y (m - 1) d h mi s ms = t"
    and "1 \<le> m \<and> m \<le> 12 \<and> 1 \<le> d \<and> d \<le> 31"
    and "0 \<le> h \<and> h < 24 \<and> 0 \<le> mi \<and> mi < 60 \<and> 0 \<le> s \<and> s < 60 \<and> 0 \<le> ms \<and> ms < 1000"
proof -
  define day where "day = t div MS_PER_DAY"
  define r where "r = t mod MS_PER_DAY"
  define n where "n = day - DayFromYear y"
  have yd: "y = year_of_day day"
    using f by (simp add: utc_fields_def Let_def day_def)
  have fields: "m = month_of (leap y) n + 1" "d = n - month_start (leap y) (month_of (leap y) n) + 1"
    "h = r div MS_PER_HOUR" "mi = r div 60000 mod 60" "s = r div 1000 mod 60" "ms = r mod 1000"
    using f unfolding yd n_def by (auto simp: utc_fields_def Let_def day_def r_def)
  have n: "0 \<le> n" "n < 365 + (if leap y then 1 else 0)"
    using year_of_day_bounds [of day] year_length [of y] by (simp_all add: n_def flip: yd)
  note mo = month_of_bounds [OF n]
  show "1 \<le> m \<and> m \<le> 12 \<and> 1 \<le> d \<and> d \<le> 31"
    using mo by (simp add: fields)
  have r: "0 \<le> r" "r < MS_PER_DAY"
    unfolding r_def by (simp_all add: MS_PER_DAY_def)
  then show "0 \<le> h \<and> h < 24 \<and> 0 \<le> mi \<and> mi < 60 \<and> 0 \<le> s \<and> s < 60 \<and> 0 \<le> ms \<and> ms < 1000"
    by (simp add: fields MS_PER_HOUR_def MS_PER_DAY_def pos_imp_zdiv_nonneg_iff div_less_iff_less_mult)
  have "MakeDay y (m - 1) d = day"
    using mo by (simp add: MakeDay_def fields(1,2) n_def)
  moreover have "MakeTime h mi s ms = r"
  proof -
    have "r div 1000 = 60 * (r div 60000) + r div 1000 mod 60" "r div 60000 = 60 * (r div MS_PER_HOUR) + r div 60000 mod 60"
      using mult_div_mod_eq [of 60 "r div 1000"] mult_div_mod_eq [of 60 "r div 60000"]
      by (simp_all add: MS_PER_HOUR_def flip: zdiv_zmult2_eq)
    moreover have "1000 * (r div 1000) + r mod 1000 = r" by simp
    ultimately show ?thesis
      unfolding MakeTime_def fields(3-6) MS_PER_HOUR_def by linarith
  qed
  ultimately show "wall_time y (m - 1) d h mi s ms = t"
    using y by (simp add: wall_time_def full_year_def MakeDate_def day_def r_def)
qed

text \<open>The twelve bytes of a date, written by \<open>writeDate\<close> and read by \<open>readDateTime\<close>.\<close>

fun date_bytes :: "civil \<Rightarrow> bytes" where
  "date_bytes (y, m, d, h, mi, s, ms) =
     11 # le_bytes 2 (nat y) @ map (\<lambda>v. word_of_nat (nat v)) [m, d, h, mi, s] @ le_bytes 4 (nat (ms * 1000))"

fun wire_date :: "civil \<Rightarrow> bool" where
  "wire_date (y, m, d, h, mi, s, ms) \<longleftrightarrow>
     100 \<le> y \<and> y < 65536 \<and> (\<forall>v\<in>{m, d, h, mi, s}. 0 \<le> v \<and> v < 256) \<and> 0 \<le> ms \<and> ms < 1000"

lemma emits_date:
  assumes "wire_date f"
  shows "emits z (writes (date_writes (Some f))) (date_bytes f)"
proof -
  obtain y m d h mi s ms where f: "f = (y, m, d, h, mi, s, ms)" by (cases f) auto
  have byte: "emits z (writeInt8 v) [word_of_nat (nat v)]" if "0 \<le> v \<and> v < 256" for v
    using emits_writeInt8 [of "nat v" z] that by (simp add: nat_less_iff)
  have "emits z (writes [writeInt8 11, writeInt16 y, writeInt8 m, writeInt8 d, writeInt8 h, writeInt8 mi, writeInt8 s,
      writeInt32 (ms * 1000)])
    ([word_of_nat (nat 11)] @ le_bytes 2 (nat y) @ [word_of_nat (nat m)] @ [word_of_nat (nat d)] @ [word_of_nat (nat h)] @
     [word_of_nat (nat mi)] @ [word_of_nat (nat s)] @ le_bytes 4 (nat (ms * 1000)) @ [])"
    using assms unfolding f wire_date.simps writeInt16_def writeInt32_def
    by (intro emits_Cons emits_Nil byte emits_uint) simp_all
  then show ?thesis
    by (simp add: f date_writes_def del: writes.simps)
qed

lemma reads_date:
  fixes D :: date_lib
  assumes "wire_date f" and "local_zone tz \<or> tz = Some (js ''Z'')"
  shows "reads (readDateTime D tz) (date_bytes f)
    (JDate (if tz = Some (js ''Z'') then utc_date (Some f) else local_date D (Some f)) :: ('f, 'j) js_value)"
proof -
  obtain y m d h mi s ms where f: "f = (y, m, d, h, mi, s, ms)" by (cases f) auto
  note ok = assms(1) [unfolded f wire_date.simps, simplified]
  define w where "w = (\<lambda>v. word_of_nat (nat v) :: byte)"
  have byte: "reads readInt8 [w v] (Some (nat v))" if "0 \<le> v" "v < 256" for v
    using reads_u8 [of "nat v"] that by (simp add: w_def nat_less_iff)
  have rd: "reads readDate (le_bytes 2 (nat y) @ [w m] @ [w d] @ []) (nat y, Some (nat m), Some (nat d))"
    unfolding readDate_def readInt16_def using ok
    by (intro reads_bind [OF reads_uint_le] reads_bind [OF byte] reads_ret) (simp_all add: nat_less_iff)
  have rt: "reads read3 ([w h] @ [w mi] @ [w s] @ []) (Some (nat h), Some (nat mi), Some (nat s))"
    unfolding read3_def using ok by (intro reads_bind [OF byte] reads_ret) simp_all
  have ru: "reads readInt32 (le_bytes 4 (nat (ms * 1000))) (nat (ms * 1000))"
    unfolding readInt32_def using ok by (intro reads_uint_le) (simp add: nat_less_iff)
  have "nat (ms * 1000) div 1000 = nat ms"
    using ok by (simp add: nat_mult_distrib)
  then have fields: "date_fields (nat y, Some (nat m), Some (nat d)) (Some (nat h), Some (nat mi), Some (nat s))
      (nat (ms * 1000)) = Some f"
    using ok by (simp add: date_fields_def f)
  define K :: "nat \<times> nat option \<times> nat option \<Rightarrow> nat option \<times> nat option \<times> nat option \<Rightarrow> nat \<Rightarrow> ('f, 'j) js_value rd"
    where "K = (\<lambda>date time us. let f = date_fields date time us in
       if f = Some (0, 0, 0, 0, 0, 0, 0) \<and> us = 0 then rret (JDate None)
       else if tz = Some (js ''Z'') then rret (JDate (utc_date f))
       else rret (JDate (local_date D f)))"
  have K: "K (nat y, Some (nat m), Some (nat d)) (Some (nat h), Some (nat mi), Some (nat s)) (nat (ms * 1000)) =
      rret (JDate (if tz = Some (js ''Z'') then utc_date (Some f) else local_date D (Some f)))"
    using ok unfolding K_def fields Let_def by (simp add: f)
  have "reads (rbind readDate (\<lambda>date. rbind read3 (\<lambda>time. rbind readInt32 (K date time))))
    ((le_bytes 2 (nat y) @ [w m] @ [w d] @ []) @ ([w h] @ [w mi] @ [w s] @ []) @ le_bytes 4 (nat (ms * 1000)))
    (JDate (if tz = Some (js ''Z'') then utc_date (Some f) else local_date D (Some f)))"
    by (rule reads_bind [OF rd], rule reads_bind [OF rt], rule reads_bind_ret [OF ru]) (rule K)
  then have "reads (rbind readInt8 (\<lambda>len. if len = Some 251 then rret JNull
      else rbind (when_longer len 3 (0, Some 0, Some 0) readDate) (\<lambda>date.
           rbind (when_longer len 6 (Some 0, Some 0, Some 0) read3) (\<lambda>time.
           rbind (when_longer len 10 0 readInt32) (K date time)))))
    ([11] @ (le_bytes 2 (nat y) @ [w m] @ [w d] @ []) @ ([w h] @ [w mi] @ [w s] @ []) @ le_bytes 4 (nat (ms * 1000)))
    (JDate (if tz = Some (js ''Z'') then utc_date (Some f) else local_date D (Some f)))"
    by (intro reads_bind [OF reads_readInt8]) (simp add: when_longer_def)
  then show ?thesis
    unfolding readDateTime_def if_P [OF assms(2)] K_def w_def
    by (simp only: f date_bytes.simps list.map append.simps append_assoc)
qed

text \<open>The dates whose UTC year is 100 to 65535.\<close>

definition wire_time :: "int \<Rightarrow> bool" where
  "wire_time t \<longleftrightarrow> TimeClip t = Some t \<and> DayFromYear 100 * MS_PER_DAY \<le> t \<and> t < DayFromYear 65536 * MS_PER_DAY"

lemma wire_time_fields:
  assumes "wire_time t"
  shows "wire_date (utc_fields t) \<and> utc_date (Some (utc_fields t)) = Some t"
proof -
  obtain y m d h mi s ms where f: "utc_fields t = (y, m, d, h, mi, s, ms)" by (cases "utc_fields t") auto
  have yd: "y = year_of_day (t div MS_PER_DAY)"
    using f by (simp add: utc_fields_def Let_def)
  have "DayFromYear 100 \<le> t div MS_PER_DAY" "t div MS_PER_DAY < DayFromYear 65536"
    using assms mult_div_mod_eq [of MS_PER_DAY t] pos_mod_bound [of MS_PER_DAY t] pos_mod_sign [of MS_PER_DAY t]
    unfolding wire_time_def MS_PER_DAY_def by linarith+
  then have y: "100 \<le> y" and "DayFromYear y < DayFromYear 65536"
    using year_of_day_from_100 [of "t div MS_PER_DAY"] year_of_day_bounds [of "t div MS_PER_DAY"]
    unfolding yd by linarith+
  then have y2: "y < 65536"
    using DayFromYear_mono [of 65536 y] by linarith
  show ?thesis
    using utc_fields_inverse [OF f y] y y2 assms unfolding f by (simp add: DateUTC_def wire_time_def)
qed

text \<open>
  Claim C27. A date sent as a parameter comes back as the same date: with the time zone \<open>Z\<close>, the
  bytes \<open>writeDate\<close> produces for a time value of the years 100 to 65535 are read by
  \<open>readDateTime\<close> as that time value, to the millisecond.
\<close>

theorem date_roundtrip:
  assumes "wire_time t"
  shows "\<exists>bs. length bs = 12 \<and> emits z (writeDate D (Some t) (Some (js ''Z''))) bs \<and>
    reads (readDateTime D (Some (js ''Z''))) bs (JDate (Some t) :: ('f, 'j) js_value)"
proof (intro exI conjI)
  note ok = wire_time_fields [OF assms]
  show "length (date_bytes (utc_fields t)) = 12" by (cases "utc_fields t") simp
  show "emits z (writeDate D (Some t) (Some (js ''Z''))) (date_bytes (utc_fields t))"
    using emits_date [of "utc_fields t" z] ok by (simp add: writeDate_def local_zone_def js_def)
  show "reads (readDateTime D (Some (js ''Z''))) (date_bytes (utc_fields t)) (JDate (Some t) :: ('f, 'j) js_value)"
    using reads_date [of "utc_fields t" "Some (js ''Z'')" D] ok by simp
qed

theorem date_roundtrip_witness:
  "wire_time 1700000000123 \<and>
   (\<exists>bs. length bs = 12 \<and>
      emits True (writeDate \<lparr>dl_zone = Some, dl_parse = Map.empty, dl_fields = utc_fields\<rparr> (Some 1700000000123) (Some (js ''Z''))) bs \<and>
      reads (readDateTime \<lparr>dl_zone = Some, dl_parse = Map.empty, dl_fields = utc_fields\<rparr> (Some (js ''Z''))) bs
        (JDate (Some 1700000000123) :: (unit, unit) js_value))"
proof -
  have "wire_time 1700000000123"
    by (simp add: wire_time_def TimeClip_def DayFromYear_def MS_PER_DAY_def)
  from date_roundtrip [OF this] this show ?thesis by blast
qed

section \<open>Date columns of the text protocol\<close>

text \<open>A number with leading zeros, as the server pads the parts of a date.\<close>

primrec padded :: "nat \<Rightarrow> nat \<Rightarrow> nat list" where
  "padded 0 n = []"
| "padded (Suc k) n = padded k (n div 10) @ [n mod 10]"

lemma length_padded [simp]: "length (padded k n) = k"
  by (induction k arbitrary: n) simp_all

lemma padded_below: "d \<in> set (padded k n) \<Longrightarrow> d < 10"
  by (induction k arbitrary: n) auto

lemma padded_value: "n < 10 ^ k \<Longrightarrow> foldl (\<lambda>acc d. 10 * acc + d) 0 (padded k n) = n"
  by (induction k arbitrary: n) (simp_all add: less_mult_imp_div_less mult.commute)

lemma reads_padded:
  assumes k: "0 < k" "k < 14" and n: "n < 10 ^ k"
  shows "reads (parseIntBig c N (Some k) False) (digit_bytes (padded k n)) (JNum (Num (int n)) :: ('f, 'j) js_value)"
  unfolding reads_def
proof (intro allI impI)
  fix p :: packet and pre post
  assume p: "buffer p = pre @ digit_bytes (padded k n) @ post" "offset p = length pre"
    "length pre + length (digit_bytes (padded k n)) \<le> end_pos p"
  have at: "byte_at (buffer p) (length pre + i) = Some (48 + padded k n ! i)" if "i < k" for i
    using byte_at_digits [OF p(1)] padded_below that by auto
  have "byte_at (buffer p) (length pre) \<noteq> Some minus_char" "byte_at (buffer p) (length pre) \<noteq> Some plus_char"
    using at [of 0] k by (simp_all add: minus_char_def plus_char_def)
  then have sign: "skip_minus p = (1, length pre)" "skip_plus (buffer p) (length pre) = length pre"
    using p(2) by (simp_all add: skip_minus_def skip_plus_def)
  have "n < 2 ^ 53"
    using n k power_increasing [of k 13 "10::nat"] by simp
  then have "parse_digits (buffer p) (length pre) k (Some 0) = Some (int n)"
    using parse_digits_ok [of "padded k n" "buffer p" "length pre" 0] at padded_value [OF n] by simp
  then show "parseIntBig c N (Some k) False p =
      Inr (JNum (Num (int n)), p\<lparr>offset := length pre + length (digit_bytes (padded k n))\<rparr>)"
    using k sign p(2) by (simp add: parseIntBig_def Let_def int_num_def)
qed

definition date_text :: "nat \<Rightarrow> nat \<Rightarrow> nat \<Rightarrow> bytes" where
  "date_text y m d = digit_bytes (padded 4 y) @ [45] @ digit_bytes (padded 2 m) @ [45] @ digit_bytes (padded 2 d)"

lemma reads_date_text:
  fixes D :: date_lib
  assumes "long_ok L" "y < 10000" "m < 100" "d < 100" and tz: "local_zone tz \<or> tz = Some (js ''Z'')"
  shows "reads (parseDate L c N D tz) (lcn_bytes 10 @ date_text y m d)
    (JDate ((if local_zone tz then local_date D else utc_date) (Some (int y, int m, int d, 0, 0, 0, 0))) :: ('f, 'j) js_value)"
    (is "reads _ _ ?v")
proof -
  define K :: "('f, 'j) js_value \<Rightarrow> ('f, 'j) js_value \<Rightarrow> ('f, 'j) js_value \<Rightarrow> ('f, 'j) js_value" where
    "K = (\<lambda>y m d. let f = (case (num_value y, num_value m, num_value d) of
                (Some y', Some m', Some d') \<Rightarrow> Some (y', m', d', 0, 0, 0, 0)
              | _ \<Rightarrow> None)
          in if local_zone tz then JDate (local_date D f)
             else if tz = Some (js ''Z'') then JDate (utc_date f)
             else JDate (dl_parse D (leftPad 4 (num_text (num_value y)) @ js ''-'' @
               leftPad 2 (num_text (num_value m)) @ js ''-'' @ leftPad 2 (num_text (num_value d)) @
               js ''T00:00:00'' @ zone_text tz)))"
  have K: "K (JNum (Num (int y))) (JNum (Num (int m))) (JNum (Num (int d))) = ?v"
    using tz by (auto simp: K_def num_value_def)
  have y: "reads (parseIntBig c N (Some 4) False) (digit_bytes (padded 4 y)) (JNum (Num (int y)) :: ('f, 'j) js_value)"
    and m: "reads (parseIntBig c N (Some 2) False) (digit_bytes (padded 2 m)) (JNum (Num (int m)) :: ('f, 'j) js_value)"
    and d: "reads (parseIntBig c N (Some 2) False) (digit_bytes (padded 2 d)) (JNum (Num (int d)) :: ('f, 'j) js_value)"
    using assms(2-4) by (auto intro: reads_padded)
  have dash: "reads (rskip 1) [45] ()" by (rule reads_skip) simp
  have "reads (rbind (parseIntBig c N (Some 4) False) (\<lambda>y. rbind (rskip 1) (\<lambda>_.
       rbind (parseIntBig c N (Some 2) False) (\<lambda>m. rbind (rskip 1) (\<lambda>_.
       rbind (parseIntBig c N (Some 2) False) (\<lambda>d. rret (K y m d))))))) (date_text y m d) ?v"
    unfolding date_text_def
    by (rule reads_bind [OF y], rule reads_bind [OF dash], rule reads_bind [OF m], rule reads_bind [OF dash],
        rule reads_bind_ret [OF d]) (simp only: K)
  then have "reads (if Some 10 = (None :: nat option) then rret JNull else if Some 10 \<noteq> Some (10 :: nat) then rret (JDate None) else
       rbind (parseIntBig c N (Some 4) False) (\<lambda>y. rbind (rskip 1) (\<lambda>_.
       rbind (parseIntBig c N (Some 2) False) (\<lambda>m. rbind (rskip 1) (\<lambda>_.
       rbind (parseIntBig c N (Some 2) False) (\<lambda>d. rret (K y m d))))))) (date_text y m d) ?v"
    by (simp only: option.distinct if_False simp_thms)
  then show ?thesis
    unfolding parseDate_def K_def by (rule reads_bind [OF reads_readLength [OF assms(1)], rotated]) simp
qed

text \<open>
  A DATE column \<open>0000-00-00\<close> is not an invalid date but the 30th of November 1899, where a DATETIME
  column with a zero date, and both of them in the binary protocol, are invalid dates.
\<close>

lemma zero_date_text:
  assumes "long_ok L"
  shows "reads (parseDate L c N D (Some (js ''Z''))) (lcn_bytes 10 @ date_text 0 0 0)
    (JDate (Some (- 2211753600000)) :: ('f, 'j) js_value)"
proof -
  have "\<not> local_zone (Some (js ''Z''))"
    by (simp add: local_zone_def js_def)
  moreover have "utc_date (Some (0, 0, 0, 0, 0, 0, 0)) = Some (- 2211753600000)"
    by (simp add: DateUTC_def wall_time_def full_year_def MakeDay_def MakeDate_def MakeTime_def TimeClip_def
        DayFromYear_def month_start_def leap_def MS_PER_DAY_def MS_PER_HOUR_def)
  ultimately show ?thesis
    using reads_date_text [OF assms, of 0 0 0 "Some (js ''Z'')" c N D] by simp
qed

end
