(* ===== verification/Rows.thy ===== *)
theory Rows
  imports Values
begin

text \<open>
  The row parsers: \<open>static_text_parser.js\<close> and \<open>static_binary_parser.js\<close> interpret the columns,
  \<open>text_parser.js\<close> and \<open>binary_parser.js\<close> generate code for them, and \<open>parser_cache.js\<close> keeps that
  code. A generated parser is a list of statements with its interpreter; a row is the object or
  array the statements assign to. A user's \<open>typeCast\<close> is any function of the column and of the
  readers it is handed. The order of the properties of a row is not modelled.
\<close>

section \<open>Columns and options\<close>

text \<open>What the parsers see of a column.\<close>

record row_field =
  fd_name :: jstring
  fd_table :: jstring
  fd_type :: "nat option"
  fd_charset :: nat
  fd_flags :: nat
  fd_decimals :: "nat option"
  fd_encoding :: "string option"
  fd_extendedTypeName :: "jstring option"
  fd_extendedFormat :: "jstring option"

definition field_of :: "codec \<Rightarrow> column \<Rightarrow> row_field result" where
  "field_of c d =
     (case column_string c cd_table d of
        Inl e \<Rightarrow> Inl e
      | Inr table \<Rightarrow>
          Inr \<lparr>fd_name = cd_name d, fd_table = table, fd_type = cd_columnType d, fd_charset = cd_characterSet d,
               fd_flags = cd_flags d, fd_decimals = cd_decimals d, fd_encoding = cd_encoding d,
               fd_extendedTypeName = cd_extendedTypeName d, fd_extendedFormat = cd_extendedFormat d\<rparr>)"

definition is_type :: "row_field \<Rightarrow> string \<Rightarrow> bool" where
  "is_type f name \<longleftrightarrow> fd_type f = Some (code_of Types name)"

definition BINARY :: nat where
  "BINARY = 63"

text \<open>The readers a \<open>typeCast\<close> function is handed; \<open>string\<close> without argument uses the column's encoding.\<close>

record ('f, 'j) accessors =
  acc_string :: "string option option \<Rightarrow> ('f, 'j) js_value rd"
  acc_buffer :: "('f, 'j) js_value rd"
  acc_geometry :: "('f, 'j) js_value rd"
  acc_next :: "('f, 'j) js_value rd"

datatype ('f, 'j) cast_option =
    CastUndefined
  | CastFalse
  | CastTrue
  | CastFunction "row_field \<Rightarrow> ('f, 'j) accessors \<Rightarrow> ('f, 'j) js_value rd"

datatype nest_option = NestFalse | NestTrue | NestTruthy | NestString jstring

datatype date_strings = DateStrings bool | DateStringsFor "string list"

record ('f, 'j) row_options =
  ro_rowsAsArray :: bool
  ro_nestTables :: nest_option
  ro_typeCast :: "('f, 'j) cast_option"
  ro_supportBigNumbers :: bool
  ro_bigNumberStrings :: bool
  ro_decimalNumbers :: bool
  ro_jsonStrings :: bool
  ro_timezone :: "jstring option"
  ro_dateStrings :: date_strings

text \<open>The options of the query are taken before those of the connection.\<close>

definition big_numbers :: "('f, 'j) row_options \<Rightarrow> ('f, 'j) row_options \<Rightarrow> bool" where
  "big_numbers cfg opts \<longleftrightarrow> ro_supportBigNumbers opts \<or> ro_supportBigNumbers cfg"

definition big_strings :: "('f, 'j) row_options \<Rightarrow> ('f, 'j) row_options \<Rightarrow> bool" where
  "big_strings cfg opts \<longleftrightarrow> ro_bigNumberStrings opts \<or> ro_bigNumberStrings cfg"

definition row_timezone :: "('f, 'j) row_options \<Rightarrow> ('f, 'j) row_options \<Rightarrow> jstring option" where
  "row_timezone cfg opts =
     (if ro_timezone opts = None \<or> ro_timezone opts = Some [] then ro_timezone cfg else ro_timezone opts)"

definition row_dateStrings :: "('f, 'j) row_options \<Rightarrow> ('f, 'j) row_options \<Rightarrow> date_strings" where
  "row_dateStrings cfg opts = (if ro_dateStrings opts = DateStrings False then ro_dateStrings cfg else ro_dateStrings opts)"

section \<open>helpers.js\<close>

definition typeMatch :: "nat option \<Rightarrow> date_strings \<Rightarrow> bool" where
  "typeMatch ty ds =
     (case ds of
        DateStrings b \<Rightarrow> b
      | DateStringsFor names \<Rightarrow> \<exists>t \<in> set names. map_of Types t = ty)"

definition privateObjectProps :: "jstring list" where
  "privateObjectProps =
     [js ''__defineGetter__'', js ''__defineSetter__'', js ''__lookupGetter__'', js ''__lookupSetter__'', js ''__proto__'']"

definition PrivateField :: js_error where
  "PrivateField = JsError [] ''The field name can't be the same as an object's private property.''"

text \<open>The literal \<open>srcEscape\<close> makes evaluates to the text itself.\<close>

definition fieldEscape :: "jstring \<Rightarrow> jstring result" where
  "fieldEscape s = (if s \<in> set privateObjectProps then Inl PrivateField else Inr s)"

definition srcEscape :: "jstring option \<Rightarrow> jstring" where
  "srcEscape s = zone_text s"

definition usesLocalDate :: "('f, 'j) row_options \<Rightarrow> ('f, 'j) row_options \<Rightarrow> row_field \<Rightarrow> bool" where
  "usesLocalDate cfg opts f \<longleftrightarrow>
     local_zone (row_timezone cfg opts) \<and>
     (is_type f ''DATE'' \<or> is_type f ''DATETIME'' \<or> is_type f ''TIMESTAMP'' \<or> is_type f ''NEWDATE'') \<and>
     \<not> typeMatch (fd_type f) (row_dateStrings cfg opts)"

section \<open>The values of a row\<close>

record ('f, 'j) runtime =
  rt_long :: long_lib
  rt_codec :: codec
  rt_num :: "'f num_lib"
  rt_date :: date_lib
  rt_json :: "('f, 'j) json_lib"

definition int_value :: "js_int \<Rightarrow> ('f, 'j) js_value" where
  "int_value v = (case v of IntNull \<Rightarrow> JNull | IntNum n \<Rightarrow> JNum (Num n) | IntStr s \<Rightarrow> JText s | IntNaN \<Rightarrow> JNum NaN)"

definition byte_value :: "nat option \<Rightarrow> ('f, 'j) js_value" where
  "byte_value b = (case b of None \<Rightarrow> JUndefined | Some n \<Rightarrow> JNum (Num (int n)))"

definition rmap :: "('a \<Rightarrow> 'b) \<Rightarrow> 'a rd \<Rightarrow> 'b rd" where
  "rmap f r = rbind r (\<lambda>x. rret (f x))"

definition nat_num :: "nat \<Rightarrow> ('f, 'j) js_value" where
  "nat_num n = JNum (Num (int n))"

definition int_js :: "int \<Rightarrow> ('f, 'j) js_value" where
  "int_js n = JNum (Num n)"

definition rt_string :: "('f, 'j) runtime \<Rightarrow> string option \<Rightarrow> ('f, 'j) js_value rd" where
  "rt_string R enc = readText (rt_long R) (rt_codec R) enc"

definition rt_buffer :: "('f, 'j) runtime \<Rightarrow> ('f, 'j) js_value rd" where
  "rt_buffer R = rmap (\<lambda>b. case b of None \<Rightarrow> JNull | Some bs \<Rightarrow> JBuffer bs) (readLengthCodedBuffer (rt_long R))"

definition rt_geometry :: "('f, 'j) runtime \<Rightarrow> ('f, 'j) js_value rd" where
  "rt_geometry R = parseGeometryValue (rt_long R) (rt_num R)"

definition rt_float :: "('f, 'j) runtime \<Rightarrow> ('f, 'j) js_value rd" where
  "rt_float R = parseLengthCodedFloat (rt_long R) (rt_codec R) (rt_num R)"

definition rt_vector :: "('f, 'j) runtime \<Rightarrow> ('f, 'j) js_value rd" where
  "rt_vector R = parseVector (rt_long R) (rt_num R)"

definition rt_parseJson :: "('f, 'j) runtime \<Rightarrow> string option \<Rightarrow> bool \<Rightarrow> ('f, 'j) js_value rd" where
  "rt_parseJson R enc big = parseJson (rt_long R) (rt_codec R) (rt_json R) enc big"

text \<open>\<open>readField\<close> of the text protocol.\<close>

definition readField ::
    "('f, 'j) runtime \<Rightarrow> ('f, 'j) row_options \<Rightarrow> ('f, 'j) row_options \<Rightarrow> row_field \<Rightarrow> ('f, 'j) js_value rd" where
  "readField R cfg opts f =
     (let big = big_numbers cfg opts; tz = row_timezone cfg opts; ds = row_dateStrings cfg opts in
      if fd_extendedFormat f = Some (js ''json'') then
        (if ro_jsonStrings cfg then rt_string R (fd_encoding f) else rt_parseJson R (fd_encoding f) big)
      else if is_type f ''TINY'' \<or> is_type f ''SHORT'' \<or> is_type f ''LONG'' \<or> is_type f ''INT24'' \<or> is_type f ''YEAR''
      then parseLengthCodedIntNoBigCheck (rt_long R)
      else if is_type f ''LONGLONG'' then
        (if big \<and> big_strings cfg opts then parseLengthCodedIntString (rt_long R) (rt_codec R)
         else parseLengthCodedInt (rt_long R) (rt_codec R) (rt_num R) big)
      else if is_type f ''FLOAT'' \<or> is_type f ''DOUBLE'' then rt_float R
      else if is_type f ''NULL'' \<or> is_type f ''DECIMAL'' \<or> is_type f ''NEWDECIMAL'' then
        (if ro_decimalNumbers cfg then rt_float R else rt_string R (Some ''ascii''))
      else if is_type f ''DATE'' then
        (if typeMatch (fd_type f) ds then rt_string R (Some ''ascii'')
         else parseDate (rt_long R) (rt_codec R) (rt_num R) (rt_date R) tz)
      else if is_type f ''DATETIME'' \<or> is_type f ''TIMESTAMP'' then
        (if typeMatch (fd_type f) ds then rt_string R (Some ''ascii'')
         else parseDateTime (rt_long R) (rt_codec R) (rt_date R) tz)
      else if is_type f ''TIME'' then rt_string R (Some ''ascii'')
      else if is_type f ''GEOMETRY'' then rt_geometry R
      else if is_type f ''VECTOR'' then rt_vector R
      else if is_type f ''JSON'' then
        (if ro_jsonStrings cfg then rt_string R (Some ''utf8'') else rt_parseJson R (Some ''utf8'') big)
      else if fd_charset f = BINARY then rt_buffer R
      else rt_string R (fd_encoding f))"

definition createTypecastField ::
    "('f, 'j) runtime \<Rightarrow> row_field \<Rightarrow> ('f, 'j) js_value rd \<Rightarrow> ('f, 'j) accessors" where
  "createTypecastField R f nxt =
     \<lparr>acc_string = \<lambda>enc. rt_string R (case enc of None \<Rightarrow> fd_encoding f | Some e \<Rightarrow> e),
      acc_buffer = rt_buffer R, acc_geometry = rt_geometry R, acc_next = nxt\<rparr>"

text \<open>\<open>readCode\<close> of the binary protocol.\<close>

definition is_unsigned :: "row_field \<Rightarrow> bool" where
  "is_unsigned f \<longleftrightarrow> isSet FieldFlags (fd_flags f) ''UNSIGNED''"

definition readCode ::
    "('f, 'j) runtime \<Rightarrow> ('f, 'j) row_options \<Rightarrow> ('f, 'j) row_options \<Rightarrow> row_field \<Rightarrow> ('f, 'j) js_value rd" where
  "readCode R cfg opts f =
     (let big = big_numbers cfg opts; L = rt_long R in
      if fd_extendedFormat f = Some (js ''json'') then
        (if ro_jsonStrings cfg then rt_string R (fd_encoding f) else rt_parseJson R (fd_encoding f) big)
      else if is_type f ''TINY'' then (if is_unsigned f then rmap byte_value readInt8 else rmap int_js readSInt8)
      else if is_type f ''SHORT'' then (if is_unsigned f then rmap nat_num readInt16 else rmap int_js readSInt16)
      else if is_type f ''LONG'' \<or> is_type f ''INT24'' then
        (if is_unsigned f then rmap nat_num readInt32 else rmap int_js readSInt32)
      else if is_type f ''YEAR'' then rmap nat_num readInt16
      else if is_type f ''FLOAT'' then rmap JNum (readFloat (rt_num R))
      else if is_type f ''DOUBLE'' then rmap JNum (readDouble (rt_num R))
      else if is_type f ''NULL'' then rret JNull
      else if is_type f ''DATE'' \<or> is_type f ''DATETIME'' \<or> is_type f ''TIMESTAMP'' \<or> is_type f ''NEWDATE'' then
        (if typeMatch (fd_type f) (row_dateStrings cfg opts)
         then rmap JText (readDateTimeString (fd_decimals f) None (fd_type f))
         else readDateTime (rt_date R) (row_timezone cfg opts))
      else if is_type f ''TIME'' then readTimeString False
      else if is_type f ''DECIMAL'' \<or> is_type f ''NEWDECIMAL'' then
        (if ro_decimalNumbers cfg then rt_float R else rt_string R (Some ''ascii''))
      else if is_type f ''GEOMETRY'' then rt_geometry R
      else if is_type f ''VECTOR'' then rt_vector R
      else if is_type f ''JSON'' then
        (if ro_jsonStrings cfg then rt_string R (Some ''utf8'') else rt_parseJson R (Some ''utf8'') big)
      else if is_type f ''LONGLONG'' then
        (if \<not> big then (if is_unsigned f then rmap int_js readInt64JSNumber else rmap int_js readSInt64JSNumber)
         else if big_strings cfg opts
         then (if is_unsigned f then rmap JText (readInt64String L) else rmap JText (readSInt64String L))
         else (if is_unsigned f then rmap int_value (readInt64 L) else rmap int_value (readSInt64 L)))
      else if fd_charset f = BINARY then rt_buffer R
      else rt_string R (fd_encoding f))"

text \<open>What the readers of a binary column do, and those of a NULL column, which read nothing.\<close>

definition binary_string :: "('f, 'j) runtime \<Rightarrow> row_field \<Rightarrow> string option option \<Rightarrow> ('f, 'j) js_value rd" where
  "binary_string R f enc =
     (if is_type f ''DATETIME'' \<or> is_type f ''NEWDATE'' \<or> is_type f ''TIMESTAMP'' \<or> is_type f ''DATE''
      then rmap JText (readDateTimeString (fd_decimals f) (Some (js '' '')) (fd_type f))
      else if is_type f ''TINY'' then
        (if is_unsigned f
         then rmap (\<lambda>b. JText (case b of None \<Rightarrow> js ''undefined'' | Some n \<Rightarrow> int_to_string (int n))) readInt8
         else rmap (\<lambda>n. JText (int_to_string n)) readSInt8)
      else if is_type f ''TIME'' then readTimeString False
      else rt_string R (case enc of None \<Rightarrow> fd_encoding f | Some e \<Rightarrow> e))"

definition binary_field ::
    "('f, 'j) runtime \<Rightarrow> row_field \<Rightarrow> ('f, 'j) js_value rd \<Rightarrow> ('f, 'j) accessors" where
  "binary_field R f nxt =
     \<lparr>acc_string = binary_string R f, acc_buffer = rt_buffer R, acc_geometry = rt_geometry R, acc_next = nxt\<rparr>"

definition wrapNull :: "('f, 'j) accessors" where
  "wrapNull = \<lparr>acc_string = \<lambda>_. rret JNull, acc_buffer = rret JNull, acc_geometry = rret JNull, acc_next = rret JNull\<rparr>"

section \<open>Rows\<close>

text \<open>
  A row: the items of an array (holes are \<open>None\<close>), the properties of an object, the objects nested
  in it by table, and the writes that went to an object of the runtime instead: \<open>result[table]\<close> of a
  plain object is truthy for the names every object inherits.
\<close>

record ('f, 'j) row =
  row_items :: "('f, 'j) js_value option list"
  row_props :: "jstring \<rightharpoonup> ('f, 'j) js_value"
  row_tables :: "jstring \<rightharpoonup> (jstring \<rightharpoonup> ('f, 'j) js_value)"
  row_shared :: "(jstring \<times> jstring \<times> ('f, 'j) js_value) list"

datatype lvalue = LIndex nat | LKey jstring | LNested jstring jstring

definition empty_row :: "('f, 'j) row" where
  "empty_row = \<lparr>row_items = [], row_props = Map.empty, row_tables = Map.empty, row_shared = []\<rparr>"

definition inherited :: "jstring list" where
  "inherited = [js ''constructor'', js ''hasOwnProperty'', js ''isPrototypeOf'', js ''propertyIsEnumerable'',
     js ''toLocaleString'', js ''toString'', js ''valueOf'']"

definition put_item :: "nat \<Rightarrow> 'v \<Rightarrow> 'v option list \<Rightarrow> 'v option list" where
  "put_item i v xs = (if i < length xs then xs[i := Some v] else xs @ replicate (i - length xs) None @ [Some v])"

fun put :: "lvalue \<Rightarrow> ('f, 'j) js_value \<Rightarrow> ('f, 'j) row \<Rightarrow> ('f, 'j) row" where
  "put (LIndex i) v r = r\<lparr>row_items := put_item i v (row_items r)\<rparr>"
| "put (LKey k) v r = r\<lparr>row_props := (row_props r)(k \<mapsto> v)\<rparr>"
| "put (LNested t k) v r =
     (case row_tables r t of
        Some obj \<Rightarrow> r\<lparr>row_tables := (row_tables r)(t \<mapsto> obj(k \<mapsto> v))\<rparr>
      | None \<Rightarrow>
          if t \<in> set inherited then r\<lparr>row_shared := row_shared r @ [(t, k, v)]\<rparr>
          else r\<lparr>row_tables := (row_tables r)(t \<mapsto> [k \<mapsto> v])\<rparr>)"

definition nested_key :: "row_field \<Rightarrow> lvalue result" where
  "nested_key f =
     (case (fieldEscape (fd_table f), fieldEscape (fd_name f)) of
        (Inr t, Inr k) \<Rightarrow> Inr (LNested t k)
      | (Inl e, _) \<Rightarrow> Inl e
      | (_, Inl e) \<Rightarrow> Inl e)"

definition plain_key :: "jstring \<Rightarrow> lvalue result" where
  "plain_key s = (case fieldEscape s of Inl e \<Rightarrow> Inl e | Inr k \<Rightarrow> Inr (LKey k))"

section \<open>The static parsers\<close>

definition text_lvalue :: "('f, 'j) row_options \<Rightarrow> nat \<Rightarrow> row_field \<Rightarrow> lvalue result" where
  "text_lvalue opts i f =
     (if ro_rowsAsArray opts then Inr (LIndex i)
      else case ro_nestTables opts of
          NestString sep \<Rightarrow>
            (case (fieldEscape (fd_table f), fieldEscape (fd_name f)) of
               (Inr t, Inr k) \<Rightarrow> Inr (LKey (t @ sep @ k))
             | (Inl e, _) \<Rightarrow> Inl e
             | (_, Inl e) \<Rightarrow> Inl e)
        | NestFalse \<Rightarrow> plain_key (fd_name f)
        | _ \<Rightarrow> nested_key f)"

definition text_value ::
    "('f, 'j) runtime \<Rightarrow> ('f, 'j) row_options \<Rightarrow> ('f, 'j) row_options \<Rightarrow> row_field \<Rightarrow> ('f, 'j) js_value rd" where
  "text_value R cfg opts f =
     (let nxt = readField R cfg opts f;
          cast = (case ro_typeCast opts of CastTrue \<Rightarrow> CastTrue | CastFunction tc \<Rightarrow> CastFunction tc | _ \<Rightarrow> ro_typeCast cfg)
      in if ro_typeCast opts = CastFalse then rt_buffer R
         else case cast of
             CastFunction tc \<Rightarrow> tc f (createTypecastField R f nxt)
           | _ \<Rightarrow> nxt)"

fun text_fields ::
    "('f, 'j) runtime \<Rightarrow> ('f, 'j) row_options \<Rightarrow> ('f, 'j) row_options \<Rightarrow> nat \<Rightarrow> row_field list \<Rightarrow>
     ('f, 'j) row \<Rightarrow> ('f, 'j) row rd" where
  "text_fields R cfg opts i [] row = rret row"
| "text_fields R cfg opts i (f # fs) row =
     rbind (text_value R cfg opts f) (\<lambda>v.
       case text_lvalue opts i f of
         Inl e \<Rightarrow> (\<lambda>_. Inl e)
       | Inr l \<Rightarrow> text_fields R cfg opts (i + 1) fs (put l v row))"

definition static_text_next ::
    "('f, 'j) runtime \<Rightarrow> ('f, 'j) row_options \<Rightarrow> ('f, 'j) row_options \<Rightarrow> row_field list \<Rightarrow> ('f, 'j) row rd" where
  "static_text_next R cfg opts fs = text_fields R cfg opts 0 fs empty_row"

text \<open>The null bitmap: bit and byte of a column, from bit 4 of the first byte on.\<close>

definition next_bit :: "nat \<times> nat \<Rightarrow> nat \<times> nat" where
  "next_bit = (\<lambda>(b, byte). if b * 2 = 256 then (1, byte + 1) else (b * 2, byte))"

fun read_mask :: "nat \<Rightarrow> nat option list rd" where
  "read_mask 0 = rret []"
| "read_mask (Suc n) = rbind readInt8 (\<lambda>b. rbind (read_mask n) (\<lambda>bs. rret (b # bs)))"

definition nullBitmapLength :: "row_field list \<Rightarrow> nat" where
  "nullBitmapLength fs = (length fs + 7 + 2) div 8"

definition is_null :: "nat option list \<Rightarrow> nat \<times> nat \<Rightarrow> bool" where
  "is_null bitmap = (\<lambda>(b, byte). byte < length bitmap \<and> bits_of (bitmap ! byte) AND b \<noteq> 0)"

definition binary_lvalue :: "('f, 'j) row_options \<Rightarrow> nat \<Rightarrow> row_field \<Rightarrow> lvalue result" where
  "binary_lvalue opts i f =
     (if ro_rowsAsArray opts then Inr (LIndex i)
      else case ro_nestTables opts of
          NestString sep \<Rightarrow> plain_key (fd_table f @ sep @ fd_name f)
        | NestTrue \<Rightarrow> nested_key f
        | _ \<Rightarrow> plain_key (fd_name f))"

definition binary_value ::
    "('f, 'j) runtime \<Rightarrow> ('f, 'j) row_options \<Rightarrow> ('f, 'j) row_options \<Rightarrow> bool \<Rightarrow> row_field \<Rightarrow> ('f, 'j) js_value rd" where
  "binary_value R cfg opts isnull f =
     (let cast = (case ro_typeCast opts of CastUndefined \<Rightarrow> ro_typeCast cfg | c \<Rightarrow> c); nxt = readCode R cfg opts f in
      if isnull then (case cast of CastFunction tc \<Rightarrow> tc f wrapNull | _ \<Rightarrow> rret JNull)
      else if ro_typeCast opts = CastFalse then rt_buffer R
      else case cast of CastFunction tc \<Rightarrow> tc f (binary_field R f nxt) | _ \<Rightarrow> nxt)"

fun binary_fields ::
    "('f, 'j) runtime \<Rightarrow> ('f, 'j) row_options \<Rightarrow> ('f, 'j) row_options \<Rightarrow> nat option list \<Rightarrow> nat \<times> nat \<Rightarrow> nat \<Rightarrow>
     row_field list \<Rightarrow> ('f, 'j) row \<Rightarrow> ('f, 'j) row rd" where
  "binary_fields R cfg opts bitmap pos i [] row = rret row"
| "binary_fields R cfg opts bitmap pos i (f # fs) row =
     rbind (binary_value R cfg opts (is_null bitmap pos) f) (\<lambda>v.
       case binary_lvalue opts i f of
         Inl e \<Rightarrow> (\<lambda>_. Inl e)
       | Inr l \<Rightarrow> binary_fields R cfg opts bitmap (next_bit pos) (i + 1) fs (put l v row))"

definition array_row :: "nat \<Rightarrow> ('f, 'j) row" where
  "array_row n = empty_row\<lparr>row_items := replicate n None\<rparr>"

definition static_binary_next ::
    "('f, 'j) runtime \<Rightarrow> ('f, 'j) row_options \<Rightarrow> ('f, 'j) row_options \<Rightarrow> row_field list \<Rightarrow> ('f, 'j) row rd" where
  "static_binary_next R cfg opts fs =
     rbind readInt8 (\<lambda>_. rbind (read_mask (nullBitmapLength fs)) (\<lambda>bitmap.
       binary_fields R cfg opts bitmap (4, 0) 0 fs
         (if ro_rowsAsArray opts then array_row (length fs) else empty_row)))"

section \<open>Generated code\<close>

datatype encoding_expr = EncodingText string | EncodingOf nat

datatype read_code =
    CodeString encoding_expr
  | CodeBuffer
  | CodeJson encoding_expr bool
  | CodeIntNoBig
  | CodeIntString
  | CodeInt bool
  | CodeFloat
  | CodeNumber
  | CodeDate jstring
  | CodeDateTime jstring
  | CodeGeometry
  | CodeVector
  | CodeNull
  | CodeUInt8
  | CodeSInt8
  | CodeUInt16
  | CodeSInt16
  | CodeUInt32
  | CodeSInt32
  | CodeRealFloat
  | CodeRealDouble
  | CodeDateTimeString "nat option" "nat option"
  | CodeReadDateTime jstring
  | CodeTimeString
  | CodeInt64JSNumber
  | CodeSInt64JSNumber
  | CodeInt64String
  | CodeSInt64String
  | CodeInt64
  | CodeSInt64

definition eval_encoding :: "row_field list \<Rightarrow> encoding_expr \<Rightarrow> string option" where
  "eval_encoding cols e =
     (case e of EncodingText s \<Rightarrow> Some s | EncodingOf i \<Rightarrow> if i < length cols then fd_encoding (cols ! i) else None)"

fun eval_code :: "('f, 'j) runtime \<Rightarrow> row_field list \<Rightarrow> read_code \<Rightarrow> ('f, 'j) js_value rd" where
  "eval_code R cols (CodeString e) = rt_string R (eval_encoding cols e)"
| "eval_code R cols CodeBuffer = rt_buffer R"
| "eval_code R cols (CodeJson e big) = rt_parseJson R (eval_encoding cols e) big"
| "eval_code R cols CodeIntNoBig = parseLengthCodedIntNoBigCheck (rt_long R)"
| "eval_code R cols CodeIntString = parseLengthCodedIntString (rt_long R) (rt_codec R)"
| "eval_code R cols (CodeInt big) = parseLengthCodedInt (rt_long R) (rt_codec R) (rt_num R) big"
| "eval_code R cols CodeFloat = rt_float R"
| "eval_code R cols CodeNumber = rmap int_value (readLengthCodedNumber (rt_long R) False False)"
| "eval_code R cols (CodeDate tz) = parseDate (rt_long R) (rt_codec R) (rt_num R) (rt_date R) (Some tz)"
| "eval_code R cols (CodeDateTime tz) = parseDateTime (rt_long R) (rt_codec R) (rt_date R) (Some tz)"
| "eval_code R cols CodeGeometry = rt_geometry R"
| "eval_code R cols CodeVector = rt_vector R"
| "eval_code R cols CodeNull = rret JNull"
| "eval_code R cols CodeUInt8 = rmap byte_value readInt8"
| "eval_code R cols CodeSInt8 = rmap int_js readSInt8"
| "eval_code R cols CodeUInt16 = rmap nat_num readInt16"
| "eval_code R cols CodeSInt16 = rmap int_js readSInt16"
| "eval_code R cols CodeUInt32 = rmap nat_num readInt32"
| "eval_code R cols CodeSInt32 = rmap int_js readSInt32"
| "eval_code R cols CodeRealFloat = rmap JNum (readFloat (rt_num R))"
| "eval_code R cols CodeRealDouble = rmap JNum (readDouble (rt_num R))"
| "eval_code R cols (CodeDateTimeString dec ty) = rmap JText (readDateTimeString dec None ty)"
| "eval_code R cols (CodeReadDateTime tz) = readDateTime (rt_date R) (Some tz)"
| "eval_code R cols CodeTimeString = readTimeString False"
| "eval_code R cols CodeInt64JSNumber = rmap int_js readInt64JSNumber"
| "eval_code R cols CodeSInt64JSNumber = rmap int_js readSInt64JSNumber"
| "eval_code R cols CodeInt64String = rmap JText (readInt64String (rt_long R))"
| "eval_code R cols CodeSInt64String = rmap JText (readSInt64String (rt_long R))"
| "eval_code R cols CodeInt64 = rmap int_value (readInt64 (rt_long R))"
| "eval_code R cols CodeSInt64 = rmap int_value (readSInt64 (rt_long R))"

definition text_readCodeFor ::
    "row_field \<Rightarrow> encoding_expr \<Rightarrow> ('f, 'j) row_options \<Rightarrow> ('f, 'j) row_options \<Rightarrow> read_code" where
  "text_readCodeFor f e cfg opts =
     (let big = big_numbers cfg opts; tz = srcEscape (row_timezone cfg opts); ds = row_dateStrings cfg opts in
      if fd_extendedFormat f = Some (js ''json'') then
        (if ro_jsonStrings cfg then CodeString e else CodeJson e big)
      else if is_type f ''TINY'' \<or> is_type f ''SHORT'' \<or> is_type f ''LONG'' \<or> is_type f ''INT24'' \<or> is_type f ''YEAR''
      then CodeIntNoBig
      else if is_type f ''LONGLONG'' then (if big \<and> big_strings cfg opts then CodeIntString else CodeInt big)
      else if is_type f ''FLOAT'' \<or> is_type f ''DOUBLE'' then CodeFloat
      else if is_type f ''NULL'' then CodeNumber
      else if is_type f ''DECIMAL'' \<or> is_type f ''NEWDECIMAL'' then
        (if ro_decimalNumbers cfg then CodeFloat else CodeString (EncodingText ''ascii''))
      else if is_type f ''DATE'' then
        (if typeMatch (fd_type f) ds then CodeString (EncodingText ''ascii'') else CodeDate tz)
      else if is_type f ''DATETIME'' \<or> is_type f ''TIMESTAMP'' then
        (if typeMatch (fd_type f) ds then CodeString (EncodingText ''ascii'') else CodeDateTime tz)
      else if is_type f ''TIME'' then CodeString (EncodingText ''ascii'')
      else if is_type f ''GEOMETRY'' then CodeGeometry
      else if is_type f ''VECTOR'' then CodeVector
      else if is_type f ''JSON'' then
        (if ro_jsonStrings cfg then CodeString (EncodingText ''utf8'') else CodeJson (EncodingText ''utf8'') big)
      else if fd_charset f = BINARY then CodeBuffer
      else CodeString e)"

definition binary_readCodeFor ::
    "row_field \<Rightarrow> encoding_expr \<Rightarrow> ('f, 'j) row_options \<Rightarrow> ('f, 'j) row_options \<Rightarrow> read_code" where
  "binary_readCodeFor f e cfg opts =
     (let big = big_numbers cfg opts; unsig = is_unsigned f in
      if fd_extendedFormat f = Some (js ''json'') then
        (if ro_jsonStrings cfg then CodeString e else CodeJson e big)
      else if is_type f ''TINY'' then (if unsig then CodeUInt8 else CodeSInt8)
      else if is_type f ''SHORT'' then (if unsig then CodeUInt16 else CodeSInt16)
      else if is_type f ''LONG'' \<or> is_type f ''INT24'' then (if unsig then CodeUInt32 else CodeSInt32)
      else if is_type f ''YEAR'' then CodeUInt16
      else if is_type f ''FLOAT'' then CodeRealFloat
      else if is_type f ''DOUBLE'' then CodeRealDouble
      else if is_type f ''NULL'' then CodeNull
      else if is_type f ''DATE'' \<or> is_type f ''DATETIME'' \<or> is_type f ''TIMESTAMP'' \<or> is_type f ''NEWDATE'' then
        (if typeMatch (fd_type f) (row_dateStrings cfg opts) then CodeDateTimeString (fd_decimals f) (fd_type f)
         else CodeReadDateTime (srcEscape (row_timezone cfg opts)))
      else if is_type f ''TIME'' then CodeTimeString
      else if is_type f ''DECIMAL'' \<or> is_type f ''NEWDECIMAL'' then
        (if ro_decimalNumbers cfg then CodeFloat else CodeString (EncodingText ''ascii''))
      else if is_type f ''GEOMETRY'' then CodeGeometry
      else if is_type f ''VECTOR'' then CodeVector
      else if is_type f ''JSON'' then
        (if ro_jsonStrings cfg then CodeString (EncodingText ''utf8'') else CodeJson (EncodingText ''utf8'') big)
      else if is_type f ''LONGLONG'' then
        (if \<not> big then (if unsig then CodeInt64JSNumber else CodeSInt64JSNumber)
         else if big_strings cfg opts then (if unsig then CodeInt64String else CodeSInt64String)
         else (if unsig then CodeInt64 else CodeSInt64))
      else if fd_charset f = BINARY then CodeBuffer
      else CodeString e)"

text \<open>
  A generated statement: what is read into which place. A cast statement hands the wrapper of its
  column to \<open>options.typeCast\<close>, which is looked up when the row is parsed.
\<close>

datatype stmt = StmtBuffer | StmtRead read_code | StmtCast nat read_code

record text_program =
  tp_array :: "nat option"
  tp_tables :: "jstring list"
  tp_checkTimezone :: bool
  tp_stmts :: "(lvalue \<times> stmt) list"

record binary_program =
  bp_array :: "nat option"
  bp_checkTimezone :: bool
  bp_bitmap :: nat
  bp_nullCast :: bool
  bp_stmts :: "((nat \<times> nat) \<times> lvalue \<times> stmt) list"

definition is_function :: "('f, 'j) cast_option \<Rightarrow> bool" where
  "is_function c = (case c of CastFunction _ \<Rightarrow> True | _ \<Rightarrow> False)"

text \<open>\<open>compile\<close> stores a global \<open>typeCast\<close> function in the options of the query.\<close>

definition take_cast :: "('f, 'j) row_options \<Rightarrow> ('f, 'j) row_options \<Rightarrow> ('f, 'j) row_options" where
  "take_cast cfg opts =
     (if is_function (ro_typeCast cfg) \<and> \<not> is_function (ro_typeCast opts)
      then opts\<lparr>ro_typeCast := ro_typeCast cfg\<rparr> else opts)"

definition compiled_lvalue :: "('f, 'j) row_options \<Rightarrow> nat \<Rightarrow> row_field \<Rightarrow> lvalue result" where
  "compiled_lvalue opts i f =
     (case fieldEscape (fd_name f) of
        Inl e \<Rightarrow> Inl e
      | Inr k \<Rightarrow>
          (case ro_nestTables opts of
             NestString sep \<Rightarrow> plain_key (fd_table f @ sep @ fd_name f)
           | NestTrue \<Rightarrow> nested_key f
           | _ \<Rightarrow> if ro_rowsAsArray opts then Inr (LIndex i) else Inr (LKey k)))"

definition compiled_stmt :: "('f, 'j) row_options \<Rightarrow> nat \<Rightarrow> read_code \<Rightarrow> stmt" where
  "compiled_stmt opts i code =
     (case ro_typeCast opts of
        CastFalse \<Rightarrow> StmtBuffer
      | CastFunction _ \<Rightarrow> StmtCast i code
      | _ \<Rightarrow> StmtRead code)"

fun escape_all :: "jstring list \<Rightarrow> jstring list result" where
  "escape_all [] = Inr []"
| "escape_all (t # ts) =
     (case (fieldEscape t, escape_all ts) of
        (Inr u, Inr us) \<Rightarrow> Inr (u # us)
      | (Inl e, _) \<Rightarrow> Inl e
      | (_, Inl e) \<Rightarrow> Inl e)"

fun text_stmts ::
    "('f, 'j) row_options \<Rightarrow> ('f, 'j) row_options \<Rightarrow> nat \<Rightarrow> row_field list \<Rightarrow> (lvalue \<times> stmt) list result" where
  "text_stmts cfg opts i [] = Inr []"
| "text_stmts cfg opts i (f # fs) =
     (case compiled_lvalue opts i f of
        Inl e \<Rightarrow> Inl e
      | Inr l \<Rightarrow>
          (case text_stmts cfg opts (i + 1) fs of
             Inl e \<Rightarrow> Inl e
           | Inr rest \<Rightarrow> Inr ((l, compiled_stmt opts i (text_readCodeFor f (EncodingOf i) cfg opts)) # rest)))"

definition compile_text ::
    "row_field list \<Rightarrow> ('f, 'j) row_options \<Rightarrow> ('f, 'j) row_options \<Rightarrow> (text_program \<times> ('f, 'j) row_options) result" where
  "compile_text cols opts0 cfg =
     (let opts = take_cast cfg opts0 in
      case (if ro_nestTables opts = NestTrue then escape_all (remdups (map fd_table cols)) else Inr []) of
        Inl e \<Rightarrow> Inl e
      | Inr tables \<Rightarrow>
          (case text_stmts cfg opts 0 cols of
             Inl e \<Rightarrow> Inl e
           | Inr stmts \<Rightarrow>
               Inr (\<lparr>tp_array = (if ro_rowsAsArray opts then Some (length cols) else None), tp_tables = tables,
                     tp_checkTimezone = list_ex (usesLocalDate cfg opts) cols, tp_stmts = stmts\<rparr>, opts)))"

fun binary_stmts ::
    "('f, 'j) row_options \<Rightarrow> ('f, 'j) row_options \<Rightarrow> nat \<times> nat \<Rightarrow> nat \<Rightarrow> row_field list \<Rightarrow>
     ((nat \<times> nat) \<times> lvalue \<times> stmt) list result" where
  "binary_stmts cfg opts pos i [] = Inr []"
| "binary_stmts cfg opts pos i (f # fs) =
     (case compiled_lvalue opts i f of
        Inl e \<Rightarrow> Inl e
      | Inr l \<Rightarrow>
          (case binary_stmts cfg opts (next_bit pos) (i + 1) fs of
             Inl e \<Rightarrow> Inl e
           | Inr rest \<Rightarrow>
               Inr ((pos, l, compiled_stmt opts i (binary_readCodeFor f (EncodingOf i) cfg opts)) # rest)))"

definition compile_binary ::
    "row_field list \<Rightarrow> ('f, 'j) row_options \<Rightarrow> ('f, 'j) row_options \<Rightarrow> (binary_program \<times> ('f, 'j) row_options) result" where
  "compile_binary cols opts0 cfg =
     (let opts = take_cast cfg opts0 in
      case binary_stmts cfg opts (4, 0) 0 cols of
        Inl e \<Rightarrow> Inl e
      | Inr stmts \<Rightarrow>
          Inr (\<lparr>bp_array = (if ro_rowsAsArray opts then Some (length cols) else None),
                bp_checkTimezone = list_ex (usesLocalDate cfg opts) cols, bp_bitmap = nullBitmapLength cols,
                bp_nullCast = is_function (ro_typeCast opts), bp_stmts = stmts\<rparr>, opts))"

text \<open>Running generated code on a packet.\<close>

definition run_stmt ::
    "('f, 'j) runtime \<Rightarrow> row_field list \<Rightarrow> ('f, 'j) row_options \<Rightarrow>
     (row_field \<Rightarrow> ('f, 'j) js_value rd \<Rightarrow> ('f, 'j) accessors) \<Rightarrow> stmt \<Rightarrow> ('f, 'j) js_value rd" where
  "run_stmt R cols opts wrap st =
     (case st of
        StmtBuffer \<Rightarrow> rt_buffer R
      | StmtRead code \<Rightarrow> eval_code R cols code
      | StmtCast i code \<Rightarrow>
          (case ro_typeCast opts of
             CastFunction tc \<Rightarrow> tc (cols ! i) (wrap (cols ! i) (eval_code R cols code))
           | _ \<Rightarrow> (\<lambda>_. Inl TypeError)))"

fun run_text_stmts ::
    "('f, 'j) runtime \<Rightarrow> row_field list \<Rightarrow> ('f, 'j) row_options \<Rightarrow> (lvalue \<times> stmt) list \<Rightarrow>
     ('f, 'j) row \<Rightarrow> ('f, 'j) row rd" where
  "run_text_stmts R cols opts [] row = rret row"
| "run_text_stmts R cols opts ((l, st) # rest) row =
     rbind (run_stmt R cols opts (createTypecastField R) st) (\<lambda>v. run_text_stmts R cols opts rest (put l v row))"

definition start_row :: "nat option \<Rightarrow> jstring list \<Rightarrow> ('f, 'j) row" where
  "start_row n tables =
     (case n of None \<Rightarrow> empty_row | Some k \<Rightarrow> array_row k)
       \<lparr>row_tables := (\<lambda>t. if t \<in> set tables then Some Map.empty else None)\<rparr>"

definition run_text ::
    "('f, 'j) runtime \<Rightarrow> row_field list \<Rightarrow> ('f, 'j) row_options \<Rightarrow> text_program \<Rightarrow> ('f, 'j) row rd" where
  "run_text R cols opts prog = run_text_stmts R cols opts (tp_stmts prog) (start_row (tp_array prog) (tp_tables prog))"

fun run_binary_stmts ::
    "('f, 'j) runtime \<Rightarrow> row_field list \<Rightarrow> ('f, 'j) row_options \<Rightarrow> bool \<Rightarrow> nat option list \<Rightarrow> nat \<Rightarrow>
     ((nat \<times> nat) \<times> lvalue \<times> stmt) list \<Rightarrow> ('f, 'j) row \<Rightarrow> ('f, 'j) row rd" where
  "run_binary_stmts R cols opts nullCast bitmap i [] row = rret row"
| "run_binary_stmts R cols opts nullCast bitmap i ((pos, l, st) # rest) row =
     rbind
       (if is_null bitmap pos then
          (if nullCast
           then (case ro_typeCast opts of
                   CastFunction tc \<Rightarrow> tc (cols ! i) wrapNull
                 | _ \<Rightarrow> (\<lambda>_. Inl TypeError))
           else rret JNull)
        else run_stmt R cols opts (binary_field R) st)
       (\<lambda>v. run_binary_stmts R cols opts nullCast bitmap (i + 1) rest (put l v row))"

definition run_binary ::
    "('f, 'j) runtime \<Rightarrow> row_field list \<Rightarrow> ('f, 'j) row_options \<Rightarrow> binary_program \<Rightarrow> ('f, 'j) row rd" where
  "run_binary R cols opts prog =
     rbind readInt8 (\<lambda>_. rbind (read_mask (bp_bitmap prog)) (\<lambda>bitmap.
       run_binary_stmts R cols opts (bp_nullCast prog) bitmap 0 (bp_stmts prog) (start_row (bp_array prog) [])))"

section \<open>Generated code does what the static parsers do\<close>

text \<open>
  Where the two may be compared: a global \<open>typeCast\<close> function is not overridden by a boolean of the
  query, there is a time zone, \<open>nestTables\<close> is false, true or a separator and not combined with
  \<open>rowsAsArray\<close>, and no column, table or key has a private name.
\<close>

definition public_name :: "jstring \<Rightarrow> bool" where
  "public_name s \<longleftrightarrow> s \<notin> set privateObjectProps"

definition public_field :: "('f, 'j) row_options \<Rightarrow> row_field \<Rightarrow> bool" where
  "public_field opts f \<longleftrightarrow> public_name (fd_name f) \<and>
     (case ro_nestTables opts of
        NestString sep \<Rightarrow> public_name (fd_table f) \<and> public_name (fd_table f @ sep @ fd_name f)
      | NestTrue \<Rightarrow> public_name (fd_table f)
      | _ \<Rightarrow> True)"

definition comparable :: "('f, 'j) row_options \<Rightarrow> ('f, 'j) row_options \<Rightarrow> row_field list \<Rightarrow> bool" where
  "comparable cfg opts cols \<longleftrightarrow>
     (is_function (ro_typeCast cfg) \<longrightarrow> ro_typeCast opts = CastUndefined \<or> is_function (ro_typeCast opts)) \<and>
     row_timezone cfg opts \<noteq> None \<and> ro_nestTables opts \<noteq> NestTruthy \<and>
     (ro_rowsAsArray opts \<longrightarrow> ro_nestTables opts = NestFalse) \<and> list_all (public_field opts) cols"

lemma take_cast_simps [simp]:
  "ro_nestTables (take_cast cfg opts) = ro_nestTables opts" "ro_rowsAsArray (take_cast cfg opts) = ro_rowsAsArray opts"
  "big_numbers cfg (take_cast cfg opts) = big_numbers cfg opts" "big_strings cfg (take_cast cfg opts) = big_strings cfg opts"
  "row_timezone cfg (take_cast cfg opts) = row_timezone cfg opts"
  "row_dateStrings cfg (take_cast cfg opts) = row_dateStrings cfg opts"
  by (auto simp: take_cast_def big_numbers_def big_strings_def row_timezone_def row_dateStrings_def)

lemma fieldEscape_public: "public_name s \<Longrightarrow> fieldEscape s = Inr s"
  by (simp add: fieldEscape_def public_name_def)

lemma zone_literal: "tz \<noteq> None \<Longrightarrow> Some (srcEscape tz) = tz"
  by (auto simp: srcEscape_def zone_text_def)

lemma text_code:
  assumes "i < length cols" "cols ! i = f" "row_timezone cfg opts \<noteq> None" "\<not> is_type f ''NULL''"
  shows "eval_code R cols (text_readCodeFor f (EncodingOf i) cfg (take_cast cfg opts)) = readField R cfg opts f"
  using assms
  by (simp add: text_readCodeFor_def readField_def Let_def eval_encoding_def zone_literal if_distrib [of "eval_code R cols"]
      cong: if_cong)

lemma binary_code:
  assumes "i < length cols" "cols ! i = f" "row_timezone cfg opts \<noteq> None"
  shows "eval_code R cols (binary_readCodeFor f (EncodingOf i) cfg (take_cast cfg opts)) = readCode R cfg opts f"
  using assms
  by (simp add: binary_readCodeFor_def readCode_def Let_def eval_encoding_def zone_literal if_distrib [of "eval_code R cols"]
      cong: if_cong)

lemma text_stmt:
  assumes "comparable cfg opts cols" "i < length cols" "cols ! i = f" "\<not> is_type f ''NULL''"
  shows "run_stmt R cols (take_cast cfg opts) (createTypecastField R)
      (compiled_stmt (take_cast cfg opts) i (text_readCodeFor f (EncodingOf i) cfg (take_cast cfg opts))) =
    text_value R cfg opts f"
proof -
  have code: "eval_code R cols (text_readCodeFor f (EncodingOf i) cfg (take_cast cfg opts)) = readField R cfg opts f"
    using assms by (intro text_code) (simp_all add: comparable_def)
  then show ?thesis
    using assms(1,3)
    by (cases "ro_typeCast cfg"; cases "ro_typeCast opts")
      (simp_all add: comparable_def is_function_def compiled_stmt_def run_stmt_def text_value_def Let_def
        take_cast_def [of cfg opts, unfolded is_function_def])
qed

text \<open>
  The generated text parser starts from an array of holes and from empty objects for its tables;
  \<open>prefill\<close> adds to a row what is still to be assigned.
\<close>

definition prefill :: "jstring set \<Rightarrow> nat \<Rightarrow> ('f, 'j) row \<Rightarrow> ('f, 'j) row" where
  "prefill ts n r = r\<lparr>row_items := row_items r @ replicate n None,
     row_tables := (\<lambda>t. case row_tables r t of Some obj \<Rightarrow> Some obj | None \<Rightarrow> if t \<in> ts then Some Map.empty else None)\<rparr>"

lemma prefill_none: "prefill {} 0 r = r"
proof -
  have "(\<lambda>t. case row_tables r t of Some obj \<Rightarrow> Some obj | None \<Rightarrow> if t \<in> {} then Some Map.empty else None) = row_tables r"
    by (rule ext) (simp split: option.splits)
  then show ?thesis by (simp add: prefill_def)
qed

lemma put_item_last: "put_item (length xs) v (xs @ replicate (Suc n) None) = (xs @ [Some v]) @ replicate n None"
  by (simp add: put_item_def list_update_append)

lemma put_item_end: "put_item (length xs) v xs = xs @ [Some v]"
  by (simp add: put_item_def)

lemma put_index_prefill:
  "put (LIndex (length (row_items r))) v (prefill {} (Suc n) r) =
   prefill {} n (put (LIndex (length (row_items r))) v r)"
  by (simp add: prefill_def put_item_last put_item_end del: replicate_Suc)

lemma put_nested_prefill:
  assumes "t \<notin> set inherited"
  shows "put (LNested t k) v (prefill (insert t ts) 0 r) = prefill ts 0 (put (LNested t k) v r)"
  using assms by (auto simp: prefill_def fun_eq_iff split: option.splits)

text \<open>The lvalues of the two parsers, and what an assignment does to a prefilled row.\<close>

definition with_tables :: "('f, 'j) row_options \<Rightarrow> row_field list \<Rightarrow> ('f, 'j) row \<Rightarrow> ('f, 'j) row" where
  "with_tables opts fs r =
     prefill (if ro_nestTables opts = NestTrue then set (map fd_table fs) else {})
       (if ro_rowsAsArray opts then length fs else 0) r"

lemma text_assign:
  assumes "comparable cfg opts (f # fs)" "ro_nestTables opts = NestTrue \<longrightarrow> fd_table f \<notin> set inherited"
    and "ro_rowsAsArray opts \<longrightarrow> length (row_items r) = i"
  shows "\<exists>l. compiled_lvalue (take_cast cfg opts) i f = Inr l \<and> text_lvalue opts i f = Inr l \<and>
    (\<forall>v. put l v (with_tables opts (f # fs) r) = with_tables opts fs (put l v r) \<and>
      (ro_rowsAsArray opts \<longrightarrow> length (row_items (put l v r)) = i + 1))"
proof (cases "ro_rowsAsArray opts")
  case True
  then have "ro_nestTables opts = NestFalse" "public_name (fd_name f)"
    using assms(1) by (auto simp: comparable_def public_field_def)
  then show ?thesis
    using True assms(3) put_index_prefill [of r _ "length fs"]
    by (auto simp: compiled_lvalue_def text_lvalue_def fieldEscape_public with_tables_def put_item_end simp del: replicate_Suc)
next
  case False
  have pub: "public_field opts f" and nest: "ro_nestTables opts \<noteq> NestTruthy"
    using assms(1) by (auto simp: comparable_def)
  show ?thesis
  proof (cases "ro_nestTables opts")
    case NestFalse
    then show ?thesis
      using False pub by (simp add: compiled_lvalue_def text_lvalue_def plain_key_def public_field_def fieldEscape_public
        with_tables_def prefill_none)
  next
    case NestTrue
    then show ?thesis
      using False pub assms(2) by (simp add: compiled_lvalue_def text_lvalue_def nested_key_def public_field_def fieldEscape_public
        with_tables_def put_nested_prefill del: put.simps)
  next
    case NestTruthy
    with nest show ?thesis by simp
  next
    case (NestString sep)
    then show ?thesis
      using False pub by (simp add: compiled_lvalue_def text_lvalue_def plain_key_def public_field_def fieldEscape_public
        with_tables_def prefill_none)
  qed
qed

lemma text_stmts_run:
  assumes ok: "comparable cfg opts cols" "\<forall>f\<in>set cols. \<not> is_type f ''NULL''"
    "ro_nestTables opts = NestTrue \<longrightarrow> (\<forall>f\<in>set cols. fd_table f \<notin> set inherited)"
  shows "cols = pre @ fs \<Longrightarrow>
    \<exists>stmts. text_stmts cfg (take_cast cfg opts) (length pre) fs = Inr stmts \<and>
      (\<forall>r. (ro_rowsAsArray opts \<longrightarrow> length (row_items r) = length pre) \<longrightarrow>
        run_text_stmts R cols (take_cast cfg opts) stmts (with_tables opts fs r) = text_fields R cfg opts (length pre) fs r)"
proof (induction fs arbitrary: pre)
  case Nil
  then show ?case by (simp add: with_tables_def prefill_none)
next
  case (Cons f fs)
  let ?o = "take_cast cfg opts"
  let ?st = "compiled_stmt ?o (length pre) (text_readCodeFor f (EncodingOf (length pre)) cfg ?o)"
  obtain stmts where IH: "text_stmts cfg ?o (length pre + 1) fs = Inr stmts"
    "\<And>r. (ro_rowsAsArray opts \<longrightarrow> length (row_items r) = length pre + 1) \<Longrightarrow>
       run_text_stmts R cols ?o stmts (with_tables opts fs r) = text_fields R cfg opts (length pre + 1) fs r"
    using Cons.IH [of "pre @ [f]"] Cons.prems by auto
  have val: "run_stmt R cols ?o (createTypecastField R) ?st = text_value R cfg opts f"
    using Cons.prems ok(2) by (intro text_stmt [OF ok(1)]) simp_all
  have cmp: "comparable cfg opts (f # fs)" "ro_nestTables opts = NestTrue \<longrightarrow> fd_table f \<notin> set inherited"
    using Cons.prems ok(1,3) by (auto simp: comparable_def)
  obtain l where l: "compiled_lvalue ?o (length pre) f = Inr l" "text_lvalue opts (length pre) f = Inr l"
    using text_assign [OF cmp, of "empty_row\<lparr>row_items := replicate (length pre) None\<rparr>" "length pre"] by auto
  have put: "put l v (with_tables opts (f # fs) r) = with_tables opts fs (put l v r)"
    "ro_rowsAsArray opts \<longrightarrow> length (row_items (put l v r)) = length pre + 1"
    if "ro_rowsAsArray opts \<longrightarrow> length (row_items r) = length pre" for r v
    using text_assign [OF cmp that] l(1) by auto
  have "run_text_stmts R cols ?o ((l, ?st) # stmts) (with_tables opts (f # fs) r) = text_fields R cfg opts (length pre) (f # fs) r"
    if r: "ro_rowsAsArray opts \<longrightarrow> length (row_items r) = length pre" for r
    using IH(2) [OF put(2) [OF r]] by (simp add: val l(2) put(1) [OF r])
  then show ?case
    using IH(1) l(1) by simp
qed

text \<open>
  Claim C31. The code the text parser generates reads a row as the static parser does: the same
  values into the same places, the same error, for every packet, all column types but NULL and every
  \<open>typeCast\<close> function.
\<close>

theorem text_code_equals_static:
  assumes "comparable cfg opts cols" "\<forall>f\<in>set cols. \<not> is_type f ''NULL''"
    "ro_nestTables opts = NestTrue \<longrightarrow> (\<forall>f\<in>set cols. fd_table f \<notin> set inherited)"
  shows "\<exists>prog opts'. compile_text cols opts cfg = Inr (prog, opts') \<and>
    run_text R cols opts' prog = static_text_next R cfg opts cols"
proof -
  let ?o = "take_cast cfg opts"
  obtain stmts where stmts: "text_stmts cfg ?o 0 cols = Inr stmts"
    "run_text_stmts R cols ?o stmts (with_tables opts cols empty_row) = text_fields R cfg opts 0 cols empty_row"
    using text_stmts_run [OF assms, of "[]" cols R] by (auto simp: empty_row_def)
  have tables: "escape_all ts = Inr ts" if "\<forall>t\<in>set ts. public_name t" for ts
    using that by (induction ts) (simp_all add: fieldEscape_public)
  have "\<forall>f\<in>set cols. public_name (fd_table f)" if "ro_nestTables opts = NestTrue"
    using assms(1) that by (auto simp: comparable_def public_field_def list_all_iff)
  then have esc: "ro_nestTables opts = NestTrue \<Longrightarrow> escape_all (remdups (map fd_table cols)) = Inr (remdups (map fd_table cols))"
    by (intro tables) auto
  have start: "start_row (if ro_rowsAsArray opts then Some (length cols) else None)
      (if ro_nestTables opts = NestTrue then remdups (map fd_table cols) else []) = with_tables opts cols empty_row"
    by (simp add: start_row_def with_tables_def prefill_def array_row_def empty_row_def)
  show ?thesis
    using stmts start esc
    by (cases "ro_nestTables opts = NestTrue") (simp_all add: compile_text_def Let_def run_text_def static_text_next_def)
qed

lemma binary_stmt:
  assumes "comparable cfg opts cols" "i < length cols" "cols ! i = f"
  shows "(if isnull then
      (if is_function (ro_typeCast (take_cast cfg opts))
       then (case ro_typeCast (take_cast cfg opts) of CastFunction tc \<Rightarrow> tc (cols ! i) wrapNull | _ \<Rightarrow> (\<lambda>_. Inl TypeError))
       else rret JNull)
    else run_stmt R cols (take_cast cfg opts) (binary_field R)
      (compiled_stmt (take_cast cfg opts) i (binary_readCodeFor f (EncodingOf i) cfg (take_cast cfg opts)))) =
    binary_value R cfg opts isnull f"
proof -
  have code: "eval_code R cols (binary_readCodeFor f (EncodingOf i) cfg (take_cast cfg opts)) = readCode R cfg opts f"
    using assms by (intro binary_code) (simp_all add: comparable_def)
  then show ?thesis
    using assms(1,3)
    by (cases "ro_typeCast cfg"; cases "ro_typeCast opts")
      (simp_all add: comparable_def is_function_def compiled_stmt_def run_stmt_def binary_value_def Let_def
        take_cast_def [of cfg opts, unfolded is_function_def])
qed

lemma binary_assign:
  assumes "comparable cfg opts (f # fs)"
  shows "\<exists>l. compiled_lvalue (take_cast cfg opts) i f = Inr l \<and> binary_lvalue opts i f = Inr l"
  using assms
  by (cases "ro_nestTables opts"; cases "ro_rowsAsArray opts")
    (simp_all add: comparable_def public_field_def compiled_lvalue_def binary_lvalue_def fieldEscape_public plain_key_def nested_key_def)

lemma binary_stmts_run:
  assumes ok: "comparable cfg opts cols"
  shows "cols = pre @ fs \<Longrightarrow>
    \<exists>stmts. binary_stmts cfg (take_cast cfg opts) pos (length pre) fs = Inr stmts \<and>
      (\<forall>r. run_binary_stmts R cols (take_cast cfg opts) (is_function (ro_typeCast (take_cast cfg opts))) bitmap (length pre) stmts r =
        binary_fields R cfg opts bitmap pos (length pre) fs r)"
proof (induction fs arbitrary: pre pos)
  case (Cons f fs)
  let ?o = "take_cast cfg opts" and ?n = "is_function (ro_typeCast (take_cast cfg opts))"
  obtain stmts where IH: "binary_stmts cfg ?o (next_bit pos) (length pre + 1) fs = Inr stmts"
    "\<And>r. run_binary_stmts R cols ?o ?n bitmap (length pre + 1) stmts r =
       binary_fields R cfg opts bitmap (next_bit pos) (length pre + 1) fs r"
    using Cons.IH [of "pre @ [f]" "next_bit pos"] Cons.prems by auto
  have "comparable cfg opts (f # fs)"
    using Cons.prems ok by (auto simp: comparable_def)
  then obtain l where l: "compiled_lvalue ?o (length pre) f = Inr l" "binary_lvalue opts (length pre) f = Inr l"
    using binary_assign by blast
  let ?st = "compiled_stmt ?o (length pre) (binary_readCodeFor f (EncodingOf (length pre)) cfg ?o)"
  have at: "length pre < length cols" "cols ! length pre = f"
    using Cons.prems by simp_all
  have "run_binary_stmts R cols ?o ?n bitmap (length pre) ((pos, l, ?st) # stmts) r =
      binary_fields R cfg opts bitmap pos (length pre) (f # fs) r" for r
    unfolding run_binary_stmts.simps binary_fields.simps binary_stmt [OF ok at] l(2) sum.case IH(2) ..
  then show ?case
    using IH(1) l(1) by simp
qed simp

lemma start_row_plain: "start_row (Some n) [] = array_row n" "start_row None [] = empty_row"
  by (simp_all add: start_row_def array_row_def empty_row_def)

text \<open>
  Claim C32. The same for rows of the binary protocol: the generated code and the static parser read
  the null bitmap and the values alike, for every packet, column and \<open>typeCast\<close> function.
\<close>

theorem binary_code_equals_static:
  assumes "comparable cfg opts cols"
  shows "\<exists>prog opts'. compile_binary cols opts cfg = Inr (prog, opts') \<and>
    run_binary R cols opts' prog = static_binary_next R cfg opts cols"
proof -
  let ?o = "take_cast cfg opts" and ?n = "is_function (ro_typeCast (take_cast cfg opts))"
  obtain stmts where stmts: "binary_stmts cfg ?o (4, 0) 0 cols = Inr stmts"
    using binary_stmts_run [OF assms, of "[]" cols "(4, 0)" R "[]"] by auto
  then have run: "run_binary_stmts R cols ?o ?n bitmap 0 stmts r = binary_fields R cfg opts bitmap (4, 0) 0 cols r" for bitmap r
    using binary_stmts_run [OF assms, of "[]" cols "(4, 0)" R bitmap] by auto
  show ?thesis
    using stmts run by (simp add: start_row_plain compile_binary_def Let_def run_binary_def static_binary_next_def)
qed

text \<open>Concrete columns and options, for the witnesses.\<close>

definition demo_field :: "string \<Rightarrow> nat \<Rightarrow> row_field" where
  "demo_field name ty =
     \<lparr>fd_name = js name, fd_table = js ''t'', fd_type = Some ty, fd_charset = 63, fd_flags = 0, fd_decimals = Some 0,
      fd_encoding = Some ''binary'', fd_extendedTypeName = None, fd_extendedFormat = None\<rparr>"

definition demo_options :: "nest_option \<Rightarrow> (unit, unit) row_options" where
  "demo_options nest =
     \<lparr>ro_rowsAsArray = False, ro_nestTables = nest, ro_typeCast = CastUndefined, ro_supportBigNumbers = True,
      ro_bigNumberStrings = False, ro_decimalNumbers = False, ro_jsonStrings = False,
      ro_timezone = Some (js ''local''), ro_dateStrings = DateStrings False\<rparr>"

definition demo_runtime :: "(unit, unit) runtime" where
  "demo_runtime =
     \<lparr>rt_long = long_impl, rt_codec = latin1_codec, rt_num = num_impl,
      rt_date = \<lparr>dl_zone = Some, dl_parse = Map.empty, dl_fields = utc_fields\<rparr>,
      rt_json = \<lparr>jl_parse = \<lambda>_. Inl SyntaxError, jl_revive = \<lambda>_ _. Inl SyntaxError, jl_sources = False\<rparr>\<rparr>"

lemma demo_comparable:
  "comparable (demo_options nest) (demo_options NestTrue) [demo_field ''a'' 8, demo_field ''b'' 12]"
  by (simp add: comparable_def demo_options_def demo_field_def is_function_def row_timezone_def public_field_def
      public_name_def privateObjectProps_def js_def)

theorem text_code_equals_static_witness:
  "\<exists>prog opts'. compile_text [demo_field ''a'' 8, demo_field ''b'' 12] (demo_options NestTrue) (demo_options NestFalse) = Inr (prog, opts') \<and>
     run_text demo_runtime [demo_field ''a'' 8, demo_field ''b'' 12] opts' prog =
     static_text_next demo_runtime (demo_options NestFalse) (demo_options NestTrue) [demo_field ''a'' 8, demo_field ''b'' 12]"
  by (rule text_code_equals_static [OF demo_comparable])
    (simp_all add: is_type_def demo_field_def code_of_def Types_def inherited_def js_def)

theorem binary_code_equals_static_witness:
  "\<exists>prog opts'. compile_binary [demo_field ''a'' 8, demo_field ''b'' 12] (demo_options NestTrue) (demo_options NestFalse) = Inr (prog, opts') \<and>
     run_binary demo_runtime [demo_field ''a'' 8, demo_field ''b'' 12] opts' prog =
     static_binary_next demo_runtime (demo_options NestFalse) (demo_options NestTrue) [demo_field ''a'' 8, demo_field ''b'' 12]"
  by (rule binary_code_equals_static [OF demo_comparable])

section \<open>Where they differ\<close>

text \<open>
  A NULL column: the generated text parser reads a length-coded number where the static one reads a
  string. A query's \<open>typeCast: false\<close> is overridden by a global function in generated code only.
\<close>

lemma null_column_code:
  assumes "is_type f ''NULL''" "fd_extendedFormat f = None" "\<not> ro_decimalNumbers cfg"
  shows "eval_code R cols (text_readCodeFor f e cfg opts) = rmap int_value (readLengthCodedNumber (rt_long R) False False)"
    and "readField R cfg opts f = rt_string R (Some ''ascii'')"
  using assms by (simp_all add: text_readCodeFor_def readField_def is_type_def code_of_def Types_def Let_def)

lemma cast_false_overridden:
  assumes "ro_typeCast cfg = CastFunction tc" "ro_typeCast opts = CastFalse" "i < length cols" "cols ! i = f"
  shows "run_stmt R cols (take_cast cfg opts) (createTypecastField R) (compiled_stmt (take_cast cfg opts) i code) =
      tc f (createTypecastField R f (eval_code R cols code))"
    and "text_value R cfg opts f = rt_buffer R"
  using assms by (simp_all add: take_cast_def is_function_def compiled_stmt_def run_stmt_def text_value_def Let_def)

text \<open>
  Rows nested by table: a table named as a property every object inherits is not created in the row;
  its values are written to the inherited object, which all objects of the process share.
\<close>

lemma inherited_table_shared:
  assumes "row_tables r t = None" "t \<in> set inherited"
  shows "put (LNested t k) v r = r\<lparr>row_shared := row_shared r @ [(t, k, v)]\<rparr>"
  using assms by simp

section \<open>The types of values\<close>

datatype kind = KNull | KUndefined | KNumber | KText | KBuffer | KDate | KGeometry | KVector | KJson

fun kind_of :: "('f, 'j) js_value \<Rightarrow> kind" where
  "kind_of JNull = KNull"
| "kind_of JUndefined = KUndefined"
| "kind_of (JNum _) = KNumber"
| "kind_of (JText _) = KText"
| "kind_of (JBuffer _) = KBuffer"
| "kind_of (JDate _) = KDate"
| "kind_of (JGeometry _) = KGeometry"
| "kind_of (JVector _) = KVector"
| "kind_of (JJson _) = KJson"

text \<open>The type of a column's values, from its metadata and the options alone; \<open>null\<close> is always possible.\<close>

definition date_kind :: "('f, 'j) row_options \<Rightarrow> ('f, 'j) row_options \<Rightarrow> row_field \<Rightarrow> kind set" where
  "date_kind cfg opts f = (if typeMatch (fd_type f) (row_dateStrings cfg opts) then {KText} else {KDate})"

definition json_kind :: "('f, 'j) row_options \<Rightarrow> kind set" where
  "json_kind cfg = (if ro_jsonStrings cfg then {KText} else {KJson})"

definition decimal_kind :: "('f, 'j) row_options \<Rightarrow> kind set" where
  "decimal_kind cfg = (if ro_decimalNumbers cfg then {KNumber} else {KText})"

definition big_kind :: "('f, 'j) row_options \<Rightarrow> ('f, 'j) row_options \<Rightarrow> kind set" where
  "big_kind cfg opts =
     (if big_numbers cfg opts then if big_strings cfg opts then {KText} else {KNumber, KText} else {KNumber})"

definition text_kinds :: "('f, 'j) row_options \<Rightarrow> ('f, 'j) row_options \<Rightarrow> row_field \<Rightarrow> kind set" where
  "text_kinds cfg opts f =
     (if fd_extendedFormat f = Some (js ''json'') then json_kind cfg
      else if is_type f ''TINY'' \<or> is_type f ''SHORT'' \<or> is_type f ''LONG'' \<or> is_type f ''INT24'' \<or> is_type f ''YEAR''
      then {KNumber}
      else if is_type f ''LONGLONG'' then big_kind cfg opts
      else if is_type f ''FLOAT'' \<or> is_type f ''DOUBLE'' then {KNumber}
      else if is_type f ''NULL'' \<or> is_type f ''DECIMAL'' \<or> is_type f ''NEWDECIMAL'' then decimal_kind cfg
      else if is_type f ''DATE'' then date_kind cfg opts f
      else if is_type f ''DATETIME'' \<or> is_type f ''TIMESTAMP'' then date_kind cfg opts f
      else if is_type f ''TIME'' then {KText}
      else if is_type f ''GEOMETRY'' then {KGeometry}
      else if is_type f ''VECTOR'' then {KVector}
      else if is_type f ''JSON'' then json_kind cfg
      else if fd_charset f = BINARY then {KBuffer}
      else {KText})"

text \<open>In the binary protocol an unsigned TINYINT missing from the packet is \<open>undefined\<close>.\<close>

definition binary_kinds :: "('f, 'j) row_options \<Rightarrow> ('f, 'j) row_options \<Rightarrow> row_field \<Rightarrow> kind set" where
  "binary_kinds cfg opts f =
     (if fd_extendedFormat f = Some (js ''json'') then json_kind cfg
      else if is_type f ''TINY'' then {KNumber, KUndefined}
      else if is_type f ''SHORT'' then {KNumber}
      else if is_type f ''LONG'' \<or> is_type f ''INT24'' then {KNumber}
      else if is_type f ''YEAR'' then {KNumber}
      else if is_type f ''FLOAT'' then {KNumber}
      else if is_type f ''DOUBLE'' then {KNumber}
      else if is_type f ''NULL'' then {}
      else if is_type f ''DATE'' \<or> is_type f ''DATETIME'' \<or> is_type f ''TIMESTAMP'' \<or> is_type f ''NEWDATE''
      then date_kind cfg opts f
      else if is_type f ''TIME'' then {KText}
      else if is_type f ''DECIMAL'' \<or> is_type f ''NEWDECIMAL'' then decimal_kind cfg
      else if is_type f ''GEOMETRY'' then {KGeometry}
      else if is_type f ''VECTOR'' then {KVector}
      else if is_type f ''JSON'' then json_kind cfg
      else if is_type f ''LONGLONG'' then big_kind cfg opts
      else if fd_charset f = BINARY then {KBuffer}
      else {KText})"

definition yields :: "('f, 'j) js_value rd \<Rightarrow> kind set \<Rightarrow> bool" where
  "yields r K \<longleftrightarrow> (\<forall>p v p'. r p = Inr (v, p') \<longrightarrow> kind_of v \<in> insert KNull K)"

lemma yieldsD: "yields r K \<Longrightarrow> r p = Inr (v, p') \<Longrightarrow> kind_of v \<in> insert KNull K"
  by (auto simp: yields_def)

lemma yields_mono: "yields r K \<Longrightarrow> K \<subseteq> K' \<Longrightarrow> yields r K'"
  by (auto simp: yields_def)

lemma yields_ret: "kind_of v \<in> insert KNull K \<Longrightarrow> yields (rret v) K"
  by (auto simp: yields_def rret_def)

lemma yields_bind: "(\<And>x. yields (f x) K) \<Longrightarrow> yields (rbind r f) K"
  by (auto simp: yields_def rbind_def split: sum.splits)

lemma yields_fail: "yields (\<lambda>_. Inl e) K"
  by (simp add: yields_def)

lemma yields_if: "yields r K \<Longrightarrow> yields s K \<Longrightarrow> yields (if b then r else s) K"
  by simp

lemma yields_rmap: "(\<And>x. kind_of (f x) \<in> insert KNull K) \<Longrightarrow> yields (rmap f r) K"
  unfolding rmap_def by (intro yields_bind yields_ret)

lemma yields_string: "yields (rt_string R enc) {KText}" "yields (readText L c enc) {KText}"
  by (auto simp: rt_string_def readText_def text_or_null_def intro!: yields_bind yields_ret split: option.splits)

lemma yields_buffer: "yields (rt_buffer R) {KBuffer}"
  by (auto simp: rt_buffer_def intro!: yields_rmap split: option.splits)

lemma yields_json: "yields (rt_parseJson R enc big) {KJson}"
  unfolding rt_parseJson_def parseJson_def
  by (rule yields_bind) (auto simp: yields_def split: sum.splits)

lemma yields_int: "yields (parseLengthCodedIntNoBigCheck L) {KNumber}"
  unfolding parseLengthCodedIntNoBigCheck_def
  by (rule yields_bind) (auto simp: yields_def parseIntNoBigCheck_def Let_def split: option.splits prod.splits if_splits)

lemma yields_float: "yields (rt_float R) {KNumber}"
  unfolding rt_float_def parseLengthCodedFloat_def
  by (rule yields_bind) (auto simp: yields_def parseFloat_def Let_def split: option.splits prod.splits if_splits)

lemma yields_longlong: "yields (parseLengthCodedInt L c N big) (if big then {KNumber, KText} else {KNumber})"
  unfolding parseLengthCodedInt_def
  by (rule yields_bind)
    (auto simp: yields_def parseIntBig_def Let_def split: option.splits prod.splits if_splits sum.splits)

lemma yields_geometry: "yields (rt_geometry R) {KGeometry}"
  unfolding rt_geometry_def parseGeometryValue_def
  by (auto intro!: yields_bind yields_ret split: option.splits)

lemma yields_vector: "yields (rt_vector R) {KVector}"
  unfolding rt_vector_def parseVector_def
  by (rule yields_bind) (auto simp: yields_def Let_def rbind_def rret_def split: sum.splits)

lemma yields_date: "yields (parseDate L c N D tz) {KDate}"
  unfolding parseDate_def by (auto simp: Let_def intro!: yields_bind yields_ret)

lemma yields_datetime: "yields (parseDateTime L c D tz) {KDate}"
  unfolding parseDateTime_def
  by (rule yields_bind) (auto simp: yields_def Let_def datetime_text_def split: option.splits if_splits sum.splits)

lemma yields_readDateTime: "yields (readDateTime D tz) {KDate}"
  unfolding readDateTime_def by (auto simp: Let_def intro!: yields_bind yields_ret yields_if)

lemma yields_time: "yields (readTimeString False) {KText}"
  unfolding readTimeString_def
  by (auto simp: Let_def intro!: yields_bind yields_ret yields_if yields_fail split: option.split prod.split)

lemmas yields_readers = yields_string yields_buffer yields_json yields_int yields_float yields_geometry
  yields_vector yields_date yields_datetime yields_readDateTime yields_time

lemma yields_int_value: "yields (rmap int_value r) {KNumber, KText}"
  by (rule yields_rmap) (simp add: int_value_def split: js_int.split)

lemma yields_nums:
  "yields (rmap int_js r) {KNumber}" "yields (rmap nat_num s) {KNumber}" "yields (rmap JNum t) {KNumber}"
  "yields (rmap byte_value u) {KNumber, KUndefined}" "yields (rmap int_js v) {KNumber, KUndefined}" "yields (rmap JText w) {KText}"
  by (auto intro!: yields_rmap simp: int_js_def nat_num_def byte_value_def split: option.splits)

lemma yields_cases: "(b \<Longrightarrow> yields r K) \<Longrightarrow> (\<not> b \<Longrightarrow> yields s K') \<Longrightarrow> yields (if b then r else s) (if b then K else K')"
  by simp

lemma yields_options:
  "yields (if ro_jsonStrings cfg then rt_string R e else rt_parseJson R e big) (json_kind cfg)"
  "yields (if ro_decimalNumbers cfg then rt_float R else rt_string R e) (decimal_kind cfg)"
  "yields r {KDate} \<Longrightarrow> yields s {KText} \<Longrightarrow>
   yields (if typeMatch (fd_type f) (row_dateStrings cfg opts) then s else r) (date_kind cfg opts f)"
  by (simp_all add: json_kind_def decimal_kind_def date_kind_def yields_readers)

lemma yields_big:
  "yields (if big_numbers cfg opts \<and> big_strings cfg opts then parseLengthCodedIntString L c
     else parseLengthCodedInt L c N (big_numbers cfg opts)) (big_kind cfg opts)"
  "yields (if \<not> big_numbers cfg opts then if u then rmap int_js r1 else rmap int_js r2
     else if big_strings cfg opts then if u then rmap JText r3 else rmap JText r4
     else if u then rmap int_value r5 else rmap int_value r6) (big_kind cfg opts)"
  using yields_longlong [of L c N True] yields_longlong [of L c N False]
  by (auto simp: big_kind_def parseLengthCodedIntString_def yields_readers yields_nums yields_int_value)

text \<open>
  The type of a column's value: in both protocols it is \<open>null\<close> or of the type that the
  column's metadata and the options determine, whatever bytes the server sends.
\<close>

theorem row_value_type:
  "(case readField R cfg opts f p of Inl e \<Rightarrow> True | Inr (v, p') \<Rightarrow> kind_of v \<in> insert KNull (text_kinds cfg opts f)) \<and>
   (case readCode R cfg opts f p of Inl e \<Rightarrow> True | Inr (v, p') \<Rightarrow> kind_of v \<in> insert KNull (binary_kinds cfg opts f))"
proof -
  have "yields (readField R cfg opts f) (text_kinds cfg opts f)"
    unfolding readField_def text_kinds_def Let_def
    by (intro yields_cases yields_options yields_big yields_readers)
  moreover have "yields (readCode R cfg opts f) (binary_kinds cfg opts f)"
    unfolding readCode_def binary_kinds_def Let_def
    by (intro yields_cases yields_options yields_big yields_readers yields_if yields_nums yields_ret) simp
  ultimately show ?thesis
    unfolding yields_def by (auto split: sum.split)
qed

section \<open>Row packets\<close>

text \<open>The values the server side sends: \<open>null\<close>, \<open>undefined\<close>, or the text of anything else.\<close>

datatype cell = CellNull | CellUndefined | CellText jstring

fun cells_length :: "codec \<Rightarrow> string option \<Rightarrow> cell list \<Rightarrow> nat result" where
  "cells_length c enc [] = Inr 0"
| "cells_length c enc (x # xs) =
     (case (case x of CellText s \<Rightarrow> lengthCodedStringLength c s enc | _ \<Rightarrow> Inr 1) of
        Inl e \<Rightarrow> Inl e
      | Inr n \<Rightarrow> (case cells_length c enc xs of Inl e \<Rightarrow> Inl e | Inr m \<Rightarrow> Inr (n + m)))"

definition write_cell :: "codec \<Rightarrow> string option \<Rightarrow> cell \<Rightarrow> wr" where
  "write_cell c enc x =
     (case x of
        CellNull \<Rightarrow> writeNull
      | CellUndefined \<Rightarrow> writeInt8 0
      | CellText s \<Rightarrow> writeLengthCodedString c s enc)"

definition TextRow_toPacket :: "codec \<Rightarrow> (nat \<Rightarrow> bytes) \<Rightarrow> cell list \<Rightarrow> string option \<Rightarrow> packet result" where
  "TextRow_toPacket c mem cells enc =
     (case cells_length c enc cells of
        Inl e \<Rightarrow> Inl e
      | Inr n \<Rightarrow> build (mem (n + 4)) (map (write_cell c enc) cells))"

text \<open>The loop of \<open>fromPacket\<close> reads at least one byte a turn.\<close>

fun text_columns :: "long_lib \<Rightarrow> codec \<Rightarrow> nat \<Rightarrow> jstring option list rd" where
  "text_columns L c 0 p = Inr ([], p)"
| "text_columns L c (Suc fuel) p =
     (if haveMoreData p
      then rbind (readLengthCodedString L c None) (\<lambda>s. rbind (text_columns L c fuel) (\<lambda>ss. rret (s # ss))) p
      else Inr ([], p))"

definition TextRow_fromPacket :: "long_lib \<Rightarrow> codec \<Rightarrow> jstring option list rd" where
  "TextRow_fromPacket L c p = text_columns L c (end_pos p - offset p) p"

text \<open>
  \<open>BinaryRow.toPacket\<close> looks for the \<open>type\<close> of every value: \<open>null\<close> and \<open>undefined\<close> have no
  properties, and a text has no type, so every bit of the bitmap is 0.
\<close>

definition BinaryRow_toPacket :: "codec \<Rightarrow> (nat \<Rightarrow> bytes) \<Rightarrow> cell list \<Rightarrow> string option \<Rightarrow> packet result" where
  "BinaryRow_toPacket c mem cells enc =
     (case cells_length c enc cells of
        Inl e \<Rightarrow> Inl e
      | Inr n \<Rightarrow>
          if CellNull \<in> set cells \<or> CellUndefined \<in> set cells then Inl TypeError
          else build (mem (n + 2 + 4))
            (replicate (1 + (length cells + 7) div 8) (writeInt8 0) @ map (write_cell c enc) cells))"

text \<open>The readers of \<open>binaryReader\<close>; the missing ones and those that name no method raise.\<close>

definition binaryReader :: "('f, 'j) runtime \<Rightarrow> nat option \<Rightarrow> ('f, 'j) js_value rd" where
  "binaryReader R ty =
     (case ty of
        Some n \<Rightarrow>
          if n = 0 \<or> n = 253 then rt_string R None
          else if n = 1 then rmap byte_value readInt8
          else if n = 2 \<or> n = 13 then rmap nat_num readInt16
          else if n = 3 \<or> n = 9 then rmap nat_num readInt32
          else if n = 4 then rmap JNum (readFloat (rt_num R))
          else if n = 5 then rmap JNum (readDouble (rt_num R))
          else if n = 8 then rmap int_value (readInt64 (rt_long R))
          else if n = 12 then readDateTime (rt_date R) None
          else (\<lambda>_. Inl TypeError)
      | None \<Rightarrow> (\<lambda>_. Inl TypeError))"

fun binary_columns :: "('f, 'j) runtime \<Rightarrow> row_field list \<Rightarrow> ('f, 'j) js_value list rd" where
  "binary_columns R [] = rret []"
| "binary_columns R (f # fs) = rbind (binaryReader R (fd_type f)) (\<lambda>v. rbind (binary_columns R fs) (\<lambda>vs. rret (v # vs)))"

definition BinaryRow_fromPacket :: "('f, 'j) runtime \<Rightarrow> row_field list \<Rightarrow> ('f, 'j) js_value list rd" where
  "BinaryRow_fromPacket R fs =
     rbind readInt8 (\<lambda>_. rbind (rskip ((length fs + 7 + 2) div 8)) (\<lambda>_. binary_columns R fs))"

section \<open>Text rows are read back\<close>

text \<open>A cell with the bytes that encode it, and the value the client makes of it.\<close>

fun cell_ok :: "codec \<Rightarrow> string option \<Rightarrow> cell \<times> bytes \<Rightarrow> bool" where
  "cell_ok c enc (CellNull, b) \<longleftrightarrow> b = [0xfb]"
| "cell_ok c enc (CellUndefined, b) \<longleftrightarrow> b = [0] \<and> text_ok c enc [] []"
| "cell_ok c enc (CellText s, b) \<longleftrightarrow> (\<exists>t. text_ok c enc s t \<and> length t < 2 ^ 53 \<and> b = lcn_bytes (length t) @ t)"

fun cell_value :: "cell \<Rightarrow> ('f, 'j) js_value" where
  "cell_value CellNull = JNull"
| "cell_value CellUndefined = JText []"
| "cell_value (CellText s) = JText s"

lemma emits_writeNull: "emits z writeNull [0xfb]"
proof (rule emits_mono, unfold emits_def, intro conjI allI impI)
  fix p :: packet and pre old post
  assume "buffer p = pre @ old @ post" "offset p = length pre" "length old = length [0xfb :: byte]"
  then show "writeNull p = Inr (p\<lparr>buffer := pre @ [0xfb] @ post, offset := length pre + length [0xfb :: byte]\<rparr>)"
    by (cases old) (simp_all add: writeNull_def)
qed (simp add: writeNull_def)

lemma emits_cell: "cell_ok c enc (x, b) \<Longrightarrow> emits z (write_cell c enc x) b"
  using emits_writeInt8 [of 0 z]
  by (cases x) (auto simp: write_cell_def emits_writeNull intro: emits_lenenc_string)

lemma cells_length_ok:
  "list_all2 (\<lambda>x b. cell_ok c enc (x, b)) xs bss \<Longrightarrow> cells_length c enc xs = Inr (length (concat bss))"
proof (induction rule: list_all2_induct)
  case (Cons x xs b bss)
  have "(case x of CellText s \<Rightarrow> lengthCodedStringLength c s enc | _ \<Rightarrow> Inr 1) = Inr (length b)"
    using Cons.hyps(1)
    by (cases x) (auto simp: lengthCodedStringLength_def text_ok_def length_lcn_bytes)
  then show ?case using Cons.IH by simp
qed simp

lemma reads_lcn_null: "reads (readLength L) [0xfb] None"
proof -
  have "reads (readLengthCodedNumber L False False) [0xfb] IntNull"
    using reads_lcn_ext [of "0xfb" L False False "[]" IntNull]
    by (simp add: readLengthCodedNumberExt_def reads_ret)
  then show ?thesis
    unfolding readLength_def by (rule reads_bind_ret) simp
qed

lemma reads_cell:
  assumes "long_ok L" "codec_ok c" "cell_ok c enc (x, b)"
  shows "reads (readText L c enc) b (cell_value x :: ('f, 'j) js_value)"
proof (cases x)
  case CellNull
  have "reads (readLengthCodedString L c enc) [0xfb] None"
    unfolding readLengthCodedString_def
    by (rule reads_bind_ret [OF reads_lcn_null]) (simp add: fun_eq_iff rret_def)
  then show ?thesis
    using assms(3) CellNull unfolding readText_def by (auto simp: text_or_null_def intro!: reads_bind_ret)
next
  case CellUndefined
  have "lcn_bytes 0 = [0]" by (simp add: lcn_bytes_def)
  then show ?thesis
    using assms reads_lenenc_string [OF assms(1,2), of enc "[]" "[]"] CellUndefined
    unfolding readText_def by (auto simp: text_or_null_def intro!: reads_bind_ret)
next
  case (CellText s)
  then obtain t where "text_ok c enc s t" "length t < 2 ^ 53" "b = lcn_bytes (length t) @ t"
    using assms(3) by auto
  then show ?thesis
    using reads_lenenc_string [OF assms(1,2)] CellText
    unfolding readText_def by (auto simp: text_or_null_def intro!: reads_bind_ret)
qed

text \<open>A text column in the encoding of the connection, and rows without casts, as arrays.\<close>

definition text_column :: "string option \<Rightarrow> row_field \<Rightarrow> bool" where
  "text_column enc f \<longleftrightarrow> fd_type f = Some (code_of Types ''VAR_STRING'') \<and> fd_charset f \<noteq> BINARY \<and>
     fd_encoding f = enc \<and> fd_extendedFormat f = None"

definition plain_arrays :: "('f, 'j) row_options \<Rightarrow> ('f, 'j) row_options \<Rightarrow> bool" where
  "plain_arrays cfg opts \<longleftrightarrow> ro_rowsAsArray opts \<and> ro_typeCast opts = CastUndefined \<and> ro_typeCast cfg = CastUndefined"

lemma text_column_value:
  assumes "text_column enc f" "plain_arrays cfg opts"
  shows "text_value R cfg opts f = rt_string R enc"
  using assms
  by (simp add: text_value_def plain_arrays_def text_column_def readField_def is_type_def code_of_def Types_def Let_def)

lemma text_fields_read:
  assumes "long_ok (rt_long R)" "codec_ok (rt_codec R)" and opts: "plain_arrays cfg opts"
  shows "list_all2 (\<lambda>x b. cell_ok (rt_codec R) enc (x, b)) xs bss \<Longrightarrow> list_all (text_column enc) fs \<Longrightarrow>
    length fs = length xs \<Longrightarrow> length (row_items row) = i \<Longrightarrow>
    reads (text_fields R cfg opts i fs row) (concat bss)
      (row\<lparr>row_items := row_items row @ map (\<lambda>x. Some (cell_value x)) xs\<rparr>)"
proof (induction xs bss arbitrary: fs row i rule: list_all2_induct)
  case Nil
  then show ?case by (simp add: reads_ret)
next
  case (Cons x xs b bss)
  then obtain f rest where fs: "fs = f # rest" by (cases fs) auto
  have val: "reads (text_value R cfg opts f) b (cell_value x)"
    using reads_cell [OF assms(1,2) Cons.hyps(1)] text_column_value [of enc f cfg opts R] Cons.prems opts
    by (simp add: fs rt_string_def)
  let ?row = "put (LIndex i) (cell_value x) row"
  have row: "row_items ?row = row_items row @ [Some (cell_value x)]"
    using Cons.prems(3) put_item_end by auto
  have "reads (text_fields R cfg opts (i + 1) rest ?row) (concat bss)
      (?row\<lparr>row_items := row_items ?row @ map (\<lambda>x. Some (cell_value x)) xs\<rparr>)"
    using Cons.prems by (intro Cons.IH) (simp_all add: fs row del: put.simps)
  then have "reads (text_fields R cfg opts i (f # rest) row) (b @ concat bss)
      (?row\<lparr>row_items := row_items ?row @ map (\<lambda>x. Some (cell_value x)) xs\<rparr>)"
    unfolding text_fields.simps
    by (intro reads_bind [OF val]) (use opts in \<open>simp add: text_lvalue_def plain_arrays_def del: put.simps\<close>)
  moreover have "?row\<lparr>row_items := row_items ?row @ map (\<lambda>x. Some (cell_value x)) xs\<rparr> =
      row\<lparr>row_items := row_items row @ map (\<lambda>x. Some (cell_value x)) (x # xs)\<rparr>"
    unfolding row by simp
  ultimately show ?case
    by (simp only: fs concat.simps)
qed

text \<open>
  Claim C38. A row of texts and NULLs sent by \<open>TextRow.toPacket\<close> is read back by the text parser: one
  packet of the computed length, every value in its place.
\<close>

theorem text_row_roundtrip:
  assumes "long_ok (rt_long R)" "codec_ok (rt_codec R)" "\<And>n. length (mem n) = n" "plain_arrays cfg opts"
    and "list_all2 (\<lambda>x b. cell_ok (rt_codec R) enc (x, b)) cells bss"
    and "list_all (text_column enc) cols" "length cols = length cells"
  shows "packs (TextRow_toPacket (rt_codec R) mem cells enc) (concat bss) \<and>
    reads (static_text_next R cfg opts cols) (concat bss)
      (empty_row\<lparr>row_items := map (\<lambda>x. Some (cell_value x)) cells\<rparr>)"
proof
  have "list_all2 (emits False) (map (write_cell (rt_codec R) enc) cells) bss"
    using assms(5) emits_cell by (induction rule: list_all2_induct) auto
  then have "emits False (writes (map (write_cell (rt_codec R) enc) cells)) (concat bss)"
    by (rule emits_writes)
  then show "packs (TextRow_toPacket (rt_codec R) mem cells enc) (concat bss)"
    using cells_length_ok [OF assms(5)] assms(3) by (simp add: TextRow_toPacket_def packs_build_unsafe)
  have "length (row_items (empty_row :: ('a, 'b) row)) = 0"
    by (simp add: empty_row_def)
  from text_fields_read [OF assms(1,2,4,5,6,7) this]
  show "reads (static_text_next R cfg opts cols) (concat bss)
      (empty_row\<lparr>row_items := map (\<lambda>x. Some (cell_value x)) cells\<rparr>)"
    by (simp add: static_text_next_def empty_row_def)
qed

theorem text_row_roundtrip_witness:
  "packs (TextRow_toPacket latin1_codec (\<lambda>n. replicate n 9) [CellNull, CellText (js ''A'')] (Some ''utf8'')) [251, 1, 65] \<and>
   reads (static_text_next demo_runtime (demo_options NestFalse\<lparr>ro_rowsAsArray := True\<rparr>)
       (demo_options NestFalse\<lparr>ro_rowsAsArray := True\<rparr>)
       [demo_field ''a'' 253\<lparr>fd_charset := 45, fd_encoding := Some ''utf8''\<rparr>, demo_field ''b'' 253\<lparr>fd_charset := 45, fd_encoding := Some ''utf8''\<rparr>])
     [251, 1, 65] (empty_row\<lparr>row_items := [Some JNull, Some (JText (js ''A''))]\<rparr>)"
proof -
  let ?o = "demo_options NestFalse\<lparr>ro_rowsAsArray := True\<rparr>"
  let ?cols = "[demo_field ''a'' 253\<lparr>fd_charset := 45, fd_encoding := Some ''utf8''\<rparr>,
    demo_field ''b'' 253\<lparr>fd_charset := 45, fd_encoding := Some ''utf8''\<rparr>]"
  have ok: "long_ok (rt_long demo_runtime)" "codec_ok (rt_codec demo_runtime)" "plain_arrays ?o ?o"
    "list_all (text_column (Some ''utf8'')) ?cols"
    by (simp_all add: demo_runtime_def long_impl_ok latin1_codec_ok plain_arrays_def demo_options_def demo_field_def
        text_column_def code_of_def Types_def BINARY_def)
  have "text_ok latin1_codec (Some ''utf8'') (js ''A'') [65]"
    by (simp add: text_ok_def encode_def decode_def latin1_codec_def slice_def latin1Slice_def js_def)
  then have "list_all2 (\<lambda>x b. cell_ok (rt_codec demo_runtime) (Some ''utf8'') (x, b)) [CellNull, CellText (js ''A'')] [[251], [1, 65]]"
    by (auto simp: demo_runtime_def lcn_bytes_def intro!: exI [of _ "[65]"])
  from text_row_roundtrip [OF ok(1,2) _ ok(3) this ok(4), of "\<lambda>n. replicate n 9"]
  show ?thesis by (simp add: demo_runtime_def)
qed

end
