(* ===== verification/ParserCache.thy ===== *)
theory ParserCache
  imports Rows
begin

text \<open>
  \<open>src/lib/parsers/parser_cache.js\<close>: the cache of generated row parsers. The LRU map of the
  \<open>lru.min\<close> package is a map from hashes to entries that may forget any of them at any time; the
  compiler is the code generator of the two protocols. Hashes are computed on 32-bit words.
\<close>

section \<open>Keys\<close>

datatype protocol = TextProtocol | BinaryProtocol

datatype row_parser = TextParser text_program | BinaryParser binary_program

definition TYPE_CAST_FALSE :: nat where "TYPE_CAST_FALSE = 1"
definition TYPE_CAST_FUNCTION :: nat where "TYPE_CAST_FUNCTION = 2"
definition TYPE_CAST_DEFAULT :: nat where "TYPE_CAST_DEFAULT = 3"

definition typeCastKind :: "('f, 'j) cast_option \<Rightarrow> nat" where
  "typeCastKind c =
     (case c of
        CastFalse \<Rightarrow> TYPE_CAST_FALSE
      | CastFunction _ \<Rightarrow> TYPE_CAST_FUNCTION
      | _ \<Rightarrow> TYPE_CAST_DEFAULT)"

datatype nest_key = NestKey bool | NestKeyText jstring

definition nestTablesKey :: "nest_option \<Rightarrow> nest_key" where
  "nestTablesKey n =
     (case n of NestFalse \<Rightarrow> NestKey False | NestString s \<Rightarrow> NestKeyText s | _ \<Rightarrow> NestKey True)"

text \<open>\<open>dateStringsKey\<close> is the identity: a boolean, or the list of names as strings.\<close>

definition dateStringsKey :: "date_strings \<Rightarrow> date_strings" where
  "dateStringsKey d = d"

definition flag :: "bool \<Rightarrow> nat \<Rightarrow> nat" where
  "flag b v = (if b then v else 0)"

definition optionBits ::
    "protocol \<Rightarrow> ('f, 'j) row_options \<Rightarrow> ('f, 'j) row_options \<Rightarrow> nest_key \<Rightarrow> date_strings \<Rightarrow> nat" where
  "optionBits type opts cfg nest dates =
     flag (type = BinaryProtocol) 1 OR flag (ro_rowsAsArray opts) 2 OR flag (big_numbers cfg opts) 4 OR
     flag (big_strings cfg opts) 8 OR push_bit 4 (typeCastKind (ro_typeCast opts)) OR
     flag (ro_decimalNumbers opts) 64 OR flag (ro_jsonStrings cfg) 128 OR flag (nest = NestKey True) 256 OR
     flag (case nest of NestKeyText _ \<Rightarrow> True | _ \<Rightarrow> False) 512 OR flag (dates = DateStrings True) 1024 OR
     flag (case dates of DateStringsFor _ \<Rightarrow> True | _ \<Rightarrow> False) 2048"

section \<open>Hashes\<close>

definition mixNumber :: "32 word \<Rightarrow> 32 word \<Rightarrow> 32 word" where
  "mixNumber hash v = (hash XOR v) * 0x9e3779b1"

definition mixString :: "32 word \<Rightarrow> jstring option \<Rightarrow> 32 word" where
  "mixString hash s =
     (case s of
        None \<Rightarrow> mixNumber hash (- 1)
      | Some t \<Rightarrow> foldl (\<lambda>h ch. h * 31 + ucast ch) (mixNumber hash (word_of_nat (length t))) t)"

definition word_or_zero :: "nat option \<Rightarrow> 32 word" where
  "word_or_zero v = word_of_nat (bits_of v)"

definition hash_field :: "bool \<Rightarrow> 32 word \<Rightarrow> row_field \<Rightarrow> 32 word" where
  "hash_field includeTable h0 f =
     (let h1 = mixNumber h0 (word_or_zero (fd_type f) OR push_bit 8 (word_of_nat (fd_charset f)) OR
               push_bit 24 (word_or_zero (fd_decimals f)));
          h2 = mixString (mixNumber h1 (word_of_nat (fd_flags f))) (Some (fd_name f));
          h3 = (if fd_extendedTypeName f = None then h2 else mixString h2 (fd_extendedTypeName f));
          h4 = (if fd_extendedFormat f = None then h3 else mixString h3 (fd_extendedFormat f))
      in if includeTable then mixString h4 (Some (fd_table f)) else h4)"

definition hashKey ::
    "protocol \<Rightarrow> row_field list \<Rightarrow> ('f, 'j) row_options \<Rightarrow> ('f, 'j) row_options \<Rightarrow> nat" where
  "hashKey type cols opts cfg =
     (let nest = nestTablesKey (ro_nestTables opts); dates = dateStringsKey (row_dateStrings cfg opts);
          h0 = mixNumber 0x811c9dc5 (word_of_nat (optionBits type opts cfg nest dates));
          h1 = mixString h0 (Some (zone_text (row_timezone cfg opts)));
          h2 = (case nest of NestKeyText s \<Rightarrow> mixString h1 (Some s) | _ \<Rightarrow> h1);
          h3 = (case dates of DateStringsFor ns \<Rightarrow> foldl (\<lambda>h n. mixString h (Some (js n))) h2 ns | _ \<Rightarrow> h2);
          h4 = mixNumber h3 (word_of_nat (length cols));
          h5 = foldl (hash_field (nest \<noteq> NestKey False)) h4 cols
      in unat (h5 AND 0x3fffffff))"

section \<open>Entries\<close>

text \<open>An entry keeps a parser and the data it was compiled for; the tables only for nested rows.\<close>

record entry =
  en_parser :: row_parser
  en_nestTables :: nest_key
  en_dateStrings :: date_strings
  en_optionBits :: nat
  en_timezone :: jstring
  en_columnTypes :: "nat option list"
  en_characterSets :: "nat list"
  en_flags :: "nat list"
  en_decimals :: "nat option list"
  en_names :: "jstring list"
  en_extendedTypeNames :: "jstring option list"
  en_extendedFormats :: "jstring option list"
  en_tables :: "jstring list option"

definition Entry ::
    "row_parser \<Rightarrow> protocol \<Rightarrow> row_field list \<Rightarrow> ('f, 'j) row_options \<Rightarrow> ('f, 'j) row_options \<Rightarrow> entry" where
  "Entry parser type cols opts cfg =
     (let nest = nestTablesKey (ro_nestTables opts); dates = dateStringsKey (row_dateStrings cfg opts) in
      \<lparr>en_parser = parser, en_nestTables = nest, en_dateStrings = dates,
       en_optionBits = optionBits type opts cfg nest dates, en_timezone = zone_text (row_timezone cfg opts),
       en_columnTypes = map fd_type cols, en_characterSets = map fd_charset cols, en_flags = map fd_flags cols,
       en_decimals = map fd_decimals cols, en_names = map fd_name cols,
       en_extendedTypeNames = map fd_extendedTypeName cols, en_extendedFormats = map fd_extendedFormat cols,
       en_tables = (if nest = NestKey False then None else Some (map fd_table cols))\<rparr>)"

definition matches ::
    "entry \<Rightarrow> protocol \<Rightarrow> row_field list \<Rightarrow> ('f, 'j) row_options \<Rightarrow> ('f, 'j) row_options \<Rightarrow> bool" where
  "matches e type cols opts cfg \<longleftrightarrow>
     (let nest = nestTablesKey (ro_nestTables opts); dates = dateStringsKey (row_dateStrings cfg opts) in
      en_optionBits e = optionBits type opts cfg nest dates \<and> en_nestTables e = nest \<and>
      en_timezone e = zone_text (row_timezone cfg opts) \<and> length (en_names e) = length cols \<and>
      (case dates of DateStringsFor _ \<Rightarrow> en_dateStrings e = dates | _ \<Rightarrow> True) \<and>
      (\<forall>i < length cols.
         en_columnTypes e ! i = fd_type (cols ! i) \<and> en_characterSets e ! i = fd_charset (cols ! i) \<and>
         en_flags e ! i = fd_flags (cols ! i) \<and> en_decimals e ! i = fd_decimals (cols ! i) \<and>
         en_names e ! i = fd_name (cols ! i) \<and> en_extendedTypeNames e ! i = fd_extendedTypeName (cols ! i) \<and>
         en_extendedFormats e ! i = fd_extendedFormat (cols ! i) \<and>
         (case en_tables e of None \<Rightarrow> True | Some ts \<Rightarrow> ts ! i = fd_table (cols ! i))))"

section \<open>The cache\<close>

definition compiler ::
    "protocol \<Rightarrow> row_field list \<Rightarrow> ('f, 'j) row_options \<Rightarrow> ('f, 'j) row_options \<Rightarrow>
     (row_parser \<times> ('f, 'j) row_options) result" where
  "compiler type cols opts cfg =
     (case type of
        TextProtocol \<Rightarrow>
          (case compile_text cols opts cfg of Inl e \<Rightarrow> Inl e | Inr (prog, opts') \<Rightarrow> Inr (TextParser prog, opts'))
      | BinaryProtocol \<Rightarrow>
          (case compile_binary cols opts cfg of Inl e \<Rightarrow> Inl e | Inr (prog, opts') \<Rightarrow> Inr (BinaryParser prog, opts')))"

type_synonym cache = "nat \<rightharpoonup> entry list"

definition getParser ::
    "protocol \<Rightarrow> row_field list \<Rightarrow> ('f, 'j) row_options \<Rightarrow> ('f, 'j) row_options \<Rightarrow> cache \<Rightarrow>
     row_parser result \<times> cache" where
  "getParser type cols opts cfg s =
     (let hash = hashKey type cols opts cfg in
      case Option.bind (s hash) (find (\<lambda>e. matches e type cols opts cfg)) of
        Some e \<Rightarrow> (Inr (en_parser e), s)
      | None \<Rightarrow>
          (case compiler type cols opts cfg of
             Inl e \<Rightarrow> (Inl e, s)
           | Inr (parser, opts') \<Rightarrow>
               (Inr parser,
                s(hash \<mapsto> (case s hash of None \<Rightarrow> [] | Some es \<Rightarrow> es) @ [Entry parser type cols opts' cfg]))))"

definition clearCache :: "cache \<Rightarrow> cache" where
  "clearCache s = Map.empty"

text \<open>What the users of the cache do: ask for parsers, clear it; and the LRU forgets entries.\<close>

datatype ('f, 'j) cache_event =
    Request protocol "row_field list" "('f, 'j) row_options" "('f, 'j) row_options"
  | Evict nat
  | Clear

fun cache_run :: "('f, 'j) cache_event list \<Rightarrow> cache \<Rightarrow> row_parser result list" where
  "cache_run [] s = []"
| "cache_run (Request type cols opts cfg # es) s =
     (let (r, s') = getParser type cols opts cfg s in r # cache_run es s')"
| "cache_run (Evict h # es) s = cache_run es (s(h := None))"
| "cache_run (Clear # es) s = cache_run es (clearCache s)"

section \<open>The cache is transparent\<close>

text \<open>
  Requests whose options agree with the configuration where the key takes one and the generated code
  the other: \<open>decimalNumbers\<close>, and a global \<open>typeCast\<close> function.
\<close>

definition settled :: "('f, 'j) row_options \<Rightarrow> ('f, 'j) row_options \<Rightarrow> bool" where
  "settled opts cfg \<longleftrightarrow>
     (is_function (ro_typeCast cfg) \<longrightarrow> is_function (ro_typeCast opts)) \<and>
     ro_decimalNumbers opts = ro_decimalNumbers cfg \<and> ro_nestTables opts \<noteq> NestTruthy \<and>
     row_timezone cfg opts \<noteq> None"

fun fresh :: "('f, 'j) cache_event list \<Rightarrow> row_parser result list" where
  "fresh [] = []"
| "fresh (Request type cols opts cfg # es) =
     (case compiler type cols opts cfg of Inl e \<Rightarrow> Inl e | Inr (parser, _) \<Rightarrow> Inr parser) # fresh es"
| "fresh (_ # es) = fresh es"

lemma bit_flag: "bit (flag b (2 ^ k)) j \<longleftrightarrow> b \<and> j = k"
  by (simp add: flag_def bit_exp_iff)

lemma optionBits_powers:
  "optionBits type opts cfg nest dates =
    flag (type = BinaryProtocol) (2 ^ 0) OR flag (ro_rowsAsArray opts) (2 ^ 1) OR flag (big_numbers cfg opts) (2 ^ 2) OR
     flag (big_strings cfg opts) (2 ^ 3) OR push_bit 4 (typeCastKind (ro_typeCast opts)) OR
     flag (ro_decimalNumbers opts) (2 ^ 6) OR flag (ro_jsonStrings cfg) (2 ^ 7) OR flag (nest = NestKey True) (2 ^ 8) OR
     flag (case nest of NestKeyText _ \<Rightarrow> True | _ \<Rightarrow> False) (2 ^ 9) OR flag (dates = DateStrings True) (2 ^ 10) OR
     flag (case dates of DateStringsFor _ \<Rightarrow> True | _ \<Rightarrow> False) (2 ^ 11)"
  by (simp add: optionBits_def)

lemma kind_bits: "bit (typeCastKind c) j \<longleftrightarrow> (j = 0 \<and> typeCastKind c \<noteq> 2) \<or> (j = 1 \<and> typeCastKind c \<noteq> 1)"
proof -
  have "bit (1 :: nat) j \<longleftrightarrow> j = 0" "bit (2 :: nat) j \<longleftrightarrow> j = 1" "bit (3 :: nat) j \<longleftrightarrow> j = 0 \<or> j = 1"
    using bit_exp_iff [of 0 j, where ?'a = nat] bit_exp_iff [of 1 j, where ?'a = nat]
    by (auto simp: bit_1_iff) (cases j; simp add: bit_Suc; cases "j - 1"; simp add: bit_Suc)+
  then show ?thesis
    by (cases c) (auto simp: typeCastKind_def TYPE_CAST_FALSE_def TYPE_CAST_FUNCTION_def TYPE_CAST_DEFAULT_def)
qed

lemma optionBits_bit:
  "bit (optionBits type opts cfg nest dates) j \<longleftrightarrow>
     (j = 0 \<and> type = BinaryProtocol) \<or> (j = 1 \<and> ro_rowsAsArray opts) \<or> (j = 2 \<and> big_numbers cfg opts) \<or>
     (j = 3 \<and> big_strings cfg opts) \<or> (j = 4 \<and> typeCastKind (ro_typeCast opts) \<noteq> 2) \<or>
     (j = 5 \<and> typeCastKind (ro_typeCast opts) \<noteq> 1) \<or> (j = 6 \<and> ro_decimalNumbers opts) \<or>
     (j = 7 \<and> ro_jsonStrings cfg) \<or> (j = 8 \<and> nest = NestKey True) \<or>
     (j = 9 \<and> (case nest of NestKeyText _ \<Rightarrow> True | _ \<Rightarrow> False)) \<or> (j = 10 \<and> dates = DateStrings True) \<or>
     (j = 11 \<and> (case dates of DateStringsFor _ \<Rightarrow> True | _ \<Rightarrow> False))"
proof -
  have "bit (push_bit 4 (typeCastKind (ro_typeCast opts))) j \<longleftrightarrow>
      (j = 4 \<and> typeCastKind (ro_typeCast opts) \<noteq> 2) \<or> (j = 5 \<and> typeCastKind (ro_typeCast opts) \<noteq> 1)"
    by (auto simp: bit_push_bit_iff kind_bits)
  then show ?thesis
    unfolding optionBits_powers bit_or_iff bit_flag by auto
qed

lemma optionBits_inj:
  assumes "optionBits t1 o1 c1 n1 d1 = optionBits t2 o2 c2 n2 d2"
  shows "t1 = t2" "ro_rowsAsArray o1 = ro_rowsAsArray o2" "big_numbers c1 o1 = big_numbers c2 o2"
    "big_strings c1 o1 = big_strings c2 o2" "typeCastKind (ro_typeCast o1) = typeCastKind (ro_typeCast o2)"
    "ro_decimalNumbers o1 = ro_decimalNumbers o2" "ro_jsonStrings c1 = ro_jsonStrings c2"
    "d1 = DateStrings True \<longleftrightarrow> d2 = DateStrings True"
    "(case d1 of DateStringsFor _ \<Rightarrow> True | _ \<Rightarrow> False) = (case d2 of DateStringsFor _ \<Rightarrow> True | _ \<Rightarrow> False)"
proof -
  have eq: "bit (optionBits t1 o1 c1 n1 d1) j = bit (optionBits t2 o2 c2 n2 d2) j" for j
    using assms by simp
  note at = eq [unfolded optionBits_bit]
  show "t1 = t2" using at [of 0] by (cases t1; cases t2) simp_all
  show "ro_rowsAsArray o1 = ro_rowsAsArray o2" using at [of 1] by simp
  show "big_numbers c1 o1 = big_numbers c2 o2" using at [of 2] by simp
  show "big_strings c1 o1 = big_strings c2 o2" using at [of 3] by simp
  show "typeCastKind (ro_typeCast o1) = typeCastKind (ro_typeCast o2)"
    using at [of 4] at [of 5]
    by (cases "ro_typeCast o1"; cases "ro_typeCast o2")
      (simp_all add: typeCastKind_def TYPE_CAST_FALSE_def TYPE_CAST_FUNCTION_def TYPE_CAST_DEFAULT_def)
  show "ro_decimalNumbers o1 = ro_decimalNumbers o2" using at [of 6] by simp
  show "ro_jsonStrings c1 = ro_jsonStrings c2" using at [of 7] by simp
  show "d1 = DateStrings True \<longleftrightarrow> d2 = DateStrings True" using at [of 10] by simp
  show "(case d1 of DateStringsFor _ \<Rightarrow> True | _ \<Rightarrow> False) = (case d2 of DateStringsFor _ \<Rightarrow> True | _ \<Rightarrow> False)"
    using at [of 11] by simp
qed

text \<open>What generated code depends on.\<close>

definition same_options ::
    "('f, 'j) row_options \<Rightarrow> ('f, 'j) row_options \<Rightarrow> ('g, 'k) row_options \<Rightarrow> ('g, 'k) row_options \<Rightarrow> bool" where
  "same_options o1 c1 o2 c2 \<longleftrightarrow>
     ro_rowsAsArray o1 = ro_rowsAsArray o2 \<and> ro_nestTables o1 = ro_nestTables o2 \<and>
     big_numbers c1 o1 = big_numbers c2 o2 \<and> big_strings c1 o1 = big_strings c2 o2 \<and>
     typeCastKind (ro_typeCast o1) = typeCastKind (ro_typeCast o2) \<and> ro_jsonStrings c1 = ro_jsonStrings c2 \<and>
     ro_decimalNumbers c1 = ro_decimalNumbers c2 \<and> row_timezone c1 o1 = row_timezone c2 o2 \<and>
     row_dateStrings c1 o1 = row_dateStrings c2 o2"

definition same_column :: "bool \<Rightarrow> row_field \<Rightarrow> row_field \<Rightarrow> bool" where
  "same_column nested f g \<longleftrightarrow>
     fd_type f = fd_type g \<and> fd_charset f = fd_charset g \<and> fd_flags f = fd_flags g \<and>
     fd_decimals f = fd_decimals g \<and> fd_name f = fd_name g \<and> fd_extendedFormat f = fd_extendedFormat g \<and>
     (nested \<longrightarrow> fd_table f = fd_table g)"

lemma code_cong:
  assumes "same_options o1 c1 o2 c2" "same_column n f g"
  shows "text_readCodeFor f e c1 o1 = text_readCodeFor g e c2 o2"
    and "binary_readCodeFor f e c1 o1 = binary_readCodeFor g e c2 o2"
    and "usesLocalDate c1 o1 f = usesLocalDate c2 o2 g"
proof -
  have opts: "big_numbers c1 o1 = big_numbers c2 o2" "big_strings c1 o1 = big_strings c2 o2"
    "ro_jsonStrings c1 = ro_jsonStrings c2" "ro_decimalNumbers c1 = ro_decimalNumbers c2"
    "row_timezone c1 o1 = row_timezone c2 o2" "row_dateStrings c1 o1 = row_dateStrings c2 o2"
    using assms(1) by (simp_all add: same_options_def)
  have col: "is_type f = is_type g" "is_unsigned f = is_unsigned g" "fd_type f = fd_type g" "fd_charset f = fd_charset g"
    "fd_decimals f = fd_decimals g" "fd_extendedFormat f = fd_extendedFormat g"
    using assms(2) by (simp_all add: same_column_def is_type_def is_unsigned_def fun_eq_iff)
  show "text_readCodeFor f e c1 o1 = text_readCodeFor g e c2 o2"
    unfolding text_readCodeFor_def opts col by (rule refl)
  show "binary_readCodeFor f e c1 o1 = binary_readCodeFor g e c2 o2"
    unfolding binary_readCodeFor_def opts col by (rule refl)
  show "usesLocalDate c1 o1 f = usesLocalDate c2 o2 g"
    unfolding usesLocalDate_def opts col by (rule refl)
qed

lemma lvalue_cong:
  assumes "same_options o1 c1 o2 c2" "same_column (ro_nestTables o1 \<noteq> NestFalse) f g"
  shows "compiled_lvalue o1 i f = compiled_lvalue o2 i g"
proof -
  have nest: "ro_nestTables o1 = ro_nestTables o2" "ro_rowsAsArray o1 = ro_rowsAsArray o2" "fd_name f = fd_name g"
    using assms by (simp_all add: same_options_def same_column_def)
  have "ro_nestTables o2 \<noteq> NestFalse \<Longrightarrow> fd_table f = fd_table g"
    using assms by (simp add: same_options_def same_column_def)
  then show ?thesis
    unfolding compiled_lvalue_def nest by (cases "ro_nestTables o2") (simp_all add: nested_key_def plain_key_def nest(3) split: sum.split)
qed

lemma stmt_cong: "same_options o1 c1 o2 c2 \<Longrightarrow> compiled_stmt o1 i code = compiled_stmt o2 i code"
  by (cases "ro_typeCast o1"; cases "ro_typeCast o2")
    (simp_all add: same_options_def compiled_stmt_def typeCastKind_def TYPE_CAST_FALSE_def TYPE_CAST_FUNCTION_def TYPE_CAST_DEFAULT_def)

lemma stmts_cong:
  assumes "same_options o1 c1 o2 c2"
  shows "list_all2 (same_column (ro_nestTables o1 \<noteq> NestFalse)) fs gs \<Longrightarrow>
    text_stmts c1 o1 i fs = text_stmts c2 o2 i gs \<and> binary_stmts c1 o1 pos i fs = binary_stmts c2 o2 pos i gs"
proof (induction fs gs arbitrary: i pos rule: list_all2_induct)
  case (Cons f fs g gs)
  have rest: "text_stmts c1 o1 (i + 1) fs = text_stmts c2 o2 (i + 1) gs"
    "binary_stmts c1 o1 (next_bit pos) (i + 1) fs = binary_stmts c2 o2 (next_bit pos) (i + 1) gs"
    using Cons.IH by blast+
  show ?case
    unfolding text_stmts.simps binary_stmts.simps lvalue_cong [OF assms Cons.hyps(1)] rest
      code_cong [OF assms Cons.hyps(1)] stmt_cong [OF assms] by simp
qed simp

lemma list_ex_cong2: "list_all2 (\<lambda>f g. P f = Q g) fs gs \<Longrightarrow> list_ex P fs = list_ex Q gs"
  by (induction rule: list_all2_induct) simp_all

lemma take_cast_settled: "settled opts cfg \<Longrightarrow> take_cast cfg opts = opts"
  by (auto simp: settled_def take_cast_def)

lemma is_function_kind: "is_function c \<longleftrightarrow> typeCastKind c = TYPE_CAST_FUNCTION"
  by (cases c) (simp_all add: is_function_def typeCastKind_def TYPE_CAST_FALSE_def TYPE_CAST_FUNCTION_def TYPE_CAST_DEFAULT_def)

definition parser_of :: "(row_parser \<times> ('f, 'j) row_options) result \<Rightarrow> row_parser result" where
  "parser_of r = (case r of Inl e \<Rightarrow> Inl e | Inr (parser, _) \<Rightarrow> Inr parser)"

lemma compiler_cong:
  assumes same: "same_options o1 c1 o2 c2" and cols: "list_all2 (same_column (ro_nestTables o1 \<noteq> NestFalse)) fs gs"
    and set: "settled o1 c1" "settled o2 c2"
  shows "parser_of (compiler type fs o1 c1) = parser_of (compiler type gs o2 c2)"
proof -
  have len: "length fs = length gs" using cols by (rule list_all2_lengthD)
  have check: "list_ex (usesLocalDate c1 o1) fs = list_ex (usesLocalDate c2 o2) gs"
    by (rule list_ex_cong2) (rule list_all2_mono [OF cols], rule code_cong(3) [OF same])
  have tables: "map fd_table fs = map fd_table gs" if "ro_nestTables o1 = NestTrue"
    using cols that by (induction rule: list_all2_induct) (simp_all add: same_column_def)
  have "is_function (ro_typeCast o1) = is_function (ro_typeCast o2)" "ro_nestTables o1 = ro_nestTables o2"
    "ro_rowsAsArray o1 = ro_rowsAsArray o2"
    using same by (simp_all add: is_function_kind same_options_def)
  then show ?thesis
    using stmts_cong [OF same cols] check len tables
    by (cases type) (auto simp: compiler_def compile_text_def compile_binary_def parser_of_def Let_def
        take_cast_settled [OF set(1)] take_cast_settled [OF set(2)] nullBitmapLength_def split: sum.splits)
qed

text \<open>A hit was compiled for the same request.\<close>

lemma matches_same:
  assumes "matches (Entry parser t1 fs o1 c1) t2 gs o2 c2" and set: "settled o1 c1" "settled o2 c2"
  shows "t1 = t2 \<and> same_options o1 c1 o2 c2 \<and> list_all2 (same_column (ro_nestTables o1 \<noteq> NestFalse)) fs gs"
proof -
  let ?n1 = "nestTablesKey (ro_nestTables o1)" and ?n2 = "nestTablesKey (ro_nestTables o2)"
  let ?d1 = "row_dateStrings c1 o1" and ?d2 = "row_dateStrings c2 o2"
  note m = assms(1) [unfolded matches_def Entry_def Let_def entry.simps dateStringsKey_def]
  have bits: "optionBits t1 o1 c1 ?n1 ?d1 = optionBits t2 o2 c2 ?n2 ?d2" using m by blast
  note same = optionBits_inj [OF bits]
  have nest: "ro_nestTables o1 = ro_nestTables o2"
    using m set by (cases "ro_nestTables o1"; cases "ro_nestTables o2") (simp_all add: nestTablesKey_def settled_def)
  have dates: "?d1 = ?d2"
    using m same(8,9) by (cases ?d1; cases ?d2) auto
  have zone: "row_timezone c1 o1 = row_timezone c2 o2"
    using m set by (auto simp: zone_text_def settled_def)
  have len: "length fs = length gs" using m by simp
  have cols: "same_column (ro_nestTables o1 \<noteq> NestFalse) (fs ! i) (gs ! i)" if "i < length gs" for i
  proof -
    have "nestTablesKey (ro_nestTables o1) \<noteq> NestKey False" if "ro_nestTables o1 \<noteq> NestFalse"
      using that by (cases "ro_nestTables o1") (simp_all add: nestTablesKey_def)
    then show ?thesis
      using m \<open>i < length gs\<close> len by (auto simp: same_column_def)
  qed
  have "same_options o1 c1 o2 c2"
    using same nest dates zone set by (simp add: same_options_def settled_def)
  then show ?thesis
    using same(1) cols len by (simp add: list_all2_conv_all_nth)
qed

text \<open>Every entry of the cache was compiled for some settled request.\<close>

definition cache_sound :: "(('f, 'j) row_options \<times> ('f, 'j) row_options) set \<Rightarrow> cache \<Rightarrow> bool" where
  "cache_sound S s \<longleftrightarrow>
     (\<forall>h es e. s h = Some es \<longrightarrow> e \<in> set es \<longrightarrow>
        (\<exists>type fs opts cfg parser. (opts, cfg) \<in> S \<and> settled opts cfg \<and>
           parser_of (compiler type fs opts cfg) = Inr parser \<and> e = Entry parser type fs opts cfg))"

lemma getParser_sound:
  fixes opts :: "('f, 'j) row_options"
  assumes sound: "cache_sound (UNIV :: (('f, 'j) row_options \<times> ('f, 'j) row_options) set) s" and set: "settled opts cfg"
    and get: "getParser type cols opts cfg s = (r, s')"
  shows "r = parser_of (compiler type cols opts cfg) \<and> cache_sound (UNIV :: (('f, 'j) row_options \<times> ('f, 'j) row_options) set) s'"
proof (cases "Option.bind (s (hashKey type cols opts cfg)) (find (\<lambda>e. matches e type cols opts cfg))")
  case (Some e)
  then obtain es where es: "s (hashKey type cols opts cfg) = Some es" "e \<in> set es" "matches e type cols opts cfg"
    by (auto simp: find_Some_iff Option.bind_eq_Some_conv)
  then obtain t1 fs parser and o1 c1 :: "('f, 'j) row_options" where e: "settled o1 c1" "parser_of (compiler t1 fs o1 c1) = Inr parser"
      "e = Entry parser t1 fs o1 c1"
    using sound es(1,2) unfolding cache_sound_def by blast
  have "t1 = type \<and> same_options o1 c1 opts cfg \<and> list_all2 (same_column (ro_nestTables o1 \<noteq> NestFalse)) fs cols"
    using es(3) e(1) set unfolding e(3) by (rule matches_same)
  then have "parser_of (compiler type fs o1 c1) = parser_of (compiler type cols opts cfg)"
    using e(1) set by (intro compiler_cong) auto
  then show ?thesis
    using get Some sound e \<open>t1 = type \<and> _\<close> by (auto simp: getParser_def Let_def Entry_def)
next
  case None
  show ?thesis
  proof (cases "compiler type cols opts cfg")
    case (Inl err)
    then show ?thesis
      using get None sound by (simp add: getParser_def Let_def parser_of_def)
  next
    case (Inr po)
    obtain parser opts' where po: "po = (parser, opts')" by (cases po)
    have "opts' = opts"
      using Inr take_cast_settled [OF set] unfolding po
      by (cases type) (auto simp: compiler_def compile_text_def compile_binary_def Let_def split: sum.splits)
    have pr: "parser_of (compiler type cols opts cfg) = Inr parser"
      by (simp add: Inr po parser_of_def)
    let ?h = "hashKey type cols opts cfg"
    have s': "s' = s(?h \<mapsto> (case s ?h of None \<Rightarrow> [] | Some es \<Rightarrow> es) @ [Entry parser type cols opts cfg])"
      using get None Inr by (simp add: getParser_def Let_def po \<open>opts' = opts\<close>)
    have "cache_sound (UNIV :: (('f, 'j) row_options \<times> ('f, 'j) row_options) set) s'"
      unfolding cache_sound_def
    proof (intro allI impI)
      fix h es e
      assume "s' h = Some es" "e \<in> set es"
      then consider "e = Entry parser type cols opts cfg" | es0 where "s h = Some es0" "e \<in> set es0"
        unfolding s' by (auto split: if_splits option.splits)
      then show "\<exists>type fs opts cfg parser. (opts, cfg) \<in> (UNIV :: (('f, 'j) row_options \<times> ('f, 'j) row_options) set) \<and>
          settled opts cfg \<and> parser_of (compiler type fs opts cfg) = Inr parser \<and> e = Entry parser type fs opts cfg"
      proof cases
        case 1
        then show ?thesis using set pr by blast
      next
        case 2
        then show ?thesis using sound unfolding cache_sound_def by blast
      qed
    qed
    then show ?thesis
      using get None Inr po pr by (auto simp: getParser_def Let_def)
  qed
qed

fun settled_event :: "('f, 'j) cache_event \<Rightarrow> bool" where
  "settled_event (Request type cols opts cfg) \<longleftrightarrow> settled opts cfg"
| "settled_event _ \<longleftrightarrow> True"

lemma cache_run_sound:
  fixes es :: "('f, 'j) cache_event list"
  shows "cache_sound (UNIV :: (('f, 'j) row_options \<times> ('f, 'j) row_options) set) s \<Longrightarrow> list_all settled_event es \<Longrightarrow> cache_run es s = fresh es"
proof (induction es arbitrary: s)
  case (Cons e es)
  show ?case
  proof (cases e)
    case (Request type cols opts cfg)
    then show ?thesis
      using Cons getParser_sound [OF Cons.prems(1), of opts cfg type cols] by (auto simp: parser_of_def split: prod.splits)
  next
    case (Evict h)
    have "cache_sound (UNIV :: (('f, 'j) row_options \<times> ('f, 'j) row_options) set) (s(h := None))"
      using Cons.prems(1) by (auto simp: cache_sound_def split: if_splits)
    then show ?thesis using Cons Evict by simp
  next
    case Clear
    have "cache_sound (UNIV :: (('f, 'j) row_options \<times> ('f, 'j) row_options) set) (clearCache s)"
      by (simp add: cache_sound_def clearCache_def)
    then show ?thesis using Cons Clear by simp
  qed
qed simp



text \<open>
  The key holds the \<open>decimalNumbers\<close> of the query, the generated code that of the connection: after
  a query that overrides the option, a connection with the other setting gets the same parser.
\<close>

lemma decimalNumbers_not_in_key:
  assumes "compiler type cols opts cfg = Inr (parser, opts)"
  shows "cache_run [Request type cols opts cfg, Request type cols opts (cfg\<lparr>ro_decimalNumbers := b\<rparr>)] Map.empty =
    [Inr parser, Inr parser]"
proof -
  let ?c = "cfg\<lparr>ro_decimalNumbers := b\<rparr>"
  have same: "big_numbers ?c opts = big_numbers cfg opts" "big_strings ?c opts = big_strings cfg opts"
    "row_timezone ?c opts = row_timezone cfg opts" "row_dateStrings ?c opts = row_dateStrings cfg opts"
    by (simp_all add: big_numbers_def big_strings_def row_timezone_def row_dateStrings_def)
  have "optionBits type opts ?c n d = optionBits type opts cfg n d" for n d
    by (simp add: optionBits_def same)
  then have "hashKey type cols opts ?c = hashKey type cols opts cfg"
    "matches (Entry parser type cols opts cfg) type cols opts ?c"
    by (simp_all add: hashKey_def matches_def Entry_def Let_def same split: date_strings.split)
  moreover have "en_parser (Entry parser type cols opts cfg) = parser"
    by (simp add: Entry_def Let_def)
  ultimately show ?thesis
    using assms by (simp add: getParser_def Let_def)
qed

end
