(* ===== verification/Parameters.thy ===== *)
theory Parameters
  imports Rows
begin

text \<open>
  Parameters of prepared statements and query attributes: \<open>packets/typed_parameter.js\<close>,
  \<open>packets/encode_parameter.js\<close>, \<open>packets/execute.js\<close> and the attributes of
  \<open>packets/query.js\<close>. An encoded parameter is its wire type, the number of bytes it promises and
  the writer applied to its value. The conversions of the runtime (\<open>String\<close>, \<open>Number\<close>, the \<open>Date\<close>
  constructor, \<open>JSON.stringify\<close>, the arithmetic of doubles) are parameters.
\<close>

section \<open>Values\<close>

text \<open>The values a caller passes; \<open>ArgObject\<close> is any object but a \<open>Date\<close> or a \<open>Buffer\<close>.\<close>

datatype ('f, 'o) js_arg =
    ArgUndefined
  | ArgNull
  | ArgNumber "'f js_num"
  | ArgBigInt int
  | ArgBool bool
  | ArgText jstring
  | ArgDate "int option"
  | ArgBuffer bytes
  | ArgObject 'o

record ('f, 'o) TypedParameter =
  tp_type :: nat
  tp_value :: "('f, 'o) js_arg"
  tp_unsigned :: bool

datatype ('f, 'o) parameter = Plain "('f, 'o) js_arg" | Typed "('f, 'o) TypedParameter"

text \<open>Doubles: sign test, \<open>Math.abs\<close>, \<open>round\<close>, \<open>floor\<close>, and the operators with an integer.\<close>

record 'f math_lib =
  ml_negative :: "'f js_num \<Rightarrow> bool"
  ml_abs :: "'f js_num \<Rightarrow> 'f js_num"
  ml_round :: "'f js_num \<Rightarrow> 'f js_num"
  ml_floor :: "'f js_num \<Rightarrow> 'f js_num"
  ml_rem :: "'f js_num \<Rightarrow> int \<Rightarrow> 'f js_num"
  ml_times :: "'f js_num \<Rightarrow> int \<Rightarrow> 'f js_num"
  ml_quot :: "'f js_num \<Rightarrow> int \<Rightarrow> 'f js_num"

text \<open>
  Objects: whether it is an array, a plain object, has a method \<open>toJSON\<close>; \<open>Buffer.from\<close> and
  iconv-lite applied to it.
\<close>

record 'o object_lib =
  ol_isArray :: "'o \<Rightarrow> bool"
  ol_plain :: "'o \<Rightarrow> bool"
  ol_toJSON :: "'o \<Rightarrow> bool"
  ol_from :: "'o \<Rightarrow> bytes result"
  ol_iconv :: "string option \<Rightarrow> 'o \<Rightarrow> bytes result"

record ('f, 'o) arg_lib =
  al_codec :: codec
  al_fast :: bool
  al_dates :: date_lib
  al_math :: "'f math_lib"
  al_objects :: "'o object_lib"
  al_double :: "'f js_num \<Rightarrow> bytes"
  al_float :: "'f js_num \<Rightarrow> bytes"
  al_Number :: "('f, 'o) js_arg \<Rightarrow> 'f js_num result"
  al_String :: "('f, 'o) js_arg \<Rightarrow> jstring result"
  al_Date :: "('f, 'o) js_arg \<Rightarrow> int option result"
  al_stringify :: "('f, 'o) js_arg \<Rightarrow> jstring option result"

record encoded =
  enc_type :: nat
  enc_length :: nat
  enc_writer :: wr
  enc_unsigned :: bool
  enc_isNull :: bool

section \<open>Tables\<close>

definition type_code :: "string \<Rightarrow> nat" where
  "type_code = code_of Types"

definition INTEGER_BYTES :: "nat \<Rightarrow> nat option" where
  "INTEGER_BYTES = map_of
     [(type_code ''TINY'', 1), (type_code ''SHORT'', 2), (type_code ''YEAR'', 2), (type_code ''INT24'', 4),
      (type_code ''LONG'', 4), (type_code ''LONGLONG'', 8)]"

definition TEMPORAL :: "nat list" where
  "TEMPORAL = map type_code [''DATE'', ''DATETIME'', ''TIMESTAMP'']"

definition WIRE_TYPE :: "nat \<Rightarrow> nat option" where
  "WIRE_TYPE = map_of
     [(type_code ''INT24'', type_code ''LONG''), (type_code ''YEAR'', type_code ''SHORT''),
      (type_code ''ENUM'', type_code ''STRING''), (type_code ''SET'', type_code ''STRING''),
      (type_code ''VECTOR'', type_code ''BLOB'')]"

definition HINT_UPGRADABLE :: "nat list" where
  "HINT_UPGRADABLE = map type_code [''TINY'', ''SHORT'', ''LONG'', ''LONGLONG'']"

definition LENGTH_CODED :: "nat list" where
  "LENGTH_CODED = map type_code
     [''DECIMAL'', ''NEWDECIMAL'', ''VARCHAR'', ''VAR_STRING'', ''STRING'', ''ENUM'', ''SET'', ''JSON'',
      ''VECTOR'', ''TINY_BLOB'', ''MEDIUM_BLOB'', ''LONG_BLOB'', ''BLOB'']"

section \<open>Integers\<close>

text \<open>White space at the ends, and \<open>BigInt\<close> of the text between: decimal with a sign, or a prefix.\<close>

definition js_trim :: "jstring \<Rightarrow> jstring" where
  "js_trim s = rev (dropWhile js_space (rev (dropWhile js_space s)))"

definition digit_value :: "16 word \<Rightarrow> nat" where
  "digit_value u =
     (let n = unat u in
      if 48 \<le> n \<and> n \<le> 57 then n - 48 else if 97 \<le> n \<and> n \<le> 102 then n - 87
      else if 65 \<le> n \<and> n \<le> 70 then n - 55 else 99)"

definition in_radix :: "nat \<Rightarrow> jstring \<Rightarrow> int option" where
  "in_radix r s =
     (if s \<noteq> [] \<and> (\<forall>u \<in> set s. digit_value u < r)
      then Some (foldl (\<lambda>acc u. int r * acc + int (digit_value u)) 0 s) else None)"

definition js_BigInt :: "jstring \<Rightarrow> int option" where
  "js_BigInt s =
     (if s = [] then Some 0
      else if take 2 s \<in> {js ''0x'', js ''0X''} then in_radix 16 (drop 2 s)
      else if take 2 s \<in> {js ''0o'', js ''0O''} then in_radix 8 (drop 2 s)
      else if take 2 s \<in> {js ''0b'', js ''0B''} then in_radix 2 (drop 2 s)
      else if take 1 s = js ''-'' then map_option uminus (in_radix 10 (drop 1 s))
      else if take 1 s = js ''+'' then in_radix 10 (drop 1 s)
      else in_radix 10 s)"

definition toInteger :: "('f, 'o) js_arg \<Rightarrow> int result" where
  "toInteger v =
     (case v of
        ArgBigInt n \<Rightarrow> Inr n
      | ArgBool b \<Rightarrow> Inr (if b then 1 else 0)
      | ArgNumber (Num n) \<Rightarrow> if isSafeInteger n then Inr n else Inl RangeError
      | ArgText s \<Rightarrow> (case js_BigInt (js_trim s) of None \<Rightarrow> Inl TypeError | Some n \<Rightarrow> Inr n)
      | _ \<Rightarrow> Inl TypeError)"

definition int_min :: "bool \<Rightarrow> nat \<Rightarrow> int" where
  "int_min u n = (if u then 0 else - (2 ^ (8 * n - 1)))"

definition int_max :: "bool \<Rightarrow> nat \<Rightarrow> int" where
  "int_max u n = (if u then 2 ^ (8 * n) - 1 else 2 ^ (8 * n - 1) - 1)"

definition checkedInteger :: "('f, 'o) js_arg \<Rightarrow> nat \<Rightarrow> bool \<Rightarrow> int result" where
  "checkedInteger v n u =
     (case toInteger v of
        Inl e \<Rightarrow> Inl e
      | Inr k \<Rightarrow> if k < int_min u n \<or> int_max u n < k then Inl RangeError else Inr k)"

text \<open>The type a server hint may give to a value: only when it holds an integer that fits.\<close>

definition integerHint :: "('f, 'o) js_arg \<Rightarrow> nat option \<Rightarrow> bool \<Rightarrow> ('f, 'o) TypedParameter option" where
  "integerHint v ty u =
     (case ty of
        None \<Rightarrow> None
      | Some t \<Rightarrow>
          (case INTEGER_BYTES t of
             None \<Rightarrow> None
           | Some n \<Rightarrow>
               if t \<notin> set HINT_UPGRADABLE then None
               else
                 (case (case v of
                          ArgBigInt k \<Rightarrow> Some k
                        | ArgBool b \<Rightarrow> Some (if b then 1 else 0)
                        | ArgNumber (Num k) \<Rightarrow> if isSafeInteger k then Some k else None
                        | _ \<Rightarrow> None) of
                    None \<Rightarrow> None
                  | Some k \<Rightarrow>
                      if k < int_min u n \<or> int_max u n < k then None
                      else Some \<lparr>tp_type = t, tp_value = ArgBigInt k, tp_unsigned = u\<rparr>)))"

definition wireType :: "nat \<Rightarrow> bool \<Rightarrow> nat" where
  "wireType t jsonAsString =
     (if t = type_code ''JSON'' \<and> jsonAsString then type_code ''VAR_STRING''
      else case WIRE_TYPE t of None \<Rightarrow> t | Some w \<Rightarrow> if w = 0 then t else w)"

text \<open>\<open>writeUIntLE\<close>, and the doubles, whose bytes the runtime computes.\<close>

definition writeUIntLE :: "int \<Rightarrow> nat \<Rightarrow> wr" where
  "writeUIntLE v n = (if n = 8 then write_uint 8 v else write_uint n v)"

definition writeDouble :: "('f, 'o) arg_lib \<Rightarrow> 'f js_num \<Rightarrow> wr" where
  "writeDouble A x = write_uint 8 (int (le_val (al_double A x)))"

definition writeFloat :: "('f, 'o) arg_lib \<Rightarrow> 'f js_num \<Rightarrow> wr" where
  "writeFloat A x = write_uint 4 (int (le_val (al_float A x)))"

definition integerEncoder :: "nat \<Rightarrow> ('f, 'o) js_arg \<Rightarrow> bool \<Rightarrow> (nat \<times> wr) result" where
  "integerEncoder n v u =
     (case checkedInteger v n u of
        Inl e \<Rightarrow> Inl e
      | Inr k \<Rightarrow> Inr (n, writeUIntLE (k mod 2 ^ (8 * n)) n))"

section \<open>Dates and times\<close>

definition toDate :: "('f, 'o) arg_lib \<Rightarrow> ('f, 'o) js_arg \<Rightarrow> int result" where
  "toDate A v =
     (case (case v of ArgDate d \<Rightarrow> Inr d | _ \<Rightarrow> al_Date A v) of
        Inl e \<Rightarrow> Inl e
      | Inr None \<Rightarrow> Inl TypeError
      | Inr (Some t) \<Rightarrow> Inr t)"

definition temporalEncoder :: "('f, 'o) arg_lib \<Rightarrow> jstring option \<Rightarrow> ('f, 'o) js_arg \<Rightarrow> (nat \<times> wr) result" where
  "temporalEncoder A tz v =
     (case toDate A v of Inl e \<Rightarrow> Inl e | Inr t \<Rightarrow> Inr (12, writeDate (al_dates A) (Some t) tz))"

text \<open>
  \<open>TIME_PATTERN\<close>: sign, hours, minutes and seconds below 60 in one or two digits, up to six digits
  of fraction.
\<close>

definition digits_number :: "jstring \<Rightarrow> nat" where
  "digits_number s = foldl (\<lambda>acc u. 10 * acc + digit_value u) 0 s"

definition sixty :: "jstring \<Rightarrow> (nat \<times> jstring) option" where
  "sixty s =
     (let ds = takeWhile js_digit s in
      if length ds = 1 \<or> (length ds = 2 \<and> digit_value (hd ds) < 6)
      then Some (digits_number ds, dropWhile js_digit s) else None)"

definition expect :: "string \<Rightarrow> jstring \<Rightarrow> jstring option" where
  "expect c s = (if take 1 s = js c then Some (drop 1 s) else None)"

definition fraction :: "jstring \<Rightarrow> nat option" where
  "fraction s =
     (if s = [] then Some 0
      else Option.bind (expect ''.'' s) (\<lambda>ds.
        if 1 \<le> length ds \<and> length ds \<le> 6 \<and> list_all js_digit ds
        then Some (digits_number (ds @ replicate (6 - length ds) (word_of_nat 48))) else None))"

definition TIME_PATTERN :: "jstring \<Rightarrow> time_value option" where
  "TIME_PATTERN s =
     (let neg = (take 1 s = js ''-''); s1 = (if neg then drop 1 s else s); hs = takeWhile js_digit s1 in
      if hs = [] then None
      else Option.bind (expect '':'' (dropWhile js_digit s1)) (\<lambda>s2.
        Option.bind (sixty s2) (\<lambda>(mi, s3).
        Option.bind (expect '':'' s3) (\<lambda>s4.
        Option.bind (sixty s4) (\<lambda>(sec, s5).
        Option.bind (fraction s5) (\<lambda>us.
          let h = digits_number hs in
          Some \<lparr>negative = neg, days = h div 24, hours = h mod 24, minutes = mi, seconds = sec,
                microseconds = us\<rparr>))))))"

text \<open>
  A part computed from a number: NaN counts as zero and is written as zero; an infinite one is
  not zero and is refused by the write, as \<open>2 ^ 32\<close> is.
\<close>

definition time_part :: "'f js_num \<Rightarrow> nat" where
  "time_part x = (case x of Num k \<Rightarrow> nat k | Float f \<Rightarrow> 2 ^ 32 | NaN \<Rightarrow> 0)"

definition toTimeParts :: "('f, 'o) arg_lib \<Rightarrow> ('f, 'o) js_arg \<Rightarrow> time_value result" where
  "toTimeParts A v =
     (case v of
        ArgNumber x \<Rightarrow>
          let M = al_math A; rest = ml_abs M x;
              us = ml_round M (ml_times M (ml_rem M rest 1000) 1000);
              secs = ml_floor M (ml_quot M rest 1000);
              total = ml_floor M (ml_quot M secs 3600)
          in Inr \<lparr>negative = ml_negative M x, days = time_part (ml_floor M (ml_quot M total 24)),
                  hours = time_part (ml_rem M total 24),
                  minutes = time_part (ml_rem M (ml_floor M (ml_quot M secs 60)) 60),
                  seconds = time_part (ml_rem M secs 60), microseconds = time_part us\<rparr>
      | _ \<Rightarrow>
          (case al_String A v of
             Inl e \<Rightarrow> Inl e
           | Inr s \<Rightarrow> (case TIME_PATTERN s of None \<Rightarrow> Inl TypeError | Some t \<Rightarrow> Inr t)))"

definition timeEncoder :: "('f, 'o) arg_lib \<Rightarrow> ('f, 'o) js_arg \<Rightarrow> (nat \<times> wr) result" where
  "timeEncoder A v =
     (case toTimeParts A v of Inl e \<Rightarrow> Inl e | Inr parts \<Rightarrow> Inr (timeLength parts, writeTime parts))"

section \<open>Texts and buffers\<close>

definition utf8Write :: "codec \<Rightarrow> jstring \<Rightarrow> nat \<Rightarrow> wr" where
  "utf8Write c s n p =
     (if \<not> is_mock p \<and> length (buffer p) < offset p then Inl RangeError
      else Inr (p\<lparr>buffer := copy_into (take n (utf8Bytes c s)) (offset p) (buffer p), offset := offset p + n\<rparr>))"

definition writeLengthCodedUtf8String :: "codec \<Rightarrow> jstring \<Rightarrow> nat option \<Rightarrow> wr" where
  "writeLengthCodedUtf8String c s byteLength =
     (let n = (case byteLength of None \<Rightarrow> length (utf8Bytes c s) | Some k \<Rightarrow> k) in
      writes [writeLengthCodedNumber (Some n), utf8Write c s n])"

definition fast_utf8 :: "('f, 'o) arg_lib \<Rightarrow> string option \<Rightarrow> bool" where
  "fast_utf8 A encoding \<longleftrightarrow> al_fast A \<and> (encoding = Some ''utf8'' \<or> encoding = Some ''utf-8'')"

definition encode_text :: "('f, 'o) arg_lib \<Rightarrow> string option \<Rightarrow> jstring \<Rightarrow> (nat \<times> wr) result" where
  "encode_text A encoding s =
     (if fast_utf8 A encoding
      then let n = length (utf8Bytes (al_codec A) s) in
           Inr (lengthCodedNumberLength n + n, writeLengthCodedUtf8String (al_codec A) s (Some n))
      else case encode (al_codec A) s encoding of
             Inl e \<Rightarrow> Inl e
           | Inr b \<Rightarrow> Inr (lengthCodedNumberLength (length b) + length b, writeLengthCodedBuffer b))"

definition encode_buffer :: "bytes \<Rightarrow> nat \<times> wr" where
  "encode_buffer b = (lengthCodedNumberLength (length b) + length b, writeLengthCodedBuffer b)"

definition lengthCodedEncoder ::
    "('f, 'o) arg_lib \<Rightarrow> string option \<Rightarrow> ('f, 'o) js_arg \<Rightarrow> (nat \<times> wr) result" where
  "lengthCodedEncoder A encoding v =
     (case v of
        ArgBuffer b \<Rightarrow> Inr (encode_buffer b)
      | ArgText s \<Rightarrow> encode_text A encoding s
      | _ \<Rightarrow> (case al_String A v of Inl e \<Rightarrow> Inl e | Inr s \<Rightarrow> encode_text A encoding s))"

definition jsonEncoder :: "('f, 'o) arg_lib \<Rightarrow> string option \<Rightarrow> ('f, 'o) js_arg \<Rightarrow> (nat \<times> wr) result" where
  "jsonEncoder A encoding v =
     (case v of
        ArgText s \<Rightarrow> lengthCodedEncoder A encoding v
      | ArgBuffer b \<Rightarrow> lengthCodedEncoder A encoding v
      | _ \<Rightarrow>
          (case al_stringify A v of
             Inl e \<Rightarrow> Inl e
           | Inr None \<Rightarrow> lengthCodedEncoder A encoding ArgUndefined
           | Inr (Some s) \<Rightarrow> lengthCodedEncoder A encoding (ArgText s)))"

section \<open>Typed parameters\<close>

definition encoderFor ::
    "('f, 'o) arg_lib \<Rightarrow> nat \<Rightarrow> string option \<Rightarrow> jstring option \<Rightarrow> ('f, 'o) js_arg \<Rightarrow> bool \<Rightarrow> (nat \<times> wr) result" where
  "encoderFor A t encoding tz v u =
     (case INTEGER_BYTES t of
        Some n \<Rightarrow> integerEncoder n v u
      | None \<Rightarrow>
          if t = type_code ''DOUBLE'' then
            (case al_Number A v of Inl e \<Rightarrow> Inl e | Inr x \<Rightarrow> Inr (8, writeDouble A x))
          else if t = type_code ''FLOAT'' then
            (case al_Number A v of Inl e \<Rightarrow> Inl e | Inr x \<Rightarrow> Inr (4, writeFloat A x))
          else if t \<in> set TEMPORAL then temporalEncoder A tz v
          else if t = type_code ''TIME'' then timeEncoder A v
          else if t = type_code ''JSON'' then jsonEncoder A encoding v
          else if t \<in> set LENGTH_CODED then lengthCodedEncoder A encoding v
          else Inl TypeError)"

definition encodeTypedParameter ::
    "('f, 'o) arg_lib \<Rightarrow> ('f, 'o) TypedParameter \<Rightarrow> string option \<Rightarrow> jstring option \<Rightarrow> bool \<Rightarrow> encoded result" where
  "encodeTypedParameter A par encoding tz jsonAsString =
     (if tp_value par = ArgNull \<or> tp_type par = type_code ''NULL''
      then Inr \<lparr>enc_type = wireType (tp_type par) jsonAsString, enc_length = 0, enc_writer = Inr,
                enc_unsigned = tp_unsigned par, enc_isNull = True\<rparr>
      else case encoderFor A (tp_type par) encoding tz (tp_value par) (tp_unsigned par) of
             Inl e \<Rightarrow> Inl e
           | Inr (n, w) \<Rightarrow>
               Inr \<lparr>enc_type = wireType (tp_type par) jsonAsString, enc_length = n, enc_writer = w,
                    enc_unsigned = tp_unsigned par, enc_isNull = False\<rparr>)"

text \<open>The factories \<open>types.TINYINT\<close>, ..., which check integers as soon as they are called.\<close>

definition SUPPORTED :: "string list" where
  "SUPPORTED =
     [''TINY'', ''SHORT'', ''LONG'', ''LONGLONG'', ''INT24'', ''YEAR'', ''FLOAT'', ''DOUBLE'', ''TIME'', ''DATE'',
      ''DATETIME'', ''TIMESTAMP'', ''DECIMAL'', ''NEWDECIMAL'', ''VARCHAR'', ''VAR_STRING'', ''STRING'', ''ENUM'',
      ''SET'', ''JSON'', ''VECTOR'', ''TINY_BLOB'', ''MEDIUM_BLOB'', ''LONG_BLOB'', ''BLOB'']"

definition ALIASES :: "(string \<times> string) list" where
  "ALIASES =
     [(''MEDIUMTEXT'', ''MEDIUM_BLOB''), (''LONGTEXT'', ''LONG_BLOB''), (''TINYINT'', ''TINY''),
      (''SMALLINT'', ''SHORT''), (''MEDIUMINT'', ''INT24''), (''INT'', ''LONG''), (''INTEGER'', ''LONG''),
      (''BIGINT'', ''LONGLONG''), (''REAL'', ''DOUBLE''), (''CHAR'', ''STRING''), (''VARBINARY'', ''VAR_STRING''),
      (''BINARY'', ''STRING''), (''TEXT'', ''BLOB'')]"

definition factory_type :: "string \<Rightarrow> nat option" where
  "factory_type name =
     (if name \<in> set SUPPORTED then Some (type_code name)
      else map_option type_code (map_of ALIASES name))"

definition build_parameter :: "nat \<Rightarrow> ('f, 'o) js_arg \<Rightarrow> bool \<Rightarrow> ('f, 'o) TypedParameter result" where
  "build_parameter t v u =
     (case INTEGER_BYTES t of
        None \<Rightarrow> Inr \<lparr>tp_type = t, tp_value = v, tp_unsigned = u\<rparr>
      | Some n \<Rightarrow>
          if v = ArgNull then Inr \<lparr>tp_type = t, tp_value = ArgNull, tp_unsigned = u\<rparr>
          else case checkedInteger v n u of
                 Inl e \<Rightarrow> Inl e
               | Inr k \<Rightarrow> Inr \<lparr>tp_type = t, tp_value = ArgBigInt k, tp_unsigned = u\<rparr>)"

definition parameter_factory :: "string \<Rightarrow> bool \<Rightarrow> ('f, 'o) js_arg \<Rightarrow> ('f, 'o) TypedParameter result" where
  "parameter_factory name u v =
     (if name = ''NULL'' \<and> \<not> u then Inr \<lparr>tp_type = type_code ''NULL'', tp_value = ArgNull, tp_unsigned = False\<rparr>
      else case factory_type name of
             None \<Rightarrow> Inl TypeError
           | Some t \<Rightarrow> if u \<and> INTEGER_BYTES t = None then Inl TypeError else build_parameter t v u)"

section \<open>Plain parameters\<close>

definition isJSON :: "'o object_lib \<Rightarrow> ('f, 'o) js_arg \<Rightarrow> bool" where
  "isJSON obj v = (case v of ArgObject x \<Rightarrow> ol_isArray obj x \<or> ol_plain obj x \<or> ol_toJSON obj x | _ \<Rightarrow> False)"

definition plain_encoded :: "nat \<Rightarrow> nat \<times> wr \<Rightarrow> encoded" where
  "plain_encoded t e = \<lparr>enc_type = t, enc_length = fst e, enc_writer = snd e, enc_unsigned = False, enc_isNull = False\<rparr>"

definition emap :: "('a \<Rightarrow> 'b) \<Rightarrow> 'a result \<Rightarrow> 'b result" where
  "emap f r = (case r of Inl e \<Rightarrow> Inl e | Inr x \<Rightarrow> Inr (f x))"

text \<open>An object that is neither JSON nor a buffer goes through the encoder as it is.\<close>

definition encode_object :: "('f, 'o) arg_lib \<Rightarrow> string option \<Rightarrow> 'o \<Rightarrow> bytes result" where
  "encode_object A encoding x =
     (if \<exists>e \<in> set_option encoding. isEncoding (al_codec A) e then ol_from (al_objects A) x
      else ol_iconv (al_objects A) encoding x)"

definition inferred ::
    "('f, 'o) arg_lib \<Rightarrow> ('f, 'o) js_arg \<Rightarrow> string option \<Rightarrow> jstring option \<Rightarrow> bool \<Rightarrow> encoded result" where
  "inferred A v encoding tz jsonAsString =
     (let str = type_code ''VAR_STRING'' in
      case v of
        ArgNull \<Rightarrow> Inr \<lparr>enc_type = type_code ''NULL'', enc_length = 0, enc_writer = Inr, enc_unsigned = False,
                        enc_isNull = True\<rparr>
      | ArgUndefined \<Rightarrow> Inl TypeError
      | ArgNumber x \<Rightarrow> Inr (plain_encoded (type_code ''DOUBLE'') (8, writeDouble A x))
      | ArgBool b \<Rightarrow> Inr (plain_encoded (type_code ''TINY'') (1, writeInt8 (if b then 1 else 0)))
      | ArgDate d \<Rightarrow> Inr (plain_encoded (type_code ''DATETIME'') (12, writeDate (al_dates A) d tz))
      | ArgBuffer b \<Rightarrow> Inr (plain_encoded (type_code ''BLOB'') (encode_buffer b))
      | ArgText s \<Rightarrow> emap (plain_encoded str) (encode_text A encoding s)
      | ArgBigInt k \<Rightarrow> emap (plain_encoded str) (encode_text A encoding (int_to_string k))
      | ArgObject x \<Rightarrow>
          if isJSON (al_objects A) v then
            (case al_stringify A v of
               Inl e \<Rightarrow> Inl e
             | Inr None \<Rightarrow> Inl TypeError
             | Inr (Some s) \<Rightarrow>
                 emap (plain_encoded (if jsonAsString then str else type_code ''JSON'')) (encode_text A encoding s))
          else emap (\<lambda>b. plain_encoded str (encode_buffer b)) (encode_object A encoding x))"

definition toParameter ::
    "('f, 'o) arg_lib \<Rightarrow> ('f, 'o) parameter \<Rightarrow> string option \<Rightarrow> jstring option \<Rightarrow> bool \<Rightarrow> row_field option \<Rightarrow>
     encoded result" where
  "toParameter A par encoding tz jsonAsString hint =
     (case par of
        Typed t \<Rightarrow> encodeTypedParameter A t encoding tz jsonAsString
      | Plain v \<Rightarrow>
          (case Option.bind hint (\<lambda>h. integerHint v (fd_type h) (is_unsigned h)) of
             Some t \<Rightarrow> encodeTypedParameter A t encoding tz jsonAsString
           | None \<Rightarrow> inferred A v encoding tz jsonAsString))"

section \<open>COM_STMT_EXECUTE and query attributes\<close>

definition InternalError :: js_error where
  "InternalError = JsError [] ''Internal error''"

fun null_bitmap :: "nat \<Rightarrow> nat \<Rightarrow> bool list \<Rightarrow> wr list" where
  "null_bitmap bitmap bitValue [] = (if bitValue = 1 then [] else [writeInt8 (int bitmap)])"
| "null_bitmap bitmap bitValue (isNull # rest) =
     (let bm = (if isNull then bitmap OR bitValue else bitmap) in
      if 2 * bitValue = 256 then writeInt8 (int bm) # null_bitmap 0 1 rest
      else null_bitmap bm (2 * bitValue) rest)"

text \<open>\<open>new Array(n)\<close> filled in a loop: the first error ends it.\<close>

fun collect :: "'a result list \<Rightarrow> 'a list result" where
  "collect [] = Inr []"
| "collect (r # rs) =
     (case r of
        Inl e \<Rightarrow> Inl e
      | Inr x \<Rightarrow> (case collect rs of Inl e \<Rightarrow> Inl e | Inr xs \<Rightarrow> Inr (x # xs)))"

definition sent_length :: "encoded list \<Rightarrow> nat" where
  "sent_length es = sum_list (map (\<lambda>e. if enc_isNull e then 0 else enc_length e) es)"

definition sent_values :: "encoded list \<Rightarrow> wr list" where
  "sent_values es = map enc_writer (filter (\<lambda>e. \<not> enc_isNull e) es)"

definition name_length :: "bytes \<Rightarrow> nat" where
  "name_length name = lengthCodedNumberLength (length name) + length name"

definition type_writes :: "encoded \<Rightarrow> wr list" where
  "type_writes e = [writeInt8 (int (enc_type e)), writeInt8 (if enc_unsigned e then 0x80 else 0)]"

text \<open>A packet whose writers must fill it exactly.\<close>

definition exact_packet :: "(nat \<Rightarrow> bytes) \<Rightarrow> nat \<Rightarrow> wr list \<Rightarrow> packet result" where
  "exact_packet mem n ws =
     (case build (mem n) ws of
        Inl e \<Rightarrow> Inl e
      | Inr p \<Rightarrow> if offset p \<noteq> n then Inl InternalError else Inr p)"

record ('f, 'o) execute_args =
  ex_id :: nat
  ex_parameters :: "('f, 'o) parameter list"
  ex_charset :: nat
  ex_timezone :: "jstring option"
  ex_attributes :: "(jstring \<times> ('f, 'o) parameter) list"
  ex_clientFlags :: nat
  ex_jsonAsString :: bool
  ex_definitions :: "row_field list"

definition use_attributes :: "nat \<Rightarrow> bool" where
  "use_attributes flags \<longleftrightarrow> isSet ClientConstants flags ''CLIENT_QUERY_ATTRIBUTES''"

definition execute_attributes :: "('f, 'o) execute_args \<Rightarrow> (jstring \<times> ('f, 'o) parameter) list" where
  "execute_attributes x = (if use_attributes (ex_clientFlags x) then ex_attributes x else [])"

definition bind_parameters :: "('f, 'o) arg_lib \<Rightarrow> ('f, 'o) execute_args \<Rightarrow> encoded list result" where
  "bind_parameters A x =
     (let enc = CharsetToEncoding (ex_charset x) in
      collect
        (map (\<lambda>i. toParameter A (ex_parameters x ! i) enc (ex_timezone x) (ex_jsonAsString x)
                    (if i < length (ex_definitions x) then Some (ex_definitions x ! i) else None))
             [0..<length (ex_parameters x)] @
         map (\<lambda>(name, v). toParameter A v enc (ex_timezone x) False None) (execute_attributes x)))"

definition execute_length :: "('f, 'o) execute_args \<Rightarrow> encoded list \<Rightarrow> bytes list \<Rightarrow> nat" where
  "execute_length x params names =
     (let useAttrs = use_attributes (ex_clientFlags x); total = length params in
      14 + (if useAttrs then lengthCodedNumberLength total else 0) +
      (if 0 < total
       then (total + 7) div 8 + 1 + total * 2 +
            (if useAttrs then length (ex_parameters x) + sum_list (map name_length names) else 0) +
            sent_length params
       else 0))"

definition execute_types :: "('f, 'o) execute_args \<Rightarrow> encoded list \<Rightarrow> bytes list \<Rightarrow> wr list" where
  "execute_types x params names =
     concat (map (\<lambda>i. type_writes (params ! i) @
        (if use_attributes (ex_clientFlags x)
         then [if i < length (ex_parameters x) then writeInt8 0
               else writeLengthCodedBuffer (names ! (i - length (ex_parameters x)))]
         else [])) [0..<length params])"

definition execute_writes :: "('f, 'o) execute_args \<Rightarrow> encoded list \<Rightarrow> bytes list \<Rightarrow> wr list" where
  "execute_writes x params names =
     (let useAttrs = use_attributes (ex_clientFlags x); total = length params in
      [writeInt8 (cmd ''STMT_EXECUTE''), writeInt32 (int (ex_id x)),
       writeInt8 (if useAttrs
                  then int (code_of CursorType ''NO_CURSOR'' OR code_of CursorType ''PARAMETER_COUNT_AVAILABLE'')
                  else int (code_of CursorType ''NO_CURSOR'')),
       writeInt32 1] @
      (if useAttrs then [writeLengthCodedNumber (Some total)] else []) @
      (if 0 < total
       then null_bitmap 0 1 (map enc_isNull params) @ [writeInt8 1] @ execute_types x params names @
            sent_values params
       else []))"

definition Execute_toPacket ::
    "('f, 'o) arg_lib \<Rightarrow> (nat \<Rightarrow> bytes) \<Rightarrow> ('f, 'o) execute_args \<Rightarrow> packet result" where
  "Execute_toPacket A mem x =
     (case bind_parameters A x of
        Inl e \<Rightarrow> Inl e
      | Inr params \<Rightarrow>
          (case collect (map (\<lambda>(name, v). encode (al_codec A) name (CharsetToEncoding (ex_charset x)))
                 (execute_attributes x)) of
             Inl e \<Rightarrow> Inl e
           | Inr names \<Rightarrow> exact_packet mem (execute_length x params names) (execute_writes x params names)))"

text \<open>A query with attributes: parameter and name of each attribute in turn, then the text.\<close>

definition query_attribute ::
    "('f, 'o) arg_lib \<Rightarrow> string option \<Rightarrow> jstring \<times> ('f, 'o) parameter \<Rightarrow> (encoded \<times> bytes) result" where
  "query_attribute A enc a =
     (case toParameter A (snd a) enc (Some (js ''local'')) False None of
        Inl e \<Rightarrow> Inl e
      | Inr par \<Rightarrow>
          (case encode (al_codec A) (fst a) enc of Inl e \<Rightarrow> Inl e | Inr name \<Rightarrow> Inr (par, name)))"

definition query_attributes_length :: "(encoded \<times> bytes) list \<Rightarrow> bytes \<Rightarrow> nat" where
  "query_attributes_length attrs sql =
     5 + lengthCodedNumberLength (length attrs) + 1 + (length attrs + 7) div 8 + 1 + length attrs * 2 +
     sum_list (map (name_length \<circ> snd) attrs) + sent_length (map fst attrs) + length sql"

definition query_attributes_writes :: "(encoded \<times> bytes) list \<Rightarrow> bytes \<Rightarrow> wr list" where
  "query_attributes_writes attrs sql =
     [writeInt8 (cmd ''QUERY''), writeLengthCodedNumber (Some (length attrs)), writeLengthCodedNumber (Some 1)] @
     null_bitmap 0 1 (map (enc_isNull \<circ> fst) attrs) @ [writeInt8 1] @
     concat (map (\<lambda>(e, name). type_writes e @ [writeLengthCodedBuffer name]) attrs) @
     sent_values (map fst attrs) @ [writeBuffer sql]"

definition Query_attributes_toPacket ::
    "('f, 'o) arg_lib \<Rightarrow> (nat \<Rightarrow> bytes) \<Rightarrow> jstring \<Rightarrow> nat \<Rightarrow> (jstring \<times> ('f, 'o) parameter) list \<Rightarrow> nat \<Rightarrow>
     packet result" where
  "Query_attributes_toPacket A mem query charsetNumber attributes clientFlags =
     (let enc = CharsetToEncoding charsetNumber in
      if use_attributes clientFlags \<and> attributes \<noteq> [] then
        (case collect (map (query_attribute A enc) attributes) of
           Inl e \<Rightarrow> Inl e
         | Inr attrs \<Rightarrow>
             (case encode (al_codec A) query enc of
                Inl e \<Rightarrow> Inl e
              | Inr sql \<Rightarrow> exact_packet mem (query_attributes_length attrs sql) (query_attributes_writes attrs sql)))
      else Query_toPacket (al_codec A) mem (al_fast A) query charsetNumber clientFlags)"

section \<open>What the packets carry\<close>

text \<open>A writer that moves the offset by \<open>n\<close> or fails with an error of the runtime.\<close>

definition sized :: "wr \<Rightarrow> nat \<Rightarrow> bool" where
  "sized w n \<longleftrightarrow> (\<forall>p. case w p of Inl e \<Rightarrow> e = RangeError | Inr q \<Rightarrow> offset q = offset p + n)"

named_theorems sized_writers \<open>how far each writer moves the offset\<close>

lemma sized_write_uint: "sized (write_uint n v) n"
  by (auto simp: sized_def write_uint_def write_le_def split: sum.split if_splits)

lemma sized_ints [sized_writers]:
  "sized (writeInt8 v) (Suc 0)" "sized (writeInt16 v) 2" "sized (writeInt32 v) 4"
  "sized (writeDouble A x) 8" "sized (writeFloat A x) 4" "sized (writeUIntLE v n) n"
  by (simp_all add: writeInt8_def writeInt16_def writeInt32_def writeDouble_def writeFloat_def writeUIntLE_def
      sized_write_uint)

lemma sized_buffer [sized_writers]:
  "sized (writeBuffer b) (length b)" "sized (utf8Write c s n) n"
  by (simp_all add: sized_def writeBuffer_def utf8Write_def)

lemma sized_writes: "list_all2 sized ws ns \<Longrightarrow> sized (writes ws) (sum_list ns)"
proof (induction ws ns rule: list_all2_induct)
  case Nil
  then show ?case
    by (simp add: sized_def)
next
  case (Cons w ws n ns)
  then show ?case
    unfolding sized_def by (force simp: wbind_def split: sum.splits)
qed

lemma sized_writes_eq: "list_all2 sized ws ns \<Longrightarrow> sum_list ns = n \<Longrightarrow> sized (writes ws) n"
  using sized_writes by blast

lemma sized_int24: "sized (writeInt24 v) 3"
  unfolding writeInt24_def by (rule sized_writes_eq [where ns = "[1, 2]"]) (simp_all add: sized_writers)

lemma sized_lcn [sized_writers]: "sized (writeLengthCodedNumber (Some n)) (lengthCodedNumberLength n)"
proof -
  have "sized (writes [writeInt8 0xfc, writeInt16 (int n)]) 3"
    by (rule sized_writes_eq [where ns = "[1, 2]"]) (simp_all add: sized_writers)
  moreover have "sized (writes [writeInt8 0xfd, writeInt24 (int n)]) 4"
    by (rule sized_writes_eq [where ns = "[1, 3]"]) (simp_all add: sized_writers sized_int24)
  moreover have "sized (writes [writeInt8 0xfe, write_uint 4 v, write_uint 4 w]) 9" for v w
    by (rule sized_writes_eq [where ns = "[1, 4, 4]"]) (simp_all add: sized_writers sized_write_uint)
  ultimately show ?thesis
    by (simp add: writeLengthCodedNumber_def lengthCodedNumberLength_def sized_writers)
qed

lemma sized_lenenc [sized_writers]:
  "sized (writeLengthCodedBuffer b) (lengthCodedNumberLength (length b) + length b)"
  "sized (writeLengthCodedUtf8String c s (Some n)) (lengthCodedNumberLength n + n)"
  unfolding writeLengthCodedBuffer_def writeLengthCodedUtf8String_def Let_def option.case
  by (rule sized_writes_eq [where ns = "[lengthCodedNumberLength (length b), length b]"]
      sized_writes_eq [where ns = "[lengthCodedNumberLength n, n]"]; simp add: sized_writers)+

lemma sized_time [sized_writers]: "sized (writeTime t) (timeLength t)"
proof -
  have "sized (writes [writeInt8 a, writeInt8 b, writeInt32 c, writeInt8 d, writeInt8 e, writeInt8 f]) 9" for a b c d e f
    by (rule sized_writes_eq [where ns = "[1, 1, 4, 1, 1, 1]"]) (simp_all add: sized_writers)
  moreover have "sized (writes [writeInt8 a, writeInt8 b, writeInt32 c, writeInt8 d, writeInt8 e, writeInt8 f, writeInt32 g]) 13"
    for a b c d e f g
    by (rule sized_writes_eq [where ns = "[1, 1, 4, 1, 1, 1, 4]"]) (simp_all add: sized_writers)
  ultimately show ?thesis
    by (simp add: writeTime_def timeLength_def sized_writers)
qed

lemma sized_date [sized_writers]: "sized (writeDate D d tz) 12"
proof -
  have "sized (writes (date_writes f)) 12" for f
    by (rule sized_writes_eq [where ns = "[1, 2, 1, 1, 1, 1, 1, 4]"])
      (simp_all add: date_writes_def sized_writers split: option.split prod.split)
  then show ?thesis
    by (simp add: writeDate_def)
qed

text \<open>Every encoded parameter writes as many bytes as it promises.\<close>

definition honest :: "encoded \<Rightarrow> bool" where
  "honest e \<longleftrightarrow> \<not> enc_isNull e \<longrightarrow> sized (enc_writer e) (enc_length e)"

definition honest_pair :: "(nat \<times> wr) result \<Rightarrow> bool" where
  "honest_pair r \<longleftrightarrow> (\<forall>n w. r = Inr (n, w) \<longrightarrow> sized w n)"

lemma honest_pairI: "sized w n \<Longrightarrow> honest_pair (Inr (n, w))" "honest_pair (Inl e)"
  by (simp_all add: honest_pair_def)

lemma honest_text: "honest_pair (encode_text A enc s)"
  by (auto simp: encode_text_def Let_def honest_pair_def sized_writers split: sum.splits)

lemma honest_encoders:
  "honest_pair (integerEncoder n v u)" "honest_pair (temporalEncoder A tz v)" "honest_pair (timeEncoder A v)"
  "honest_pair (lengthCodedEncoder A enc v)" "honest_pair (jsonEncoder A enc v)"
proof -
  show l: "honest_pair (lengthCodedEncoder A enc v)" for v
    by (auto simp: lengthCodedEncoder_def encode_buffer_def honest_pairI sized_writers honest_text
        split: js_arg.split sum.split)
  then show "honest_pair (jsonEncoder A enc v)"
    by (auto simp: jsonEncoder_def honest_pairI split: js_arg.split sum.split option.split)
qed (auto simp: integerEncoder_def temporalEncoder_def timeEncoder_def honest_pairI sized_writers split: sum.split)

lemma honest_encoderFor: "honest_pair (encoderFor A t enc tz v u)"
  by (auto simp: encoderFor_def honest_encoders honest_pairI sized_writers split: option.split sum.split)

lemma honest_typed: "encodeTypedParameter A t enc tz j = Inr e \<Longrightarrow> honest e"
  using honest_encoderFor [of A "tp_type t" enc tz "tp_value t" "tp_unsigned t"]
  by (auto simp: encodeTypedParameter_def honest_def honest_pair_def split: if_splits sum.splits)

definition honest_result :: "encoded result \<Rightarrow> bool" where
  "honest_result r \<longleftrightarrow> (\<forall>e. r = Inr e \<longrightarrow> honest e)"

lemma honest_resultI:
  "honest_result (Inl e)"
  "sized w n \<Longrightarrow> honest_result (Inr (plain_encoded t (n, w)))"
  "honest_pair r \<Longrightarrow> honest_result (emap (plain_encoded t) r)"
  "honest_result (emap (\<lambda>b. plain_encoded t (encode_buffer b)) s)"
  "honest_result (Inr (plain_encoded t (encode_buffer b)))"
  by (auto simp: honest_result_def honest_def plain_encoded_def honest_pair_def emap_def encode_buffer_def
      sized_writers split: sum.splits)

lemma honest_inferred: "honest_result (inferred A v enc tz j)"
proof -
  have "honest_result (Inr \<lparr>enc_type = t, enc_length = n, enc_writer = w, enc_unsigned = u, enc_isNull = True\<rparr>)" for t n w u
    by (simp add: honest_result_def honest_def)
  then show ?thesis
    unfolding inferred_def Let_def
    by (cases v) (auto intro!: honest_resultI honest_text sized_writers split: sum.split option.split)
qed

lemma honest_parameter: "toParameter A par enc tz j hint = Inr e \<Longrightarrow> honest e"
  using honest_inferred
  by (fastforce simp: toParameter_def honest_result_def intro: honest_typed split: parameter.splits option.splits)

lemma collect_all:
  "collect rs = Inr xs \<Longrightarrow> (\<And>r x. r \<in> set rs \<Longrightarrow> r = Inr x \<Longrightarrow> P x) \<Longrightarrow> list_all P xs"
  by (induction rs arbitrary: xs) (auto split: sum.splits)

lemma collect_length: "collect rs = Inr xs \<Longrightarrow> length xs = length rs"
  by (induction rs arbitrary: xs) (auto split: sum.splits)

lemma bound_honest: "bind_parameters A x = Inr params \<Longrightarrow> list_all honest params"
  unfolding bind_parameters_def Let_def
  by (erule collect_all) (auto dest: honest_parameter [OF sym])

lemma attributes_honest:
  "collect (map (query_attribute A enc) attrs) = Inr xs \<Longrightarrow> list_all (honest \<circ> fst) xs"
  by (erule collect_all) (auto simp: query_attribute_def dest: honest_parameter split: sum.splits)

text \<open>The writers of a packet in pieces, each with its length.\<close>

definition sizes :: "wr list \<Rightarrow> nat \<Rightarrow> bool" where
  "sizes ws n \<longleftrightarrow> (\<exists>ns. list_all2 sized ws ns \<and> sum_list ns = n)"

lemma sizes_Nil: "sizes [] 0"
  by (simp add: sizes_def)

lemma sizes_Cons: "sized w n \<Longrightarrow> sizes ws m \<Longrightarrow> sizes (w # ws) (n + m)"
  unfolding sizes_def by (metis list.rel_intros(2) sum_list.Cons)

lemma sizes_append: "sizes ws n \<Longrightarrow> sizes vs m \<Longrightarrow> sizes (ws @ vs) (n + m)"
  unfolding sizes_def by (metis list_all2_appendI sum_list_append)

lemma sizes_one: "sized w n \<Longrightarrow> sizes [w] n"
  using sizes_Cons [OF _ sizes_Nil] by fastforce

lemma sizes_sized: "sizes ws n \<Longrightarrow> sized (writes ws) n"
  by (auto simp: sizes_def intro: sized_writes)

lemma sizes_concat: "(\<And>x. x \<in> set xs \<Longrightarrow> sizes (f x) (g x)) \<Longrightarrow> sizes (concat (map f xs)) (sum_list (map g xs))"
  by (induction xs) (auto intro: sizes_Nil sizes_append)

lemma sizes_bitmap: "bitValue = 2 ^ k \<Longrightarrow> k < 8 \<Longrightarrow> sizes (null_bitmap bitmap bitValue ns) ((k + length ns + 7) div 8)"
proof (induction ns arbitrary: bitmap bitValue k)
  case Nil
  have "k = 0 \<or> (k + 7) div 8 = 1 \<and> (2::nat) ^ k \<noteq> 1" using Nil(2) by (cases k) auto
  then show ?case
    using Nil sizes_one [OF sized_ints(1)] sizes_Nil by auto
next
  case (Cons b ns)
  have "k \<in> {0, 1, 2, 3, 4, 5, 6, 7}" using Cons(3) by auto
  then have full: "2 * bitValue = 256 \<longleftrightarrow> k = 7"
    unfolding Cons(2) by auto
  show ?case
  proof (cases "k = 7")
    case True
    then show ?thesis
      using sizes_Cons [OF sized_ints(1) Cons.IH [of 1 0 0]] full div_plus_div_distrib_dvd_left [of 8 8 "length ns + 7"]
      by (simp add: Let_def add.commute)
  next
    case False
    then show ?thesis
      using Cons.IH [of "2 * bitValue" "Suc k"] Cons(2,3) full by (simp add: Let_def)
  qed
qed

lemma sizes_values:
  "list_all honest es \<Longrightarrow> sizes (sent_values es) (sent_length es)"
proof (induction es)
  case (Cons e es)
  then show ?case
    using sizes_Cons [of "enc_writer e" "enc_length e"] by (simp add: sent_values_def sent_length_def honest_def)
qed (simp add: sizes_Nil sent_values_def sent_length_def)

lemma exact_packet_fits:
  assumes "sizes ws m" and "n = m + 4"
  shows "exact_packet mem n ws \<noteq> Inl InternalError"
proof -
  have "case writes ws p of Inl e \<Rightarrow> e = RangeError | Inr q \<Rightarrow> offset q = offset p + m" for p
    using sizes_sized [OF assms(1)] by (simp add: sized_def)
  from this [of "new_packet 0 (mem n) 0 (length (mem n))"] show ?thesis
    using assms(2) by (auto simp: exact_packet_def build_def new_packet_def InternalError_def split: sum.splits)
qed

lemma sizes_types: "sizes (type_writes e) 2"
  unfolding type_writes_def using sizes_Cons [OF sized_ints(1) sizes_one [OF sized_ints(1)]] by (simp add: numeral_2_eq_2)

lemma sum_list_upt_split:
  "sum_list (map (\<lambda>i. if i < a then f i else g (i - a)) [0..<a + d]) =
     sum_list (map f [0..<a]) + sum_list (map g [0..<d])"
proof -
  have s: "[a..<a + d] = map (\<lambda>i. i + a) [0..<d]"
    by (simp add: map_add_upt add.commute)
  have upt: "[0..<a + d] = [0..<a] @ [a..<a + d]"
    by (rule upt_add_eq_append) simp
  have m2: "map (\<lambda>i. if i < a then f i else g (i - a)) [a..<a + d] = map g [0..<d]"
    unfolding s by simp
  have m1: "map (\<lambda>i. if i < a then f i else g (i - a)) [0..<a] = map f [0..<a]"
    by simp
  show ?thesis
    unfolding upt map_append sum_list_append m1 m2 by (rule refl)
qed

lemma sum_list_two: "sum_list (map (\<lambda>i. 2 + f i) xs) = length xs * 2 + sum_list (map f xs)" for f :: "'a \<Rightarrow> nat"
  by (induction xs) simp_all

lemma sizes_execute_types:
  assumes "length params = length (ex_parameters x) + length names"
    and "\<not> use_attributes (ex_clientFlags x) \<Longrightarrow> names = []"
  shows "sizes (execute_types x params names)
    (length params * 2 +
     (if use_attributes (ex_clientFlags x) then length (ex_parameters x) + sum_list (map name_length names) else 0))"
proof (cases "use_attributes (ex_clientFlags x)")
  case False
  have "sizes (execute_types x params names) (sum_list (map (\<lambda>i. 2) [0..<length params]))"
    unfolding execute_types_def using False by (intro sizes_concat) (simp add: sizes_types)
  then show ?thesis
    using False by (simp add: sum_list_triv)
next
  case True
  let ?a = "length (ex_parameters x)"
  let ?n = "\<lambda>i. if i < ?a then 1 else name_length (names ! (i - ?a))"
  have "sizes (execute_types x params names) (sum_list (map (\<lambda>i. 2 + ?n i) [0..<length params]))"
    unfolding execute_types_def if_P [OF True]
  proof (rule sizes_concat)
    fix i
    have "sized (if i < ?a then writeInt8 0 else writeLengthCodedBuffer (names ! (i - ?a))) (?n i)"
      by (cases "i < ?a") (simp_all add: name_length_def sized_writers)
    then show "sizes (type_writes (params ! i) @ [if i < ?a then writeInt8 0 else writeLengthCodedBuffer (names ! (i - ?a))])
        (2 + ?n i)"
      by (intro sizes_append sizes_types sizes_one)
  qed
  moreover have "sum_list (map ?n [0..<length params]) = ?a + sum_list (map name_length names)"
  proof -
    have n: "map (\<lambda>i. name_length (names ! i)) [0..<length names] = map name_length names"
      by (rule nth_equalityI) simp_all
    have "sum_list (map ?n [0..<?a + length names]) = sum_list (map (\<lambda>_. 1) [0..<?a]) +
        sum_list (map (\<lambda>i. name_length (names ! i)) [0..<length names])"
      by (rule sum_list_upt_split)
    then show ?thesis
      unfolding assms(1) n by (simp only: sum_list_triv length_upt diff_zero mult_1_right of_nat_id)
  qed
  ultimately show ?thesis
    unfolding if_P [OF True] sum_list_two by simp
qed

lemma sizes_execute:
  assumes "list_all honest params" and "length params = length (ex_parameters x) + length names"
    and "\<not> use_attributes (ex_clientFlags x) \<Longrightarrow> names = []"
  shows "sizes (execute_writes x params names) (execute_length x params names - 4)"
proof -
  have head: "sizes [writeInt8 a, writeInt32 b, writeInt8 c, writeInt32 d] 10" for a b c d
    unfolding sizes_def by (intro exI [of _ "[1, 4, 1, 4]"]) (simp add: sized_writers)
  have count: "sizes (if u then [writeLengthCodedNumber (Some n)] else []) (if u then lengthCodedNumberLength n else 0)" for u n
    by (simp add: sizes_Nil sizes_one sized_writers)
  have flag: "sizes [writeInt8 1] 1" using sizes_one [OF sized_ints(1)] by simp
  have "sizes (null_bitmap 0 1 (map enc_isNull params)) ((length params + 7) div 8)"
    using sizes_bitmap [of 1 0 0 "map enc_isNull params"] by simp
  note rest = sizes_append [OF this sizes_append [OF flag sizes_append [OF sizes_execute_types [OF assms(2,3)]
    sizes_values [OF assms(1)]]]]
  show ?thesis
  proof (cases "params = []")
    case True
    then show ?thesis
      using sizes_append [OF head count] by (simp add: execute_writes_def execute_length_def Let_def)
  next
    case False
    let ?u = "use_attributes (ex_clientFlags x)"
    have len: "execute_length x params names - 4 =
        10 + ((if ?u then lengthCodedNumberLength (length params) else 0) + ((length params + 7) div 8 +
          (1 + (length params * 2 + (if ?u then length (ex_parameters x) + sum_list (map name_length names) else 0) +
           sent_length params))))"
      using False by (simp add: execute_length_def Let_def)
    have pos: "0 < length params" using False by simp
    show ?thesis
      unfolding len execute_writes_def Let_def if_P [OF pos]
      by (rule sizes_append [OF head sizes_append [OF count rest]])
  qed
qed

lemma sizes_query:
  assumes "list_all (honest \<circ> fst) attrs"
  shows "sizes (query_attributes_writes attrs sql) (query_attributes_length attrs sql - 4)"
proof -
  have head: "sizes [writeInt8 a, writeLengthCodedNumber (Some n), writeLengthCodedNumber (Some 1)]
      (1 + lengthCodedNumberLength n + 1)" for a n
    unfolding sizes_def
    by (intro exI [of _ "[1, lengthCodedNumberLength n, 1]"])
      (use sized_lcn [of "Suc 0"] in \<open>simp add: sized_writers lengthCodedNumberLength_def [of "Suc 0"]\<close>)
  have flag: "sizes [writeInt8 1] 1" using sizes_one [OF sized_ints(1)] by simp
  have "sizes (concat (map (\<lambda>(e, name). type_writes e @ [writeLengthCodedBuffer name]) attrs))
      (sum_list (map (\<lambda>(e, name). 2 + name_length name) attrs))"
    by (intro sizes_concat)
      (use sizes_append [OF sizes_types sizes_one [OF sized_lenenc(1)]] in \<open>auto simp: name_length_def\<close>)
  moreover have "sum_list (map (\<lambda>(e, name). 2 + name_length name) attrs) =
      length attrs * 2 + sum_list (map (name_length \<circ> snd) attrs)"
    by (induction attrs) auto
  ultimately have types: "sizes (concat (map (\<lambda>(e, name). type_writes e @ [writeLengthCodedBuffer name]) attrs))
      (length attrs * 2 + sum_list (map (name_length \<circ> snd) attrs))" by simp
  have bitmap: "sizes (null_bitmap 0 1 (map (enc_isNull \<circ> fst) attrs)) ((length attrs + 7) div 8)"
    using sizes_bitmap [of 1 0 0 "map (enc_isNull \<circ> fst) attrs"] by simp
  have vals: "sizes (sent_values (map fst attrs)) (sent_length (map fst attrs))"
    using assms by (intro sizes_values) (simp add: list_all_iff)
  have len: "query_attributes_length attrs sql - 4 = 1 + lengthCodedNumberLength (length attrs) + 1 +
      ((length attrs + 7) div 8 + (1 + (length attrs * 2 + sum_list (map (name_length \<circ> snd) attrs) +
      (sent_length (map fst attrs) + length sql))))"
    by (simp add: query_attributes_length_def)
  show ?thesis
    unfolding len query_attributes_writes_def
    by (rule sizes_append [OF head sizes_append [OF bitmap sizes_append [OF flag sizes_append [OF types
      sizes_append [OF vals sizes_one [OF sized_buffer(1)]]]]]])
qed

text \<open>
  Claim C36. The internal error is never raised: a packet of \<open>COM_STMT_EXECUTE\<close> or \<open>COM_QUERY\<close> whose
  parameters and names could be encoded is filled exactly by its writers, or a value is refused
  with a \<open>RangeError\<close> of the buffer; so every encoder promises the number of bytes it writes.
\<close>

theorem no_internal_error:
  assumes "bind_parameters A x = Inr params"
    and "collect (map (\<lambda>(name, v). encode (al_codec A) name (CharsetToEncoding (ex_charset x)))
           (execute_attributes x)) = Inr names"
    and "collect (map (query_attribute A (CharsetToEncoding charset)) attributes) = Inr attrs"
    and "encode (al_codec A) query (CharsetToEncoding charset) = Inr sql"
  shows "Execute_toPacket A mem x \<noteq> Inl InternalError \<and>
    Query_attributes_toPacket A mem query charset attributes flags \<noteq> Inl InternalError"
proof (rule conjI)
  have len: "length params = length (ex_parameters x) + length names"
    using collect_length [OF assms(2)] assms(1) unfolding bind_parameters_def Let_def
    by (auto dest!: collect_length)
  have none: "names = []" if "\<not> use_attributes (ex_clientFlags x)"
    using assms(2) that by (simp add: execute_attributes_def)
  have "execute_length x params names = execute_length x params names - 4 + 4"
    by (simp add: execute_length_def Let_def)
  note exact_packet_fits [OF sizes_execute [OF bound_honest [OF assms(1)] len none] this, of mem]
  then show "Execute_toPacket A mem x \<noteq> Inl InternalError"
    using assms(1,2) by (simp add: Execute_toPacket_def)
  have "Query_toPacket (al_codec A) mem (al_fast A) query charset flags \<noteq> Inl InternalError"
    using assms(4) by (simp add: Query_toPacket_def Let_def)
  moreover have "exact_packet mem (query_attributes_length attrs sql) (query_attributes_writes attrs sql) \<noteq> Inl InternalError"
    by (rule exact_packet_fits [OF sizes_query [OF attributes_honest [OF assms(3)]]])
      (simp add: query_attributes_length_def)
  ultimately show "Query_attributes_toPacket A mem query charset attributes flags \<noteq> Inl InternalError"
    using assms(3,4) by (auto simp: Query_attributes_toPacket_def Let_def)
qed

text \<open>A library whose conversions are trivial, for the witnesses.\<close>

definition demo_lib :: "(unit, unit) arg_lib" where
  "demo_lib =
     \<lparr>al_codec = latin1_codec, al_fast = False,
      al_dates = \<lparr>dl_zone = Some, dl_parse = Map.empty, dl_fields = utc_fields\<rparr>,
      al_math = \<lparr>ml_negative = \<lambda>_. False, ml_abs = \<lambda>x. x, ml_round = \<lambda>x. x, ml_floor = \<lambda>x. x, ml_rem = \<lambda>x _. x,
                 ml_times = \<lambda>x _. x, ml_quot = \<lambda>x _. x\<rparr>,
      al_objects = \<lparr>ol_isArray = \<lambda>_. False, ol_plain = \<lambda>_. True, ol_toJSON = \<lambda>_. False,
                    ol_from = \<lambda>_. Inl TypeError, ol_iconv = \<lambda>_ _. Inl TypeError\<rparr>,
      al_double = \<lambda>_. replicate 8 0, al_float = \<lambda>_. replicate 4 0, al_Number = \<lambda>_. Inr NaN,
      al_String = \<lambda>_. Inr [], al_Date = \<lambda>_. Inr None, al_stringify = \<lambda>_. Inr None\<rparr>"

definition demo_execute :: "(unit, unit) execute_args" where
  "demo_execute =
     \<lparr>ex_id = 7, ex_parameters = [Plain ArgNull, Plain (ArgBool True)], ex_charset = 45, ex_timezone = None,
      ex_attributes = [(js ''n'', Typed \<lparr>tp_type = 2, tp_value = ArgBigInt (- 2), tp_unsigned = False\<rparr>)],
      ex_clientFlags = 134217728, ex_jsonAsString = False, ex_definitions = []\<rparr>"

lemma demo_codes:
  "use_attributes 134217728" "CharsetToEncoding 45 = Some ''utf8''" "type_code ''NULL'' = 6" "type_code ''TINY'' = 1"
  "type_code ''SHORT'' = 2" "type_code ''JSON'' = 245" "INTEGER_BYTES 2 = Some 2" "wireType 2 False = 2"
  by (simp add: use_attributes_def isSet_def code_of_def ClientConstants_def) code_simp+

definition demo_encoded :: "encoded list" where
  "demo_encoded =
     [\<lparr>enc_type = 6, enc_length = 0, enc_writer = Inr, enc_unsigned = False, enc_isNull = True\<rparr>,
      \<lparr>enc_type = 1, enc_length = 1, enc_writer = writeInt8 1, enc_unsigned = False, enc_isNull = False\<rparr>,
      \<lparr>enc_type = 2, enc_length = 2, enc_writer = writeUIntLE 65534 2, enc_unsigned = False, enc_isNull = False\<rparr>]"

lemma demo_bound: "bind_parameters demo_lib demo_execute = Inr demo_encoded"
  by (simp add: bind_parameters_def demo_execute_def execute_attributes_def demo_codes Let_def toParameter_def
      inferred_def plain_encoded_def encodeTypedParameter_def encoderFor_def integerEncoder_def checkedInteger_def
      toInteger_def int_min_def int_max_def demo_encoded_def upt_rec)

lemma demo_names:
  "collect (map (\<lambda>(name, v). encode (al_codec demo_lib) name (CharsetToEncoding (ex_charset demo_execute)))
     (execute_attributes demo_execute)) = Inr [[110]]"
  by (simp add: demo_execute_def execute_attributes_def demo_codes demo_lib_def encode_def latin1_codec_def js_def)

theorem no_internal_error_witness:
  "Execute_toPacket demo_lib (\<lambda>n. replicate n 0) demo_execute \<noteq> Inl InternalError \<and>
   Query_attributes_toPacket demo_lib (\<lambda>n. replicate n 0) (js ''DO 1'') 45 [] 134217728 \<noteq> Inl InternalError"
proof -
  have "encode (al_codec demo_lib) (js ''DO 1'') (CharsetToEncoding 45) = Inr [68, 79, 32, 49]"
    by (simp add: demo_codes demo_lib_def encode_def latin1_codec_def js_def)
  moreover have "collect (map (query_attribute demo_lib (CharsetToEncoding 45)) []) = Inr []"
    by simp
  ultimately show ?thesis
    by (intro no_internal_error [OF demo_bound demo_names])
qed

section \<open>The bytes of an execute packet\<close>

text \<open>The null bitmap: bit \<open>i mod 8\<close> of byte \<open>i div 8\<close> for parameter \<open>i\<close>.\<close>

function bitmap_bytes :: "bool list \<Rightarrow> nat list" where
  "bitmap_bytes ns = (if ns = [] then [] else horner_sum of_bool 2 (take 8 ns) # bitmap_bytes (drop 8 ns))"
  by pat_completeness auto
termination by (relation "measure length") auto

declare bitmap_bytes.simps [simp del]

lemma horner_snoc: "horner_sum of_bool 2 (bs @ [b]) = (horner_sum of_bool 2 bs :: nat) + of_bool b * 2 ^ length bs"
  by (simp add: horner_sum_append)

lemma horner_below: "horner_sum of_bool 2 bs < (2 :: nat) ^ length bs"
  by (induction bs) (auto simp: of_bool_def)

lemma horner_or: "(horner_sum of_bool 2 bs :: nat) OR 2 ^ length bs = horner_sum of_bool 2 bs + 2 ^ length bs"
proof -
  have "(horner_sum of_bool 2 bs :: nat) AND 2 ^ length bs = 0"
    by (rule bit_eqI) (auto simp: bit_and_iff bit_exp_iff bit_horner_sum_bit_iff)
  then show ?thesis
    by (simp add: disjunctive_add bit_eq_iff bit_and_iff)
qed

lemma bitmap_length: "length (bitmap_bytes ns) = (length ns + 7) div 8"
proof (induction ns rule: bitmap_bytes.induct)
  case (1 ns)
  then show ?case
    by (subst bitmap_bytes.simps) (auto simp: min_def not_le div_if)
qed

lemma bitmap_bit: "i < length ns \<Longrightarrow> bit (bitmap_bytes ns ! (i div 8)) (i mod 8) = ns ! i"
proof (induction ns arbitrary: i rule: bitmap_bytes.induct)
  case (1 ns)
  show ?case
  proof (cases "i < 8")
    case True
    then show ?thesis
      using 1(2) by (subst bitmap_bytes.simps) (auto simp: bit_horner_sum_bit_iff)
  next
    case False
    then have "i div 8 = Suc ((i - 8) div 8)" "i mod 8 = (i - 8) mod 8"
      by (simp_all add: div_if mod_if)
    then show ?thesis
      using 1(1) [of "i - 8"] 1(2) False by (subst bitmap_bytes.simps) auto
  qed
qed

lemma bitmap_byte_below: "b \<in> set (bitmap_bytes ns) \<Longrightarrow> b < 256"
proof (induction ns rule: bitmap_bytes.induct)
  case (1 ns)
  have "horner_sum of_bool 2 (take 8 ns) < (2 :: nat) ^ 8"
    by (rule less_le_trans [OF horner_below]) (rule power_increasing; simp)
  then show ?case
    using 1 by (cases "ns = []") (auto simp: bitmap_bytes.simps [of ns] bitmap_bytes.simps [of "[]"])
qed

lemma null_bitmap_bytes:
  "length prev < 8 \<Longrightarrow>
   null_bitmap (horner_sum of_bool 2 prev) (2 ^ length prev) ns =
     map (\<lambda>b. writeInt8 (int b)) (bitmap_bytes (prev @ ns))"
proof (induction ns arbitrary: prev)
  case Nil
  then show ?case
    by (cases prev) (simp_all add: bitmap_bytes.simps)
next
  case (Cons b ns)
  have bm: "(if b then horner_sum of_bool 2 prev OR 2 ^ length prev else horner_sum of_bool 2 prev) =
      (horner_sum of_bool 2 (prev @ [b]) :: nat)"
    unfolding horner_snoc horner_or by simp
  have "k \<in> {0, 1, 2, 3, 4, 5, 6, 7}" if "k < 8" for k :: nat using that by auto
  from this [OF Cons(2)] have full: "2 * 2 ^ length prev = (256 :: nat) \<longleftrightarrow> length prev = 7" by auto
  show ?case
  proof (cases "length prev = 7")
    case True
    then have "bitmap_bytes (prev @ b # ns) = horner_sum of_bool 2 (prev @ [b]) # bitmap_bytes ns"
      by (subst bitmap_bytes.simps) simp
    then show ?thesis
      using Cons.IH [of "[]"] full True unfolding null_bitmap.simps Let_def bm by simp
  next
    case False
    then show ?thesis
      using Cons.IH [of "prev @ [b]"] full Cons(2) unfolding null_bitmap.simps Let_def bm by simp
  qed
qed

lemma emits_single: "emits z w b \<Longrightarrow> emits z (writes [w]) b"
  using emits_Cons [OF _ emits_Nil] by fastforce

lemma emits_length:
  assumes "emits False w bs" and "sized w n"
  shows "length bs = n"
proof -
  let ?p = "new_packet 0 ([0, 0, 0, 0] @ replicate (length bs) 0) 0 0"
  have p: "\<not> is_mock ?p" "buffer ?p = [0, 0, 0, 0] @ replicate (length bs) 0 @ []" "offset ?p = length [0 :: byte, 0, 0, 0]"
    by (simp_all add: new_packet_def)
  have "w ?p = Inr (?p\<lparr>buffer := [0, 0, 0, 0] @ bs @ [], offset := length [0 :: byte, 0, 0, 0] + length bs\<rparr>)"
    by (rule emitsD [OF assms(1) p]) simp_all
  moreover have "case w ?p of Inl e \<Rightarrow> e = RangeError | Inr q \<Rightarrow> offset q = offset ?p + n"
    using assms(2) unfolding sized_def by (rule spec)
  ultimately show ?thesis
    using p(3) by simp
qed

lemma exact_packet_packs:
  assumes "emits False (writes ws) bs" and "sizes ws (n - 4)" and "4 \<le> n" and "length (mem n) = n"
  shows "packs (exact_packet mem n ws) bs"
proof -
  have len: "length bs + 4 = n"
    using emits_length [OF assms(1) sizes_sized [OF assms(2)]] assms(3) by simp
  then have "build (mem n) ws = Inr ((new_packet 0 (take 4 (mem n) @ bs) 0 (length bs + 4))\<lparr>offset := length bs + 4\<rparr>)"
    using assms(4) by (intro build_emits [OF assms(1)]) simp_all
  then show ?thesis
    using len assms(4) by (simp add: exact_packet_def packs_def new_packet_def payload_def)
qed

text \<open>What each parameter sends: its type and flag, and the bytes of its value.\<close>

definition carries :: "encoded \<Rightarrow> bytes \<Rightarrow> bool" where
  "carries e bs \<longleftrightarrow> enc_type e < 256 \<and> (if enc_isNull e then bs = [] else emits False (enc_writer e) bs)"

definition type_bytes :: "encoded \<Rightarrow> bytes" where
  "type_bytes e = [word_of_nat (enc_type e), if enc_unsigned e then 0x80 else 0]"

definition name_bytes :: "bytes \<Rightarrow> bytes" where
  "name_bytes name = lcn_bytes (length name) @ name"

definition execute_payload :: "bool \<Rightarrow> nat \<Rightarrow> encoded list \<Rightarrow> bytes list \<Rightarrow> bytes list \<Rightarrow> bytes" where
  "execute_payload useAttrs stmt params names vals =
     [23] @ le_bytes 4 stmt @ [if useAttrs then 8 else 0] @ le_bytes 4 1 @
     (if useAttrs then lcn_bytes (length params) else []) @
     (if params = [] then []
      else map word_of_nat (bitmap_bytes (map enc_isNull params)) @ [1] @
           concat (map2 (\<lambda>e name. type_bytes e @ (if useAttrs then name_bytes name else []))
             params (replicate (length params - length names) [] @ names)) @
           concat vals)"

lemma emits_bitmap: "emits z (writes (null_bitmap 0 1 ns)) (map word_of_nat (bitmap_bytes ns))"
proof -
  have w: "null_bitmap 0 1 ns = map (\<lambda>b. writeInt8 (int b)) (bitmap_bytes ns)"
    using null_bitmap_bytes [of "[]"] by simp
  have "emits z (writes (map (\<lambda>b. writeInt8 (int b)) bs)) (map word_of_nat bs)" if "\<forall>b \<in> set bs. b < 256" for bs
    using that
  proof (induction bs)
    case (Cons b bs)
    then show ?case
      using emits_Cons [OF emits_writeInt8 [of b z]] by (simp del: writes.simps)
  qed (simp add: emits_Nil del: writes.simps)
  then show ?thesis
    unfolding w using bitmap_byte_below by blast
qed

lemma emits_type: "enc_type e < 256 \<Longrightarrow> emits z (writes (type_writes e)) (type_bytes e)"
proof -
  have "emits z (writeInt8 (if enc_unsigned e then 0x80 else 0)) [if enc_unsigned e then 0x80 else 0]"
    using emits_writeInt8 [of 128 z] emits_writeInt8 [of 0 z] by simp
  then show "enc_type e < 256 \<Longrightarrow> emits z (writes (type_writes e)) (type_bytes e)"
    unfolding type_writes_def type_bytes_def
    using emits_Cons [OF emits_writeInt8 emits_single] by fastforce
qed

lemma emits_concat:
  "length xs = length ys \<Longrightarrow> (\<And>i. i < length xs \<Longrightarrow> emits z (writes (xs ! i)) (ys ! i)) \<Longrightarrow>
   emits z (writes (concat xs)) (concat ys)"
proof (induction xs ys rule: list_induct2)
  case (Cons x xs y ys)
  from Cons(3) [of 0] Cons(2) Cons(3) [of "Suc _"] show ?case
    using emits_append by fastforce
qed (simp add: emits_Nil del: writes.simps)

lemma emits_sent_values:
  "list_all2 carries es vs \<Longrightarrow> emits False (writes (sent_values es)) (concat vs)"
proof (induction rule: list_all2_induct)
  case (Cons e es v vs)
  then show ?case
    using emits_Cons [of False "enc_writer e" v]
    by (auto simp: carries_def sent_values_def simp del: writes.simps)
qed (simp add: emits_Nil sent_values_def del: writes.simps)

lemma emits_execute_types:
  assumes "length params = length (ex_parameters x) + length names" and "\<forall>e \<in> set params. enc_type e < 256"
    and "\<forall>n \<in> set names. length n < 2 ^ 53"
  shows "emits z (writes (execute_types x params names))
    (concat (map2 (\<lambda>e name. type_bytes e @ (if use_attributes (ex_clientFlags x) then name_bytes name else []))
       params (replicate (length params - length names) [] @ names)))"
  unfolding execute_types_def
proof (rule emits_concat)
  let ?u = "use_attributes (ex_clientFlags x)" and ?a = "length (ex_parameters x)"
  fix i
  assume i: "i < length (map (\<lambda>i. type_writes (params ! i) @ (if ?u then [if i < ?a then writeInt8 0
      else writeLengthCodedBuffer (names ! (i - ?a))] else [])) [0..<length params])"
  let ?n = "(replicate (length params - length names) [] @ names) ! i"
  have "emits z (if i < ?a then writeInt8 0 else writeLengthCodedBuffer (names ! (i - ?a))) (name_bytes ?n)"
  proof (cases "i < ?a")
    case True
    then show ?thesis
      using emits_writeInt8 [of 0 z] assms(1) by (simp add: name_bytes_def lcn_bytes_def nth_append)
  next
    case False
    then have "?n = names ! (i - ?a)" "length (names ! (i - ?a)) < 2 ^ 53"
      using i assms(1,3) by (simp_all add: nth_append)
    then show ?thesis
      using False emits_lenenc_buffer [of "names ! (i - ?a)" z] by (simp add: name_bytes_def)
  qed
  from emits_single [OF this]
  have "emits z (writes (if ?u then [if i < ?a then writeInt8 0 else writeLengthCodedBuffer (names ! (i - ?a))] else []))
      (if ?u then name_bytes ?n else [])"
    using emits_Nil by (cases ?u) simp_all
  moreover have "emits z (writes (type_writes (params ! i))) (type_bytes (params ! i))"
    using i assms(2) by (intro emits_type) simp
  ultimately have "emits z (writes (type_writes (params ! i) @ (if ?u then [if i < ?a then writeInt8 0
        else writeLengthCodedBuffer (names ! (i - ?a))] else [])))
      (type_bytes (params ! i) @ (if ?u then name_bytes ?n else []))"
    by (intro emits_append)
  moreover have "[0..<length params] ! i = i" "i < length params"
    "i < length (replicate (length params - length names) [] @ names)"
    using i assms(1) by simp_all
  ultimately show "emits z (writes (map (\<lambda>i. type_writes (params ! i) @ (if ?u then [if i < ?a then writeInt8 0
      else writeLengthCodedBuffer (names ! (i - ?a))] else [])) [0..<length params] ! i))
    (map2 (\<lambda>e name. type_bytes e @ (if ?u then name_bytes name else []))
       params (replicate (length params - length names) [] @ names) ! i)"
    by (simp del: length_append split del: if_split cong del: if_weak_cong)
qed (use assms(1) in simp)

text \<open>
  Claim C35. What an execute packet carries: the statement, the flags, the number of parameters when
  query attributes are in use, the null bitmap (bit \<open>i mod 8\<close> of byte \<open>i div 8\<close>), types, names, and
  the bytes of the values that are not null, in order.
\<close>

theorem execute_packet_payload:
  assumes "bind_parameters A x = Inr params"
    and "collect (map (\<lambda>(name, v). encode (al_codec A) name (CharsetToEncoding (ex_charset x)))
           (execute_attributes x)) = Inr names"
    and "list_all2 carries params vals" and "\<forall>n \<in> set names. length n < 2 ^ 53"
    and "length params < 2 ^ 53" and "ex_id x < 2 ^ 32" and "\<And>n. length (mem n) = n"
  shows "packs (Execute_toPacket A mem x)
      (execute_payload (use_attributes (ex_clientFlags x)) (ex_id x) params names vals) \<and>
    (\<forall>i < length params. bit (bitmap_bytes (map enc_isNull params) ! (i div 8)) (i mod 8) = enc_isNull (params ! i))"
proof (rule conjI)
  let ?u = "use_attributes (ex_clientFlags x)"
  have len: "length params = length (ex_parameters x) + length names"
    using collect_length [OF assms(2)] assms(1) unfolding bind_parameters_def Let_def
    by (auto dest!: collect_length)
  have none: "names = []" if "\<not> ?u"
    using assms(2) that by (simp add: execute_attributes_def)
  have "list_all2 (\<lambda>e v. enc_type e < 256) params vals"
    by (rule list_all2_mono [OF assms(3)]) (simp add: carries_def)
  then have types: "\<forall>e \<in> set params. enc_type e < 256"
    by (auto simp: list_all2_conv_all_nth in_set_conv_nth)
  have flags: "emits False (writeInt8 (if ?u then int (code_of CursorType ''NO_CURSOR'' OR
        code_of CursorType ''PARAMETER_COUNT_AVAILABLE'') else int (code_of CursorType ''NO_CURSOR''))) [if ?u then 8 else 0]"
    using emits_writeInt8 [of 8 False] emits_writeInt8 [of 0 False]
    by (simp add: code_of_def CursorType_def)
  have c: "emits False (writeInt8 (cmd ''STMT_EXECUTE'')) [23]" "emits False (writeInt32 (int (ex_id x))) (le_bytes 4 (ex_id x))"
    "emits False (writeInt32 1) (le_bytes 4 1)" "emits False (writeInt8 1) [1]"
    using emits_writeInt8 [of 23 False] emits_writeInt32 [of "ex_id x" False] emits_writeInt32 [of 1 False]
      emits_writeInt8 [of 1 False] assms(6) by (simp_all add: cmd_def code_of_def CommandCodes_def)
  have count: "emits False (writes (if ?u then [writeLengthCodedNumber (Some (length params))] else []))
      (if ?u then lcn_bytes (length params) else [])"
    using emits_single [OF emits_writeLengthCodedNumber [of "length params" False]] emits_Nil assms(5) by simp
  note body = emits_append [OF emits_bitmap emits_append [OF emits_single [OF c(4)]
    emits_append [OF emits_execute_types [OF len types assms(4)] emits_sent_values [OF assms(3)]]]]
  have head: "emits False (writes [writeInt8 (cmd ''STMT_EXECUTE''), writeInt32 (int (ex_id x)),
      writeInt8 (if ?u then int (code_of CursorType ''NO_CURSOR'' OR code_of CursorType ''PARAMETER_COUNT_AVAILABLE'')
                 else int (code_of CursorType ''NO_CURSOR'')), writeInt32 1])
    ([23] @ le_bytes 4 (ex_id x) @ [if ?u then 8 else 0] @ le_bytes 4 1)"
    by (intro emits_Cons [OF c(1)] emits_Cons [OF c(2)] emits_Cons [OF flags] emits_single [OF c(3)])
  have "emits False (writes (execute_writes x params names)) (execute_payload ?u (ex_id x) params names vals)"
  proof (cases "params = []")
    case True
    then have n: "\<not> 0 < length params" by simp
    show ?thesis
      unfolding execute_writes_def execute_payload_def Let_def if_P [OF True] if_not_P [OF n] append_Nil2
      using emits_append [OF head count] by (simp only: append_assoc)
  next
    case False
    then have n: "0 < length params" by simp
    show ?thesis
      unfolding execute_writes_def execute_payload_def Let_def if_not_P [OF False] if_P [OF n]
      using emits_append [OF head emits_append [OF count body]] by (simp only: append_assoc)
  qed
  moreover have "4 \<le> execute_length x params names"
    by (simp add: execute_length_def Let_def)
  ultimately have "packs (exact_packet mem (execute_length x params names) (execute_writes x params names))
      (execute_payload ?u (ex_id x) params names vals)"
    using assms(7) by (intro exact_packet_packs sizes_execute bound_honest [OF assms(1)] len none) simp_all
  then show "packs (Execute_toPacket A mem x) (execute_payload ?u (ex_id x) params names vals)"
    using assms(1,2) by (simp add: Execute_toPacket_def)
  show "\<forall>i < length params. bit (bitmap_bytes (map enc_isNull params) ! (i div 8)) (i mod 8) = enc_isNull (params ! i)"
    using bitmap_bit [of _ "map enc_isNull params"] by simp
qed

theorem execute_packet_payload_witness:
  "packs (Execute_toPacket demo_lib (\<lambda>n. replicate n 9) demo_execute)
     [23, 7, 0, 0, 0, 8, 1, 0, 0, 0, 3, 1, 1, 6, 0, 0, 1, 0, 0, 2, 0, 1, 110, 1, 254, 255]"
proof -
  have "emits False (writeUIntLE 65534 2) (le_bytes 2 65534)"
    using emits_uint [of 65534 2 False] by (simp add: writeUIntLE_def)
  moreover have "le_bytes 2 65534 = [254, 255]"
    by (simp add: le_bytes_2)
  ultimately have "list_all2 carries demo_encoded [[], [1], [254, 255]]"
    using emits_writeInt8 [of 1 False] by (simp add: demo_encoded_def carries_def)
  moreover have "length demo_encoded = 3" "use_attributes (ex_clientFlags demo_execute)" "ex_id demo_execute = 7"
    by (simp_all add: demo_encoded_def demo_execute_def demo_codes)
  moreover have "le_bytes 4 7 = [7, 0, 0, 0]" "le_bytes 4 1 = [1, 0, 0, 0]"
    by (simp_all add: le_bytes_4)
  moreover have "bitmap_bytes (map enc_isNull demo_encoded) = [1]"
    by (simp add: demo_encoded_def bitmap_bytes.simps)
  ultimately show ?thesis
    using execute_packet_payload [OF demo_bound demo_names, of "[[], [1], [254, 255]]" "\<lambda>n. replicate n 9"]
    by (simp add: execute_payload_def demo_encoded_def type_bytes_def name_bytes_def lcn_bytes_def)
qed

section \<open>Integer parameters are exact\<close>

text \<open>Two's complement: what is written modulo \<open>256 ^ n\<close> is read back as the signed number.\<close>

lemma signed_of_mod:
  assumes "- (2 ^ (8 * n - 1)) \<le> k" and "k \<le> 2 ^ (8 * n - 1) - 1" and "0 < n"
  shows "signed_of n (nat (k mod 2 ^ (8 * n))) = k"
proof -
  define P :: int where "P = 2 ^ (8 * n - 1)"
  have "8 * n = Suc (8 * n - 1)" using assms(3) by simp
  then have two: "(2 :: int) ^ (8 * n) = 2 * P" unfolding P_def by (metis power_Suc)
  have full: "(256 :: int) ^ n = 2 * P"
    unfolding two [symmetric] by (simp add: power_mult)
  have pos: "0 < P" by (simp add: P_def)
  have k: "- P \<le> k" "k \<le> P - 1" using assms(1,2) by (simp_all add: P_def)
  show ?thesis
  proof (cases "0 \<le> k")
    case True
    then show ?thesis using k pos by (simp add: signed_of_def full two)
  next
    case False
    have "k mod (2 * P) = (k + 2 * P) mod (2 * P)" by simp
    also have "\<dots> = k + 2 * P" by (rule mod_pos_pos_trivial) (use k False pos in linarith)+
    finally show ?thesis using k False pos by (simp add: signed_of_def full two)
  qed
qed

lemma fits_unsigned: "0 \<le> k \<Longrightarrow> k \<le> 2 ^ (8 * n) - 1 \<Longrightarrow> k mod 2 ^ (8 * n) = k" for k :: int
  by (rule mod_pos_pos_trivial) simp_all

lemma reads_rmap: "reads r bs x \<Longrightarrow> f x = y \<Longrightarrow> reads (rmap f r) bs y"
  unfolding rmap_def by (erule reads_bind_ret) (erule arg_cong)

text \<open>The readers of the integer columns, on the bytes of a number modulo its width.\<close>

lemma reads_unsigned:
  assumes "0 \<le> k" and "k \<le> 2 ^ (8 * n) - 1"
  shows "reads (read_uint n) (le_bytes n (nat (k mod 2 ^ (8 * n)))) (nat k)"
proof -
  have "nat k < 256 ^ n"
    using assms by (simp add: nat_less_iff power_mult)
  then show ?thesis
    unfolding fits_unsigned [OF assms] by (rule reads_uint_le)
qed

lemma mod_width: "nat (k mod 2 ^ (8 * n)) < 256 ^ n" for k :: int
  by (simp add: nat_less_iff power_mult)

lemma reads_signed:
  assumes "- (2 ^ (8 * n - 1)) \<le> k" and "k \<le> 2 ^ (8 * n - 1) - 1" and "0 < n"
  shows "reads (rbind (read_uint n) (\<lambda>v. rret (signed_of n v))) (le_bytes n (nat (k mod 2 ^ (8 * n)))) k"
  by (rule reads_bind_ret [OF reads_uint_le [OF mod_width]]) (simp only: signed_of_mod [OF assms])

lemma writeUIntLE_eq: "writeUIntLE v n = write_uint n v"
  by (simp add: writeUIntLE_def)

lemma integer_types:
  assumes "INTEGER_BYTES t = Some n"
  shows "(t = 1 \<and> n = 1) \<or> (t \<in> {2, 13} \<and> n = 2) \<or> (t \<in> {3, 9} \<and> n = 4) \<or> (t = 8 \<and> n = 8)"
  using assms by (auto simp: INTEGER_BYTES_def type_code_def code_of_def Types_def split: if_splits)

lemma wire_types:
  "wireType 1 j = 1" "wireType 2 j = 2" "wireType 13 j = 2" "wireType 3 j = 3" "wireType 9 j = 3" "wireType 8 j = 8"
  by (simp_all add: wireType_def WIRE_TYPE_def type_code_def code_of_def Types_def)

lemma is_integer_type:
  assumes "fd_type f = Some t" and "t \<in> {1, 2, 3, 8}"
  shows "is_type f ''TINY'' = (t = 1)" "is_type f ''SHORT'' = (t = 2)" "is_type f ''LONG'' = (t = 3)"
    "is_type f ''LONGLONG'' = (t = 8)" "\<not> is_type f ''INT24''" "\<not> is_type f ''YEAR''" "\<not> is_type f ''FLOAT''"
    "\<not> is_type f ''DOUBLE''" "\<not> is_type f ''NULL''" "\<not> is_type f ''DATE''" "\<not> is_type f ''DATETIME''"
    "\<not> is_type f ''TIMESTAMP''" "\<not> is_type f ''NEWDATE''" "\<not> is_type f ''TIME''" "\<not> is_type f ''DECIMAL''"
    "\<not> is_type f ''NEWDECIMAL''" "\<not> is_type f ''GEOMETRY''" "\<not> is_type f ''VECTOR''" "\<not> is_type f ''JSON''"
  using assms by (auto simp: is_type_def code_of_def Types_def)

lemma reads_byte_column: "0 \<le> k \<Longrightarrow> k < 256 \<Longrightarrow> reads readInt8 [word_of_nat (nat k)] (Some (nat k))"
  by (rule reads_u8) simp

lemma column_readers:
  assumes "int_min u n \<le> k" and "k \<le> int_max u n"
  shows "u \<Longrightarrow> n = 1 \<Longrightarrow> reads (rmap byte_value readInt8) (le_bytes n (nat (k mod 2 ^ (8 * n)))) (JNum (Num k) :: ('f, 'j) js_value)"
    and "\<not> u \<Longrightarrow> n = 1 \<Longrightarrow> reads (rmap int_js readSInt8) (le_bytes n (nat (k mod 2 ^ (8 * n)))) (JNum (Num k) :: ('f, 'j) js_value)"
    and "u \<Longrightarrow> n = 2 \<Longrightarrow> reads (rmap nat_num readInt16) (le_bytes n (nat (k mod 2 ^ (8 * n)))) (JNum (Num k) :: ('f, 'j) js_value)"
    and "\<not> u \<Longrightarrow> n = 2 \<Longrightarrow> reads (rmap int_js readSInt16) (le_bytes n (nat (k mod 2 ^ (8 * n)))) (JNum (Num k) :: ('f, 'j) js_value)"
    and "u \<Longrightarrow> n = 4 \<Longrightarrow> reads (rmap nat_num readInt32) (le_bytes n (nat (k mod 2 ^ (8 * n)))) (JNum (Num k) :: ('f, 'j) js_value)"
    and "\<not> u \<Longrightarrow> n = 4 \<Longrightarrow> reads (rmap int_js readSInt32) (le_bytes n (nat (k mod 2 ^ (8 * n)))) (JNum (Num k) :: ('f, 'j) js_value)"
proof -
  have u: "0 \<le> k" "k \<le> 2 ^ (8 * n) - 1" if u using assms that by (simp_all add: int_min_def int_max_def)
  have s: "- (2 ^ (8 * n - 1)) \<le> k" "k \<le> 2 ^ (8 * n - 1) - 1" if "\<not> u" using assms that by (simp_all add: int_min_def int_max_def)
  note uns = reads_unsigned [OF u] and sgn = reads_signed [OF s]
  show "reads (rmap byte_value readInt8) (le_bytes n (nat (k mod 2 ^ (8 * n)))) (JNum (Num k) :: ('f, 'j) js_value)" if u "n = 1"
  proof -
    have b: "le_bytes n (nat (k mod 2 ^ (8 * n))) = [word_of_nat (nat k)]" and k: "0 \<le> k" "k < 256"
      using u that fits_unsigned [OF u] by simp_all
    show ?thesis
      unfolding b by (rule reads_rmap [OF reads_byte_column [OF k]]) (simp add: byte_value_def k)
  qed
  show "reads (rmap int_js readSInt8) (le_bytes n (nat (k mod 2 ^ (8 * n)))) (JNum (Num k) :: ('f, 'j) js_value)" if "\<not> u" "n = 1"
    using reads_rmap [OF sgn, of int_js] that by (simp add: readSInt8_def int_js_def)
  show "reads (rmap nat_num readInt16) (le_bytes n (nat (k mod 2 ^ (8 * n)))) (JNum (Num k) :: ('f, 'j) js_value)" if u "n = 2"
    using reads_rmap [OF uns, of nat_num "JNum (Num k)"] u that by (simp add: readInt16_def nat_num_def)
  show "reads (rmap int_js readSInt16) (le_bytes n (nat (k mod 2 ^ (8 * n)))) (JNum (Num k) :: ('f, 'j) js_value)" if "\<not> u" "n = 2"
    using reads_rmap [OF sgn, of int_js] that by (simp add: readSInt16_def int_js_def)
  show "reads (rmap nat_num readInt32) (le_bytes n (nat (k mod 2 ^ (8 * n)))) (JNum (Num k) :: ('f, 'j) js_value)" if u "n = 4"
    using reads_rmap [OF uns, of nat_num "JNum (Num k)"] u that by (simp add: readInt32_def nat_num_def)
  show "reads (rmap int_js readSInt32) (le_bytes n (nat (k mod 2 ^ (8 * n)))) (JNum (Num k) :: ('f, 'j) js_value)" if "\<not> u" "n = 4"
    using reads_rmap [OF sgn, of int_js] that by (simp add: readSInt32_def int_js_def)
qed

text \<open>The other readers of a 64-bit column: the nearest number and the text.\<close>

lemma reads_words:
  assumes "length bs = 8" and "\<And>lo hi. lo < 2 ^ 32 \<Longrightarrow> hi < 2 ^ 32 \<Longrightarrow> f lo hi = rret (g (lo + 2 ^ 32 * hi))"
  shows "reads (rbind readInt32 (\<lambda>lo. rbind readInt32 (f lo))) bs (g (le_val bs))"
proof -
  obtain b1 b2 where b: "bs = b1 @ b2" "length b1 = 4" "length b2 = 4" using split_8 [OF assms(1)] by blast
  then have "le_val b1 < 2 ^ 32" "le_val b2 < 2 ^ 32"
    using le_val_bound [of b1] le_val_bound [of b2] by simp_all
  then show ?thesis
    unfolding b(1) le_val_halves [OF b(2)] by (rule reads_two_words [where f = f, OF b(2,3) assms(2)])
qed

lemma reads_number_of_words:
  assumes "length bs = 8"
  shows "reads readInt64JSNumber bs (js_round (int (le_val bs)))"
    and "reads readSInt64JSNumber bs (js_round (signed_of 8 (le_val bs)))"
  unfolding readInt64JSNumber_def readSInt64JSNumber_def
   apply (rule reads_words [OF assms, where g = "\<lambda>v. js_round (int v)"])
   apply simp
  apply (rule reads_words [OF assms, where g = "\<lambda>v. js_round (signed_of 8 v)"])
  apply (simp only: signed_high_word)
  done

lemma reads_text_of_words:
  assumes "long_ok L" and "length bs = 8"
  shows "reads (readInt64String L) bs (int_to_string (int (le_val bs)))"
    and "reads (readSInt64String L) bs (int_to_string (signed_of 8 (le_val bs)))"
  unfolding readInt64String_def readSInt64String_def
   apply (rule reads_words [OF assms(2), where g = "\<lambda>v. int_to_string (int v)"])
  using assms(1) apply (simp add: long_ok_def long_value_def Let_def)
  apply (rule reads_words [OF assms(2), where g = "\<lambda>v. int_to_string (signed_of 8 v)"])
  using assms(1) apply (simp add: long_ok_def long_value_def Let_def)
  done

text \<open>
  What a column of an integer type holds when it is read, under every setting of
  \<open>supportBigNumbers\<close> and \<open>bigNumberStrings\<close>: the number for the types of up to four bytes; for
  eight bytes the nearest double, the text, or the number while it is safe and the text otherwise.
\<close>

definition column_value :: "('f, 'j) row_options \<Rightarrow> ('f, 'j) row_options \<Rightarrow> nat \<Rightarrow> int \<Rightarrow> ('f, 'j) js_value" where
  "column_value cfg opts n k =
     (if n < 8 then JNum (Num k)
      else if \<not> big_numbers cfg opts then JNum (Num (js_round k))
      else if big_strings cfg opts then JText (int_to_string k)
      else if \<bar>k\<bar> < 2 ^ 53 then JNum (Num k) else JText (int_to_string k))"

lemma int_value_result: "int_value (lcn_result False k) = (if \<bar>k\<bar> < 2 ^ 53 then JNum (Num k) else JText (int_to_string k))"
  by (simp add: int_value_def lcn_result_def)

lemma long_column_value:
  assumes k: "int_min u 8 \<le> k" "k \<le> int_max u 8" and "long_ok (rt_long R)"
    and "fd_type f = Some 8" and "is_unsigned f = u" and "fd_extendedFormat f = None"
  shows "reads (readCode R cfg opts f) (le_bytes 8 (nat (k mod 2 ^ 64))) (column_value cfg opts 8 k)"
proof -
  define bs where "bs = le_bytes 8 (nat (k mod 2 ^ 64))"
  have len: "length bs = 8" unfolding bs_def by (rule length_le_bytes)
  have v: "le_val bs = nat (k mod 2 ^ 64)"
    unfolding bs_def using mod_width [of k 8] by (simp add: le_val_le_bytes)
  have u: "int (le_val bs) = k" if u
    unfolding v using k that by (simp add: int_min_def int_max_def)
  have s: "signed_of 8 (le_val bs) = k" if "\<not> u"
    unfolding v using signed_of_mod [of 8 k] k that by (simp add: int_min_def int_max_def)
  note w = reads_number_of_words [OF len] reads_text_of_words [OF assms(3) len]
    reads_readInt64 [OF assms(3) len] reads_readSInt64 [OF assms(3) len]
  note r = reads_rmap [OF w(1)] reads_rmap [OF w(2)] reads_rmap [OF w(3)] reads_rmap [OF w(4)]
    reads_rmap [OF w(5)] reads_rmap [OF w(6)]
  show ?thesis
    unfolding readCode_def column_value_def bs_def [symmetric]
    using is_integer_type [OF assms(4)] assms(5,6)
    by (cases u) (simp_all add: Let_def r u s int_js_def int_value_result)
qed

lemma reads_integer_column:
  assumes "INTEGER_BYTES t = Some n" and k: "int_min u n \<le> k" "k \<le> int_max u n" and "long_ok (rt_long R)"
    and "fd_type f = Some (wireType t j)" and "is_unsigned f = u" and "fd_extendedFormat f = None"
  shows "reads (readCode R cfg opts f) (le_bytes n (nat (k mod 2 ^ (8 * n)))) (column_value cfg opts n k)"
proof -
  consider "t = 1" "n = 1" | "t \<in> {2, 13}" "n = 2" | "t \<in> {3, 9}" "n = 4" | "t = 8" "n = 8"
    using integer_types [OF assms(1)] by blast
  then show ?thesis
  proof cases
    case 1
    then have n8: "n < 8" by simp
    have ty: "fd_type f = Some 1" using assms(5) 1(1) by (simp only: wire_types)
    show ?thesis
      unfolding readCode_def column_value_def using is_integer_type [OF ty] assms(6,7) n8
      by (cases u) (simp_all add: Let_def column_readers(1,2) [OF k _ 1(2)] del: le_bytes.simps)
  next
    case 2
    then have n8: "n < 8" by simp
    have ty: "fd_type f = Some 2" using assms(5) 2(1) by (auto simp only: wire_types insert_iff empty_iff)
    show ?thesis
      unfolding readCode_def column_value_def using is_integer_type [OF ty] assms(6,7) n8
      by (cases u) (simp_all add: Let_def column_readers(3,4) [OF k _ 2(2)] del: le_bytes.simps)
  next
    case 3
    then have n8: "n < 8" by simp
    have ty: "fd_type f = Some 3" using assms(5) 3(1) by (auto simp only: wire_types insert_iff empty_iff)
    show ?thesis
      unfolding readCode_def column_value_def using is_integer_type [OF ty] assms(6,7) n8
      by (cases u) (simp_all add: Let_def column_readers(5,6) [OF k _ 3(2)] del: le_bytes.simps)
  next
    case 4
    have ty: "fd_type f = Some 8" using assms(5) 4(1) by (simp only: wire_types)
    show ?thesis
      using long_column_value [OF k [unfolded 4(2)] assms(4) ty assms(6,7), of cfg opts] 4(2)
      by (simp del: le_bytes.simps)
  qed
qed

text \<open>
  Claim C34. Integer parameters are exact: a value that does not fit its type is refused with a
  \<open>RangeError\<close>; any other is sent in the promised number of bytes under its wire type, and a column of
  that type gives it back under every configuration as \<open>column_value\<close> says: the same number for the
  types of up to four bytes; for BIGINT the nearest double without \<open>supportBigNumbers\<close>, its text with
  \<open>bigNumberStrings\<close> too, and otherwise the number while it is safe and its text where a number could
  not hold it.
\<close>

theorem integer_parameter_exact:
  assumes "INTEGER_BYTES t = Some n" and "toInteger v = Inr k" and "long_ok (rt_long R)"
    and "fd_type f = Some (wireType t j)" and "is_unsigned f = u" and "fd_extendedFormat f = None"
  shows "case encodeTypedParameter A \<lparr>tp_type = t, tp_value = v, tp_unsigned = u\<rparr> enc tz j of
      Inl e \<Rightarrow> e = RangeError \<and> (k < int_min u n \<or> int_max u n < k)
    | Inr e \<Rightarrow> int_min u n \<le> k \<and> k \<le> int_max u n \<and> enc_type e = wireType t j \<and> enc_unsigned e = u \<and>
        (\<exists>bs. length bs = enc_length e \<and> emits False (enc_writer e) bs \<and>
           reads (readCode R cfg opts f) bs (column_value cfg opts n k))"
proof (cases "k < int_min u n \<or> int_max u n < k")
  case True
  have "v \<noteq> ArgNull" using assms(2) by (auto simp: toInteger_def)
  moreover have "t \<noteq> type_code ''NULL''" using assms(1) by (auto simp: demo_codes dest: integer_types)
  ultimately show ?thesis
    using True assms(1,2)
    by (simp add: encodeTypedParameter_def encoderFor_def integerEncoder_def checkedInteger_def)
next
  case False
  let ?bs = "le_bytes n (nat (k mod 2 ^ (8 * n)))"
  have "v \<noteq> ArgNull" using assms(2) by (auto simp: toInteger_def)
  moreover have "t \<noteq> type_code ''NULL''" using assms(1) by (auto simp: demo_codes dest: integer_types)
  moreover have "k mod 2 ^ (8 * n) < 256 ^ n"
    by (simp add: power_mult)
  then have "emits False (writeUIntLE (k mod 2 ^ (8 * n)) n) ?bs"
    using emits_uint [of "k mod 2 ^ (8 * n)" n False] by (simp add: writeUIntLE_eq)
  moreover have "reads (readCode R cfg opts f) ?bs (column_value cfg opts n k)"
    using False assms by (intro reads_integer_column) auto
  ultimately show ?thesis
    using False assms(1,2)
    by (auto simp: encodeTypedParameter_def encoderFor_def integerEncoder_def checkedInteger_def intro!: exI [of _ ?bs])
qed

theorem integer_parameter_exact_witness:
  "\<exists>e bs. encodeTypedParameter demo_lib \<lparr>tp_type = 13, tp_value = ArgText (js '' -2 ''), tp_unsigned = False\<rparr> None None False = Inr e \<and>
     enc_type e = 2 \<and> emits False (enc_writer e) bs \<and>
     reads (readCode demo_runtime (demo_options NestFalse) (demo_options NestFalse) (demo_field ''y'' 2)) bs (JNum (Num (- 2)))"
proof -
  have t: "INTEGER_BYTES 13 = Some 2"
    by (simp add: INTEGER_BYTES_def type_code_def code_of_def Types_def)
  have v: "toInteger (ArgText (js '' -2 '')) = Inr (- 2)"
    by (simp add: toInteger_def js_trim_def js_space_def js_BigInt_def in_radix_def digit_value_def js_def Let_def)
  have lib: "long_ok (rt_long demo_runtime)"
    by (simp add: demo_runtime_def long_impl_ok)
  have f: "fd_type (demo_field ''y'' 2) = Some (wireType 13 False)" "is_unsigned (demo_field ''y'' 2) = False"
    "fd_extendedFormat (demo_field ''y'' 2) = None"
    by (simp_all add: demo_field_def wire_types is_unsigned_def isSet_def)
  show ?thesis
    using integer_parameter_exact [OF t v lib f, where A = demo_lib and enc = None and tz = None and cfg = "demo_options NestFalse" and opts = "demo_options NestFalse"]
    by (auto simp: int_min_def int_max_def column_value_def wire_types split: sum.splits)
qed

section \<open>Hints\<close>

text \<open>A hint of the server changes the type of a value, never the value.\<close>

lemma integerHint_value:
  "integerHint v ty u = Some t \<Longrightarrow>
   toInteger v = toInteger (tp_value t) \<and> tp_unsigned t = u \<and> ty = Some (tp_type t) \<and>
   (\<exists>n. INTEGER_BYTES (tp_type t) = Some n \<and> checkedInteger (tp_value t) n u = toInteger v)"
  by (auto simp: integerHint_def toInteger_def checkedInteger_def split: option.splits js_arg.splits js_num.splits if_splits)

text \<open>
  A NaN for a \<open>TIME\<close> is sent as the time zero, and a fraction that rounds up to a second is sent as a
  million microseconds instead of being carried.
\<close>

lemma time_of_nan:
  assumes "\<And>k. ml_rem M NaN k = NaN" "\<And>k. ml_times M NaN k = NaN" "\<And>k. ml_quot M NaN k = NaN"
    and "ml_abs M NaN = NaN" "ml_round M NaN = NaN" "ml_floor M NaN = NaN" and "al_math A = M"
  shows "\<exists>parts. toTimeParts A (ArgNumber NaN) = Inr parts \<and> time_zero parts"
  using assms by (simp add: toTimeParts_def Let_def time_part_def time_zero_def)

lemma time_not_carried:
  assumes "ml_round M (ml_times M (ml_rem M (ml_abs M x) 1000) 1000) = Num 1000000" and "al_math A = M"
  shows "\<exists>parts. toTimeParts A (ArgNumber x) = Inr parts \<and> microseconds parts = 1000000"
  using assms by (simp add: toTimeParts_def Let_def time_part_def)

section \<open>The server side of execute\<close>

text \<open>
  \<open>Execute.fromPacket\<close> guesses where the types start: the first byte 1 that is followed by a type it
  knows and a zero; then every such pair up to the end of the packet counts as a type.
\<close>

definition execute_type_codes :: "nat list" where
  "execute_type_codes =
     map type_code [''VAR_STRING'', ''BLOB'', ''NULL'', ''DOUBLE'', ''TINY'', ''DATETIME'', ''JSON'']"

definition type_at :: "bytes \<Rightarrow> nat \<Rightarrow> bool" where
  "type_at b i \<longleftrightarrow> (\<exists>t \<in> set execute_type_codes. byte_at b i = Some t) \<and> byte_at b (i + 1) = Some 0"

fun find_types :: "bytes \<Rightarrow> nat \<Rightarrow> nat \<Rightarrow> nat" where
  "find_types b i 0 = i"
| "find_types b i (Suc left) =
     (if type_at b (i + 1) \<and> byte_at b i = Some 1 then i else find_types b (i + 1) left)"

definition execute_param_types :: "bytes \<Rightarrow> nat \<Rightarrow> nat \<Rightarrow> nat list" where
  "execute_param_types b i j = map (\<lambda>k. unat (b ! k)) (filter (type_at b) [i..<j])"

definition execute_value :: "('f, 'j) runtime \<Rightarrow> string option \<Rightarrow> nat \<Rightarrow> ('f, 'j) js_value rd" where
  "execute_value R enc t =
     (if t = type_code ''VAR_STRING'' then rt_string R enc
      else if t = type_code ''BLOB'' then rt_buffer R
      else if t = type_code ''DOUBLE'' then rmap JNum (readDouble (rt_num R))
      else if t = type_code ''TINY'' then rmap byte_value readInt8
      else if t = type_code ''DATETIME'' then readDateTime (rt_date R) None
      else if t = type_code ''JSON'' then
        rbind (rt_string R enc) (\<lambda>v p.
          case v of
            JText s \<Rightarrow> (case jl_parse (rt_json R) s of Inl e \<Rightarrow> Inl e | Inr j \<Rightarrow> Inr (JJson j, p))
          | _ \<Rightarrow> Inr (v, p))
      else rret JNull)"

fun execute_values :: "('f, 'j) runtime \<Rightarrow> string option \<Rightarrow> nat list \<Rightarrow> ('f, 'j) js_value list rd" where
  "execute_values R enc [] = rret []"
| "execute_values R enc (t # ts) =
     rbind (execute_value R enc t) (\<lambda>v. rbind (execute_values R enc ts) (\<lambda>vs. rret (v # vs)))"

record ('f, 'j) executed =
  xd_stmtId :: nat
  xd_flags :: "nat option"
  xd_iterationCount :: nat
  xd_values :: "('f, 'j) js_value list"

definition Execute_fromPacket :: "('f, 'j) runtime \<Rightarrow> string option \<Rightarrow> ('f, 'j) executed rd" where
  "Execute_fromPacket R enc =
     rbind readInt32 (\<lambda>stmt. rbind readInt8 (\<lambda>flags. rbind readInt32 (\<lambda>count p.
       let i = find_types (buffer p) (offset p) (end_pos p - 1 - offset p);
           types = execute_param_types (buffer p) (i + 1) (end_pos p - 1) in
       rbind (execute_values R enc types)
         (\<lambda>vs. rret \<lparr>xd_stmtId = stmt, xd_flags = flags, xd_iterationCount = count, xd_values = vs\<rparr>)
         (p\<lparr>offset := i + 2 * length types + 1\<rparr>))))"

text \<open>
  A text with the bytes 1 and 0 in it looks like one more type, so the value is read as another
  parameter; without it the list is right.
\<close>

lemma execute_types_guessed:
  "execute_param_types [1, 253, 0, 2, 65, 66] 1 5 = [253]"
  "execute_param_types [1, 253, 0, 3, 1, 0, 66] 1 6 = [253, 1]"
  by (simp_all add: execute_param_types_def type_at_def byte_at_def execute_type_codes_def type_code_def code_of_def
      Types_def upt_rec)

end
